(* ===== verification/Smcp_Prelude.thy ===== *)
theory Smcp_Prelude
  imports Main "HOL-Library.Word" "HOL-Library.Monad_Syntax"
begin

text \<open>
  Shared vocabulary of the development: the fixed-width integers of the C sources, byte arrays
  with checked access, and the generic lemmas on lists and words that the component theories
  use.

  An allocation of the C program is a list of its bytes. A read or a write outside of the
  allocation is undefined behaviour in C; in the model such an access makes the whole operation
  return \<^const>\<open>None\<close>, so a theorem of the form \<open>f \<dots> = Some r\<close> states memory safety along with
  the result.
\<close>

unbundle bit_operations_syntax

section \<open>Integers of the C sources\<close>

type_synonym u8 = "8 word"    \<comment> \<open>\<^verbatim>\<open>uint8_t\<close>\<close>
type_synonym u16 = "16 word"  \<comment> \<open>\<^verbatim>\<open>uint16_t\<close>, \<^verbatim>\<open>coap_size_t\<close>, \<^verbatim>\<open>coap_msg_id_t\<close>, \<^verbatim>\<open>coap_code_t\<close>\<close>
type_synonym u32 = "32 word"  \<comment> \<open>\<^verbatim>\<open>uint32_t\<close>, and the enumeration \<^verbatim>\<open>coap_option_key_t\<close>\<close>

declare Option.bind_cong [fundef_cong]

named_theorems mem_simps \<open>checked access to a byte array\<close>
named_theorems byte_simps \<open>splitting and joining the bytes of a machine word\<close>

section \<open>Checked access to an array\<close>

definition mem_read :: "'a list \<Rightarrow> nat \<Rightarrow> 'a option" where
  "mem_read mem p = (if p < length mem then Some (mem ! p) else None)"

definition mem_write :: "'a list \<Rightarrow> nat \<Rightarrow> 'a \<Rightarrow> 'a list option" where
  "mem_write mem p b = (if p < length mem then Some (mem[p := b]) else None)"

text \<open>\<^verbatim>\<open>memcpy\<close> and \<^verbatim>\<open>memmove\<close>: read \<open>n\<close> bytes from \<open>p\<close>, write a run of bytes at \<open>p\<close>.\<close>

definition mem_read_n :: "'a list \<Rightarrow> nat \<Rightarrow> nat \<Rightarrow> 'a list option" where
  "mem_read_n mem p n = (if p + n \<le> length mem then Some (take n (drop p mem)) else None)"

definition mem_write_n :: "'a list \<Rightarrow> nat \<Rightarrow> 'a list \<Rightarrow> 'a list option" where
  "mem_write_n mem p bs =
     (if p + length bs \<le> length mem
      then Some (take p mem @ bs @ drop (p + length bs) mem) else None)"

lemma mem_read_append_left [mem_simps]: "p < length xs \<Longrightarrow> mem_read (xs @ ys) p = Some (xs ! p)"
  by (simp add: mem_read_def nth_append)

lemma mem_read_append_right [mem_simps]:
  "p < length ys \<Longrightarrow> mem_read (xs @ ys) (length xs + p) = Some (ys ! p)"
  by (simp add: mem_read_def nth_append)

lemma mem_read_Some: "mem_read mem p = Some b \<longleftrightarrow> p < length mem \<and> b = mem ! p"
  by (auto simp: mem_read_def)

lemma mem_write_split [mem_simps]:
  "mem_write (xs @ y # ys) (length xs) b = Some (xs @ b # ys)"
  by (simp add: mem_write_def)

lemma mem_read_n_split [mem_simps]:
  "p = length xs \<Longrightarrow> n = length ys \<Longrightarrow> mem_read_n (xs @ ys @ zs) p n = Some ys"
  by (simp add: mem_read_n_def)

lemma mem_write_n_split [mem_simps]:
  "p = length xs \<Longrightarrow> length ys = length bs \<Longrightarrow>
   mem_write_n (xs @ ys @ zs) p bs = Some (xs @ bs @ zs)"
  by (simp add: mem_write_n_def)

lemma mem_write_n_length: "mem_write_n mem p bs = Some mem' \<Longrightarrow> length mem' = length mem"
  by (auto simp: mem_write_n_def split: if_splits)

lemma mem_write_length: "mem_write mem p b = Some mem' \<Longrightarrow> length mem' = length mem"
  by (auto simp: mem_write_def split: if_splits)

text \<open>The run of elements \<open>xs\<close> lies at position \<open>p\<close>.\<close>

fun mem_holds :: "'a list \<Rightarrow> nat \<Rightarrow> 'a list \<Rightarrow> bool" where
  "mem_holds mem p [] \<longleftrightarrow> True"
| "mem_holds mem p (x # xs) \<longleftrightarrow> mem_read mem p = Some x \<and> mem_holds mem (p + 1) xs"

lemma mem_holds_append:
  "mem_holds mem p (xs @ ys) \<longleftrightarrow> mem_holds mem p xs \<and> mem_holds mem (p + length xs) ys"
  by (induction xs arbitrary: p) auto

lemma mem_holds_self: "mem_holds (as @ xs @ bs) (length as) xs"
proof (induction xs arbitrary: as)
  case (Cons x xs)
  from Cons [of "as @ [x]"] show ?case by (simp add: mem_read_def)
qed simp

lemma mem_holds_write:
  "d < p \<or> p + length xs \<le> d \<Longrightarrow> mem_holds (mem[d := c]) p xs \<longleftrightarrow> mem_holds mem p xs"
  by (induction xs arbitrary: p) (auto simp: mem_read_def)

lemma mem_holds_write_n:
  "mem_write_n mem d cs = Some mem' \<Longrightarrow> d + length cs \<le> p \<or> p + length xs \<le> d \<Longrightarrow>
   mem_holds mem' p xs \<longleftrightarrow> mem_holds mem p xs"
  by (induction xs arbitrary: p)
     (auto simp: mem_read_def mem_write_n_def nth_append min_def split: if_splits)

text \<open>Writing the next element of a run that grows from \<open>d\<close> on.\<close>

lemma write_run:
  assumes "d < length mem"
  shows "take (Suc d) (mem[d := c]) @ cs @ drop (Suc d + length cs) (mem[d := c]) =
         take d mem @ (c # cs) @ drop (d + length (c # cs)) mem"
  using assms by (simp add: take_Suc_conv_app_nth)

section \<open>Words\<close>

text \<open>The two nibbles of a byte put together by \<^verbatim>\<open>(hi << 4) | lo\<close> and taken apart again.\<close>

lemma take_bit_4_u8: "(x :: u8) < 16 \<Longrightarrow> take_bit 4 x = x"
  by (simp add: word_unat_eq_iff unsigned_take_bit_eq take_bit_nat_eq_self_iff word_less_nat_alt)

lemma nibble_high [byte_simps]:
  fixes d l :: u8
  assumes "d < 16" "l < 16"
  shows "drop_bit 4 (push_bit 4 d OR l) = d"
proof -
  have d: "take_bit 4 d = d" using assms(1)
    by (rule take_bit_4_u8)
  have l: "take_bit 4 l = l" using assms(2)
    by (rule take_bit_4_u8)
  show ?thesis
    by (rule bit_word_eqI, subst d [symmetric], subst l [symmetric]) (auto simp: bit_simps)
qed

lemma nibble_low [byte_simps]:
  fixes d l :: u8
  assumes "l < 16"
  shows "(push_bit 4 d OR l) AND 15 = l"
proof -
  have l: "take_bit 4 l = l" using assms
    by (rule take_bit_4_u8)
  have m: "(15 :: u8) = mask 4" by (simp add: mask_eq_exp_minus_1)
  show ?thesis unfolding m
    by (rule bit_word_eqI, subst l [symmetric]) (auto simp: bit_simps)
qed

lemma drop_bit_4_u8_less: "drop_bit 4 (b :: u8) < 16"
proof -
  have "unat b < 256" using unsigned_less [of b] by simp
  then show ?thesis by (simp add: word_less_nat_alt drop_bit_eq_div unat_div)
qed

lemma and_15_u8_less: "(b :: u8) AND 15 < 16"
proof -
  have "b AND 15 \<le> 15" by (rule word_and_le1)
  then show ?thesis by (rule order.strict_trans1) simp
qed

lemma unat_u8_less: "unat (x :: u8) < 256"
  using unsigned_less [of x, where ?'a = nat] by simp

lemma unat_u16_less: "unat (x :: u16) < 65536"
  using unsigned_less [of x, where ?'a = nat] by simp

end
