(* ===== verification/Ll.thy ===== *)
theory Ll
  imports Smcp_Prelude
begin

text \<open>
  The intrusive doubly linked lists of \<^verbatim>\<open>src/smcp/ll.h\<close>. Items are addresses; the heap holds the
  two pointer fields of every item, and \<^const>\<open>None\<close> is the null pointer. A loop over the pointers
  of a list may run forever on a damaged heap, so the loops are partial functions; the lemmas show
  that they end on every heap that holds a list, and that each operation on the heap is the
  operation on lists of its name.
\<close>

section \<open>Items\<close>

type_synonym addr = nat

record ll_heap =
  ll_next :: "addr \<Rightarrow> addr option"
  ll_prev :: "addr \<Rightarrow> addr option"

definition set_next :: "addr \<Rightarrow> addr option \<Rightarrow> ll_heap \<Rightarrow> ll_heap" where
  "set_next x v h = h\<lparr>ll_next := (ll_next h)(x := v)\<rparr>"

definition set_prev :: "addr \<Rightarrow> addr option \<Rightarrow> ll_heap \<Rightarrow> ll_heap" where
  "set_prev x v h = h\<lparr>ll_prev := (ll_prev h)(x := v)\<rparr>"

lemma set_next_sel [simp]:
  "ll_next (set_next x v h) = (ll_next h)(x := v)" "ll_prev (set_next x v h) = ll_prev h"
  by (simp_all add: set_next_def)

lemma set_prev_sel [simp]:
  "ll_prev (set_prev x v h) = (ll_prev h)(x := v)" "ll_next (set_prev x v h) = ll_next h"
  by (simp_all add: set_prev_def)

section \<open>Operations\<close>

partial_function (option) ll_last_loop :: "ll_heap \<Rightarrow> addr \<Rightarrow> addr option" where
  "ll_last_loop h iter =
     (case ll_next h iter of None \<Rightarrow> Some iter | Some n \<Rightarrow> ll_last_loop h n)"

text \<open>\<^verbatim>\<open>ll_last\<close> of the null pointer is the null pointer.\<close>

definition ll_last :: "ll_heap \<Rightarrow> addr option \<Rightarrow> addr option option" where
  "ll_last h item =
     (case item of None \<Rightarrow> Some None | Some i \<Rightarrow> map_option Some (ll_last_loop h i))"

text \<open>The three loops of \<^verbatim>\<open>ll_verify\<close>: to the front, forwards counting up, backwards counting down.\<close>

partial_function (option) ll_front_loop :: "ll_heap \<Rightarrow> addr \<Rightarrow> addr option" where
  "ll_front_loop h i = (case ll_prev h i of None \<Rightarrow> Some i | Some p \<Rightarrow> ll_front_loop h p)"

partial_function (option) ll_up_loop :: "ll_heap \<Rightarrow> addr \<Rightarrow> int \<Rightarrow> (addr \<times> int) option" where
  "ll_up_loop h i ret =
     (case ll_next h i of None \<Rightarrow> Some (i, ret) | Some n \<Rightarrow> ll_up_loop h n (ret + 1))"

partial_function (option) ll_down_loop :: "ll_heap \<Rightarrow> addr \<Rightarrow> int \<Rightarrow> (addr \<times> int) option" where
  "ll_down_loop h i ret =
     (case ll_prev h i of None \<Rightarrow> Some (i, ret) | Some p \<Rightarrow> ll_down_loop h p (ret - 1))"

definition ll_verify :: "ll_heap \<Rightarrow> addr option \<Rightarrow> bool option" where
  "ll_verify h item =
     (case item of
        None \<Rightarrow> Some True
      | Some i \<Rightarrow> do {
          i \<leftarrow> ll_front_loop h i;
          (i, ret) \<leftarrow> ll_up_loop h i 0;
          (i, ret) \<leftarrow> ll_down_loop h i ret;
          Some (ret = 0)
        })"

definition ll_insert_after :: "addr \<Rightarrow> addr \<Rightarrow> ll_heap \<Rightarrow> ll_heap" where
  "ll_insert_after location item h =
     (let h = set_prev item (Some location) h;
          h = set_next item (ll_next h location) h;
          h = (case ll_next h item of None \<Rightarrow> h | Some n \<Rightarrow> set_prev n (Some item) h)
      in set_next location (Some item) h)"

definition ll_insert :: "addr \<Rightarrow> addr \<Rightarrow> ll_heap \<Rightarrow> ll_heap" where
  "ll_insert location item h =
     (let h = set_next item (Some location) h;
          h = set_prev item (ll_prev h location) h;
          h = set_prev location (Some item) h
      in case ll_prev h item of None \<Rightarrow> h | Some p \<Rightarrow> set_next p (Some item) h)"

definition ll_prepend :: "addr option \<Rightarrow> addr \<Rightarrow> ll_heap \<Rightarrow> addr option \<times> ll_heap" where
  "ll_prepend list item h =
     (Some item, case list of None \<Rightarrow> h | Some l \<Rightarrow> ll_insert l item h)"

text \<open>
  \<^verbatim>\<open>ll_sorted_insert\<close>: the loop walks on while the new item is not smaller; it ends at the last
  item, or in front of the first item that is greater.
\<close>

datatype ll_place = After addr | Before addr

partial_function (option) ll_sorted_loop :: "(addr \<Rightarrow> addr \<Rightarrow> int) \<Rightarrow> addr \<Rightarrow> ll_heap \<Rightarrow> addr \<Rightarrow> ll_place option" where
  "ll_sorted_loop compare item h location =
     (if compare item location \<ge> 0
      then (case ll_next h location of
              Some n \<Rightarrow> ll_sorted_loop compare item h n
            | None \<Rightarrow> Some (After location))
      else Some (Before location))"

definition ll_sorted_insert ::
    "(addr \<Rightarrow> addr \<Rightarrow> int) \<Rightarrow> addr option \<Rightarrow> addr \<Rightarrow> ll_heap \<Rightarrow> (addr option \<times> ll_heap) option" where
  "ll_sorted_insert compare list item h =
     (case list of
        None \<Rightarrow> Some (Some item, h)
      | Some location \<Rightarrow> do {
          place \<leftarrow> ll_sorted_loop compare item h location;
          case place of
            After l \<Rightarrow> Some (list, ll_insert_after l item h)
          | Before l \<Rightarrow> if Some l = list then Some (ll_prepend list item h)
                        else Some (list, ll_insert l item h)
        })"

definition ll_remove :: "addr option \<Rightarrow> addr \<Rightarrow> ll_heap \<Rightarrow> addr option \<times> ll_heap" where
  "ll_remove list item h =
     (let h = (case ll_prev h item of None \<Rightarrow> h | Some p \<Rightarrow> set_next p (ll_next h item) h);
          h = (case ll_next h item of None \<Rightarrow> h | Some n \<Rightarrow> set_prev n (ll_prev h item) h)
      in (if list = Some item then ll_next h item else list, h))"

text \<open>\<^verbatim>\<open>ll_pop\<close> of an empty list dereferences the null pointer.\<close>

definition ll_pop :: "addr option \<Rightarrow> ll_heap \<Rightarrow> (addr \<times> addr option \<times> ll_heap) option" where
  "ll_pop list h =
     (case list of None \<Rightarrow> None | Some item \<Rightarrow> Some (item, ll_remove list item h))"

definition ll_push :: "addr option \<Rightarrow> addr \<Rightarrow> ll_heap \<Rightarrow> (addr option \<times> ll_heap) option" where
  "ll_push list item h =
     (case list of
        None \<Rightarrow> Some (Some item, h)
      | Some l \<Rightarrow> do {
          l' \<leftarrow> ll_last_loop h l;
          Some (list, ll_insert_after l' item h)
        })"

partial_function (option) ll_count_loop :: "ll_heap \<Rightarrow> addr option \<Rightarrow> int \<Rightarrow> int option" where
  "ll_count_loop h item ret =
     (case item of None \<Rightarrow> Some ret | Some i \<Rightarrow> ll_count_loop h (ll_next h i) (ret + 1))"

definition ll_count :: "ll_heap \<Rightarrow> addr option \<Rightarrow> int option" where
  "ll_count h item = ll_count_loop h item 0"

section \<open>Lists on the heap\<close>

text \<open>
  The segment \<open>xs\<close> from \<open>first\<close>, behind the item \<open>p\<close> and before \<open>n\<close>; \<open>l\<close> is its last item, or
  \<open>p\<close> when it is empty.
\<close>

fun segment :: "ll_heap \<Rightarrow> addr option \<Rightarrow> addr option \<Rightarrow> addr list \<Rightarrow> addr option \<Rightarrow> addr option \<Rightarrow> bool" where
  "segment h p first [] l n \<longleftrightarrow> first = n \<and> l = p"
| "segment h p first (x # xs) l n \<longleftrightarrow>
     first = Some x \<and> ll_prev h x = p \<and> segment h (Some x) (ll_next h x) xs l n"

definition is_list :: "ll_heap \<Rightarrow> addr option \<Rightarrow> addr list \<Rightarrow> bool" where
  "is_list h list xs \<longleftrightarrow> distinct xs \<and> (\<exists>l. segment h None list xs l None)"

lemma segment_append [simp]:
  "segment h p first (xs @ ys) l n \<longleftrightarrow> (\<exists>m k. segment h p first xs k m \<and> segment h k m ys l n)"
  by (induction xs arbitrary: p first) auto

lemma segment_frame [simp]:
  "x \<notin> set xs \<Longrightarrow> segment (set_next x v h) p first xs l n = segment h p first xs l n"
  "x \<notin> set xs \<Longrightarrow> segment (set_prev x v h) p first xs l n = segment h p first xs l n"
  by (induction xs arbitrary: p first) auto

lemma segment_last: "segment h p first xs l n \<Longrightarrow> l = (if xs = [] then p else Some (last xs))"
  by (induction xs arbitrary: p first) auto

lemma segment_first: "segment h p first xs l n \<Longrightarrow> first = (if xs = [] then n else Some (hd xs))"
  by (cases xs) auto

lemma is_list_head: "is_list h list xs \<Longrightarrow> list = (if xs = [] then None else Some (hd xs))"
  by (auto simp: is_list_def dest: segment_first)

text \<open>The two pointers of an item of a list are its neighbours.\<close>

lemma is_list_neighbours:
  assumes "is_list h list (xs @ x # ys)"
  shows "ll_prev h x = (if xs = [] then None else Some (last xs))"
    and "ll_next h x = (if ys = [] then None else Some (hd ys))"
proof -
  obtain k l where "segment h None list xs k (Some x)" "ll_prev h x = k"
      "segment h (Some x) (ll_next h x) ys l None"
    using assms by (auto simp: is_list_def)
  then show "ll_prev h x = (if xs = [] then None else Some (last xs))"
    and "ll_next h x = (if ys = [] then None else Some (hd ys))"
    using segment_last segment_first by blast+
qed

text \<open>Two heaps that agree on the items of a list hold the same list.\<close>

lemma segment_cong:
  "\<forall>x \<in> set xs. ll_next h x = ll_next h' x \<and> ll_prev h x = ll_prev h' x \<Longrightarrow>
   segment h p first xs l n = segment h' p first xs l n"
  by (induction xs arbitrary: p first) auto

section \<open>The operations on lists\<close>

lemma ll_insert_list:
  assumes "is_list h list (xs @ x # ys)" "item \<notin> set (xs @ x # ys)"
  shows "is_list (ll_insert x item h) (if xs = [] then Some item else list) (xs @ item # x # ys)"
proof (cases xs rule: rev_cases)
  case Nil
  with assms show ?thesis by (auto simp: is_list_def ll_insert_def Let_def)
next
  case (snoc zs p)
  with assms show ?thesis by (auto simp: is_list_def ll_insert_def Let_def)
qed

lemma ll_insert_after_list:
  assumes "is_list h list (xs @ x # ys)" "item \<notin> set (xs @ x # ys)"
  shows "is_list (ll_insert_after x item h) list (xs @ x # item # ys)"
proof (cases ys)
  case Nil
  with assms show ?thesis by (auto simp: is_list_def ll_insert_after_def Let_def)
next
  case (Cons y zs)
  with assms show ?thesis by (auto simp: is_list_def ll_insert_after_def Let_def)
qed

text \<open>Insertion changes the pointers of the new item and of items of the list only.\<close>

lemma ll_insert_frame:
  assumes "is_list h list xs" "x \<in> set xs" "y \<notin> set xs" "y \<noteq> item"
  shows "ll_next (ll_insert x item h) y = ll_next h y \<and> ll_prev (ll_insert x item h) y = ll_prev h y"
    and "ll_next (ll_insert_after x item h) y = ll_next h y \<and> ll_prev (ll_insert_after x item h) y = ll_prev h y"
proof -
  obtain us vs where xs: "xs = us @ x # vs" using assms(2) by (meson split_list)
  note nb = is_list_neighbours [OF assms(1) [unfolded xs]]
  have "us \<noteq> [] \<Longrightarrow> last us \<noteq> y" "vs \<noteq> [] \<Longrightarrow> hd vs \<noteq> y" "x \<noteq> y" using assms(3) by (auto simp: xs)
  then show "ll_next (ll_insert x item h) y = ll_next h y \<and> ll_prev (ll_insert x item h) y = ll_prev h y"
    and "ll_next (ll_insert_after x item h) y = ll_next h y \<and> ll_prev (ll_insert_after x item h) y = ll_prev h y"
    using nb assms(4) by (auto simp: ll_insert_def ll_insert_after_def Let_def split: option.splits if_splits)
qed

lemma ll_prepend_list:
  assumes "is_list h list xs" "item \<notin> set xs" "ll_next h item = None" "ll_prev h item = None"
  shows "is_list (snd (ll_prepend list item h)) (fst (ll_prepend list item h)) (item # xs)"
proof (cases xs)
  case Nil
  with assms show ?thesis by (auto simp: is_list_def ll_prepend_def)
next
  case (Cons x ys)
  with assms ll_insert_list [of h list "[]" x ys item] show ?thesis
    by (auto simp: ll_prepend_def dest: is_list_head)
qed

lemma ll_remove_list:
  assumes "is_list h list (xs @ x # ys)" "ll_remove list x h = (list', h')"
  shows "is_list h' list' (xs @ ys)"
proof (cases xs rule: rev_cases)
  case Nil
  with assms show ?thesis by (cases ys) (auto simp: is_list_def ll_remove_def Let_def)
next
  case (snoc zs p)
  with assms show ?thesis by (cases ys; cases zs) (auto simp: is_list_def ll_remove_def Let_def)
qed

text \<open>Removal touches the neighbours only; the pointers of the removed item itself stay.\<close>

lemma ll_remove_frame:
  assumes "is_list h list xs" "ll_remove list x h = (list', h')" "x \<in> set xs" "y \<notin> set xs"
  shows "ll_next h' y = ll_next h y" "ll_prev h' y = ll_prev h y"
proof -
  obtain us vs where xs: "xs = us @ x # vs" using assms(3) by (meson split_list)
  note nb = is_list_neighbours [OF assms(1) [unfolded xs]]
  have "us \<noteq> [] \<Longrightarrow> last us \<noteq> y" "vs \<noteq> [] \<Longrightarrow> hd vs \<noteq> y" using assms(4) by (auto simp: xs)
  then show "ll_next h' y = ll_next h y" "ll_prev h' y = ll_prev h y"
    using assms(2) nb by (auto simp: ll_remove_def Let_def split: if_splits)
qed

lemma ll_last_loop_list:
  "segment h p (Some x) (x # xs) l None \<Longrightarrow> ll_last_loop h x = Some (last (x # xs))"
  by (induction xs arbitrary: p x) (auto simp: ll_last_loop.simps [of h] dest: segment_first)

lemma ll_count_list: "segment h p list xs l None \<Longrightarrow> ll_count_loop h list n = Some (n + int (length xs))"
  by (induction xs arbitrary: p list n) (auto simp: ll_count_loop.simps [of h])

lemma ll_push_list:
  assumes "is_list h list xs" "item \<notin> set xs" "ll_next h item = None" "ll_prev h item = None"
  shows "\<exists>list' h'. ll_push list item h = Some (list', h') \<and> is_list h' list' (xs @ [item])"
proof (cases xs)
  case Nil
  with assms show ?thesis by (auto simp: is_list_def ll_push_def)
next
  case (Cons x ys)
  then have head: "list = Some x" using is_list_head [OF assms(1)] by simp
  have "ll_last_loop h x = Some (last xs)"
    using assms(1) ll_last_loop_list [of h None x ys] by (auto simp: is_list_def Cons)
  moreover obtain zs z where "xs = zs @ [z]" using Cons by (metis list.discI rev_exhaust)
  then have "is_list (ll_insert_after (last xs) item h) list (xs @ [item])"
    using assms(1,2) ll_insert_after_list [of h list zs z "[]" item] by simp
  ultimately show ?thesis by (simp add: ll_push_def head)
qed

section \<open>Sorted insertion\<close>

definition insert_place :: "(addr \<Rightarrow> addr \<Rightarrow> int) \<Rightarrow> addr \<Rightarrow> addr list \<Rightarrow> addr list" where
  "insert_place compare item xs =
     takeWhile (\<lambda>y. compare item y \<ge> 0) xs @ item # dropWhile (\<lambda>y. compare item y \<ge> 0) xs"

lemma set_insert_place: "set (insert_place compare item xs) = insert item (set xs)"
proof -
  have "set xs = set (takeWhile (\<lambda>y. compare item y \<ge> 0) xs) \<union> set (dropWhile (\<lambda>y. compare item y \<ge> 0) xs)"
    by (metis set_append takeWhile_dropWhile_id)
  then show ?thesis by (simp add: insert_place_def)
qed

lemma ll_sorted_loop_list:
  assumes "segment h p (Some x) (x # xs) l None"
  shows "ll_sorted_loop compare item h x =
     Some (case dropWhile (\<lambda>y. compare item y \<ge> 0) (x # xs) of
             [] \<Rightarrow> After (last (x # xs)) | y # _ \<Rightarrow> Before y)"
  using assms
proof (induction xs arbitrary: p x)
  case Nil
  then show ?case by (simp add: ll_sorted_loop.simps [of _ _ _ x])
next
  case (Cons y ys)
  then have "segment h (Some x) (Some y) (y # ys) l None" "ll_next h x = Some y" by auto
  with Cons.IH [of "Some x" y] show ?case
    by (simp add: ll_sorted_loop.simps [of _ _ _ x] split: list.splits del: dropWhile_eq_Nil_conv)
qed

text \<open>\<^verbatim>\<open>ll_sorted_insert\<close> puts the item behind all items it is not smaller than.\<close>

lemma ll_sorted_insert_list:
  assumes "is_list h list xs" "item \<notin> set xs" "ll_next h item = None" "ll_prev h item = None"
  shows "\<exists>list' h'. ll_sorted_insert compare list item h = Some (list', h') \<and>
           is_list h' list' (insert_place compare item xs) \<and>
           (\<forall>y. y \<notin> set xs \<longrightarrow> y \<noteq> item \<longrightarrow> ll_next h' y = ll_next h y \<and> ll_prev h' y = ll_prev h y)"
proof (cases xs)
  case Nil
  with assms show ?thesis by (auto simp: is_list_def ll_sorted_insert_def insert_place_def)
next
  case (Cons x ys)
  let ?P = "\<lambda>y. compare item y \<ge> 0"
  have head: "list = Some x" "xs \<noteq> []" using is_list_head [OF assms(1)] Cons by simp_all
  have loop: "ll_sorted_loop compare item h x =
      Some (case dropWhile ?P xs of [] \<Rightarrow> After (last xs) | y # _ \<Rightarrow> Before y)"
  proof -
    obtain l where "segment h None (Some x) (x # ys) l None"
      using assms(1) head by (auto simp: is_list_def Cons)
    from ll_sorted_loop_list [OF this] show ?thesis unfolding Cons .
  qed
  show ?thesis
  proof (cases "dropWhile ?P xs")
    case Nil
    then have all: "takeWhile ?P xs = xs" by (metis append_Nil2 takeWhile_dropWhile_id)
    obtain zs z where z: "xs = zs @ [z]" using Cons by (metis list.discI rev_exhaust)
    then have "is_list (ll_insert_after (last xs) item h) list (xs @ [item])"
      using assms(1,2) ll_insert_after_list [of h list zs z "[]" item] by simp
    then show ?thesis
      using loop Nil ll_insert_frame(2) [OF assms(1) last_in_set] \<open>xs \<noteq> []\<close>
      by (simp add: ll_sorted_insert_def head insert_place_def all del: dropWhile_eq_Nil_conv)
  next
    case (Cons y vs)
    define us where "us = takeWhile ?P xs"
    have xs': "xs = us @ y # vs" by (metis Cons takeWhile_dropWhile_id us_def)
    have "is_list (ll_insert y item h) (if us = [] then Some item else list) (us @ item # y # vs)"
      using assms(1,2) xs' by (intro ll_insert_list) simp_all
    moreover have "us = [] \<longleftrightarrow> y = x"
      using xs' \<open>xs = x # ys\<close> assms(1) by (cases us) (auto simp: is_list_def)
    moreover have "y \<in> set xs" using xs' by simp
    ultimately show ?thesis
      using loop Cons ll_insert_frame(1) [OF assms(1), of y]
      by (auto simp: ll_sorted_insert_def head insert_place_def ll_prepend_def simp flip: us_def)
  qed
qed

text \<open>What a comparison function has to satisfy for the list to stay sorted.\<close>

locale ll_order =
  fixes compare :: "addr \<Rightarrow> addr \<Rightarrow> int"
  assumes compare_flip: "compare a b < 0 \<longleftrightarrow> 0 < compare b a"
    and compare_trans: "0 \<le> compare a b \<Longrightarrow> 0 \<le> compare b c \<Longrightarrow> 0 \<le> compare a c"
begin

definition ll_sorted :: "addr list \<Rightarrow> bool" where
  "ll_sorted = sorted_wrt (\<lambda>a b. 0 \<le> compare b a)"

lemma insert_place_sorted:
  assumes "ll_sorted xs"
  shows "ll_sorted (insert_place compare item xs)"
proof -
  define as bs where "as = takeWhile (\<lambda>y. compare item y \<ge> 0) xs"
    and "bs = dropWhile (\<lambda>y. compare item y \<ge> 0) xs"
  have "sorted_wrt (\<lambda>a b. 0 \<le> compare b a) (as @ bs)"
    using assms by (simp add: ll_sorted_def as_def bs_def)
  then have s: "sorted_wrt (\<lambda>a b. 0 \<le> compare b a) as" "sorted_wrt (\<lambda>a b. 0 \<le> compare b a) bs"
      "\<forall>x \<in> set as. \<forall>y \<in> set bs. 0 \<le> compare y x"
    by (simp_all add: sorted_wrt_append)
  have later: "\<forall>y \<in> set bs. 0 \<le> compare y item"
  proof (cases bs)
    case (Cons z zs)
    then have "\<not> compare item z \<ge> 0" unfolding bs_def by (metis hd_dropWhile list.discI list.sel(1))
    then have "0 \<le> compare z item" using compare_flip [of item z] by simp
    with s(2) Cons compare_trans show ?thesis by auto
  qed simp
  have "\<forall>x \<in> set as. 0 \<le> compare item x" by (auto simp: as_def dest: set_takeWhileD)
  with s later show ?thesis
    by (simp add: ll_sorted_def insert_place_def sorted_wrt_append flip: as_def bs_def)
qed

end

text \<open>\<^verbatim>\<open>ll_verify\<close> accepts every list, from its head.\<close>

lemma ll_up_loop_list:
  "segment h p (Some x) (x # xs) l None \<Longrightarrow>
   ll_up_loop h x n = Some (last (x # xs), n + int (length xs))"
  by (induction xs arbitrary: p x n) (auto simp: ll_up_loop.simps [of h] dest: segment_first)

lemma ll_down_loop_list:
  "segment h None list (xs @ [x]) l m \<Longrightarrow>
   ll_down_loop h x n = Some (hd (xs @ [x]), n - int (length xs))"
proof (induction xs arbitrary: x l m n rule: rev_induct)
  case Nil
  then show ?case by (auto simp: ll_down_loop.simps [of h])
next
  case (snoc y ys)
  then obtain k where "segment h None list (ys @ [y]) (Some y) k" "ll_prev h x = Some y"
    by (auto dest: segment_last)
  with snoc.IH [of y "Some y" k "n - 1"] show ?case
    by (simp add: ll_down_loop.simps [of h x] hd_append)
qed

lemma ll_verify_list:
  assumes "is_list h list xs"
  shows "ll_verify h list = Some True"
proof (cases xs)
  case Nil
  with assms show ?thesis by (auto simp: is_list_def ll_verify_def)
next
  case (Cons x ys)
  then obtain l where seg: "segment h None (Some x) (x # ys) l None" "list = Some x"
    using assms by (auto simp: is_list_def)
  obtain zs z where z: "x # ys = zs @ [z]" by (metis list.discI rev_exhaust)
  have "ll_front_loop h x = Some x" using seg by (simp add: ll_front_loop.simps [of h x])
  moreover have "ll_up_loop h x 0 = Some (z, int (length zs))"
    using ll_up_loop_list [OF seg(1), of 0] z by (metis add_0 last_snoc length_append_singleton length_Cons nat.inject)
  moreover have "ll_down_loop h z (int (length zs)) = Some (hd (zs @ [z]), 0)"
    using ll_down_loop_list [of h "Some x" zs z l None] seg(1) by (simp add: z)
  ultimately show ?thesis by (simp add: ll_verify_def seg(2))
qed

section \<open>Properties\<close>

text \<open>
  C29: The pointer operations are the list operations: on a heap that holds the list
  \<open>xs @ x # ys\<close>, inserting a new item before or after \<open>x\<close>, and removing \<open>x\<close>, leave a heap that
  holds the list with the item inserted or removed, with consistent pointers in both directions.
\<close>

theorem ll_operations_refine:
  assumes "is_list h list (xs @ x # ys)" "item \<notin> set (xs @ x # ys)"
  shows "is_list (ll_insert x item h) (if xs = [] then Some item else list) (xs @ item # x # ys) \<and>
         is_list (ll_insert_after x item h) list (xs @ x # item # ys) \<and>
         is_list (snd (ll_remove list x h)) (fst (ll_remove list x h)) (xs @ ys)"
  using ll_insert_list [OF assms] ll_insert_after_list [OF assms] ll_remove_list [OF assms(1)]
  by (simp add: prod_eq_iff)

text \<open>
  The loops over a list end: on every heap that holds a list \<^verbatim>\<open>ll_count\<close> returns its length,
  \<^verbatim>\<open>ll_last\<close> its last item, \<^verbatim>\<open>ll_verify\<close> true, and \<^verbatim>\<open>ll_push\<close> of an unlinked item returns a heap that
  holds the list with the item at its end.
\<close>

theorem ll_loops_end:
  assumes "is_list h list xs" "item \<notin> set xs" "ll_next h item = None" "ll_prev h item = None"
  shows "ll_count h list = Some (int (length xs)) \<and>
    ll_last h list = Some (if xs = [] then None else Some (last xs)) \<and> ll_verify h list = Some True \<and>
    (\<exists>list' h'. ll_push list item h = Some (list', h') \<and> is_list h' list' (xs @ [item]))"
proof -
  obtain l where seg: "segment h None list xs l None" using assms(1) by (auto simp: is_list_def)
  have "ll_last h list = Some (if xs = [] then None else Some (last xs))"
    using seg ll_last_loop_list [of h None _ "tl xs"] by (cases xs) (auto simp: ll_last_def)
  then show ?thesis
    using ll_count_list [OF seg, of 0] ll_verify_list [OF assms(1)] ll_push_list [OF assms]
    by (simp add: ll_count_def)
qed

text \<open>A heap without links, on which any single item is a list.\<close>

definition no_links :: ll_heap where "no_links = \<lparr>ll_next = \<lambda>_. None, ll_prev = \<lambda>_. None\<rparr>"

lemma ll_operations_refine_witness:
  "is_list (ll_insert 1 2 no_links) (Some 2) [2, 1] \<and> is_list (ll_insert_after 1 2 no_links) (Some 1) [1, 2] \<and>
   is_list (snd (ll_remove (Some 1) 1 no_links)) (fst (ll_remove (Some 1) 1 no_links)) []"
  using ll_operations_refine [of no_links "Some 1" "[]" 1 "[]" 2]
  by (simp add: no_links_def is_list_def)

lemma ll_loops_end_witness:
  "ll_count no_links (Some 1) = Some 1 \<and> ll_last no_links (Some 1) = Some (Some 1) \<and>
   ll_verify no_links (Some 1) = Some True \<and>
   (\<exists>list' h'. ll_push (Some 1) 2 no_links = Some (list', h') \<and> is_list h' list' [1, 2])"
  using ll_loops_end [of no_links "Some 1" "[1]" 2] by (simp add: no_links_def is_list_def)

end
