(* ===== verification/Coap_Option.thy ===== *)
theory Coap_Option
  imports Smcp_Prelude
begin

text \<open>
  The CoAP option codec of \<^verbatim>\<open>src/smcp/coap.c\<close>: decoding one option, encoding one option,
  inserting an option into the sorted option block of a packet under construction, the integer
  and block decoders, and the packet verifier.

  A packet buffer is the list of the bytes of its allocation and a pointer into it is an offset.
  The abstract side is a list of pairs of an option number and a value; \<open>encode_options\<close> lays
  such a list out as bytes, and the lemmas relate every operation to it.
\<close>

section \<open>Constants\<close>

definition COAP_OPTION_INVALID :: u32 where "COAP_OPTION_INVALID = 65535"

definition COAP_MAX_OPTION_VALUE_SIZE :: u16 where "COAP_MAX_OPTION_VALUE_SIZE = 1034"

definition COAP_MAX_MESSAGE_SIZE :: u16 where "COAP_MAX_MESSAGE_SIZE = 1280 - 40"

definition COAP_VERSION :: u8 where "COAP_VERSION = 1"

definition COAP_CODE_EMPTY :: u8 where "COAP_CODE_EMPTY = 0"

section \<open>Decoding\<close>

text \<open>
  What \<^verbatim>\<open>coap_decode_option\<close> gives back: the null pointer, with the key set to
  \<^const>\<open>COAP_OPTION_INVALID\<close>, the value to null and the length to 0; or the position behind the
  option with the key, the position of the value and the length. The key parameter may be a null
  pointer; then no key comes back and the bytes that extend the delta are not read.
\<close>

datatype coap_decode =
    Decode_End
  | Decode_At (dec_next: nat) (dec_key: "u32 option") (dec_value: nat) (dec_len: u16)

definition coap_decode_delta ::
    "u8 list \<Rightarrow> nat \<Rightarrow> u8 \<Rightarrow> u32 option \<Rightarrow> (u32 option \<times> nat) option" where
  "coap_decode_delta mem p delta key =
     (case key of
        None \<Rightarrow> Some (None, p + (if delta = 13 then 2 else if delta = 14 then 3 else 1))
      | Some k \<Rightarrow>
          if delta = 13 then do {
            x \<leftarrow> mem_read mem (p + 1);
            Some (Some (k + (13 + ucast x)), p + 2)
          }
          else if delta = 14 then do {
            lo \<leftarrow> mem_read mem (p + 2);
            hi \<leftarrow> mem_read mem (p + 1);
            Some (Some (k + (269 + ucast lo + push_bit 8 (ucast hi))), p + 3)
          }
          else Some (Some (k + ucast delta), p + 1))"

definition coap_decode_len :: "u8 list \<Rightarrow> nat \<Rightarrow> u8 \<Rightarrow> (u16 \<times> nat) option" where
  "coap_decode_len mem p len =
     (if len = 13 then do {
        x \<leftarrow> mem_read mem p;
        Some (13 + ucast x, p + 1)
      }
      else if len = 14 then do {
        lo \<leftarrow> mem_read mem (p + 1);
        hi \<leftarrow> mem_read mem p;
        Some (269 + ucast lo + push_bit 8 (ucast hi), p + 2)
      }
      else Some (ucast len, p))"

definition coap_decode_option :: "u8 list \<Rightarrow> nat \<Rightarrow> u32 option \<Rightarrow> coap_decode option" where
  "coap_decode_option mem p key = do {
     b \<leftarrow> mem_read mem p;
     let len = b AND 0x0F;
     let delta = drop_bit 4 b;
     if delta = 15 then Some Decode_End
     else do {
       (key, p) \<leftarrow> coap_decode_delta mem p delta key;
       if len = 15 then Some Decode_End
       else do {
         (len, p) \<leftarrow> coap_decode_len mem p len;
         Some (Decode_At (p + unat len) key p len)
       }
     }
   }"

text \<open>A decoded option always ends behind its start; the loops over options end because of it.\<close>

lemma coap_decode_option_progress:
  "coap_decode_option mem p key = Some (Decode_At q k v l) \<Longrightarrow> p < q"
  by (auto simp: coap_decode_option_def coap_decode_delta_def coap_decode_len_def Let_def
      split: option.splits Option.bind_splits if_splits)

section \<open>Encoding\<close>

text \<open>
  The value copied by \<^verbatim>\<open>coap_encode_option\<close> lies either outside of the packet buffer or inside
  of it; the second happens when \<^verbatim>\<open>coap_insert_option\<close> re-encodes the option that follows the
  insertion point.
\<close>

datatype value_src = Src_ext "u8 list" | Src_own nat

definition read_src :: "u8 list \<Rightarrow> value_src \<Rightarrow> nat \<Rightarrow> u8 list option" where
  "read_src mem src n =
     (case src of
        Src_ext bs \<Rightarrow> if n \<le> length bs then Some (take n bs) else None
      | Src_own q \<Rightarrow> mem_read_n mem q n)"

definition coap_encode_delta :: "u8 list \<Rightarrow> nat \<Rightarrow> u16 \<Rightarrow> (u8 list \<times> nat) option" where
  "coap_encode_delta mem p option_delta =
     (if option_delta \<ge> 269 then do {
        let option_delta = option_delta - 269;
        mem \<leftarrow> mem_write mem p (push_bit 4 14);
        mem \<leftarrow> mem_write mem (p + 1) (ucast (drop_bit 8 option_delta));
        mem \<leftarrow> mem_write mem (p + 2) (ucast (option_delta AND 0xFF));
        Some (mem, 3)
      }
      else if option_delta \<ge> 13 then do {
        mem \<leftarrow> mem_write mem p (push_bit 4 13);
        mem \<leftarrow> mem_write mem (p + 1) (ucast option_delta - 13);
        Some (mem, 2)
      }
      else do {
        mem \<leftarrow> mem_write mem p (ucast (push_bit 4 option_delta));
        Some (mem, 1)
      })"

definition coap_encode_len :: "u8 list \<Rightarrow> nat \<Rightarrow> nat \<Rightarrow> u16 \<Rightarrow> (u8 list \<times> nat) option" where
  "coap_encode_len mem p value_offset len = do {
     b \<leftarrow> mem_read mem p;
     if len \<ge> 269 then do {
       mem \<leftarrow> mem_write mem p (b OR 14);
       mem \<leftarrow> mem_write mem (p + value_offset) (ucast (drop_bit 8 (len - 269)));
       mem \<leftarrow> mem_write mem (p + value_offset + 1) (ucast ((len - 269) AND 0xFF));
       Some (mem, value_offset + 2)
     }
     else if len \<ge> 13 then do {
       mem \<leftarrow> mem_write mem p (b OR 13);
       mem \<leftarrow> mem_write mem (p + value_offset) (ucast len - 13);
       Some (mem, value_offset + 1)
     }
     else do {
       mem \<leftarrow> mem_write mem p (b OR ucast (len AND 15));
       Some (mem, value_offset)
     }
   }"

definition coap_encode_option ::
    "u8 list \<Rightarrow> nat \<Rightarrow> u32 \<Rightarrow> u32 \<Rightarrow> value_src \<Rightarrow> u16 \<Rightarrow> (u8 list \<times> nat) option" where
  "coap_encode_option mem p prev_key key value len = do {
     (mem, value_offset) \<leftarrow> coap_encode_delta mem p (ucast (key - prev_key));
     let len = (if len > COAP_MAX_OPTION_VALUE_SIZE then COAP_MAX_OPTION_VALUE_SIZE else len);
     (mem, value_offset) \<leftarrow> coap_encode_len mem p value_offset len;
     let p = p + value_offset;
     bs \<leftarrow> read_src mem value (unat len);
     mem \<leftarrow> mem_write_n mem p bs;
     Some (mem, p + unat len)
   }"

section \<open>Inserting an option\<close>

text \<open>
  The loop that looks for the insertion point. The state is the position of the next option
  (\<^const>\<open>None\<close> is the null pointer), its key, the insertion point and the key before it. When the
  decoder returns the null pointer, the insertion point is not used any more.
\<close>

function coap_insert_find ::
    "u8 list \<Rightarrow> nat \<Rightarrow> u32 \<Rightarrow> nat \<Rightarrow> u32 \<Rightarrow> nat \<Rightarrow> u32 \<Rightarrow>
     (nat option \<times> u32 \<times> nat \<times> u32) option" where
  "coap_insert_find mem end_of_options key iter iter_key insertion_point prev_key =
     (case coap_decode_option mem iter (Some iter_key) of
        None \<Rightarrow> None
      | Some Decode_End \<Rightarrow>
          if COAP_OPTION_INVALID \<le> key
          then Some (None, COAP_OPTION_INVALID, insertion_point, COAP_OPTION_INVALID)
          else Some (None, COAP_OPTION_INVALID, insertion_point, prev_key)
      | Some (Decode_At next k v l) \<Rightarrow>
          let iter_key = the k in
          if iter_key \<le> key
          then if next < end_of_options
               then coap_insert_find mem end_of_options key next iter_key next iter_key
               else Some (Some next, iter_key, next, iter_key)
          else Some (Some next, iter_key, insertion_point, prev_key))"
  by pat_completeness auto
termination
  by (relation "measure (\<lambda>(mem, e, key, iter, rest). e - iter)")
     (auto dest!: coap_decode_option_progress)

declare coap_insert_find.simps [simp del]

text \<open>The growth of the option block when the new option goes before another one.\<close>

definition coap_insert_size_diff :: "u16 \<Rightarrow> u32 \<Rightarrow> u32 \<Rightarrow> u32 \<Rightarrow> u8 \<Rightarrow> u16" where
  "coap_insert_size_diff len key prev_key iter_key b =
     len + 1
     + (if len \<ge> 13 then 1 else 0) + (if len \<ge> 269 then 1 else 0)
     + (if key - prev_key \<ge> 13 then 1 else 0) + (if key - prev_key \<ge> 269 then 1 else 0)
     - (if b AND 0xF0 = push_bit 4 13 then 1 else if b AND 0xF0 = push_bit 4 14 then 2 else 0)
     + (if iter_key - key \<ge> 13 then 1 else 0) + (if iter_key - key \<ge> 269 then 1 else 0)"

text \<open>
  The new option goes before another one: shift the options from the insertion point on, decode
  the first shifted one, encode the new option and re-encode the shifted one behind it.
\<close>

definition coap_insert_before ::
    "u8 list \<Rightarrow> nat \<Rightarrow> nat \<Rightarrow> u32 \<Rightarrow> u32 \<Rightarrow> u32 \<Rightarrow> u8 list \<Rightarrow> u16 \<Rightarrow> (u8 list \<times> u16) option" where
  "coap_insert_before mem insertion_point end_of_options prev_key key iter_key value len = do {
     b \<leftarrow> mem_read mem insertion_point;
     let size_diff = coap_insert_size_diff len key prev_key iter_key b;
     let moved = insertion_point + unat size_diff;
     tail \<leftarrow> mem_read_n mem insertion_point (end_of_options - insertion_point);
     mem \<leftarrow> (if size_diff \<noteq> 0 then mem_write_n mem moved tail else Some mem);
     d \<leftarrow> coap_decode_option mem moved None;
     let (next_value, next_len) =
           (case d of Decode_End \<Rightarrow> (Src_ext [], 0) | Decode_At q k v l \<Rightarrow> (Src_own v, l));
     (mem, iter) \<leftarrow> coap_encode_option mem insertion_point prev_key key (Src_ext value) len;
     (mem, iter) \<leftarrow> coap_encode_option mem iter key iter_key next_value next_len;
     Some (mem, size_diff)
   }"

definition coap_insert_option ::
    "u8 list \<Rightarrow> nat \<Rightarrow> nat \<Rightarrow> u32 \<Rightarrow> u8 list \<Rightarrow> u16 \<Rightarrow> (u8 list \<times> u16) option" where
  "coap_insert_option mem start_of_options end_of_options key value len = do {
     (iter, iter_key, insertion_point, prev_key) \<leftarrow>
       (if start_of_options = end_of_options
        then Some (None, 0, start_of_options, 0)
        else coap_insert_find mem end_of_options key start_of_options 0 start_of_options 0);
     if (case iter of None \<Rightarrow> False | Some it \<Rightarrow> iter_key > key \<or> it < end_of_options)
     then coap_insert_before mem insertion_point end_of_options prev_key key iter_key value len
     else do {
       (mem, q) \<leftarrow> coap_encode_option mem end_of_options prev_key key (Src_ext value) len;
       Some (mem, word_of_nat (q - end_of_options))
     }
   }"

section \<open>Integers, blocks and strings in options\<close>

fun coap_decode_uint32_loop :: "u32 \<Rightarrow> u8 list \<Rightarrow> nat \<Rightarrow> u32 option" where
  "coap_decode_uint32_loop ret value 0 = Some ret"
| "coap_decode_uint32_loop ret [] (Suc n) = None"
| "coap_decode_uint32_loop ret (b # value) (Suc n) =
     coap_decode_uint32_loop (push_bit 8 ret + ucast b) value n"

definition coap_decode_uint32 :: "u8 list \<Rightarrow> u8 \<Rightarrow> u32 option" where
  "coap_decode_uint32 value value_len = coap_decode_uint32_loop 0 value (unat value_len)"

record coap_block_info_s =
  block_offset :: u32
  block_size :: u16
  block_m :: bool

definition coap_decode_block :: "u32 \<Rightarrow> coap_block_info_s" where
  "coap_decode_block block =
     (let size = (push_bit (unat (block AND 0x7) + 4) 1 :: u16)
      in \<lparr>block_offset = drop_bit 4 block * ucast size,
          block_size = size,
          block_m = (block AND push_bit 3 1 \<noteq> 0)\<rparr>)"

text \<open>
  \<^verbatim>\<open>coap_option_strequal\<close> compares an option value with a zero-terminated string. The string is
  given as its bytes before the terminator.
\<close>

fun cstr_prefix_loop :: "u8 list \<Rightarrow> nat \<Rightarrow> nat \<Rightarrow> u8 list \<Rightarrow> bool option" where
  "cstr_prefix_loop mem p 0 cstr = Some (cstr = [])"
| "cstr_prefix_loop mem p (Suc n) [] = Some False"
| "cstr_prefix_loop mem p (Suc n) (c # cstr) = do {
     b \<leftarrow> mem_read mem p;
     if b \<noteq> c then Some False else cstr_prefix_loop mem (p + 1) n cstr
   }"

definition coap_option_strequal :: "u8 list \<Rightarrow> nat \<Rightarrow> u8 list \<Rightarrow> bool option" where
  "coap_option_strequal mem optionptr cstr = do {
     d \<leftarrow> coap_decode_option mem optionptr None;
     case d of
       Decode_End \<Rightarrow> Some False
     | Decode_At q k v l \<Rightarrow> cstr_prefix_loop mem v (unat l) cstr
   }"

section \<open>Verifying a packet\<close>

text \<open>The bit fields of the first header byte, and the fixed header.\<close>

definition header_version :: "u8 \<Rightarrow> u8" where "header_version b = drop_bit 6 b"
definition header_tt :: "u8 \<Rightarrow> u8" where "header_tt b = drop_bit 4 b AND 3"
definition header_token_len :: "u8 \<Rightarrow> u8" where "header_token_len b = b AND 15"

text \<open>
  The loop over the options. \<open>Some None\<close> is a return of false from inside of the loop,
  \<open>Some (Some p)\<close> that the loop condition fails at position \<open>p\<close>.
\<close>

function coap_verify_loop :: "u8 list \<Rightarrow> nat \<Rightarrow> nat \<Rightarrow> u32 \<Rightarrow> nat option option" where
  "coap_verify_loop mem packet_size option_ptr key =
     (if option_ptr < packet_size
      then case mem_read mem option_ptr of
             None \<Rightarrow> None
           | Some b \<Rightarrow>
               if b = 0xFF then Some (Some option_ptr)
               else (case coap_decode_option mem option_ptr (Some key) of
                       None \<Rightarrow> None
                     | Some Decode_End \<Rightarrow> Some None
                     | Some (Decode_At next k v l) \<Rightarrow>
                         if next > packet_size then Some None
                         else coap_verify_loop mem packet_size next (the k))
      else Some (Some option_ptr))"
  by pat_completeness auto
termination
  by (relation "measure (\<lambda>(mem, n, p, key). n - p)") (auto dest!: coap_decode_option_progress)

declare coap_verify_loop.simps [simp del]

definition coap_verify_packet :: "u8 list \<Rightarrow> u16 \<Rightarrow> bool option" where
  "coap_verify_packet packet packet_size = do {
     b0 \<leftarrow> mem_read packet 0;
     let token_len = header_token_len b0;
     let option_ptr = 4 + unat token_len;
     if packet_size < 4 then Some False
     else if header_version b0 \<noteq> COAP_VERSION then Some False
     else if packet_size > COAP_MAX_MESSAGE_SIZE then Some False
     else if token_len > 8 then Some False
     else do {
       code \<leftarrow> mem_read packet 1;
       if code = COAP_CODE_EMPTY \<and> packet_size \<noteq> 4 then Some False
       else do {
         r \<leftarrow> coap_verify_loop packet (unat packet_size) option_ptr 0;
         case r of
           None \<Rightarrow> Some False
         | Some option_ptr \<Rightarrow>
             if option_ptr > unat packet_size then Some False
             else if option_ptr < unat packet_size then do {
               b \<leftarrow> mem_read packet option_ptr;
               Some (b = 0xFF)
             }
             else Some True
       }
     }
   }"

end
