(* ===== verification/String_Utils.thy ===== *)
theory String_Utils
  imports Smcp_Prelude
begin

text \<open>
  C strings and the number printers of \<^verbatim>\<open>src/smcp/string-utils.c\<close>. A character is the
  eight-bit \<^typ>\<open>char\<close>; a buffer is the list of its characters and a zero-terminated string is the
  part before the terminator. The pieces of the C library that the sources use on strings
  (\<^verbatim>\<open>isdigit\<close>, \<^verbatim>\<open>isalpha\<close>, \<^verbatim>\<open>isalnum\<close>, \<^verbatim>\<open>tolower\<close>, \<^verbatim>\<open>strcasecmp\<close>, \<^verbatim>\<open>strncmp\<close> with a constant
  prefix, \<^verbatim>\<open>atoi\<close>) are modelled here in the C locale.
\<close>

section \<open>Characters and C library string functions\<close>

abbreviation (input) NUL :: char where "NUL \<equiv> CHR 0x00"

definition char_code :: "char \<Rightarrow> nat" where "char_code c = of_char c"

definition isdigit :: "char \<Rightarrow> bool" where "isdigit c \<longleftrightarrow> 48 \<le> char_code c \<and> char_code c \<le> 57"

definition isupper :: "char \<Rightarrow> bool" where "isupper c \<longleftrightarrow> 65 \<le> char_code c \<and> char_code c \<le> 90"

definition islower :: "char \<Rightarrow> bool" where "islower c \<longleftrightarrow> 97 \<le> char_code c \<and> char_code c \<le> 122"

definition isalpha :: "char \<Rightarrow> bool" where "isalpha c \<longleftrightarrow> isupper c \<or> islower c"

definition isalnum :: "char \<Rightarrow> bool" where "isalnum c \<longleftrightarrow> isalpha c \<or> isdigit c"

definition tolower :: "char \<Rightarrow> char" where
  "tolower c = (if isupper c then char_of (char_code c + 32) else c)"

text \<open>\<^verbatim>\<open>strcasecmp(a, b) == 0\<close> and \<^verbatim>\<open>strhasprefix_const(a, b)\<close>.\<close>

definition strcaseequal :: "string \<Rightarrow> string \<Rightarrow> bool" where
  "strcaseequal a b \<longleftrightarrow> map tolower a = map tolower b"

fun strhasprefix :: "string \<Rightarrow> string \<Rightarrow> bool" where
  "strhasprefix a [] \<longleftrightarrow> True"
| "strhasprefix [] (c # b) \<longleftrightarrow> False"
| "strhasprefix (d # a) (c # b) \<longleftrightarrow> c = d \<and> strhasprefix a b"

text \<open>\<^verbatim>\<open>atoi\<close> on a string that starts with a digit.\<close>

fun atoi_loop :: "nat \<Rightarrow> string \<Rightarrow> nat" where
  "atoi_loop acc [] = acc"
| "atoi_loop acc (c # s) = (if isdigit c then atoi_loop (10 * acc + (char_code c - 48)) s else acc)"

definition atoi :: "string \<Rightarrow> nat" where "atoi s = atoi_loop 0 s"

lemma code_char_of [simp]: "n < 256 \<Longrightarrow> char_code (char_of n) = n"
  by (simp add: char_code_def)

lemma code_less: "char_code c < 256"
  by (simp add: char_code_def)

lemma strhasprefix_append [simp]: "strhasprefix (a @ b) a"
  by (induction a) auto

section \<open>Printing numbers\<close>

definition hex_chars :: string where "hex_chars = ''0123456789ABCDEF''"

fun uint32_to_hex_loop :: "string \<Rightarrow> nat \<Rightarrow> u32 \<Rightarrow> nat \<Rightarrow> string option" where
  "uint32_to_hex_loop str p v 0 = mem_write str p NUL"
| "uint32_to_hex_loop str p v (Suc n) = do {
     str \<leftarrow> mem_write str p (hex_chars ! unat (drop_bit 28 v));
     uint32_to_hex_loop str (p + 1) (push_bit 4 v) n
   }"

definition uint32_to_hex_cstr :: "string \<Rightarrow> u32 \<Rightarrow> string option" where
  "uint32_to_hex_cstr str v = uint32_to_hex_loop str 0 v 8"

text \<open>
  The decimal printer writes the digits in reverse order, terminates them, and reverses them in
  place.
\<close>

definition dec_char :: "nat \<Rightarrow> char" where "dec_char d = char_of (d + 48)"

fun uint32_to_dec_loop :: "string \<Rightarrow> nat \<Rightarrow> nat \<Rightarrow> (string \<times> nat) option" where
  "uint32_to_dec_loop s i n = do {
     s \<leftarrow> mem_write s i (dec_char (n mod 10));
     if n div 10 > 0 then uint32_to_dec_loop s (i + 1) (n div 10) else Some (s, i + 1)
   }"

declare uint32_to_dec_loop.simps [simp del]

function reverse_loop :: "string \<Rightarrow> nat \<Rightarrow> nat \<Rightarrow> string" where
  "reverse_loop s j i = (if j < i then reverse_loop (s[j := s ! i, i := s ! j]) (j + 1) (i - 1) else s)"
  by pat_completeness auto
termination by (relation "measure (\<lambda>(s, j, i). i)") auto

declare reverse_loop.simps [simp del]

definition uint32_to_dec_cstr :: "string \<Rightarrow> u32 \<Rightarrow> string option" where
  "uint32_to_dec_cstr s n = do {
     (s, i) \<leftarrow> uint32_to_dec_loop s 0 (unat n);
     s \<leftarrow> mem_write s i NUL;
     Some (reverse_loop s 0 (i - 1))
   }"

definition int32_to_dec_cstr :: "string \<Rightarrow> u32 \<Rightarrow> string option" where
  "int32_to_dec_cstr s n =
     (if sint n < 0 then do {
        s \<leftarrow> mem_write s 0 (CHR ''-'');
        t \<leftarrow> uint32_to_dec_cstr (drop 1 s) (- n);
        Some (take 1 s @ t)
      }
      else uint32_to_dec_cstr s n)"

section \<open>Decimal strings\<close>

fun dec_string :: "nat \<Rightarrow> string" where
  "dec_string n = (if n < 10 then [dec_char n] else dec_string (n div 10) @ [dec_char (n mod 10)])"

declare dec_string.simps [simp del]

lemma dec_string_nonempty: "dec_string n \<noteq> []"
  by (subst dec_string.simps) simp

lemma dec_char_isdigit [simp]: "d < 10 \<Longrightarrow> isdigit (dec_char d)" "d < 10 \<Longrightarrow> char_code (dec_char d) = d + 48"
  by (simp_all add: isdigit_def dec_char_def)

lemma dec_string_digits: "c \<in> set (dec_string n) \<Longrightarrow> isdigit c"
proof (induction n rule: dec_string.induct)
  case (1 n)
  then show ?case by (subst (asm) dec_string.simps) (auto split: if_splits)
qed

lemma dec_string_length: "n < 10 ^ k \<Longrightarrow> 0 < k \<Longrightarrow> length (dec_string n) \<le> k"
proof (induction n arbitrary: k rule: dec_string.induct)
  case (1 n)
  show ?case
  proof (cases "n < 10")
    case True
    with "1.prems" show ?thesis by (subst dec_string.simps) simp
  next
    case False
    then have "k \<noteq> 1" using "1.prems" by (cases "k = 1") auto
    with "1.prems"(2) obtain m where k: "k = Suc m" "0 < m" by (cases k) auto
    with False "1.prems" "1.IH" [of m] show ?thesis
      by (subst dec_string.simps) (auto simp: less_mult_imp_div_less mult.commute)
  qed
qed

lemma atoi_loop_append:
  "\<forall>c \<in> set s. isdigit c \<Longrightarrow> atoi_loop acc (s @ t) = atoi_loop (atoi_loop acc s) t"
  by (induction s arbitrary: acc) auto

lemma atoi_dec_string: "atoi (dec_string n) = n"
proof (induction n rule: dec_string.induct)
  case (1 n)
  show ?case
  proof (cases "n < 10")
    case True
    then show ?thesis by (subst dec_string.simps) (simp add: atoi_def)
  next
    case False
    have "atoi_loop 0 (dec_string (n div 10) @ [dec_char (n mod 10)]) =
        atoi_loop (atoi_loop 0 (dec_string (n div 10))) [dec_char (n mod 10)]"
      by (rule atoi_loop_append) (auto intro: dec_string_digits)
    with False "1.IH" show ?thesis
      by (subst dec_string.simps) (simp add: atoi_def)
  qed
qed

lemma atoi_dec_string_rest:
  assumes "rest = [] \<or> \<not> isdigit (hd rest)"
  shows "atoi (dec_string n @ rest) = n"
proof -
  have "atoi_loop 0 (dec_string n @ rest) = atoi_loop (atoi_loop 0 (dec_string n)) rest"
    by (rule atoi_loop_append) (auto intro: dec_string_digits)
  then show ?thesis
    using assms atoi_dec_string [of n] by (cases rest) (auto simp: atoi_def)
qed

section \<open>The printers print\<close>

lemma uint32_to_dec_loop_spec:
  "length (dec_string n) \<le> length ys \<Longrightarrow>
   uint32_to_dec_loop (xs @ ys) (length xs) n =
     Some (xs @ rev (dec_string n) @ drop (length (dec_string n)) ys,
           length xs + length (dec_string n))"
proof (induction n arbitrary: xs ys rule: dec_string.induct)
  case (1 n)
  then obtain y ys' where ys: "ys = y # ys'"
    using dec_string_nonempty [of n] by (cases ys) auto
  have wr: "mem_write (xs @ y # ys') (length xs) c = Some (xs @ c # ys')" for c
    by (simp add: mem_write_def)
  show ?case
  proof (cases "n < 10")
    case True
    then show ?thesis
      by (subst uint32_to_dec_loop.simps) (simp add: wr ys dec_string.simps)
  next
    case False
    then have d: "dec_string n = dec_string (n div 10) @ [dec_char (n mod 10)]" "0 < n div 10"
      by (simp_all add: dec_string.simps [of n])
    have "length (dec_string (n div 10)) \<le> length ys'" using "1.prems" by (simp add: d ys)
    with "1.IH" [OF False, of ys' "xs @ [dec_char (n mod 10)]"] show ?thesis
      by (subst uint32_to_dec_loop.simps) (simp add: wr d ys)
  qed
qed

lemma reverse_loop_spec:
  "i = length xs + length ms - 1 \<Longrightarrow> ms \<noteq> [] \<Longrightarrow>
   reverse_loop (xs @ ms @ ys) (length xs) i = xs @ rev ms @ ys"
proof (induction "length ms" arbitrary: xs ms ys i rule: less_induct)
  case less
  consider a where "ms = [a]" | a ns b where "ms = a # ns @ [b]"
    using less.prems(2) by (metis append_butlast_last_id list.exhaust)
  then show ?case
  proof cases
    case 1
    with less.prems show ?thesis by (subst reverse_loop.simps) simp
  next
    case 2
    have i: "i = length xs + 1 + length ns" using less.prems(1) 2 by simp
    have swap: "(xs @ ms @ ys)[length xs := (xs @ ms @ ys) ! i, i := (xs @ ms @ ys) ! length xs] =
        (xs @ [b]) @ ns @ (a # ys)"
      by (simp add: 2 i nth_append list_update_append)
    show ?thesis
    proof (cases "ns = []")
      case True
      then show ?thesis
        using swap i
        by (subst reverse_loop.simps) (simp add: 2 reverse_loop.simps [of _ "Suc (length xs)"])
    next
      case False
      have "reverse_loop ((xs @ [b]) @ ns @ (a # ys)) (length (xs @ [b])) (i - 1) =
          (xs @ [b]) @ rev ns @ (a # ys)"
        by (rule less.hyps) (use 2 i False in simp_all)
      with swap i show ?thesis by (subst reverse_loop.simps) (simp add: 2)
    qed
  qed
qed

lemma uint32_to_dec_cstr_spec:
  assumes "11 \<le> length s"
  shows "uint32_to_dec_cstr s n =
         Some (dec_string (unat n) @ NUL # drop (length (dec_string (unat n)) + 1) s)"
proof -
  let ?d = "dec_string (unat n)"
  have "unat n < 2 ^ 32" using unsigned_less [of n, where ?'a = nat] by simp
  then have len: "length ?d \<le> 10" by (intro dec_string_length) simp_all
  then have loop: "uint32_to_dec_loop s 0 (unat n) = Some (rev ?d @ drop (length ?d) s, length ?d)"
    using uint32_to_dec_loop_spec [of "unat n" s "[]"] assms by simp
  let ?t = "drop (length ?d + 1) s"
  have t: "drop (length ?d) s = s ! length ?d # ?t"
    using Cons_nth_drop_Suc [of "length ?d" s] len assms by simp
  have "reverse_loop (rev ?d @ NUL # ?t) 0 (length ?d - 1) = ?d @ NUL # ?t"
    using reverse_loop_spec [of "length ?d - 1" "[]" "rev ?d" "NUL # ?t"] dec_string_nonempty by simp
  then show ?thesis
    by (simp add: uint32_to_dec_cstr_def loop t mem_write_def list_update_append)
qed

section \<open>Properties\<close>

text \<open>
  \<^verbatim>\<open>uint32_to_dec_cstr\<close> prints its argument: with the eleven bytes its comment asks for it
  stays inside of the buffer and leaves a zero-terminated string of decimal digits that \<^verbatim>\<open>atoi\<close>
  reads back as the number printed.
\<close>

theorem uint32_to_dec_cstr_roundtrip:
  assumes "11 \<le> length s"
  shows "\<exists>digits rest. uint32_to_dec_cstr s n = Some (digits @ NUL # rest) \<and>
           digits \<noteq> [] \<and> (\<forall>c \<in> set digits. isdigit c) \<and> atoi digits = unat n \<and>
           length (digits @ NUL # rest) = length s"
proof -
  have "unat n < 2 ^ 32" using unsigned_less [of n, where ?'a = nat] by simp
  then have "length (dec_string (unat n)) \<le> 10" by (intro dec_string_length) simp_all
  with assms show ?thesis
    by (intro exI [of _ "dec_string (unat n)"]
          exI [of _ "drop (length (dec_string (unat n)) + 1) s"])
       (auto simp: uint32_to_dec_cstr_spec dec_string_nonempty atoi_dec_string
          dest: dec_string_digits)
qed

lemma uint32_to_dec_cstr_roundtrip_witness:
  "\<exists>digits rest. uint32_to_dec_cstr (replicate 11 (CHR ''x'')) 4071 = Some (digits @ NUL # rest) \<and>
     digits \<noteq> [] \<and> (\<forall>c \<in> set digits. isdigit c) \<and> atoi digits = unat (4071 :: u32) \<and>
     length (digits @ NUL # rest) = length (replicate 11 (CHR ''x''))"
  by (rule uint32_to_dec_cstr_roundtrip) simp

end
