(* ===== verification/Coap_Codes.thy ===== *)
theory Coap_Codes
  imports Coap_Option String_Utils
begin

text \<open>
  The tables of \<^verbatim>\<open>src/smcp/coap.c\<close> and \<^verbatim>\<open>coap.h\<close>: the two ways of writing a message code, the
  names of content types, option numbers and result codes, and the readers of such names. A name
  is the string before its terminator; \<^verbatim>\<open>snprintf\<close> into a buffer of \<open>n\<close> bytes keeps the first
  \<open>n - 1\<close> characters.
\<close>

section \<open>Message codes\<close>

definition coap_to_http_code :: "u8 \<Rightarrow> u16" where
  "coap_to_http_code x = (let n = unat x in word_of_nat (n div 32 * 100 + n mod 32))"

definition http_to_coap_code :: "u16 \<Rightarrow> u8" where
  "http_to_coap_code x = (let n = unat x in word_of_nat (n div 100 * 32 + n mod 100))"

abbreviation HTTP_TO_COAP_CODE :: "nat \<Rightarrow> nat" where
  "HTTP_TO_COAP_CODE x \<equiv> x div 100 * 32 + x mod 100"

definition COAP_CODE_IS_REQUEST :: "u8 \<Rightarrow> bool" where
  "COAP_CODE_IS_REQUEST code \<longleftrightarrow> code > 0 \<and> unat code < HTTP_TO_COAP_CODE 100"

definition COAP_CODE_IS_RESULT :: "u8 \<Rightarrow> bool" where
  "COAP_CODE_IS_RESULT code \<longleftrightarrow> code = 0 \<or> unat code \<ge> HTTP_TO_COAP_CODE 100"

definition http_code_names :: "(int \<times> string) list" where
  "http_code_names =
     [(0, ''EMPTY''), (1, ''GET''), (2, ''POST''), (3, ''PUT''), (4, ''DELETE''),
      (100, ''CONTINUE''), (200, ''OK''), (205, ''CONTENT''), (203, ''VALID''), (201, ''CREATED''),
      (204, ''CHANGED''), (202, ''DELETED''), (206, ''PARTIAL_CONTENT''), (402, ''BAD_OPTION''),
      (406, ''NOT_ACCEPTABLE''), (304, ''NOT_MODIFIED''), (303, ''SEE_OTHER''),
      (307, ''TEMPORARY_REDIRECT''), (408, ''REQUEST_TIMEOUT''), (400, ''BAD_REQUEST''),
      (401, ''UNAUTHORIZED''), (403, ''FORBIDDEN''), (404, ''NOT_FOUND''),
      (405, ''METHOD_NOT_ALLOWED''), (409, ''CONFLICT''), (410, ''GONE''),
      (415, ''UNSUPPORTED_MEDIA_TYPE''), (500, ''INTERNAL_SERVER_ERROR''),
      (501, ''NOT_IMPLEMENTED''), (502, ''BAD_GATEWAY''), (503, ''UNAVAILABLE''),
      (504, ''TIMEOUT''), (505, ''PROXYING_NOT_SUPPORTED'')]"

definition http_code_to_cstr :: "int \<Rightarrow> string" where
  "http_code_to_cstr x =
     (case map_of http_code_names x of Some s \<Rightarrow> s | None \<Rightarrow> ''UNKNOWN'')"

definition coap_code_to_cstr :: "int \<Rightarrow> string" where
  "coap_code_to_cstr x = http_code_to_cstr (int (unat (coap_to_http_code (word_of_int x))))"

section \<open>Content types\<close>

definition coap_content_type_names :: "(u16 \<times> string) list" where
  "coap_content_type_names =
     [(65535, ''unknown''), (0, ''text/plain;charset=utf-8''), (40, ''application/link-format''),
      (41, ''application/xml''), (42, ''application/octet-stream''), (47, ''application/exi''),
      (50, ''application/json''), (65005, ''application/x-www-form-urlencoded'')]"

definition coap_content_type_to_cstr :: "u16 \<Rightarrow> string" where
  "coap_content_type_to_cstr ct =
     (case map_of coap_content_type_names ct of
        Some s \<Rightarrow> s
      | None \<Rightarrow>
          take 39
           (if ct < 20 then ''text/x-coap-'' @ dec_string (unat ct) @ '';charset=utf-8''
            else if ct < 40 then ''image/x-coap-'' @ dec_string (unat ct)
            else ''application/x-coap-'' @ dec_string (unat ct)))"

text \<open>The tests of \<^verbatim>\<open>coap_content_type_from_cstr\<close> after the numeric form, in the order of the code.\<close>

definition coap_content_type_prefixes :: "(string \<times> u16) list" where
  "coap_content_type_prefixes =
     [(''text/plain'', 0), (''application/xml'', 0), (''application/exi'', 47),
      (''application/link-format'', 40), (''application/octet-stream'', 42),
      (''application/json'', 50), (''text/xml'', 41), (''text/html'', 3),
      (''application/x-www-form-urlencoded'', 65005), (''text/'', 0)]"

definition coap_content_type_from_cstr :: "string option \<Rightarrow> u16" where
  "coap_content_type_from_cstr x =
     (case x of
        None \<Rightarrow> 65535
      | Some x \<Rightarrow>
          let x = (if strhasprefix x ''application/x-coap-'' then drop 19 x
                   else if strhasprefix x ''text/x-coap-'' then drop 12 x
                   else if strhasprefix x ''image/x-coap-'' then drop 13 x
                   else x)
          in if x \<noteq> [] \<and> isdigit (hd x) then word_of_nat (atoi x)
             else case List.find (\<lambda>(prefix, ct). strhasprefix x prefix) coap_content_type_prefixes of
                    Some (prefix, ct) \<Rightarrow> ct
                  | None \<Rightarrow> 65535)"

section \<open>Option numbers\<close>

definition COAP_OPTION_IS_CRITICAL :: "u32 \<Rightarrow> bool" where
  "COAP_OPTION_IS_CRITICAL x \<longleftrightarrow> x AND 1 \<noteq> 0"

definition COAP_OPTION_IS_UNSAFE :: "u32 \<Rightarrow> bool" where
  "COAP_OPTION_IS_UNSAFE x \<longleftrightarrow> x AND 2 \<noteq> 0"

definition COAP_OPTION_IS_NOCACHEKEY :: "u32 \<Rightarrow> bool" where
  "COAP_OPTION_IS_NOCACHEKEY x \<longleftrightarrow> x AND 0x1E = 0x1C"

definition coap_option_key_names :: "(u32 \<times> string) list" where
  "coap_option_key_names =
     [(12, ''Content-type''), (14, ''Max-age''), (4, ''Etag''), (35, ''Proxy-uri''),
      (3, ''URI-host''), (7, ''URI-port''), (11, ''URI-path''), (15, ''URI-query''),
      (8, ''Location-path''), (20, ''Location-query''), (17, ''Accept''), (6, ''Observe''),
      (27, ''Block1''), (23, ''Block2''), (65101, ''Cascade-count'')]"

definition coap_option_key_to_cstr :: "u32 \<Rightarrow> bool \<Rightarrow> string" where
  "coap_option_key_to_cstr key for_response =
     (case map_of coap_option_key_names key of
        Some s \<Rightarrow> s
      | None \<Rightarrow>
          if key = 65102 then (if for_response then ''X-Authenticate'' else ''X-Authorization'')
          else ''X-CoAP-''
               @ (if COAP_OPTION_IS_CRITICAL key then ''critical'' else ''elective'')
               @ (if COAP_OPTION_IS_UNSAFE key then ''-unsafe'' else [])
               @ (if COAP_OPTION_IS_NOCACHEKEY key then ''-nocachekey'' else [])
               @ ''-'' @ dec_string (unat key))"

definition coap_option_value_is_string :: "u32 \<Rightarrow> bool" where
  "coap_option_value_is_string key \<longleftrightarrow> key \<in> {35, 4, 3, 15, 8, 20, 11}"

definition coap_option_key_table :: "(string \<times> u32) list" where
  "coap_option_key_table =
     [(''Content-type'', 12), (''Max-age'', 14), (''Etag'', 4), (''URI-host'', 3),
      (''Proxy-uri'', 35), (''URI-port'', 7), (''Location-path'', 8), (''Location-query'', 20),
      (''URI-path'', 11), (''Accept'', 17), (''Block1'', 27), (''Block2'', 23)]"

definition coap_option_key_from_cstr :: "string \<Rightarrow> u32" where
  "coap_option_key_from_cstr key =
     (case List.find (\<lambda>(name, k). strcaseequal key name) coap_option_key_table of
        Some (name, k) \<Rightarrow> k
      | None \<Rightarrow> COAP_OPTION_INVALID)"

section \<open>Properties\<close>

lemma of_nat_u8_eq_iff: "n < 256 \<Longrightarrow> word_of_nat n = (x :: u8) \<longleftrightarrow> n = unat x"
  by (auto simp: word_unat_eq_iff unsigned_of_nat take_bit_nat_eq_self)

text \<open>
  Both spellings of a message code carry the same information: turning any of the 256 CoAP
  codes into the HTTP-like decimal code and back gives the code.
\<close>

theorem http_coap_code_roundtrip: "http_to_coap_code (coap_to_http_code c) = c"
proof -
  let ?n = "unat c"
  have n: "?n < 256" by (rule unat_u8_less)
  let ?h = "?n div 32 * 100 + ?n mod 32"
  have "?n div 32 < 8" using n by auto
  then have "?h < 65536" by (simp add: trans_less_add1)
  then have h: "unat (coap_to_http_code c) = ?h"
    by (simp add: coap_to_http_code_def Let_def unsigned_of_nat take_bit_nat_eq_self
        del: of_nat_add of_nat_mult)
  have "?h div 100 = ?n div 32" "?h mod 100 = ?n mod 32" by simp_all
  then have "?h div 100 * 32 + ?h mod 100 = ?n" by simp
  then show ?thesis
    unfolding http_to_coap_code_def h Let_def by simp
qed

lemma hd_dec_string: "isdigit (hd (dec_string n @ xs))"
  using dec_string_digits [of "hd (dec_string n)" n] dec_string_nonempty [of n] by simp

text \<open>The printed numeric forms are read back through their digits.\<close>

lemma content_type_from_numeric:
  assumes "rest = [] \<or> \<not> isdigit (hd rest)"
    and "pre \<in> {''text/x-coap-'', ''image/x-coap-'', ''application/x-coap-''}"
  shows "coap_content_type_from_cstr (Some (pre @ dec_string n @ rest)) = word_of_nat n"
  using assms(2) hd_dec_string [of n rest] atoi_dec_string_rest [OF assms(1), of n]
    dec_string_nonempty [of n]
  by (auto simp: coap_content_type_from_cstr_def Let_def)

lemma content_type_table:
  "list_all (\<lambda>(ct, s). coap_content_type_from_cstr (Some s) = (if ct = 41 then 0 else ct))
     coap_content_type_names"
  by code_simp

lemma content_type_named:
  "map_of coap_content_type_names ct = Some s \<Longrightarrow>
   coap_content_type_from_cstr (Some s) = (if ct = 41 then 0 else ct)"
  using content_type_table by (auto simp: list_all_iff dest!: map_of_SomeD)

text \<open>
  Names of content types: for each of the 65536 content types other than
  \<^verbatim>\<open>application/xml\<close>, reading the printed name gives the content type back (through the table or
  through the number in the generated name); \<^verbatim>\<open>application/xml\<close> alone is read as plain text.
\<close>

theorem content_type_roundtrip:
  "coap_content_type_from_cstr (Some (coap_content_type_to_cstr ct)) = (if ct = 41 then 0 else ct)"
proof (cases "map_of coap_content_type_names ct")
  case (Some s)
  then show ?thesis
    using content_type_named [OF Some] by (simp add: coap_content_type_to_cstr_def)
next
  case None
  then have "ct \<noteq> 41" by (auto simp: coap_content_type_names_def)
  have "length (dec_string (unat ct)) \<le> 5"
    using unat_u16_less [of ct] by (intro dec_string_length) simp_all
  then show ?thesis
    using None \<open>ct \<noteq> 41\<close> content_type_from_numeric [of "'';charset=utf-8''" "''text/x-coap-''" "unat ct"]
      content_type_from_numeric [of "[]" "''image/x-coap-''" "unat ct"]
      content_type_from_numeric [of "[]" "''application/x-coap-''" "unat ct"]
    by (simp add: coap_content_type_to_cstr_def isdigit_def char_code_def)
qed

lemma strcaseequal_Cons [simp]:
  "strcaseequal (a # s) (b # t) \<longleftrightarrow> tolower a = tolower b \<and> strcaseequal s t"
  "strcaseequal [] (b # t) \<longleftrightarrow> False" "strcaseequal (a # s) [] \<longleftrightarrow> False"
  by (auto simp: strcaseequal_def)

lemma strcaseequal_refl [simp]: "strcaseequal s s"
  by (simp add: strcaseequal_def)

lemma option_key_from_X: "coap_option_key_from_cstr (CHR ''X'' # s) = COAP_OPTION_INVALID"
  by (simp add: coap_option_key_from_cstr_def coap_option_key_table_def tolower_def isupper_def
      char_code_def)

lemma lower_names:
  "map tolower ''Content-type'' = ''content-type''"
  "map tolower ''Max-age'' = ''max-age''"
  "map tolower ''Etag'' = ''etag''"
  "map tolower ''Proxy-uri'' = ''proxy-uri''"
  "map tolower ''URI-host'' = ''uri-host''"
  "map tolower ''URI-port'' = ''uri-port''"
  "map tolower ''URI-path'' = ''uri-path''"
  "map tolower ''URI-query'' = ''uri-query''"
  "map tolower ''Location-path'' = ''location-path''"
  "map tolower ''Location-query'' = ''location-query''"
  "map tolower ''Accept'' = ''accept''"
  "map tolower ''Observe'' = ''observe''"
  "map tolower ''Block1'' = ''block1''"
  "map tolower ''Block2'' = ''block2''"
  "map tolower ''Cascade-count'' = ''cascade-count''"
  by (simp_all add: tolower_def isupper_def char_code_def char_of_eq_iff)

lemma option_key_table:
  "list_all (\<lambda>(key, s). coap_option_key_from_cstr s =
       (if key \<in> {12, 14, 4, 3, 35, 7, 8, 20, 11, 17, 27, 23} then key else COAP_OPTION_INVALID))
     coap_option_key_names"
  by (simp add: coap_option_key_names_def coap_option_key_from_cstr_def coap_option_key_table_def
      strcaseequal_def lower_names del: list.map)

text \<open>
  Names of options: printing the name of any 32-bit option number and reading it gives the
  option number for the twelve options the reader knows, and \<^verbatim>\<open>COAP_OPTION_INVALID\<close> for every other
  one, never the number of a different option.
\<close>

theorem option_key_roundtrip:
  "coap_option_key_from_cstr (coap_option_key_to_cstr key for_response) =
     (if key \<in> {12, 14, 4, 3, 35, 7, 8, 20, 11, 17, 27, 23} then key else COAP_OPTION_INVALID)"
proof (cases "map_of coap_option_key_names key")
  case (Some s)
  then show ?thesis
    using option_key_table map_of_SomeD [OF Some] by (auto simp: list_all_iff coap_option_key_to_cstr_def)
next
  case None
  then have "key \<notin> {12, 14, 4, 3, 35, 7, 8, 20, 11, 17, 27, 23}"
    by (auto simp: coap_option_key_names_def)
  with None show ?thesis
    by (simp add: coap_option_key_to_cstr_def option_key_from_X)
qed

text \<open>
  The static buffers of the name printers are large enough: the name of any option number
  fits with its terminator into the 48 bytes that \<^verbatim>\<open>sprintf\<close> writes to, and no name of a content
  type is cut off at the 40 bytes of its buffer.
\<close>

theorem name_buffers_suffice:
  "length (coap_option_key_to_cstr key for_response) < 48 \<and>
   length (coap_content_type_to_cstr ct) < 39"
proof
  have "unat key < 2 ^ 32" using unsigned_less [of key, where ?'a = nat] by simp
  then have "length (dec_string (unat key)) \<le> 10" by (intro dec_string_length) simp_all
  then show "length (coap_option_key_to_cstr key for_response) < 48"
    by (auto simp: coap_option_key_to_cstr_def coap_option_key_names_def split: if_splits)
  have "length (dec_string (unat ct)) \<le> 5"
    using unat_u16_less [of ct] by (intro dec_string_length) simp_all
  then show "length (coap_content_type_to_cstr ct) < 39"
    by (auto simp: coap_content_type_to_cstr_def coap_content_type_names_def split: if_splits)
qed

end
