(* ===== verification/Smcp_Status.thy ===== *)
theory Smcp_Status
  imports Coap_Codes
begin

text \<open>
  The status codes of \<^verbatim>\<open>src/smcp/smcp.h\<close> with the two tables of \<^verbatim>\<open>src/smcp/smcp.c\<close> over them: the
  printable form and the CoAP result code a status is answered with. A status is a C \<^verbatim>\<open>int\<close>, since
  handlers may return any number.
\<close>

section \<open>Status codes\<close>

type_synonym smcp_status_t = int

abbreviation (input) SMCP_STATUS_OK :: smcp_status_t where "SMCP_STATUS_OK \<equiv> 0"
abbreviation (input) SMCP_STATUS_FAILURE :: smcp_status_t where "SMCP_STATUS_FAILURE \<equiv> - 1"
abbreviation (input) SMCP_STATUS_INVALID_ARGUMENT :: smcp_status_t where "SMCP_STATUS_INVALID_ARGUMENT \<equiv> - 2"
abbreviation (input) SMCP_STATUS_UNSUPPORTED_URI :: smcp_status_t where "SMCP_STATUS_UNSUPPORTED_URI \<equiv> - 4"
abbreviation (input) SMCP_STATUS_ERRNO :: smcp_status_t where "SMCP_STATUS_ERRNO \<equiv> - 5"
abbreviation (input) SMCP_STATUS_MALLOC_FAILURE :: smcp_status_t where "SMCP_STATUS_MALLOC_FAILURE \<equiv> - 6"
abbreviation (input) SMCP_STATUS_TRANSACTION_INVALIDATED :: smcp_status_t where
  "SMCP_STATUS_TRANSACTION_INVALIDATED \<equiv> - 7"
abbreviation (input) SMCP_STATUS_TIMEOUT :: smcp_status_t where "SMCP_STATUS_TIMEOUT \<equiv> - 8"
abbreviation (input) SMCP_STATUS_NOT_IMPLEMENTED :: smcp_status_t where "SMCP_STATUS_NOT_IMPLEMENTED \<equiv> - 9"
abbreviation (input) SMCP_STATUS_NOT_FOUND :: smcp_status_t where "SMCP_STATUS_NOT_FOUND \<equiv> - 10"
abbreviation (input) SMCP_STATUS_H_ERRNO :: smcp_status_t where "SMCP_STATUS_H_ERRNO \<equiv> - 11"
abbreviation (input) SMCP_STATUS_RESPONSE_NOT_ALLOWED :: smcp_status_t where
  "SMCP_STATUS_RESPONSE_NOT_ALLOWED \<equiv> - 12"
abbreviation (input) SMCP_STATUS_BAD_HOSTNAME :: smcp_status_t where "SMCP_STATUS_BAD_HOSTNAME \<equiv> - 13"
abbreviation (input) SMCP_STATUS_LOOP_DETECTED :: smcp_status_t where "SMCP_STATUS_LOOP_DETECTED \<equiv> - 14"
abbreviation (input) SMCP_STATUS_BAD_ARGUMENT :: smcp_status_t where "SMCP_STATUS_BAD_ARGUMENT \<equiv> - 15"
abbreviation (input) SMCP_STATUS_HOST_LOOKUP_FAILURE :: smcp_status_t where
  "SMCP_STATUS_HOST_LOOKUP_FAILURE \<equiv> - 16"
abbreviation (input) SMCP_STATUS_MESSAGE_TOO_BIG :: smcp_status_t where "SMCP_STATUS_MESSAGE_TOO_BIG \<equiv> - 17"
abbreviation (input) SMCP_STATUS_NOT_ALLOWED :: smcp_status_t where "SMCP_STATUS_NOT_ALLOWED \<equiv> - 18"
abbreviation (input) SMCP_STATUS_URI_PARSE_FAILURE :: smcp_status_t where "SMCP_STATUS_URI_PARSE_FAILURE \<equiv> - 19"
abbreviation (input) SMCP_STATUS_WAIT_FOR_DNS :: smcp_status_t where "SMCP_STATUS_WAIT_FOR_DNS \<equiv> - 20"
abbreviation (input) SMCP_STATUS_BAD_OPTION :: smcp_status_t where "SMCP_STATUS_BAD_OPTION \<equiv> - 21"
abbreviation (input) SMCP_STATUS_DUPE :: smcp_status_t where "SMCP_STATUS_DUPE \<equiv> - 22"
abbreviation (input) SMCP_STATUS_RESET :: smcp_status_t where "SMCP_STATUS_RESET \<equiv> - 23"
abbreviation (input) SMCP_STATUS_ASYNC_RESPONSE :: smcp_status_t where "SMCP_STATUS_ASYNC_RESPONSE \<equiv> - 24"
abbreviation (input) SMCP_STATUS_UNAUTHORIZED :: smcp_status_t where "SMCP_STATUS_UNAUTHORIZED \<equiv> - 25"
abbreviation (input) SMCP_STATUS_BAD_PACKET :: smcp_status_t where "SMCP_STATUS_BAD_PACKET \<equiv> - 26"

section \<open>Printing a status\<close>

definition smcp_status_names :: "(smcp_status_t \<times> string) list" where
  "smcp_status_names =
     [(SMCP_STATUS_OK, ''OK''), (SMCP_STATUS_HOST_LOOKUP_FAILURE, ''Hostname Lookup Failure''),
      (SMCP_STATUS_FAILURE, ''Unspecified Failure''), (SMCP_STATUS_INVALID_ARGUMENT, ''Invalid Argument''),
      (SMCP_STATUS_UNSUPPORTED_URI, ''Unsupported URI''), (SMCP_STATUS_MALLOC_FAILURE, ''Malloc Failure''),
      (SMCP_STATUS_TRANSACTION_INVALIDATED, ''Handler Invalidated''), (SMCP_STATUS_TIMEOUT, ''Timeout''),
      (SMCP_STATUS_NOT_IMPLEMENTED, ''Not Implemented''), (SMCP_STATUS_NOT_FOUND, ''Not Found''),
      (SMCP_STATUS_H_ERRNO, ''HERRNO''), (SMCP_STATUS_RESPONSE_NOT_ALLOWED, ''Response not allowed''),
      (SMCP_STATUS_LOOP_DETECTED, ''Loop detected''), (SMCP_STATUS_BAD_ARGUMENT, ''Bad Argument''),
      (SMCP_STATUS_MESSAGE_TOO_BIG, ''Message Too Big''), (SMCP_STATUS_NOT_ALLOWED, ''Not Allowed''),
      (SMCP_STATUS_BAD_OPTION, ''Bad Option''), (SMCP_STATUS_DUPE, ''Duplicate''),
      (SMCP_STATUS_RESET, ''Transaction Reset''), (SMCP_STATUS_URI_PARSE_FAILURE, ''URI Parse Failure'')]"

text \<open>\<^verbatim>\<open>%d\<close> of \<^verbatim>\<open>printf\<close>, and \<^verbatim>\<open>smcp_status_to_cstr\<close>; \<open>strerror\<close> is the text of the current \<^verbatim>\<open>errno\<close>.\<close>

definition dec_int :: "int \<Rightarrow> string" where
  "dec_int x = (if x < 0 then CHR ''-'' # dec_string (nat (- x)) else dec_string (nat x))"

definition smcp_status_to_cstr :: "string \<Rightarrow> smcp_status_t \<Rightarrow> string" where
  "smcp_status_to_cstr strerror x =
     (case map_of smcp_status_names x of
        Some s \<Rightarrow> s
      | None \<Rightarrow>
          if x = SMCP_STATUS_ERRNO then strerror
          else ''Unknown Status ('' @ dec_int x @ '')'')"

section \<open>The result code of a status\<close>

definition smcp_convert_status_to_result_code :: "smcp_status_t \<Rightarrow> u16" where
  "smcp_convert_status_to_result_code status =
     word_of_nat
      (if status = SMCP_STATUS_OK then HTTP_TO_COAP_CODE 200
       else if status = SMCP_STATUS_NOT_FOUND then HTTP_TO_COAP_CODE 404
       else if status = SMCP_STATUS_NOT_IMPLEMENTED then HTTP_TO_COAP_CODE 501
       else if status = SMCP_STATUS_NOT_ALLOWED then HTTP_TO_COAP_CODE 405
       else if status = SMCP_STATUS_UNSUPPORTED_URI then HTTP_TO_COAP_CODE 400
       else if status = SMCP_STATUS_BAD_OPTION then HTTP_TO_COAP_CODE 402
       else HTTP_TO_COAP_CODE 500)"

text \<open>The text of any unknown status fits with its terminator into the 30 bytes of its buffer.\<close>

lemma unknown_status_fits:
  assumes "- (2 ^ 31) \<le> x" "x < 2 ^ 31"
  shows "length (''Unknown Status ('' @ dec_int x @ '')'') < 30"
proof -
  have "length (dec_string n) \<le> 10" if "n \<le> 2 ^ 31" for n
    using that by (intro dec_string_length) simp_all
  from this [of "nat x"] this [of "nat (- x)"] have "length (dec_int x) \<le> 11"
    using assms by (auto simp: dec_int_def nat_le_iff)
  then show ?thesis by simp
qed

section \<open>Properties\<close>

text \<open>
  The answer to a handler's status is well formed: every status is turned into a result code
  of class 2, 4 or 5 with a name of its own in the result code table, and only
  \<^verbatim>\<open>SMCP_STATUS_OK\<close> is turned into a success.
\<close>

theorem status_result_code:
  "let code = smcp_convert_status_to_result_code status in
     unat code div 32 \<in> {2, 4, 5} \<and> (unat code div 32 = 2 \<longleftrightarrow> status = SMCP_STATUS_OK) \<and>
     coap_code_to_cstr (int (unat code)) \<noteq> ''UNKNOWN''"
  by (simp add: smcp_convert_status_to_result_code_def coap_code_to_cstr_def http_code_to_cstr_def
      http_code_names_def coap_to_http_code_def Let_def)

end
