(* ===== verification/Timer.thy ===== *)
theory Timer
  imports Ll Smcp_Status "HOL-Library.Signed_Division"
begin

text \<open>
  The timers of \<^verbatim>\<open>src/smcp/smcp-timer.c\<close>: a list of timers sorted by firing date, with the
  conversions between absolute times and the 32-bit millisecond counts of \<^verbatim>\<open>cms_t\<close>. The current
  time read by \<^verbatim>\<open>gettimeofday\<close> is an argument of the operations that read it. The callback of a
  timer is called as the last action of \<^verbatim>\<open>smcp_handle_timers\<close>, and the cancel callback as the last
  action of \<^verbatim>\<open>smcp_invalidate_timer\<close>; the operations return the call that remains to be made.
\<close>

section \<open>Times\<close>

record timeval =
  tv_sec :: int
  tv_usec :: int

text \<open>The conversion to \<^verbatim>\<open>int32_t\<close>.\<close>

abbreviation to_cms :: "int \<Rightarrow> int" where "to_cms x \<equiv> signed_take_bit 31 x"

definition MSEC_PER_SEC :: int where "MSEC_PER_SEC = 1000"
definition USEC_PER_MSEC :: int where "USEC_PER_MSEC = 1000"
definition USEC_PER_SEC :: int where "USEC_PER_SEC = 1000000"

lemmas time_units = MSEC_PER_SEC_def USEC_PER_MSEC_def USEC_PER_SEC_def

definition SMCP_MAX_TIMEOUT :: int where "SMCP_MAX_TIMEOUT = 30 * 1000"

definition convert_cms_to_timeval :: "timeval \<Rightarrow> int \<Rightarrow> timeval" where
  "convert_cms_to_timeval now cms =
     (let sec = tv_sec now + cms sdiv MSEC_PER_SEC;
          cms = cms - (cms sdiv MSEC_PER_SEC) * MSEC_PER_SEC;
          usec = tv_usec now + (cms smod MSEC_PER_SEC) * MSEC_PER_SEC
      in \<lparr>tv_sec = sec + usec sdiv USEC_PER_SEC, tv_usec = usec smod USEC_PER_SEC\<rparr>)"

definition period_between_timevals_in_cms :: "timeval \<Rightarrow> timeval \<Rightarrow> int" where
  "period_between_timevals_in_cms lhs rhs =
     (let ret = to_cms (to_cms (tv_sec lhs - tv_sec rhs) * MSEC_PER_SEC)
      in to_cms (ret + to_cms (tv_usec lhs - tv_usec rhs) sdiv USEC_PER_MSEC))"

definition convert_timeval_to_cms :: "timeval \<Rightarrow> timeval \<Rightarrow> int" where
  "convert_timeval_to_cms now tv =
     (let ret = period_between_timevals_in_cms tv now in if ret < 0 then 0 else ret)"

section \<open>Timers\<close>

record 'cb timers_s =
  t_ll :: ll_heap
  t_fire_date :: "addr \<Rightarrow> timeval"
  t_context :: "addr \<Rightarrow> addr option"
  t_callback :: "addr \<Rightarrow> 'cb option"
  t_cancel :: "addr \<Rightarrow> 'cb option"
  timers :: "addr option"

definition smcp_timer_compare_func :: "(addr \<Rightarrow> timeval) \<Rightarrow> addr \<Rightarrow> addr \<Rightarrow> int" where
  "smcp_timer_compare_func fire lhs rhs =
     (if tv_sec (fire lhs) > tv_sec (fire rhs) then 1
      else if tv_sec (fire lhs) < tv_sec (fire rhs) then - 1
      else if tv_usec (fire lhs) > tv_usec (fire rhs) then 1
      else if tv_usec (fire lhs) < tv_usec (fire rhs) then - 1
      else 0)"

definition smcp_timer_init ::
    "addr \<Rightarrow> 'cb option \<Rightarrow> 'cb option \<Rightarrow> addr option \<Rightarrow> 'cb timers_s \<Rightarrow> 'cb timers_s" where
  "smcp_timer_init timer callback cancel context self =
     self\<lparr>t_ll := set_prev timer None (set_next timer None (t_ll self)),
          t_fire_date := (t_fire_date self)(timer := \<lparr>tv_sec = 0, tv_usec = 0\<rparr>),
          t_context := (t_context self)(timer := context),
          t_callback := (t_callback self)(timer := callback),
          t_cancel := (t_cancel self)(timer := cancel)\<rparr>"

definition smcp_timer_is_scheduled :: "'cb timers_s \<Rightarrow> addr \<Rightarrow> bool" where
  "smcp_timer_is_scheduled self timer \<longleftrightarrow>
     ll_next (t_ll self) timer \<noteq> None \<or> ll_prev (t_ll self) timer \<noteq> None \<or> timers self = Some timer"

definition smcp_schedule_timer ::
    "timeval \<Rightarrow> 'cb timers_s \<Rightarrow> addr \<Rightarrow> int \<Rightarrow> (smcp_status_t \<times> 'cb timers_s) option" where
  "smcp_schedule_timer now self timer cms =
     (if ll_next (t_ll self) timer \<noteq> None \<or> ll_prev (t_ll self) timer \<noteq> None \<or> timers self = Some timer
      then Some (SMCP_STATUS_FAILURE, self)
      else do {
        let cms = (if cms < 0 then 0 else cms);
        let fire = (t_fire_date self)(timer := convert_cms_to_timeval now cms);
        (list, h) \<leftarrow> ll_sorted_insert (smcp_timer_compare_func fire) (timers self) timer (t_ll self);
        Some (SMCP_STATUS_OK, self\<lparr>t_fire_date := fire, t_ll := h, timers := list\<rparr>)
      })"

definition smcp_invalidate_timer ::
    "'cb timers_s \<Rightarrow> addr \<Rightarrow> 'cb timers_s \<times> ('cb \<times> addr option) option" where
  "smcp_invalidate_timer self timer =
     (let (list, h) = ll_remove (timers self) timer (t_ll self);
          h = set_prev timer None (set_next timer None h)
      in (self\<lparr>timers := list, t_ll := h\<rparr>,
          map_option (\<lambda>cancel. (cancel, t_context self timer)) (t_cancel self timer)))"

definition smcp_get_timeout :: "timeval \<Rightarrow> 'cb timers_s \<Rightarrow> int" where
  "smcp_get_timeout now self =
     (let ret = (case timers self of
                   None \<Rightarrow> SMCP_MAX_TIMEOUT
                 | Some t \<Rightarrow> min SMCP_MAX_TIMEOUT (convert_timeval_to_cms now (t_fire_date self t)))
      in max ret 0)"

text \<open>
  \<^verbatim>\<open>smcp_handle_timers\<close>: the cancel callback is cleared before the timer is invalidated. The results
  are the call that \<^verbatim>\<open>smcp_invalidate_timer\<close> makes and, after it, the call of the callback itself.
\<close>

definition smcp_handle_timers ::
    "timeval \<Rightarrow> 'cb timers_s \<Rightarrow>
     'cb timers_s \<times> ('cb \<times> addr option) option \<times> ('cb \<times> addr option) option" where
  "smcp_handle_timers now self =
     (case timers self of
        None \<Rightarrow> (self, None, None)
      | Some timer \<Rightarrow>
          if convert_timeval_to_cms now (t_fire_date self timer) \<le> 0
          then let callback = t_callback self timer;
                   context = t_context self timer;
                   self = self\<lparr>t_cancel := (t_cancel self)(timer := None)\<rparr>;
                   (self, cancel) = smcp_invalidate_timer self timer
               in (self, cancel, map_option (\<lambda>cb. (cb, context)) callback)
          else (self, None, None))"

section \<open>The order of timers\<close>

definition tv_le :: "timeval \<Rightarrow> timeval \<Rightarrow> bool" where
  "tv_le a b \<longleftrightarrow> tv_sec a < tv_sec b \<or> tv_sec a = tv_sec b \<and> tv_usec a \<le> tv_usec b"

lemma compare_ge_0: "0 \<le> smcp_timer_compare_func fire a b \<longleftrightarrow> tv_le (fire b) (fire a)"
  by (auto simp: smcp_timer_compare_func_def tv_le_def)

interpretation timer_order: ll_order "smcp_timer_compare_func fire" for fire
proof
  show "smcp_timer_compare_func fire a b < 0 \<longleftrightarrow> 0 < smcp_timer_compare_func fire b a" for a b
    by (auto simp: smcp_timer_compare_func_def)
  show "0 \<le> smcp_timer_compare_func fire a b \<Longrightarrow> 0 \<le> smcp_timer_compare_func fire b c \<Longrightarrow>
      0 \<le> smcp_timer_compare_func fire a c" for a b c
    by (auto simp: compare_ge_0 tv_le_def)
qed

text \<open>
  The state holds the timers \<open>ts\<close> in the order of their firing dates, and every other timer is
  unlinked.
\<close>

definition timers_inv :: "'cb timers_s \<Rightarrow> addr list \<Rightarrow> bool" where
  "timers_inv self ts \<longleftrightarrow>
     is_list (t_ll self) (timers self) ts \<and>
     sorted_wrt (\<lambda>a b. tv_le (t_fire_date self a) (t_fire_date self b)) ts \<and>
     (\<forall>t. t \<notin> set ts \<longrightarrow> ll_next (t_ll self) t = None \<and> ll_prev (t_ll self) t = None)"

lemma scheduled_iff:
  assumes "timers_inv self ts"
  shows "smcp_timer_is_scheduled self t \<longleftrightarrow> t \<in> set ts"
proof
  assume "t \<in> set ts"
  then obtain us vs where ts: "ts = us @ t # vs" by (meson split_list)
  have l: "is_list (t_ll self) (timers self) (us @ t # vs)" using assms by (simp add: timers_inv_def ts)
  from is_list_neighbours [OF l] is_list_head [OF l] show "smcp_timer_is_scheduled self t"
    by (cases us) (auto simp: smcp_timer_is_scheduled_def)
next
  assume s: "smcp_timer_is_scheduled self t"
  show "t \<in> set ts"
  proof (rule ccontr)
    assume "t \<notin> set ts"
    with s assms have "timers self = Some t" by (auto simp: smcp_timer_is_scheduled_def timers_inv_def)
    with assms \<open>t \<notin> set ts\<close> show False
      by (auto simp: timers_inv_def dest!: is_list_head split: if_splits)
  qed
qed

lemma schedule_new:
  fixes self :: "'cb timers_s" and now cms
  assumes "timers_inv self ts" "t \<notin> set ts"
  defines "fire \<equiv> (t_fire_date self)(t := convert_cms_to_timeval now (max 0 cms))"
  shows "\<exists>list h. smcp_schedule_timer now self t cms =
      Some (SMCP_STATUS_OK, self\<lparr>t_fire_date := fire, t_ll := h, timers := list\<rparr>) \<and>
    timers_inv (self\<lparr>t_fire_date := fire, t_ll := h, timers := list\<rparr>)
      (insert_place (smcp_timer_compare_func fire) t ts)"
proof -
  have un: "\<not> smcp_timer_is_scheduled self t" using scheduled_iff [OF assms(1)] assms(2) by blast
  have fire: "(t_fire_date self)(t := convert_cms_to_timeval now (if cms < 0 then 0 else cms)) = fire"
    by (simp add: fire_def max_def)
  obtain list h where ins: "ll_sorted_insert (smcp_timer_compare_func fire) (timers self) t (t_ll self) = Some (list, h)"
      "is_list h list (insert_place (smcp_timer_compare_func fire) t ts)"
      and frame: "\<forall>y. y \<notin> set ts \<longrightarrow> y \<noteq> t \<longrightarrow>
        ll_next h y = ll_next (t_ll self) y \<and> ll_prev h y = ll_prev (t_ll self) y"
    using ll_sorted_insert_list [of "t_ll self" "timers self" ts t "smcp_timer_compare_func fire"]
      assms(1,2) un unfolding timers_inv_def smcp_timer_is_scheduled_def by blast
  have "sorted_wrt (\<lambda>a b. tv_le (fire a) (fire b)) ts"
    using assms(1,2) by (auto simp: timers_inv_def fire_def intro: sorted_wrt_mono_rel [rotated])
  then have "sorted_wrt (\<lambda>a b. tv_le (fire a) (fire b)) (insert_place (smcp_timer_compare_func fire) t ts)"
    using timer_order.insert_place_sorted [of fire ts t] by (simp add: timer_order.ll_sorted_def compare_ge_0)
  moreover have "ll_next h x = None \<and> ll_prev h x = None" if "x \<notin> insert t (set ts)" for x
    using that frame assms(1) by (auto simp: timers_inv_def)
  ultimately show ?thesis
    using un ins
    by (auto simp: smcp_schedule_timer_def smcp_timer_is_scheduled_def timers_inv_def fire set_insert_place
        Let_def)
qed

lemma invalidate_list:
  assumes "timers_inv self ts" "t \<in> set ts"
  shows "timers_inv (fst (smcp_invalidate_timer self t)) (remove1 t ts)"
proof -
  obtain us vs where ts: "ts = us @ t # vs" "t \<notin> set us" using assms(2) by (meson split_list_first)
  obtain list h where rm: "ll_remove (timers self) t (t_ll self) = (list, h)" by fastforce
  let ?h = "set_prev t None (set_next t None h)"
  have l: "is_list (t_ll self) (timers self) (us @ t # vs)" using assms(1) by (simp add: timers_inv_def ts)
  then have d: "t \<notin> set (us @ vs)" by (auto simp: is_list_def)
  have "is_list h list (us @ vs)" by (rule ll_remove_list [OF l rm])
  then have "is_list ?h list (us @ vs)" using d unfolding is_list_def by (simp add: segment_frame del: segment_append)
  moreover have "ll_next ?h x = None \<and> ll_prev ?h x = None" if "x \<notin> set (us @ vs)" for x
    using that assms(1) ll_remove_frame [OF l rm, of x]
    by (cases "x = t") (auto simp: timers_inv_def ts)
  moreover have "sorted_wrt (\<lambda>a b. tv_le (t_fire_date self a) (t_fire_date self b)) (us @ vs)"
    using assms(1) by (auto simp: timers_inv_def ts sorted_wrt_append)
  moreover have "remove1 t ts = us @ vs" using ts by (simp add: remove1_append)
  ultimately show ?thesis by (simp add: smcp_invalidate_timer_def rm timers_inv_def)
qed

section \<open>Conversions\<close>

lemma sdiv_nonneg: "0 \<le> (a :: int) \<Longrightarrow> 0 < b \<Longrightarrow> a sdiv b = a div b"
  by (cases "a = 0") (simp_all add: signed_divide_int_def)

lemma smod_nonneg: "0 \<le> (a :: int) \<Longrightarrow> 0 < b \<Longrightarrow> a smod b = a mod b"
  by (cases "a = 0") (simp_all add: signed_modulo_int_def)

lemma sdiv_exact: "0 < b \<Longrightarrow> (k * b) sdiv b = (k :: int)"
  by (simp add: signed_divide_int_def abs_mult sgn_mult sgn_mult_abs)

text \<open>The firing date of a delay, in microseconds.\<close>

definition tv_micros :: "timeval \<Rightarrow> int" where "tv_micros tv = tv_sec tv * 1000000 + tv_usec tv"

definition tv_ok :: "timeval \<Rightarrow> bool" where "tv_ok tv \<longleftrightarrow> 0 \<le> tv_usec tv \<and> tv_usec tv < 1000000"

lemma convert_cms_exact:
  assumes "0 \<le> cms" "tv_ok now"
  shows "tv_micros (convert_cms_to_timeval now cms) = tv_micros now + cms * 1000"
    and "tv_ok (convert_cms_to_timeval now cms)"
proof -
  let ?c = "cms mod 1000" and ?u = "tv_usec now + (cms mod 1000) * 1000"
  have c: "cms - cms div 1000 * 1000 = ?c" by (simp add: minus_div_mult_eq_mod)
  have u: "0 \<le> ?u" using assms(2) by (simp add: tv_ok_def)
  have conv: "convert_cms_to_timeval now cms =
      \<lparr>tv_sec = tv_sec now + cms div 1000 + ?u div 1000000, tv_usec = ?u mod 1000000\<rparr>"
    using assms(1) u by (simp add: convert_cms_to_timeval_def time_units sdiv_nonneg smod_nonneg c Let_def)
  have "?u div 1000000 * 1000000 + ?u mod 1000000 = ?u" by (rule div_mult_mod_eq)
  moreover have "cms div 1000 * 1000 + ?c = cms" by (rule div_mult_mod_eq)
  moreover have "q * 1000000 + r = u + b * 1000 \<Longrightarrow> a * 1000 + b = c \<Longrightarrow>
      (s + a + q) * 1000000 + r = s * 1000000 + u + c * 1000" for q r u a b c s :: int by simp
  ultimately have "(tv_sec now + cms div 1000 + ?u div 1000000) * 1000000 + ?u mod 1000000 =
      tv_sec now * 1000000 + tv_usec now + cms * 1000" by blast
  then show "tv_micros (convert_cms_to_timeval now cms) = tv_micros now + cms * 1000"
    by (simp only: conv tv_micros_def timeval.simps)
  show "tv_ok (convert_cms_to_timeval now cms)" by (simp add: conv tv_ok_def)
qed

lemma period_exact:
  assumes "tv_ok a" "tv_ok b" "tv_micros a = tv_micros b + cms * 1000" "- (2 ^ 31) \<le> cms" "cms < 2 ^ 31"
  shows "period_between_timevals_in_cms a b = cms"
proof -
  define s u where "s = tv_sec a - tv_sec b" and "u = tv_usec a - tv_usec b"
  have eq: "s * 1000000 + u = cms * 1000" using assms(3) by (simp add: s_def u_def tv_micros_def algebra_simps)
  then have u: "u = (cms - s * 1000) * 1000" by simp
  have "- 1000000 < u" "u < 1000000" using assms(1,2) by (auto simp: tv_ok_def u_def)
  then have "to_cms u = u" by (intro signed_take_bit_int_eq_self) simp_all
  moreover have "u sdiv 1000 = cms - s * 1000" unfolding u by (rule sdiv_exact) simp
  moreover have "to_cms (to_cms (to_cms s * 1000) + (cms - s * 1000)) = to_cms cms"
  proof -
    have "to_cms (to_cms s * 1000) = to_cms (s * 1000)"
      by (metis signed_take_bit_mult signed_take_bit_signed_take_bit min.idem)
    then have "to_cms (to_cms (to_cms s * 1000) + (cms - s * 1000)) = to_cms (s * 1000 + (cms - s * 1000))"
      by (metis signed_take_bit_add signed_take_bit_signed_take_bit min.idem)
    then show ?thesis by simp
  qed
  moreover have "to_cms cms = cms" using assms(4,5) by (intro signed_take_bit_int_eq_self) simp_all
  ultimately show ?thesis
    by (simp add: period_between_timevals_in_cms_def time_units s_def u_def)
qed

text \<open>A state with the single timer 1, due at time 0.\<close>

definition one_timer :: "nat timers_s" where
  "one_timer = \<lparr>t_ll = \<lparr>ll_next = \<lambda>_. None, ll_prev = \<lambda>_. None\<rparr>,
     t_fire_date = \<lambda>_. \<lparr>tv_sec = 0, tv_usec = 0\<rparr>, t_context = \<lambda>_. Some 7, t_callback = \<lambda>_. Some 3,
     t_cancel = \<lambda>_. Some 4, timers = Some 1\<rparr>"

lemma one_timer_inv: "timers_inv one_timer [1]"
  by (simp add: timers_inv_def one_timer_def is_list_def)

section \<open>Properties\<close>

text \<open>
  C27: The timer list is sorted by firing date: on a state whose list holds the timers \<open>ts\<close> in the
  order of their dates, scheduling a timer that is already scheduled fails and changes nothing,
  and scheduling any other timer succeeds, gives it the date \<open>cms\<close> milliseconds from now (now, for
  a negative delay), and puts it behind every timer that fires no later, at the same place in the
  list as in the doubly linked heap, with all other timers left linked as they were.
\<close>

theorem schedule_timer_sorted:
  assumes "timers_inv self ts"
  shows "\<exists>ret self'. smcp_schedule_timer now self t cms = Some (ret, self') \<and>
    (if t \<in> set ts then ret = SMCP_STATUS_FAILURE \<and> self' = self
     else ret = SMCP_STATUS_OK \<and> t_fire_date self' t = convert_cms_to_timeval now (max 0 cms) \<and>
       timers_inv self' (takeWhile (\<lambda>x. tv_le (t_fire_date self' x) (t_fire_date self' t)) ts @ t
         # dropWhile (\<lambda>x. tv_le (t_fire_date self' x) (t_fire_date self' t)) ts))"
proof (cases "t \<in> set ts")
  case True
  with scheduled_iff [OF assms, of t] show ?thesis
    by (auto simp: smcp_schedule_timer_def smcp_timer_is_scheduled_def)
next
  case False
  from schedule_new [OF assms this, of now cms] show ?thesis
    using False by (auto simp: insert_place_def compare_ge_0)
qed

lemma schedule_timer_sorted_witness:
  "\<exists>ret self'. smcp_schedule_timer \<lparr>tv_sec = 5, tv_usec = 0\<rparr> one_timer 2 (- 3) = Some (ret, self') \<and>
    (if 2 \<in> set [1 :: nat] then ret = SMCP_STATUS_FAILURE \<and> self' = one_timer
     else ret = SMCP_STATUS_OK \<and>
       t_fire_date self' 2 = convert_cms_to_timeval \<lparr>tv_sec = 5, tv_usec = 0\<rparr> (max 0 (- 3)) \<and>
       timers_inv self' (takeWhile (\<lambda>x. tv_le (t_fire_date self' x) (t_fire_date self' 2)) [1] @ 2
         # dropWhile (\<lambda>x. tv_le (t_fire_date self' x) (t_fire_date self' 2)) [1]))"
  by (rule schedule_timer_sorted) (rule one_timer_inv)

text \<open>
  \<^verbatim>\<open>smcp_timer_is_scheduled\<close> tells the truth, and \<^verbatim>\<open>smcp_invalidate_timer\<close> takes a scheduled
  timer, and no other, out of the list; afterwards the timer can be scheduled again. Its cancel
  callback is called with its context.
\<close>

theorem invalidate_timer_removes:
  assumes "timers_inv self ts" "t \<in> set ts" "smcp_invalidate_timer self t = (self', call)"
  shows "smcp_timer_is_scheduled self t \<and> \<not> smcp_timer_is_scheduled self' t \<and>
    timers_inv self' (remove1 t ts) \<and>
    (\<forall>x. x \<noteq> t \<longrightarrow> smcp_timer_is_scheduled self' x = smcp_timer_is_scheduled self x) \<and>
    call = map_option (\<lambda>cb. (cb, t_context self t)) (t_cancel self t)"
proof -
  have inv: "timers_inv self' (remove1 t ts)" using invalidate_list [OF assms(1,2)] assms(3) by simp
  have d: "distinct ts" using assms(1) by (auto simp: timers_inv_def is_list_def)
  have "call = map_option (\<lambda>cb. (cb, t_context self t)) (t_cancel self t)"
    using assms(3) by (auto simp: smcp_invalidate_timer_def split: prod.splits)
  with inv d assms(2) show ?thesis
    by (auto simp: scheduled_iff [OF inv] scheduled_iff [OF assms(1)])
qed

lemma invalidate_timer_removes_witness:
  "\<not> smcp_timer_is_scheduled (fst (smcp_invalidate_timer one_timer 1)) 1 \<and>
   snd (smcp_invalidate_timer one_timer 1) = Some (4, Some 7)"
  using invalidate_timer_removes [OF one_timer_inv, of 1 "fst (smcp_invalidate_timer one_timer 1)"
      "snd (smcp_invalidate_timer one_timer 1)"]
  by (simp add: one_timer_def)

text \<open>
  Delays survive the conversion to an absolute time and back: for every delay that a 32-bit
  millisecond count can hold, \<^verbatim>\<open>convert_timeval_to_cms\<close> of the date that \<^verbatim>\<open>convert_cms_to_timeval\<close>
  computed is the delay, although the intermediate product of seconds and 1000 may overflow.
\<close>

theorem cms_timeval_roundtrip:
  assumes "0 \<le> cms" "cms < 2 ^ 31" "tv_ok now"
  shows "convert_timeval_to_cms now (convert_cms_to_timeval now cms) = cms"
  using period_exact [OF convert_cms_exact(2) [OF assms(1,3)] assms(3) convert_cms_exact(1) [OF assms(1,3)]]
    assms(1,2)
  by (simp add: convert_timeval_to_cms_def)

lemma cms_timeval_roundtrip_witness:
  "convert_timeval_to_cms \<lparr>tv_sec = 1700000000, tv_usec = 999999\<rparr>
     (convert_cms_to_timeval \<lparr>tv_sec = 1700000000, tv_usec = 999999\<rparr> 2147483647) = 2147483647"
  by (rule cms_timeval_roundtrip) (simp_all add: tv_ok_def)

text \<open>
  C28: \<^verbatim>\<open>smcp_handle_timers\<close> fires the earliest timer and only when it is due: if no timer is
  scheduled or the first one lies in the future, nothing changes and nothing is called; otherwise
  the first timer, which fires no later than any other, is unlinked, its callback is called
  with its context, its cancel callback is not, and all others stay scheduled in order.
\<close>

theorem handle_timers_fires_earliest:
  assumes "timers_inv self ts" "smcp_handle_timers now self = (self', cancel, call)"
  shows "cancel = None \<and> (case ts of
      [] \<Rightarrow> self' = self \<and> call = None
    | t # rest \<Rightarrow>
        if 0 < convert_timeval_to_cms now (t_fire_date self t) then self' = self \<and> call = None
        else timers_inv self' rest \<and> \<not> smcp_timer_is_scheduled self' t \<and>
          (\<forall>u \<in> set rest. tv_le (t_fire_date self t) (t_fire_date self u)) \<and>
          call = map_option (\<lambda>cb. (cb, t_context self t)) (t_callback self t))"
proof (cases ts)
  case Nil
  with assms show ?thesis by (auto simp: smcp_handle_timers_def timers_inv_def is_list_def)
next
  case (Cons t rest)
  then have head: "timers self = Some t" using assms(1) by (auto simp: timers_inv_def is_list_def)
  let ?s = "self\<lparr>t_cancel := (t_cancel self)(t := None)\<rparr>"
  have "timers_inv ?s ts" using assms(1) by (simp add: timers_inv_def)
  from invalidate_list [OF this, of t] have inv: "timers_inv (fst (smcp_invalidate_timer ?s t)) rest"
    by (simp add: Cons)
  have "t \<notin> set rest" "\<forall>u \<in> set rest. tv_le (t_fire_date self t) (t_fire_date self u)"
    using assms(1) by (auto simp: Cons timers_inv_def is_list_def)
  with inv assms(2) head show ?thesis
    by (auto simp: smcp_handle_timers_def smcp_invalidate_timer_def Cons Let_def dest: scheduled_iff [THEN iffD1]
        split: prod.splits if_splits)
qed

lemma handle_timers_fires_earliest_witness:
  "timers_inv (fst (smcp_handle_timers \<lparr>tv_sec = 1, tv_usec = 0\<rparr> one_timer)) [] \<and>
   snd (smcp_handle_timers \<lparr>tv_sec = 1, tv_usec = 0\<rparr> one_timer) = (None, Some (3, Some 7))"
  using handle_timers_fires_earliest [OF one_timer_inv, of "\<lparr>tv_sec = 1, tv_usec = 0\<rparr>"
      "fst (smcp_handle_timers \<lparr>tv_sec = 1, tv_usec = 0\<rparr> one_timer)"
      "fst (snd (smcp_handle_timers \<lparr>tv_sec = 1, tv_usec = 0\<rparr> one_timer))"
      "snd (snd (smcp_handle_timers \<lparr>tv_sec = 1, tv_usec = 0\<rparr> one_timer))"]
  by (simp add: prod_eq_iff one_timer_def convert_timeval_to_cms_def period_between_timevals_in_cms_def time_units)

text \<open>
  The time the main loop may sleep is between zero and thirty seconds, it is zero exactly when
  the next call of \<^verbatim>\<open>smcp_handle_timers\<close> has a timer to fire, and otherwise it does not run past the
  date of the first timer.
\<close>

theorem get_timeout_bounds:
  "0 \<le> smcp_get_timeout now self \<and> smcp_get_timeout now self \<le> 30000 \<and>
   (smcp_get_timeout now self = 0 \<longleftrightarrow>
     (\<exists>t. timers self = Some t \<and> convert_timeval_to_cms now (t_fire_date self t) \<le> 0)) \<and>
   (case timers self of None \<Rightarrow> smcp_get_timeout now self = 30000
    | Some t \<Rightarrow> smcp_get_timeout now self \<le> convert_timeval_to_cms now (t_fire_date self t))"
proof -
  have "0 \<le> convert_timeval_to_cms now tv" for tv by (simp add: convert_timeval_to_cms_def Let_def)
  then show ?thesis
    by (auto simp: smcp_get_timeout_def SMCP_MAX_TIMEOUT_def max_def min_def Let_def split: option.splits)
qed

end
