(* ===== verification/Btree.thy ===== *)
theory Btree
  imports Ll "HOL-Library.Tree"
begin

text \<open>
  The intrusive binary trees of \<^verbatim>\<open>src/smcp/btree.c\<close>. Items are addresses; the heap holds the three
  pointer fields of every item. A \<^verbatim>\<open>void**\<close> of the code points either to the root variable or to a
  child field of an item. A comparison function is given with its second argument and its context
  applied: the sign of \<open>cmp x\<close> tells how the item \<open>x\<close> of the tree compares with the item or key
  looked for. The delete function is called last, so that the operations return the item it is
  called on.
\<close>

section \<open>Items and slots\<close>

record bt_heap =
  bt_root :: "addr option"
  bt_lhs :: "addr \<Rightarrow> addr option"
  bt_rhs :: "addr \<Rightarrow> addr option"
  bt_parent :: "addr \<Rightarrow> addr option"

datatype bt_slot = Root | Lhs addr | Rhs addr

fun bt_get :: "bt_heap \<Rightarrow> bt_slot \<Rightarrow> addr option" where
  "bt_get h Root = bt_root h"
| "bt_get h (Lhs x) = bt_lhs h x"
| "bt_get h (Rhs x) = bt_rhs h x"

fun bt_put :: "bt_slot \<Rightarrow> addr option \<Rightarrow> bt_heap \<Rightarrow> bt_heap" where
  "bt_put Root v h = h\<lparr>bt_root := v\<rparr>"
| "bt_put (Lhs x) v h = h\<lparr>bt_lhs := (bt_lhs h)(x := v)\<rparr>"
| "bt_put (Rhs x) v h = h\<lparr>bt_rhs := (bt_rhs h)(x := v)\<rparr>"

definition bt_set_parent :: "addr \<Rightarrow> addr option \<Rightarrow> bt_heap \<Rightarrow> bt_heap" where
  "bt_set_parent x v h = h\<lparr>bt_parent := (bt_parent h)(x := v)\<rparr>"

text \<open>\<^verbatim>\<open>if(p) p->parent = v\<close>\<close>

definition bt_adopt :: "addr option \<Rightarrow> addr option \<Rightarrow> bt_heap \<Rightarrow> bt_heap" where
  "bt_adopt p v h = (case p of None \<Rightarrow> h | Some x \<Rightarrow> bt_set_parent x v h)"

section \<open>Insert, find, remove\<close>

text \<open>
  \<^verbatim>\<open>bt_insert\<close> from the label \<^verbatim>\<open>again\<close> on. It returns the depth, the heap, and the item that was
  replaced.
\<close>

definition bt_replace :: "bt_slot \<Rightarrow> addr \<Rightarrow> addr \<Rightarrow> bt_heap \<Rightarrow> bt_heap" where
  "bt_replace bt location item h =
     (let h = bt_set_parent item (bt_parent h location) h;
          h = (case bt_parent h item of
                 None \<Rightarrow> h
               | Some p \<Rightarrow> if bt_rhs h p = Some location then bt_put (Rhs p) (Some item) h
                           else bt_put (Lhs p) (Some item) h);
          h = bt_put (Lhs item) (bt_lhs h location) h;
          h = bt_adopt (bt_lhs h location) (Some item) h;
          h = bt_put (Rhs item) (bt_rhs h location) h;
          h = bt_adopt (bt_rhs h location) (Some item) h
      in bt_put bt (Some item) h)"

partial_function (option) bt_insert_loop ::
    "(addr \<Rightarrow> int) \<Rightarrow> addr \<Rightarrow> bt_slot \<Rightarrow> nat \<Rightarrow> bt_heap \<Rightarrow> (nat \<times> bt_heap \<times> addr option) option" where
  "bt_insert_loop cmp item bt depth h =
     (case bt_get h bt of
        None \<Rightarrow> Some (depth, bt_put bt (Some item) h, None)
      | Some location \<Rightarrow>
          if cmp location \<noteq> 0
          then bt_insert_loop cmp item (if cmp location < 0 then Rhs location else Lhs location)
                 (depth + 1) (bt_set_parent item (Some location) h)
          else if item \<noteq> location
          then Some (depth, bt_replace bt location item h, Some location)
          else Some (depth, h, None))"

definition bt_insert ::
    "(addr \<Rightarrow> int) \<Rightarrow> addr \<Rightarrow> bt_heap \<Rightarrow> (nat \<times> bt_heap \<times> addr option) option" where
  "bt_insert cmp item h = bt_insert_loop cmp item Root 0 h"

partial_function (option) bt_find_loop :: "(addr \<Rightarrow> int) \<Rightarrow> bt_heap \<Rightarrow> addr option \<Rightarrow> addr option option" where
  "bt_find_loop cmp h location =
     (case location of
        None \<Rightarrow> Some None
      | Some x \<Rightarrow>
          if cmp x \<noteq> 0 then bt_find_loop cmp h (if cmp x < 0 then bt_rhs h x else bt_lhs h x)
          else Some (Some x))"

definition bt_find :: "(addr \<Rightarrow> int) \<Rightarrow> bt_heap \<Rightarrow> addr option option" where
  "bt_find cmp h = bt_find_loop cmp h (bt_root h)"

partial_function (option) bt_first_loop :: "bt_heap \<Rightarrow> addr \<Rightarrow> addr option" where
  "bt_first_loop h x = (case bt_lhs h x of None \<Rightarrow> Some x | Some y \<Rightarrow> bt_first_loop h y)"

definition bt_first :: "bt_heap \<Rightarrow> addr option \<Rightarrow> addr option option" where
  "bt_first h item =
     (case item of None \<Rightarrow> Some None | Some x \<Rightarrow> map_option Some (bt_first_loop h x))"

partial_function (option) bt_last_loop :: "bt_heap \<Rightarrow> addr \<Rightarrow> addr option" where
  "bt_last_loop h x = (case bt_rhs h x of None \<Rightarrow> Some x | Some y \<Rightarrow> bt_last_loop h y)"

definition bt_last :: "bt_heap \<Rightarrow> addr option \<Rightarrow> addr option option" where
  "bt_last h item =
     (case item of None \<Rightarrow> Some None | Some x \<Rightarrow> map_option Some (bt_last_loop h x))"

text \<open>The part of \<^verbatim>\<open>bt_remove\<close> that unlinks the found item from the slot that points to it.\<close>

definition bt_unlink :: "bt_slot \<Rightarrow> addr \<Rightarrow> bt_heap \<Rightarrow> bt_heap option" where
  "bt_unlink bt item h = do {
     h \<leftarrow>
       (case (bt_lhs h item, bt_rhs h item) of
          (Some l, None) \<Rightarrow> Some (bt_set_parent l (bt_parent h item) (bt_put bt (Some l) h))
        | (None, Some r) \<Rightarrow> Some (bt_set_parent r (bt_parent h item) (bt_put bt (Some r) h))
        | (None, None) \<Rightarrow> Some (bt_put bt None h)
        | (Some l, Some r) \<Rightarrow> do {
            last_item \<leftarrow> bt_last_loop h l;
            let h = bt_set_parent r (Some last_item) h;
            let h = bt_put (Rhs last_item) (Some r) h;
            let h = bt_put bt (Some l) h;
            Some (bt_set_parent l (bt_parent h item) h)
          });
     Some (bt_set_parent item None (bt_put (Rhs item) None (bt_put (Lhs item) None h)))
   }"

definition bt_slot_of :: "bt_heap \<Rightarrow> addr \<Rightarrow> bt_slot" where
  "bt_slot_of h item =
     (case bt_parent h item of
        None \<Rightarrow> Root
      | Some p \<Rightarrow> if bt_lhs h p = Some item then Lhs p else Rhs p)"

definition bt_remove :: "(addr \<Rightarrow> int) \<Rightarrow> bt_heap \<Rightarrow> (bool \<times> bt_heap \<times> addr option) option" where
  "bt_remove cmp h = do {
     found \<leftarrow> bt_find cmp h;
     case found of
       None \<Rightarrow> Some (False, h, None)
     | Some item \<Rightarrow> do {
         h \<leftarrow> bt_unlink (bt_slot_of h item) item h;
         Some (True, h, Some item)
       }
   }"

section \<open>Traversal\<close>

partial_function (option) bt_climb_right :: "bt_heap \<Rightarrow> addr \<Rightarrow> addr option option" where
  "bt_climb_right h x =
     (case bt_parent h x of
        Some p \<Rightarrow> if bt_rhs h p = Some x then bt_climb_right h p else Some (Some p)
      | None \<Rightarrow> Some None)"

definition bt_next :: "bt_heap \<Rightarrow> addr option \<Rightarrow> addr option option" where
  "bt_next h item =
     (case item of
        None \<Rightarrow> Some None
      | Some x \<Rightarrow> if bt_rhs h x \<noteq> None then bt_first h (bt_rhs h x) else bt_climb_right h x)"

partial_function (option) bt_climb_left :: "bt_heap \<Rightarrow> addr \<Rightarrow> addr option option" where
  "bt_climb_left h x =
     (case bt_parent h x of
        Some p \<Rightarrow> if bt_lhs h p = Some x then bt_climb_left h p else Some (Some p)
      | None \<Rightarrow> Some None)"

definition bt_prev :: "bt_heap \<Rightarrow> addr option \<Rightarrow> addr option option" where
  "bt_prev h item =
     (case item of
        None \<Rightarrow> Some None
      | Some x \<Rightarrow> if bt_lhs h x \<noteq> None then bt_last h (bt_lhs h x) else bt_climb_left h x)"

partial_function (option) bt_count_loop :: "bt_heap \<Rightarrow> addr option \<Rightarrow> addr option \<Rightarrow> int \<Rightarrow> int option" where
  "bt_count_loop h iter end ret =
     (if iter = end then Some ret
      else Option.bind (bt_next h iter) (\<lambda>iter. bt_count_loop h iter end (ret + 1)))"

definition bt_count :: "bt_heap \<Rightarrow> bt_slot \<Rightarrow> int option" where
  "bt_count h bt =
     (case bt_get h bt of
        None \<Rightarrow> Some 0
      | Some x \<Rightarrow> do {
          iter \<leftarrow> bt_first h (Some x);
          end \<leftarrow> bt_last h (Some x);
          bt_count_loop h iter end 1
        })"

section \<open>Rotations\<close>

definition bt_rotate_right :: "bt_slot \<Rightarrow> bt_heap \<Rightarrow> bt_heap" where
  "bt_rotate_right bt h =
     (case bt_get h bt of
        None \<Rightarrow> h
      | Some item \<Rightarrow>
          (case bt_lhs h item of
             None \<Rightarrow> h
           | Some l \<Rightarrow>
               let h = bt_set_parent l (bt_parent h item) h;
                   h = bt_set_parent item (bt_lhs h item) h;
                   h = bt_put bt (bt_lhs h item) h;
                   h = bt_adopt (bt_rhs h l) (Some item) h;
                   h = bt_put (Lhs item) (bt_rhs h l) h
               in bt_put (Rhs l) (Some item) h))"

definition bt_rotate_left :: "bt_slot \<Rightarrow> bt_heap \<Rightarrow> bt_heap" where
  "bt_rotate_left bt h =
     (case bt_get h bt of
        None \<Rightarrow> h
      | Some item \<Rightarrow>
          (case bt_rhs h item of
             None \<Rightarrow> h
           | Some r \<Rightarrow>
               let h = bt_set_parent r (bt_parent h item) h;
                   h = bt_set_parent item (bt_rhs h item) h;
                   h = bt_put bt (bt_rhs h item) h;
                   h = bt_adopt (bt_lhs h r) (Some item) h;
                   h = bt_put (Rhs item) (bt_lhs h r) h
               in bt_put (Lhs r) (Some item) h))"

text \<open>
  \<^verbatim>\<open>bt_unbalance\<close>: the loop and the recursion on the right child, which is the last action, in one
  function with the count as accumulator.
\<close>

partial_function (option) bt_unbalance_loop :: "bt_slot \<Rightarrow> nat \<Rightarrow> bt_heap \<Rightarrow> (nat \<times> bt_heap) option" where
  "bt_unbalance_loop bt ret h =
     (case bt_get h bt of
        None \<Rightarrow> Some (ret, h)
      | Some item \<Rightarrow>
          if bt_lhs h item \<noteq> None then bt_unbalance_loop bt (ret + 1) (bt_rotate_right bt h)
          else bt_unbalance_loop (Rhs item) ret h)"

definition bt_unbalance :: "bt_slot \<Rightarrow> bt_heap \<Rightarrow> (nat \<times> bt_heap) option" where
  "bt_unbalance bt h = bt_unbalance_loop bt 0 h"

partial_function (option) bt_splay_loop :: "bt_slot \<Rightarrow> addr \<Rightarrow> nat \<Rightarrow> bt_heap \<Rightarrow> (nat \<times> bt_heap) option" where
  "bt_splay_loop bt item ret h =
     (if Some item = bt_get h bt then Some (ret, h)
      else case bt_parent h item of
        None \<Rightarrow> Some (ret, h)
      | Some p \<Rightarrow>
          (case bt_parent h p of
             None \<Rightarrow> Some (ret, h)
           | Some g \<Rightarrow>
               let pivot = (if bt_lhs h g = Some p then Lhs g else Rhs g);
                   h = (if bt_lhs h p = Some item then bt_rotate_right pivot h else bt_rotate_left pivot h)
               in bt_splay_loop bt item (ret + 1) h))"

text \<open>\<^verbatim>\<open>bt_splay\<close>; the assertion at its end fails when the item did not reach the slot.\<close>

definition bt_splay :: "bt_slot \<Rightarrow> addr \<Rightarrow> bt_heap \<Rightarrow> (nat \<times> bt_heap) option" where
  "bt_splay bt root h =
     (if bt_get h bt = Some root then Some (0, h)
      else do {
        (ret, h) \<leftarrow> bt_splay_loop bt root 0 h;
        if bt_get h bt \<noteq> Some root then do {
          top \<leftarrow> bt_get h bt;
          let h = (if bt_lhs h top = Some root then bt_rotate_right bt h else bt_rotate_left bt h);
          if bt_get h bt = Some root then Some (ret + 1, h) else None
        }
        else Some (ret, h)
      })"

partial_function (option) bt_index_loop ::
    "bt_heap \<Rightarrow> addr option \<Rightarrow> addr option \<Rightarrow> addr option \<Rightarrow> int \<Rightarrow> int \<Rightarrow> (int \<times> int) option" where
  "bt_index_loop h node end iter ret root_index =
     (if iter = end then Some (ret, root_index)
      else Option.bind (bt_next h iter) (\<lambda>next.
        bt_index_loop h node end next (ret + 1) (if iter = node then ret else root_index)))"

definition bt_get_balance :: "bt_heap \<Rightarrow> addr option \<Rightarrow> int option" where
  "bt_get_balance h node = do {
     iter \<leftarrow> bt_first h node;
     last \<leftarrow> bt_last h node;
     end \<leftarrow> bt_next h last;
     (ret, root_index) \<leftarrow> bt_index_loop h node end iter 0 0;
     Some (ret div 2 - root_index)
   }"

partial_function (option) bt_median_loop ::
    "bt_heap \<Rightarrow> addr option \<Rightarrow> addr option \<Rightarrow> addr option \<Rightarrow> addr option option" where
  "bt_median_loop h end iter median =
     (if iter = end then Some median
      else Option.bind (bt_next h iter) (\<lambda>iter.
        if iter = end then Some median
        else Option.bind (bt_next h iter) (\<lambda>iter.
          Option.bind (bt_next h median) (\<lambda>median. bt_median_loop h end iter median))))"

partial_function (option) bt_rebalance :: "bt_slot \<Rightarrow> bt_heap \<Rightarrow> (nat \<times> bt_heap) option" where
  "bt_rebalance bt h =
     Option.bind (bt_first h (bt_get h bt)) (\<lambda>iter.
     Option.bind (bt_last h (bt_get h bt)) (\<lambda>last.
     Option.bind (bt_next h last) (\<lambda>end.
       if iter = None then Some (0, h)
       else
         Option.bind (bt_median_loop h end iter iter) (\<lambda>median.
         Option.bind median (\<lambda>median.
         Option.bind (bt_splay bt median h) (\<lambda>(ret, h).
         Option.bind (bt_get h bt) (\<lambda>iter.
         Option.bind (bt_rebalance (Lhs iter) h) (\<lambda>(l, h).
         Option.bind (bt_rebalance (Rhs iter) h) (\<lambda>(r, h). Some (ret + l + r, h))))))))))"

section \<open>Trees on the heap\<close>

fun is_tree :: "bt_heap \<Rightarrow> addr option \<Rightarrow> addr option \<Rightarrow> addr tree \<Rightarrow> bool" where
  "is_tree h p root Leaf \<longleftrightarrow> root = None"
| "is_tree h p root (Node l x r) \<longleftrightarrow>
     root = Some x \<and> bt_parent h x = p \<and> is_tree h (Some x) (bt_lhs h x) l \<and> is_tree h (Some x) (bt_rhs h x) r"

definition holds_tree :: "bt_heap \<Rightarrow> addr tree \<Rightarrow> bool" where
  "holds_tree h t \<longleftrightarrow> is_tree h None (bt_root h) t \<and> distinct (inorder t)"

lemma is_tree_cong:
  "\<forall>x \<in> set_tree t. bt_lhs h x = bt_lhs h' x \<and> bt_rhs h x = bt_rhs h' x \<and> bt_parent h x = bt_parent h' x \<Longrightarrow>
   is_tree h p root t = is_tree h' p root t"
  by (induction t arbitrary: p root) auto

text \<open>The heap is unchanged outside of a set of items and a slot.\<close>

definition same_outside :: "addr set \<Rightarrow> bt_slot \<Rightarrow> bt_heap \<Rightarrow> bt_heap \<Rightarrow> bool" where
  "same_outside X bt h h' \<longleftrightarrow>
     (bt \<noteq> Root \<longrightarrow> bt_root h' = bt_root h) \<and>
     (\<forall>y. y \<notin> X \<longrightarrow> bt_parent h' y = bt_parent h y \<and>
        (bt \<noteq> Lhs y \<longrightarrow> bt_lhs h' y = bt_lhs h y) \<and> (bt \<noteq> Rhs y \<longrightarrow> bt_rhs h' y = bt_rhs h y))"

text \<open>The slot that points to a subtree whose root has the parent \<open>p\<close>, and no other field of \<open>p\<close> does.\<close>

fun slot_ok :: "bt_heap \<Rightarrow> bt_slot \<Rightarrow> addr option \<Rightarrow> bool" where
  "slot_ok h Root p \<longleftrightarrow> p = None"
| "slot_ok h (Lhs x) p \<longleftrightarrow> p = Some x \<and> (bt_lhs h x = None \<or> bt_rhs h x \<noteq> bt_lhs h x)"
| "slot_ok h (Rhs x) p \<longleftrightarrow> p = Some x \<and> (bt_rhs h x = None \<or> bt_lhs h x \<noteq> bt_rhs h x)"

fun slot_owner :: "bt_slot \<Rightarrow> addr set" where
  "slot_owner Root = {}"
| "slot_owner (Lhs x) = {x}"
| "slot_owner (Rhs x) = {x}"

lemma is_tree_root: "is_tree h p root t \<Longrightarrow> root = (case t of Leaf \<Rightarrow> None | Node l x r \<Rightarrow> Some x)"
  by (cases t) auto

lemma is_tree_root_in: "is_tree h p (Some x) t \<Longrightarrow> x \<in> set_tree t"
  by (cases t) auto

lemma child_slots_ok:
  assumes "is_tree h p root (Node l x r)" "distinct (inorder (Node l x r))"
  shows "slot_ok h (Lhs x) (Some x)" "slot_ok h (Rhs x) (Some x)"
  using assms is_tree_root_in [of h "Some x" _ l] is_tree_root_in [of h "Some x" _ r] by fastforce+

lemma bt_parent_set [simp]: "bt_parent (bt_set_parent x v h) = (bt_parent h)(x := v)"
  "bt_lhs (bt_set_parent x v h) = bt_lhs h" "bt_rhs (bt_set_parent x v h) = bt_rhs h"
  "bt_root (bt_set_parent x v h) = bt_root h" "bt_get (bt_set_parent x v h) = bt_get h"
proof -
  have "bt_get (bt_set_parent x v h) s = bt_get h s" for s by (cases s) (auto simp: bt_set_parent_def)
  then show "bt_get (bt_set_parent x v h) = bt_get h" by blast
qed (simp_all add: bt_set_parent_def)

lemma bt_parent_put [simp]: "bt_parent (bt_put bt v h) = bt_parent h" "bt_get (bt_put bt v h) bt = v"
  by (cases bt; simp)+

lemma bt_put_fields:
  "bt_lhs (bt_put bt v h) y = (if bt = Lhs y then v else bt_lhs h y)"
  "bt_rhs (bt_put bt v h) y = (if bt = Rhs y then v else bt_rhs h y)"
  "bt_root (bt_put bt v h) = (if bt = Root then v else bt_root h)"
  by (cases bt; simp)+

section \<open>Find and insert\<close>

fun tree_find :: "(addr \<Rightarrow> int) \<Rightarrow> addr tree \<Rightarrow> addr option" where
  "tree_find cmp Leaf = None"
| "tree_find cmp (Node l x r) =
     (if cmp x = 0 then Some x else if cmp x < 0 then tree_find cmp r else tree_find cmp l)"

fun tree_insert :: "(addr \<Rightarrow> int) \<Rightarrow> addr \<Rightarrow> addr tree \<Rightarrow> addr tree" where
  "tree_insert cmp item Leaf = Node Leaf item Leaf"
| "tree_insert cmp item (Node l x r) =
     (if cmp x = 0 then Node l item r
      else if cmp x < 0 then Node l x (tree_insert cmp item r)
      else Node (tree_insert cmp item l) x r)"

lemma bt_find_loop_tree: "is_tree h p root t \<Longrightarrow> bt_find_loop cmp h root = Some (tree_find cmp t)"
proof (induction t arbitrary: p root)
  case Leaf
  then show ?case by (simp add: bt_find_loop.simps)
next
  case (Node l x r)
  then show ?case by (auto simp: bt_find_loop.simps [of cmp h "Some x"])
qed

text \<open>Changing one subtree of a tree leaves the rest of it.\<close>

lemma same_outside_child:
  assumes "same_outside X (Lhs x) h h' \<or> same_outside X (Rhs x) h h'" "X \<subseteq> Y" "x \<in> Y"
  shows "same_outside Y bt h h'"
  using assms by (auto simp: same_outside_def)

lemma same_outside_get:
  "same_outside Y bt' h h' \<Longrightarrow> slot_owner bt \<inter> Y = {} \<Longrightarrow> bt' \<noteq> bt \<Longrightarrow> bt_get h' bt = bt_get h bt"
  by (cases bt) (auto simp: same_outside_def)

lemma plug_right:
  assumes "is_tree h p root (Node l x r)" "same_outside X (Rhs x) h h'" "X \<inter> insert x (set_tree l) = {}"
    and "x \<notin> set_tree l" "is_tree h' (Some x) (bt_rhs h' x) r'"
  shows "is_tree h' p root (Node l x r')"
proof -
  have "is_tree h' (Some x) (bt_lhs h x) l"
    using assms by (subst is_tree_cong [of _ _ h]) (auto simp: same_outside_def)
  with assms show ?thesis by (auto simp: same_outside_def)
qed

lemma plug_left:
  assumes "is_tree h p root (Node l x r)" "same_outside X (Lhs x) h h'" "X \<inter> insert x (set_tree r) = {}"
    and "x \<notin> set_tree r" "is_tree h' (Some x) (bt_lhs h' x) l'"
  shows "is_tree h' p root (Node l' x r)"
proof -
  have "is_tree h' (Some x) (bt_rhs h x) r"
    using assms by (subst is_tree_cong [of _ _ h]) (auto simp: same_outside_def)
  with assms show ?thesis by (auto simp: same_outside_def)
qed

lemma same_outside_trans:
  "same_outside X bt h h1 \<Longrightarrow> same_outside X bt h1 h2 \<Longrightarrow> same_outside X bt h h2"
  by (auto simp: same_outside_def)

lemma same_outside_set_parent: "x \<in> X \<Longrightarrow> same_outside X bt h (bt_set_parent x v h)"
  by (auto simp: same_outside_def)

lemma is_tree_reparent:
  assumes "is_tree h p root t" "distinct (inorder t)"
    and "\<forall>y \<in> set_tree t. bt_lhs h' y = bt_lhs h y \<and> bt_rhs h' y = bt_rhs h y \<and>
          bt_parent h' y = (if root = Some y then p' else bt_parent h y)"
  shows "is_tree h' p' root t"
proof (cases t)
  case (Node l x r)
  have "is_tree h' (Some x) (bt_lhs h x) l" "is_tree h' (Some x) (bt_rhs h x) r"
    using assms Node by (subst is_tree_cong [of _ _ h]; auto)+
  then show ?thesis using assms Node by auto
qed (use assms in simp)

lemma bt_replace_fields:
  assumes "slot_ok h bt (bt_parent h x)" "bt_get h bt = Some x" "x \<noteq> item" "slot_owner bt \<inter> {item, x} = {}"
    and "bt_lhs h x \<noteq> Some item" "bt_rhs h x \<noteq> Some item" "bt_lhs h x \<noteq> Some x" "bt_rhs h x \<noteq> Some x"
  defines "h' \<equiv> bt_replace bt x item h"
  shows "bt_parent h' y = (if bt_lhs h x = Some y \<or> bt_rhs h x = Some y then Some item
           else if y = item then bt_parent h x else bt_parent h y)"
    and "bt_lhs h' y = (if bt = Lhs y then Some item else if y = item then bt_lhs h x else bt_lhs h y)"
    and "bt_rhs h' y = (if bt = Rhs y then Some item else if y = item then bt_rhs h x else bt_rhs h y)"
    and "bt_root h' = (if bt = Root then Some item else bt_root h)"
  using assms
  by (cases bt; auto simp: bt_replace_def bt_adopt_def Let_def split: option.splits)+

lemma bt_replace_tree:
  assumes "is_tree h p (bt_get h bt) (Node l x r)" "slot_ok h bt p" "item \<notin> set_tree (Node l x r)"
    and "distinct (inorder (Node l x r))" "slot_owner bt \<inter> insert item (set_tree (Node l x r)) = {}"
  shows "is_tree (bt_replace bt x item h) p (bt_get (bt_replace bt x item h) bt) (Node l item r)"
    and "same_outside (insert item (set_tree (Node l x r))) bt h (bt_replace bt x item h)"
proof -
  let ?h = "bt_replace bt x item h"
  have t: "is_tree h (Some x) (bt_lhs h x) l" "is_tree h (Some x) (bt_rhs h x) r" "bt_parent h x = p"
      "bt_get h bt = Some x"
    using assms(1) by auto
  have kids: "bt_lhs h x \<noteq> Some y" "bt_rhs h x \<noteq> Some y" if "y = item \<or> y = x" for y
    using that t(1,2) assms(3,4) is_tree_root_in [of h "Some x" y] by auto
  have ne: "x \<noteq> item" "slot_owner bt \<inter> {item, x} = {}" using assms(3,5) by auto
  note f = bt_replace_fields [of h bt x item, unfolded t(3), OF assms(2) t(4) ne kids(1) kids(2) kids(1) kids(2),
      simplified]
  have slot: "bt \<noteq> Lhs y" "bt \<noteq> Rhs y" if "y \<in> insert item (set_tree (Node l x r))" for y
    using that assms(5) by auto
  have roots: "y \<in> set_tree l" if "bt_lhs h x = Some y" for y
    using that t(1) is_tree_root_in by metis
  have roots': "y \<in> set_tree r" if "bt_rhs h x = Some y" for y
    using that t(2) is_tree_root_in by metis
  have "is_tree ?h (Some item) (bt_lhs h x) l"
    using t(1) assms(3,4) slot roots' by (intro is_tree_reparent [OF t(1)]) (auto simp: f)
  moreover have "is_tree ?h (Some item) (bt_rhs h x) r"
    using t(2) assms(3,4) slot roots by (intro is_tree_reparent [OF t(2)]) (auto simp: f)
  moreover have "bt_get ?h bt = Some item" by (simp add: bt_replace_def Let_def)
  moreover have "bt_parent ?h item = p" using kids by (simp add: f)
  ultimately show "is_tree ?h p (bt_get ?h bt) (Node l item r)" using slot by (simp add: f)
  show "same_outside (insert item (set_tree (Node l x r))) bt h ?h"
    using roots roots' by (auto simp: same_outside_def f)
qed

lemma bt_insert_loop_tree:
  assumes "is_tree h p (bt_get h bt) t" "slot_ok h bt p" "item \<notin> set_tree t" "distinct (inorder t)"
    and "slot_owner bt \<inter> insert item (set_tree t) = {}"
    and "bt_parent h item = p" "bt_lhs h item = None" "bt_rhs h item = None"
  shows "\<exists>d h'. bt_insert_loop cmp item bt n h = Some (d, h', tree_find cmp t) \<and>
    is_tree h' p (bt_get h' bt) (tree_insert cmp item t) \<and>
    same_outside (insert item (set_tree t)) bt h h'"
  using assms
proof (induction t arbitrary: p bt n h)
  case Leaf
  then show ?case
    by (cases bt) (auto simp: bt_insert_loop.simps [of cmp item _ n h] same_outside_def)
next
  case (Node l x r)
  let ?h = "bt_set_parent item (Some x) h" and ?X = "insert item (set_tree (Node l x r))"
  have g: "bt_get h bt = Some x" using Node.prems(1) by simp
  have t: "is_tree ?h p (Some x) (Node l x r)"
    using Node.prems(1,3) g by (subst is_tree_cong [of _ _ h]) auto
  have slots: "slot_ok ?h (Lhs x) (Some x)" "slot_ok ?h (Rhs x) (Some x)"
    using child_slots_ok [OF Node.prems(1,4)] by simp_all
  have up: "same_outside ?X bt h h' \<and> bt_get h' bt = Some x"
    if "same_outside (insert item (set_tree l)) (Lhs x) ?h h' \<or> same_outside (insert item (set_tree r)) (Rhs x) ?h h'" for h'
  proof -
    have "same_outside ?X bt h ?h" "same_outside ?X (Lhs x) h ?h" by (simp_all add: same_outside_set_parent)
    moreover have "same_outside ?X bt ?h h'" "same_outside ?X (Lhs x) ?h h'"
      using that by (auto intro: same_outside_child)
    ultimately have "same_outside ?X bt h h'" "same_outside ?X (Lhs x) h h'" using same_outside_trans by blast+
    moreover have "bt \<noteq> Lhs x" using Node.prems(5) by auto
    ultimately show ?thesis using same_outside_get Node.prems(5) g by metis
  qed
  consider "cmp x = 0" | "cmp x < 0" | "cmp x > 0" by linarith
  then show ?case
  proof cases
    case 1
    then show ?thesis
      using Node.prems bt_replace_tree [of h p bt l x r item]
      by (auto simp: bt_insert_loop.simps [of cmp item bt n h] g)
  next
    case 2
    obtain d h' where IH: "bt_insert_loop cmp item (Rhs x) (n + 1) ?h = Some (d, h', tree_find cmp r)"
        "is_tree h' (Some x) (bt_get h' (Rhs x)) (tree_insert cmp item r)"
        "same_outside (insert item (set_tree r)) (Rhs x) ?h h'"
      using Node.IH(2) [of ?h "Some x" "Rhs x" "n + 1"] Node.prems t slots by auto
    have "is_tree h' p (Some x) (Node l x (tree_insert cmp item r))"
      using plug_right [OF t IH(3)] IH(2) Node.prems(3,4) by auto
    with 2 IH(1) up [of h'] IH(3) show ?thesis
      by (auto simp: bt_insert_loop.simps [of cmp item bt n h] g)
  next
    case 3
    obtain d h' where IH: "bt_insert_loop cmp item (Lhs x) (n + 1) ?h = Some (d, h', tree_find cmp l)"
        "is_tree h' (Some x) (bt_get h' (Lhs x)) (tree_insert cmp item l)"
        "same_outside (insert item (set_tree l)) (Lhs x) ?h h'"
      using Node.IH(1) [of ?h "Some x" "Lhs x" "n + 1"] Node.prems t slots by auto
    have "is_tree h' p (Some x) (Node (tree_insert cmp item l) x r)"
      using plug_left [OF t IH(3)] IH(2) Node.prems(3,4) by auto
    with 3 IH(1) up [of h'] IH(3) show ?thesis
      by (auto simp: bt_insert_loop.simps [of cmp item bt n h] g)
  qed
qed

section \<open>Remove\<close>

text \<open>The right subtree of a removed item is attached below the last item of its left subtree.\<close>

fun tree_join :: "'a tree \<Rightarrow> 'a tree \<Rightarrow> 'a tree" where
  "tree_join Leaf r = r"
| "tree_join (Node a y b) r = Node a y (tree_join b r)"

fun tree_remove :: "(addr \<Rightarrow> int) \<Rightarrow> addr tree \<Rightarrow> addr tree" where
  "tree_remove cmp Leaf = Leaf"
| "tree_remove cmp (Node l x r) =
     (if cmp x = 0 then tree_join l r
      else if cmp x < 0 then Node l x (tree_remove cmp r)
      else Node (tree_remove cmp l) x r)"

lemma inorder_join [simp]: "inorder (tree_join l r) = inorder l @ inorder r"
  by (induction l) auto

lemma set_tree_join [simp]: "set_tree (tree_join l r) = set_tree l \<union> set_tree r"
  by (induction l) auto

lemma tree_join_Leaf [simp]: "tree_join l Leaf = l"
  by (induction l) auto

lemma inorder_eq_Nil [simp]: "inorder t = [] \<longleftrightarrow> t = Leaf" "[] = inorder t \<longleftrightarrow> t = Leaf"
  by (cases t; simp)+

lemma bt_first_loop_tree:
  "is_tree h p (Some x) t \<Longrightarrow> bt_first_loop h x = Some (hd (inorder t))"
proof (induction t arbitrary: p x)
  case (Node l y r)
  then show ?case
    by (cases l) (auto simp: bt_first_loop.simps [of h y] hd_append)
qed simp

lemma bt_last_loop_tree:
  "is_tree h p (Some x) t \<Longrightarrow> bt_last_loop h x = Some (last (inorder t))"
proof (induction t arbitrary: p x)
  case (Node l y r)
  then show ?case
    by (cases r) (auto simp: bt_last_loop.simps [of h y])
qed simp

lemma is_tree_join:
  assumes "is_tree h p root l" "l \<noteq> Leaf" "distinct (inorder l)"
    and "is_tree h' (Some (last (inorder l))) root' r"
    and "\<forall>y \<in> set_tree l. bt_lhs h' y = bt_lhs h y \<and> bt_parent h' y = bt_parent h y \<and>
          bt_rhs h' y = (if y = last (inorder l) then root' else bt_rhs h y)"
  shows "is_tree h' p root (tree_join l r)"
  using assms
proof (induction l arbitrary: p root)
  case (Node a y b)
  have last: "last (inorder (Node a y b)) = (if b = Leaf then y else last (inorder b))" by simp
  have in_b: "last (inorder b) \<in> set_tree b" if "b \<noteq> Leaf"
    using that last_in_set [of "inorder b"] by simp
  have "is_tree h' (Some y) (bt_lhs h y) a"
    using Node.prems(1,3,5) in_b last by (subst is_tree_cong [of _ _ h]) (auto split: if_splits)
  moreover have "is_tree h' (Some y) (bt_rhs h' y) (tree_join b r)"
  proof (cases "b = Leaf")
    case False
    then have "y \<noteq> last (inorder b)" using in_b Node.prems(3) by auto
    then show ?thesis
      using Node.IH(2) [of "Some y" "bt_rhs h y"] Node.prems False by (auto simp: last)
  qed (use Node.prems in auto)
  ultimately show ?case using Node.prems by auto
qed simp

lemma bt_unlink_tree:
  assumes "is_tree h p (bt_get h bt) (Node l x r)" "distinct (inorder (Node l x r))"
    and "slot_owner bt \<inter> set_tree (Node l x r) = {}"
  shows "\<exists>h'. bt_unlink bt x h = Some h' \<and> is_tree h' p (bt_get h' bt) (tree_join l r) \<and>
    same_outside (set_tree (Node l x r)) bt h h' \<and>
    bt_lhs h' x = None \<and> bt_rhs h' x = None \<and> bt_parent h' x = None"
proof -
  have t: "is_tree h (Some x) (bt_lhs h x) l" "is_tree h (Some x) (bt_rhs h x) r" "bt_parent h x = p"
    using assms(1) by auto
  have slot: "bt \<noteq> Lhs y" "bt \<noteq> Rhs y" if "y \<in> insert x (set_tree l \<union> set_tree r)" for y
    using that assms(3) by auto
  have dist: "distinct (inorder l)" "distinct (inorder r)" "x \<notin> set_tree l" "x \<notin> set_tree r"
      "\<And>y. y \<in> set_tree l \<Longrightarrow> y \<notin> set_tree r"
    using assms(2) by auto
  note roots = is_tree_root_in [of h "Some x" _ l] is_tree_root_in [of h "Some x" _ r]
  note leaf = is_tree_root [OF t(1)] is_tree_root [OF t(2)]
  define final where "final h'' = bt_set_parent x None (bt_put (Rhs x) None (bt_put (Lhs x) None h''))" for h''
  have final: "bt_get (final h'') bt = bt_get h'' bt" "bt_root (final h'') = bt_root h''"
      "bt_lhs (final h'') y = (if y = x then None else bt_lhs h'' y)"
      "bt_rhs (final h'') y = (if y = x then None else bt_rhs h'' y)"
      "bt_parent (final h'') y = (if y = x then None else bt_parent h'' y)" for h'' y
    using slot [of x] by (cases bt; auto simp: final_def)+
  have one: ?thesis
    if eq: "bt_unlink bt x h = Some (final (bt_set_parent y p (bt_put bt (Some y) h)))"
      and sub: "is_tree h (Some x) (Some y) s" "tree_join l r = s" "s = l \<or> s = r" for y s
  proof -
    let ?h = "final (bt_set_parent y p (bt_put bt (Some y) h))"
    have y: "y \<in> set_tree s" using sub(1) is_tree_root_in by blast
    have "x \<notin> set_tree s" "distinct (inorder s)" "set_tree s \<subseteq> set_tree l \<union> set_tree r"
      using sub(3) dist by auto
    then have "is_tree ?h p (Some y) s"
      using slot by (intro is_tree_reparent [OF sub(1)]) (auto simp: final bt_put_fields simp del: bt_put.simps)
    moreover have "same_outside (set_tree (Node l x r)) bt h ?h"
      using y sub(3) slot by (auto simp: final same_outside_def bt_put_fields simp del: bt_put.simps)
    ultimately show ?thesis unfolding eq sub(2) using final by simp
  qed
  show ?thesis
  proof (cases "bt_lhs h x"; cases "bt_rhs h x")
    assume none: "bt_lhs h x = None" "bt_rhs h x = None"
    then have "bt_unlink bt x h = Some (final (bt_put bt None h))" by (simp add: bt_unlink_def final_def)
    moreover have "same_outside (set_tree (Node l x r)) bt h (final (bt_put bt None h))"
      by (auto simp: final same_outside_def bt_put_fields simp del: bt_put.simps)
    ultimately show ?thesis using none leaf final by (cases l; cases r) auto
  next
    fix y assume "bt_lhs h x = Some y" "bt_rhs h x = None"
    then show ?thesis
      using one [of y l] t leaf by (cases r) (auto simp: bt_unlink_def final_def)
  next
    fix z assume "bt_lhs h x = None" "bt_rhs h x = Some z"
    then show ?thesis
      using one [of z r] t leaf by (cases l) (auto simp: bt_unlink_def final_def)
  next
    fix y z assume kids: "bt_lhs h x = Some y" "bt_rhs h x = Some z"
    then have yz: "y \<in> set_tree l" "z \<in> set_tree r" "l \<noteq> Leaf" using roots t leaf by auto
    define w where "w = last (inorder l)"
    have w: "bt_last_loop h y = Some w" "w \<in> set_tree l"
      using bt_last_loop_tree [of h "Some x" y l] t(1) kids yz(3) last_in_set [of "inorder l"] by (simp_all add: w_def)
    let ?h = "final (bt_set_parent y p (bt_put bt (Some y) (bt_put (Rhs w) (Some z) (bt_set_parent z (Some w) h))))"
    have "z \<noteq> x" "w \<noteq> x" using yz w dist by auto
    then have eq: "bt_unlink bt x h = Some ?h"
      using kids w(1) t(3) by (simp add: bt_unlink_def final_def)
    have l: "is_tree (bt_set_parent y p h) p (Some y) l"
      by (rule is_tree_reparent [OF t(1) [unfolded kids]]) (use dist in auto)
    have r: "is_tree ?h (Some w) (Some z) r"
      by (rule is_tree_reparent [OF t(2) [unfolded kids]])
        (use dist slot yz w(2) in \<open>auto simp: final bt_put_fields simp del: bt_put.simps\<close>)
    have "is_tree ?h p (Some y) (tree_join l r)"
      by (rule is_tree_join [OF l yz(3) dist(1)])
        (use dist slot yz w(2) r in \<open>auto simp: final w_def [symmetric] bt_put_fields simp del: bt_put.simps\<close>)
    moreover have "same_outside (set_tree (Node l x r)) bt h ?h"
      using yz slot w(2) by (auto simp: final same_outside_def bt_put_fields simp del: bt_put.simps)
    ultimately show ?thesis using eq final by simp
  qed
qed

lemma bt_slot_of_slot:
  "slot_ok h bt (bt_parent h x) \<Longrightarrow> bt_get h bt = Some x \<Longrightarrow> bt_slot_of h x = bt"
  by (cases bt) (auto simp: bt_slot_of_def)

lemma tree_find_in: "tree_find cmp t = Some x \<Longrightarrow> x \<in> set_tree t"
  by (induction t) (auto split: if_splits)

lemma bt_remove_tree:
  assumes "is_tree h p (bt_get h bt) t" "slot_ok h bt p" "distinct (inorder t)"
    and "slot_owner bt \<inter> set_tree t = {}" "tree_find cmp t = Some x"
  shows "\<exists>h'. bt_unlink (bt_slot_of h x) x h = Some h' \<and> is_tree h' p (bt_get h' bt) (tree_remove cmp t) \<and>
    same_outside (set_tree t) bt h h' \<and> bt_lhs h' x = None \<and> bt_rhs h' x = None \<and> bt_parent h' x = None"
  using assms
proof (induction t arbitrary: p bt)
  case (Node l y r)
  have g: "bt_get h bt = Some y" "bt_parent h y = p" using Node.prems(1) by simp_all
  note slots = child_slots_ok [OF Node.prems(1,3)]
  have up: "same_outside (set_tree (Node l y r)) bt h h' \<and> bt_get h' bt = Some y"
    if "same_outside (set_tree l) (Lhs y) h h' \<or> same_outside (set_tree r) (Rhs y) h h'" for h'
  proof -
    have "same_outside (set_tree (Node l y r)) bt h h'" "same_outside (set_tree (Node l y r)) (Lhs y) h h'"
      using that by (auto intro: same_outside_child)
    moreover have "bt \<noteq> Lhs y" using Node.prems(4) by auto
    ultimately show ?thesis using same_outside_get Node.prems(4) g by metis
  qed
  consider "cmp y = 0" | "cmp y < 0" | "cmp y > 0" by linarith
  then show ?case
  proof cases
    case 1
    then have "x = y" "bt_slot_of h x = bt"
      using Node.prems(2,5) g by (auto intro: bt_slot_of_slot)
    with 1 show ?thesis using bt_unlink_tree [of h p bt l y r] Node.prems by simp
  next
    case 2
    then obtain h' where IH: "bt_unlink (bt_slot_of h x) x h = Some h'"
        "is_tree h' (Some y) (bt_get h' (Rhs y)) (tree_remove cmp r)" "same_outside (set_tree r) (Rhs y) h h'"
        "bt_lhs h' x = None" "bt_rhs h' x = None" "bt_parent h' x = None"
      using Node.IH(2) [of "Some y" "Rhs y"] Node.prems slots by auto
    have "is_tree h' p (Some y) (Node l y (tree_remove cmp r))"
      using plug_right [OF _ IH(3), of p "Some y" l r] IH(2) Node.prems g by auto
    with 2 IH up [of h'] show ?thesis by auto
  next
    case 3
    then obtain h' where IH: "bt_unlink (bt_slot_of h x) x h = Some h'"
        "is_tree h' (Some y) (bt_get h' (Lhs y)) (tree_remove cmp l)" "same_outside (set_tree l) (Lhs y) h h'"
        "bt_lhs h' x = None" "bt_rhs h' x = None" "bt_parent h' x = None"
      using Node.IH(1) [of "Some y" "Lhs y"] Node.prems slots by auto
    have "is_tree h' p (Some y) (Node (tree_remove cmp l) y r)"
      using plug_left [OF _ IH(3), of p "Some y" l r] IH(2) Node.prems g by auto
    with 3 IH up [of h'] show ?thesis by auto
  qed
qed simp

lemma distinct_tree_insert:
  "distinct (inorder t) \<Longrightarrow> i \<notin> set_tree t \<Longrightarrow>
   set_tree (tree_insert cmp i t) \<subseteq> insert i (set_tree t) \<and> distinct (inorder (tree_insert cmp i t))"
  by (induction t) auto

lemma distinct_tree_remove:
  "distinct (inorder t) \<Longrightarrow>
   set_tree (tree_remove cmp t) \<subseteq> set_tree t \<and> distinct (inorder (tree_remove cmp t))"
  by (induction t) auto

section \<open>The order of the items\<close>

lemma bt_first_tree:
  "is_tree h p root t \<Longrightarrow> bt_first h root = Some (if t = Leaf then None else Some (hd (inorder t)))"
  using bt_first_loop_tree [of h p _ t] by (cases t; cases root) (auto simp: bt_first_def)

lemma bt_last_tree:
  "is_tree h p root t \<Longrightarrow> bt_last h root = Some (if t = Leaf then None else Some (last (inorder t)))"
  using bt_last_loop_tree [of h p _ t] by (cases t; cases root) (auto simp: bt_last_def)

text \<open>
  The next item of a subtree is its successor in order, and after its last item the search goes on
  from the root of the subtree upwards.
\<close>

lemma bt_next_subtree:
  assumes "is_tree h p (Some y) t" "distinct (inorder t)" "inorder t = xs @ x # ys"
  shows "bt_next h (Some x) = (if ys = [] then bt_climb_right h y else Some (Some (hd ys)))"
  using assms
proof (induction t arbitrary: p y xs ys)
  case (Node l z r)
  have t: "y = z" "is_tree h (Some z) (bt_lhs h z) l" "is_tree h (Some z) (bt_rhs h z) r"
    using Node.prems(1) by simp_all
  have "inorder l @ z # inorder r = xs @ x # ys" using Node.prems(3) by simp
  then consider (mid) "xs = inorder l" "x = z" "ys = inorder r"
    | (left) us where "inorder l = xs @ x # us" "ys = us @ z # inorder r"
    | (right) us where "inorder r = us @ x # ys"
    by (auto simp: append_eq_append_conv2 Cons_eq_append_conv append_eq_Cons_conv)
  then show ?case
  proof cases
    case mid
    then show ?thesis
      using t bt_first_tree [OF t(3)] by (cases r) (auto simp: bt_next_def)
  next
    case left
    then obtain u where u: "bt_lhs h z = Some u" "bt_parent h u = Some z" using t(2) by (cases l) auto
    moreover have "bt_rhs h z \<noteq> Some u"
      using child_slots_ok [OF Node.prems(1,2)] u by auto
    ultimately have "bt_climb_right h u = Some (Some z)" by (simp add: bt_climb_right.simps [of h u])
    moreover have "distinct (inorder l)" using Node.prems(2) by simp
    ultimately show ?thesis
      using Node.IH(1) [of "Some z" u xs us] left t u by (simp add: hd_append)
  next
    case right
    then obtain u where u: "bt_rhs h z = Some u" "bt_parent h u = Some z" using t(3) by (cases r) auto
    then have "bt_climb_right h u = bt_climb_right h z" by (simp add: bt_climb_right.simps [of h u])
    moreover have "distinct (inorder r)" using Node.prems(2) by simp
    ultimately show ?thesis
      using Node.IH(2) [of "Some z" u us ys] right t u by simp
  qed
qed simp

lemma bt_next_tree:
  assumes "holds_tree h t" "inorder t = xs @ x # ys"
  shows "bt_next h (Some x) = Some (if ys = [] then None else Some (hd ys))"
proof -
  obtain y where y: "bt_root h = Some y" "bt_parent h y = None"
    using assms by (cases t) (auto simp: holds_tree_def)
  then show ?thesis
    using assms bt_next_subtree [of h None y t xs x ys]
    by (simp add: holds_tree_def bt_climb_right.simps [of h y])
qed

lemma bt_count_loop_tree:
  assumes "is_tree h p (Some y) t" "distinct (inorder t)" "inorder t = xs @ x # ys"
  shows "bt_count_loop h (Some x) (Some (last (inorder t))) n = Some (n + int (length ys))"
  using assms(3)
proof (induction ys arbitrary: xs x n)
  case (Cons z ys)
  have "x \<noteq> last (inorder t)" using assms(2) Cons.prems by auto
  then show ?case
    using bt_next_subtree [OF assms(1,2) Cons.prems] Cons.IH [of "xs @ [x]" z "n + 1"] Cons.prems
    by (simp add: bt_count_loop.simps [of h "Some x"])
qed (simp add: bt_count_loop.simps)

lemma bt_count_tree:
  assumes "is_tree h p (bt_get h bt) t" "distinct (inorder t)"
  shows "bt_count h bt = Some (int (size t))"
proof (cases t)
  case Leaf
  then show ?thesis using assms by (simp add: bt_count_def)
next
  case (Node l y r)
  then obtain x ys where "inorder t = x # ys" by (metis inorder_eq_Nil(1) neq_Nil_conv tree.distinct(1))
  moreover have "length (inorder t) = size t" by simp
  ultimately show ?thesis
    using assms Node bt_first_tree [OF assms(1)] bt_last_tree [OF assms(1)]
      bt_count_loop_tree [of h p y t "[]" x ys 1]
    by (simp add: bt_count_def)
qed

section \<open>Rotations\<close>

lemma bt_rotate_right_tree:
  assumes "is_tree h p (bt_get h bt) (Node (Node a y b) x c)" "distinct (inorder (Node (Node a y b) x c))"
    and "slot_owner bt \<inter> set_tree (Node (Node a y b) x c) = {}"
  shows "is_tree (bt_rotate_right bt h) p (bt_get (bt_rotate_right bt h) bt) (Node a y (Node b x c))"
    and "same_outside (set_tree (Node (Node a y b) x c)) bt h (bt_rotate_right bt h)"
proof -
  have t: "is_tree h (Some y) (bt_lhs h y) a" "is_tree h (Some y) (bt_rhs h y) b" "is_tree h (Some x) (bt_rhs h x) c"
      "bt_get h bt = Some x" "bt_lhs h x = Some y" "bt_parent h x = p" "bt_parent h y = Some x"
    using assms(1) by auto
  have dist: "distinct (inorder a)" "distinct (inorder b)" "distinct (inorder c)" "x \<noteq> y"
      "{x, y} \<inter> (set_tree a \<union> set_tree b \<union> set_tree c) = {}"
      "\<And>z. z \<in> set_tree b \<Longrightarrow> z \<notin> set_tree a \<and> z \<notin> set_tree c"
    using assms(2) by auto
  have slot: "bt \<noteq> Lhs z" "bt \<noteq> Rhs z" if "z \<in> {x, y} \<union> set_tree a \<union> set_tree b \<union> set_tree c" for z
    using that assms(3) by auto
  have root: "z \<in> set_tree b" if "bt_rhs h y = Some z" for z
    using that t(2) is_tree_root_in by metis
  let ?h = "bt_rotate_right bt h"
  have f: "bt_parent ?h z = (if bt_rhs h y = Some z then Some x else if z = x then Some y
        else if z = y then p else bt_parent h z)"
      "bt_lhs ?h z = (if bt = Lhs z then Some y else if z = x then bt_rhs h y else bt_lhs h z)"
      "bt_rhs ?h z = (if bt = Rhs z then Some y else if z = y then Some x else bt_rhs h z)"
      "bt_root ?h = (if bt = Root then Some y else bt_root h)" for z
    using t root dist slot [of x] slot [of y]
    by (auto simp: bt_rotate_right_def bt_adopt_def Let_def bt_put_fields simp del: bt_put.simps split: option.splits)
  show "same_outside (set_tree (Node (Node a y b) x c)) bt h ?h"
    using root by (auto simp: same_outside_def f)
  have "bt_get ?h bt = Some y" using f(2-4) by (cases bt) simp_all
  moreover have "is_tree ?h (Some y) (bt_lhs h y) a" "is_tree ?h (Some x) (bt_rhs h x) c"
    using t(1,3) dist slot root by (subst is_tree_cong [of _ _ h]; fastforce simp: f)+
  moreover have "is_tree ?h (Some x) (bt_rhs h y) b"
    using dist slot by (intro is_tree_reparent [OF t(2)]) (auto simp: f)
  moreover have "x \<noteq> y" "bt_rhs h y \<noteq> Some x" "bt_rhs h y \<noteq> Some y"
    using dist root by auto
  ultimately show "is_tree ?h p (bt_get ?h bt) (Node a y (Node b x c))"
    using slot by (auto simp: f)
qed

lemma bt_rotate_left_tree:
  assumes "is_tree h p (bt_get h bt) (Node a x (Node b y c))" "distinct (inorder (Node a x (Node b y c)))"
    and "slot_owner bt \<inter> set_tree (Node a x (Node b y c)) = {}"
  shows "is_tree (bt_rotate_left bt h) p (bt_get (bt_rotate_left bt h) bt) (Node (Node a x b) y c)"
    and "same_outside (set_tree (Node a x (Node b y c))) bt h (bt_rotate_left bt h)"
proof -
  have t: "is_tree h (Some x) (bt_lhs h x) a" "is_tree h (Some y) (bt_lhs h y) b" "is_tree h (Some y) (bt_rhs h y) c"
      "bt_get h bt = Some x" "bt_rhs h x = Some y" "bt_parent h x = p" "bt_parent h y = Some x"
    using assms(1) by auto
  have dist: "distinct (inorder a)" "distinct (inorder b)" "distinct (inorder c)" "x \<noteq> y"
      "{x, y} \<inter> (set_tree a \<union> set_tree b \<union> set_tree c) = {}"
      "\<And>z. z \<in> set_tree b \<Longrightarrow> z \<notin> set_tree a \<and> z \<notin> set_tree c"
    using assms(2) by auto
  have slot: "bt \<noteq> Lhs z" "bt \<noteq> Rhs z" if "z \<in> {x, y} \<union> set_tree a \<union> set_tree b \<union> set_tree c" for z
    using that assms(3) by auto
  have root: "z \<in> set_tree b" if "bt_lhs h y = Some z" for z
    using that t(2) is_tree_root_in by metis
  let ?h = "bt_rotate_left bt h"
  have f: "bt_parent ?h z = (if bt_lhs h y = Some z then Some x else if z = x then Some y
        else if z = y then p else bt_parent h z)"
      "bt_rhs ?h z = (if bt = Rhs z then Some y else if z = x then bt_lhs h y else bt_rhs h z)"
      "bt_lhs ?h z = (if bt = Lhs z then Some y else if z = y then Some x else bt_lhs h z)"
      "bt_root ?h = (if bt = Root then Some y else bt_root h)" for z
    using t root dist slot [of x] slot [of y]
    by (auto simp: bt_rotate_left_def bt_adopt_def Let_def bt_put_fields simp del: bt_put.simps split: option.splits)
  show "same_outside (set_tree (Node a x (Node b y c))) bt h ?h"
    using root by (auto simp: same_outside_def f)
  have "bt_get ?h bt = Some y" using f(2-4) by (cases bt) simp_all
  moreover have "is_tree ?h (Some x) (bt_lhs h x) a" "is_tree ?h (Some y) (bt_rhs h y) c"
    using t(1,3) dist slot root by (subst is_tree_cong [of _ _ h]; fastforce simp: f)+
  moreover have "is_tree ?h (Some x) (bt_lhs h y) b"
    using dist slot by (intro is_tree_reparent [OF t(2)]) (auto simp: f)
  moreover have "x \<noteq> y" "bt_lhs h y \<noteq> Some x" "bt_lhs h y \<noteq> Some y"
    using dist root by auto
  ultimately show "is_tree ?h p (bt_get ?h bt) (Node (Node a x b) y c)"
    using slot by (auto simp: f)
qed

text \<open>
  \<^verbatim>\<open>bt_unbalance\<close> ends, and turns the subtree into a list along the right fields. Every rotation
  takes one item away from the left subtree of the root.
\<close>

function tree_unbalance :: "'a tree \<Rightarrow> 'a tree" where
  "tree_unbalance Leaf = Leaf"
| "tree_unbalance (Node Leaf x r) = Node Leaf x (tree_unbalance r)"
| "tree_unbalance (Node (Node a y b) x c) = tree_unbalance (Node a y (Node b x c))"
  by pat_completeness auto
termination
  by (relation "measures [size, size \<circ> left]") auto

fun spine :: "'a list \<Rightarrow> 'a tree" where
  "spine [] = Leaf"
| "spine (x # xs) = Node Leaf x (spine xs)"

lemma tree_unbalance_spine: "tree_unbalance t = spine (inorder t)"
  by (induction t rule: tree_unbalance.induct) auto

lemma bt_unbalance_tree:
  assumes "is_tree h p (bt_get h bt) t" "distinct (inorder t)" "slot_owner bt \<inter> set_tree t = {}"
  shows "\<exists>m h'. bt_unbalance_loop bt n h = Some (m, h') \<and> is_tree h' p (bt_get h' bt) (tree_unbalance t) \<and>
    same_outside (set_tree t) bt h h'"
  using assms
proof (induction t arbitrary: p bt n h rule: tree_unbalance.induct)
  case 1
  then show ?case by (auto simp: bt_unbalance_loop.simps [of bt n h] same_outside_def)
next
  case (2 x r)
  obtain m h' where IH: "bt_unbalance_loop (Rhs x) n h = Some (m, h')"
      "is_tree h' (Some x) (bt_get h' (Rhs x)) (tree_unbalance r)" "same_outside (set_tree r) (Rhs x) h h'"
    using 2(1) [of h "Some x" "Rhs x" n] 2(2-4) by auto
  have "is_tree h' p (Some x) (Node Leaf x (tree_unbalance r))"
    using plug_right [OF _ IH(3), of p "Some x" Leaf r] IH(2) 2(2-4) by auto
  moreover have "bt \<noteq> Rhs x" "same_outside (set_tree (Node Leaf x r)) bt' h h'" for bt'
    using IH(3) 2(4) by (auto intro: same_outside_child)
  moreover from this have "bt_get h' bt = bt_get h bt" using same_outside_get 2(4) by metis
  ultimately show ?case using IH(1) 2(2) by (simp add: bt_unbalance_loop.simps [of bt n h])
next
  case (3 a y b x c)
  note rot = bt_rotate_right_tree [OF 3(2-4)]
  obtain m h' where IH: "bt_unbalance_loop bt (n + 1) (bt_rotate_right bt h) = Some (m, h')"
      "is_tree h' p (bt_get h' bt) (tree_unbalance (Node a y (Node b x c)))"
      "same_outside (set_tree (Node a y (Node b x c))) bt (bt_rotate_right bt h) h'"
    using 3(1) [OF rot(1), of "n + 1"] 3(3,4) by auto
  moreover have "same_outside (set_tree (Node (Node a y b) x c)) bt h h'"
    using same_outside_trans [OF rot(2)] IH(3) by (simp add: insert_commute Un_assoc)
  ultimately show ?case using 3(2) by (simp add: bt_unbalance_loop.simps [of bt n h])
qed

section \<open>Trees ordered by a key\<close>

text \<open>
  The contract of a comparison function: it orders the items of the tree by a key. The trees then
  behave as a finite map from keys to items.
\<close>

locale bt_order =
  fixes key :: "addr \<Rightarrow> 'k :: linorder" and cmp :: "'k \<Rightarrow> addr \<Rightarrow> int" and K :: "'k set"
  assumes cmp_neg: "k \<in> K \<Longrightarrow> key x \<in> K \<Longrightarrow> cmp k x < 0 \<longleftrightarrow> key x < k"
    and cmp_zero: "k \<in> K \<Longrightarrow> key x \<in> K \<Longrightarrow> cmp k x = 0 \<longleftrightarrow> key x = k"
begin

definition ordered :: "addr tree \<Rightarrow> bool" where
  "ordered t \<longleftrightarrow> sorted_wrt (<) (map key (inorder t)) \<and> key ` set_tree t \<subseteq> K"

lemma ordered_simps [simp]:
  "ordered Leaf"
  "ordered (Node l x r) \<longleftrightarrow> ordered l \<and> ordered r \<and> key x \<in> K \<and>
     (\<forall>y \<in> set_tree l. key y < key x) \<and> (\<forall>y \<in> set_tree r. key x < key y)"
  by (auto simp: ordered_def sorted_wrt_append) (meson order.strict_trans)

lemma ordered_distinct: "ordered t \<Longrightarrow> distinct (inorder t)"
  by (auto simp: ordered_def strict_sorted_iff distinct_map)

lemma tree_find_iff: "ordered t \<Longrightarrow> k \<in> K \<Longrightarrow> tree_find (cmp k) t = Some x \<longleftrightarrow> x \<in> set_tree t \<and> key x = k"
  by (induction t) (auto simp: cmp_neg cmp_zero)

lemma tree_find_None: "ordered t \<Longrightarrow> k \<in> K \<Longrightarrow> tree_find (cmp k) t = None \<longleftrightarrow> k \<notin> key ` set_tree t"
  using tree_find_iff [of t k] by (cases "tree_find (cmp k) t") (auto intro: image_eqI [OF sym])

lemma keys_unique:
  assumes "ordered t" "x \<in> set_tree t" "y \<in> set_tree t" "key x = key y"
  shows "x = y"
proof -
  have "key y \<in> K" using assms(1,3) by (auto simp: ordered_def)
  then have "tree_find (cmp (key y)) t = Some x" "tree_find (cmp (key y)) t = Some y"
    using tree_find_iff [OF assms(1)] assms by auto
  then show ?thesis by simp
qed

lemma set_tree_insert:
  "ordered t \<Longrightarrow> key i \<in> K \<Longrightarrow>
   set_tree (tree_insert (cmp (key i)) i t) = insert i {y \<in> set_tree t. key y \<noteq> key i}"
  by (induction t) (auto simp: cmp_neg cmp_zero)

lemma ordered_insert: "ordered t \<Longrightarrow> key i \<in> K \<Longrightarrow> ordered (tree_insert (cmp (key i)) i t)"
  by (induction t) (auto simp: cmp_neg cmp_zero set_tree_insert)

lemma inorder_remove:
  "ordered t \<Longrightarrow> k \<in> K \<Longrightarrow> inorder (tree_remove (cmp k) t) = filter (\<lambda>y. key y \<noteq> k) (inorder t)"
proof (induction t)
  case (Node l x r)
  then have "filter (\<lambda>y. key y \<noteq> k) (inorder l) = inorder l" if "key x \<le> k"
    using that by (intro filter_True) auto
  moreover from Node have "filter (\<lambda>y. key y \<noteq> k) (inorder r) = inorder r" if "k \<le> key x"
    using that by (intro filter_True) auto
  ultimately show ?case using Node by (auto simp: cmp_neg cmp_zero not_less)
qed simp

lemma set_tree_remove: "ordered t \<Longrightarrow> k \<in> K \<Longrightarrow> set_tree (tree_remove (cmp k) t) = {y \<in> set_tree t. key y \<noteq> k}"
  using arg_cong [OF inorder_remove, of t k set] by auto

lemma ordered_remove: "ordered t \<Longrightarrow> k \<in> K \<Longrightarrow> ordered (tree_remove (cmp k) t)"
  by (auto simp: ordered_def inorder_remove sorted_wrt_map set_tree_remove [unfolded ordered_def] intro: sorted_wrt_filter)

text \<open>The map laws: what a lookup finds after an insert and after a remove.\<close>

lemma find_insert:
  "ordered t \<Longrightarrow> key i \<in> K \<Longrightarrow> k \<in> K \<Longrightarrow>
   tree_find (cmp k) (tree_insert (cmp (key i)) i t) = (if k = key i then Some i else tree_find (cmp k) t)"
  by (induction t) (auto simp: cmp_neg cmp_zero)

lemma find_remove:
  "ordered t \<Longrightarrow> k \<in> K \<Longrightarrow> k' \<in> K \<Longrightarrow>
   tree_find (cmp k) (tree_remove (cmp k') t) = (if k = k' then None else tree_find (cmp k) t)"
  using tree_find_iff [OF ordered_remove, of t k' k] tree_find_iff [of t k]
  by (auto simp: set_tree_remove intro: option.expand) (metis not_None_eq)+

end

text \<open>Find, insert and remove depend on the sign of the comparison only.\<close>

lemma tree_cmp_cong:
  assumes "\<And>x. x \<in> set_tree t \<Longrightarrow> sgn (cmp x) = sgn (cmp' x)"
  shows "tree_find cmp t = tree_find cmp' t" "tree_insert cmp i t = tree_insert cmp' i t"
    "tree_remove cmp t = tree_remove cmp' t"
proof -
  have "\<forall>x \<in> set_tree t. (cmp x < 0 \<longleftrightarrow> cmp' x < 0) \<and> (cmp x = 0 \<longleftrightarrow> cmp' x = 0)"
    using assms by (metis sgn_0_0 sgn_less)
  then show "tree_find cmp t = tree_find cmp' t" "tree_insert cmp i t = tree_insert cmp' i t"
      "tree_remove cmp t = tree_remove cmp' t"
    by (induction t) auto
qed

section \<open>The tree operations\<close>

text \<open>Insert and remove on a heap that holds a tree; links outside of the tree stay as they are.\<close>

lemma holds_tree_find: "holds_tree h t \<Longrightarrow> bt_find cmp h = Some (tree_find cmp t)"
  by (auto simp: holds_tree_def bt_find_def intro: bt_find_loop_tree)

lemma holds_tree_insert:
  assumes "holds_tree h t" "item \<notin> set_tree t"
    and "bt_lhs h item = None" "bt_rhs h item = None" "bt_parent h item = None"
  shows "\<exists>depth h'. bt_insert cmp item h = Some (depth, h', tree_find cmp t) \<and> holds_tree h' (tree_insert cmp item t) \<and>
    same_outside (insert item (set_tree t)) Root h h'"
proof -
  have t: "is_tree h None (bt_get h Root) t" "distinct (inorder t)" "slot_ok h Root None"
    using assms(1) by (auto simp: holds_tree_def)
  then show ?thesis
    using bt_insert_loop_tree [OF t(1,3) assms(2) t(2), of cmp 0] assms(2-5) distinct_tree_insert
    by (auto simp: bt_insert_def holds_tree_def)
qed

lemma holds_tree_remove:
  assumes "holds_tree h t" "tree_find cmp t = Some x"
  shows "\<exists>h'. bt_remove cmp h = Some (True, h', Some x) \<and> holds_tree h' (tree_remove cmp t) \<and>
    same_outside (set_tree t) Root h h' \<and> bt_lhs h' x = None \<and> bt_rhs h' x = None \<and> bt_parent h' x = None"
proof -
  have t: "is_tree h None (bt_get h Root) t" "distinct (inorder t)" "slot_ok h Root None"
    using assms(1) by (auto simp: holds_tree_def)
  then show ?thesis
    using bt_remove_tree [OF t(1,3,2) _ assms(2)] holds_tree_find [OF assms(1), of cmp] assms(2) distinct_tree_remove
    by (auto simp: bt_remove_def holds_tree_def)
qed

lemma same_outside_links:
  "same_outside X Root h h' \<Longrightarrow> y \<notin> X \<Longrightarrow>
   bt_lhs h' y = bt_lhs h y \<and> bt_rhs h' y = bt_rhs h y \<and> bt_parent h' y = bt_parent h y"
  by (auto simp: same_outside_def)

text \<open>
  C24: on a tree the operations end and do what the functions on trees do: find returns the item the
  comparison selects, insert links a fresh item (or puts it in the place of an equal one, which is
  returned for its delete function), and remove unlinks the selected item and clears its fields.
\<close>

theorem bt_operations_refine:
  assumes "holds_tree h t" "item \<notin> set_tree t"
    and "bt_lhs h item = None" "bt_rhs h item = None" "bt_parent h item = None"
  shows "bt_find cmp h = Some (tree_find cmp t) \<and>
    (\<exists>depth h'. bt_insert cmp item h = Some (depth, h', tree_find cmp t) \<and> holds_tree h' (tree_insert cmp item t)) \<and>
    (\<exists>h'. bt_remove cmp h = Some (tree_find cmp t \<noteq> None, h', tree_find cmp t) \<and>
       holds_tree h' (if tree_find cmp t = None then t else tree_remove cmp t) \<and>
       (\<forall>x. tree_find cmp t = Some x \<longrightarrow> bt_lhs h' x = None \<and> bt_rhs h' x = None \<and> bt_parent h' x = None))"
proof (cases "tree_find cmp t")
  case None
  then show ?thesis
    using holds_tree_find [OF assms(1), of cmp] holds_tree_insert [OF assms, of cmp] assms(1)
    by (auto simp: bt_remove_def)
next
  case (Some x)
  then show ?thesis
    using holds_tree_find [OF assms(1), of cmp] holds_tree_insert [OF assms, of cmp] holds_tree_remove [OF assms(1) Some]
    by auto
qed

definition pair_heap :: bt_heap where
  "pair_heap = \<lparr>bt_root = Some 4, bt_lhs = (\<lambda>_. None)(4 \<mapsto> 2), bt_rhs = \<lambda>_. None,
     bt_parent = (\<lambda>_. None)(2 \<mapsto> 4)\<rparr>"

lemma pair_heap_holds: "holds_tree pair_heap (Node (Node Leaf 2 Leaf) 4 Leaf)"
  by (simp add: holds_tree_def pair_heap_def)

theorem bt_operations_refine_witness:
  "\<exists>h'. bt_remove (\<lambda>x. int x - 4) pair_heap = Some (True, h', Some 4) \<and> holds_tree h' (Node Leaf 2 Leaf)"
  using bt_operations_refine [OF pair_heap_holds, of 7 "\<lambda>x. int x - 4"] by (auto simp: pair_heap_def)

text \<open>
  The traversal is the order of the tree: \<^verbatim>\<open>bt_first\<close> and \<^verbatim>\<open>bt_last\<close> are its ends, \<^verbatim>\<open>bt_next\<close> returns
  the successor of an item and NULL after the last one, and \<^verbatim>\<open>bt_count\<close> ends with the number of items.
\<close>

theorem bt_traversal_inorder:
  assumes "holds_tree h t" "inorder t = xs @ x # ys"
  shows "bt_first h (bt_root h) = Some (Some (hd (inorder t))) \<and>
    bt_last h (bt_root h) = Some (Some (last (inorder t))) \<and>
    bt_next h (Some x) = Some (if ys = [] then None else Some (hd ys)) \<and>
    bt_count h Root = Some (int (length xs + 1 + length ys))"
proof -
  have t: "is_tree h None (bt_root h) t" "distinct (inorder t)" "t \<noteq> Leaf"
    using assms by (auto simp: holds_tree_def)
  have "size t = length xs + 1 + length ys"
    using assms(2) by (metis add.assoc length_Cons length_append length_inorder plus_1_eq_Suc)
  then show ?thesis
    using bt_first_tree [OF t(1)] bt_last_tree [OF t(1)] bt_next_tree [OF assms] bt_count_tree [of h None Root t] t
    by simp
qed

theorem bt_traversal_inorder_witness:
  "bt_next pair_heap (Some 2) = Some (Some 4) \<and> bt_count pair_heap Root = Some 2"
  using bt_traversal_inorder [OF pair_heap_holds, of "[]" 2 "[4]"] by simp

text \<open>
  \<^verbatim>\<open>bt_unbalance\<close> ends on every tree, and leaves the same items in the same order, linked as a list
  along their right fields.
\<close>

theorem bt_unbalance_ends:
  assumes "holds_tree h t"
  shows "\<exists>n h'. bt_unbalance Root h = Some (n, h') \<and> holds_tree h' (spine (inorder t))"
proof -
  obtain n h' where h: "bt_unbalance Root h = Some (n, h')" "is_tree h' None (bt_root h') (spine (inorder t))"
    using bt_unbalance_tree [of h None Root t 0] assms
    by (auto simp: holds_tree_def bt_unbalance_def tree_unbalance_spine)
  moreover have "inorder (spine xs) = xs" for xs :: "addr list" by (induction xs) auto
  ultimately show ?thesis using assms by (auto simp: holds_tree_def)
qed

theorem bt_unbalance_ends_witness:
  "\<exists>n h'. bt_unbalance Root pair_heap = Some (n, h') \<and> holds_tree h' (Node Leaf 2 (Node Leaf 4 Leaf))"
  using bt_unbalance_ends [OF pair_heap_holds] by simp

end
