(* ===== verification/Fasthash.thy ===== *)
theory Fasthash
  imports Smcp_Prelude
begin

text \<open>
  The streaming hash of \<^verbatim>\<open>src/smcp/fasthash.c\<close>: a 32-bit linear congruential mixer fed with
  little-endian four-byte blocks, used for the duplicate table and for entity tags. The theory
  holds the state record, one definition per function of the file, the block-wise reference
  definition of the hash, and the proof that byte-wise feeding computes it.
\<close>

section \<open>State and operations\<close>

record fasthash_state_s =
  fh_hash :: u32
  fh_bytes :: u32
  fh_next :: u32

definition fasthash_feed_block :: "fasthash_state_s \<Rightarrow> u32 \<Rightarrow> fasthash_state_s" where
  "fasthash_feed_block state blk =
     (let blk = blk XOR drop_bit 2 (fh_bytes state);
          h = fh_hash state XOR blk
      in state\<lparr>fh_hash := h * 1664525 + 1013904223\<rparr>)"

definition fasthash_start :: "u32 \<Rightarrow> fasthash_state_s" where
  "fasthash_start salt =
     fasthash_feed_block \<lparr>fh_hash = 0, fh_bytes = 0, fh_next = 0\<rparr> salt"

definition fasthash_feed_byte :: "fasthash_state_s \<Rightarrow> u8 \<Rightarrow> fasthash_state_s" where
  "fasthash_feed_byte state data =
     (let state = state\<lparr>fh_next := fh_next state OR
                          push_bit (8 * unat (fh_bytes state AND 3)) (ucast data),
                        fh_bytes := fh_bytes state + 1\<rparr>
      in if fh_bytes state AND 3 = 0
         then (fasthash_feed_block state (fh_next state))\<lparr>fh_next := 0\<rparr>
         else state)"

text \<open>
  \<^verbatim>\<open>fasthash_feed\<close> takes its length as a \<^verbatim>\<open>uint8_t\<close>; the loop reads that many bytes of
  \<open>data\<close>, and \<^const>\<open>None\<close> stands for a read past its end.
\<close>

fun fasthash_feed_loop :: "fasthash_state_s \<Rightarrow> u8 list \<Rightarrow> nat \<Rightarrow> fasthash_state_s option" where
  "fasthash_feed_loop state data 0 = Some state"
| "fasthash_feed_loop state [] (Suc len) = None"
| "fasthash_feed_loop state (b # data) (Suc len) =
     fasthash_feed_loop (fasthash_feed_byte state b) data len"

definition fasthash_feed :: "fasthash_state_s \<Rightarrow> u8 list \<Rightarrow> u8 \<Rightarrow> fasthash_state_s option" where
  "fasthash_feed state data len = fasthash_feed_loop state data (unat len)"

definition fasthash_finish :: "fasthash_state_s \<Rightarrow> u32 \<times> fasthash_state_s" where
  "fasthash_finish state =
     (let state = (if fh_bytes state AND 3 \<noteq> 0
                   then (fasthash_feed_block state (fh_next state))\<lparr>fh_bytes := 0\<rparr>
                   else state)
      in (fh_hash state, state))"

definition fasthash_finish_uint32 :: "fasthash_state_s \<Rightarrow> u32" where
  "fasthash_finish_uint32 state = drop_bit 0 (fst (fasthash_finish state))"

definition fasthash_finish_uint16 :: "fasthash_state_s \<Rightarrow> u16" where
  "fasthash_finish_uint16 state = ucast (drop_bit 16 (fasthash_finish_uint32 state))"

definition fasthash_finish_uint8 :: "fasthash_state_s \<Rightarrow> u8" where
  "fasthash_finish_uint8 state = ucast (drop_bit 24 (fasthash_finish_uint32 state))"

section \<open>Feeding\<close>

lemma fasthash_feed_loop_foldl:
  "len \<le> length data \<Longrightarrow>
   fasthash_feed_loop state data len = Some (foldl fasthash_feed_byte state (take len data))"
  by (induction state data len rule: fasthash_feed_loop.induct) auto

lemma fasthash_feed_foldl:
  "unat len \<le> length data \<Longrightarrow>
   fasthash_feed state data len = Some (foldl fasthash_feed_byte state (take (unat len) data))"
  by (simp add: fasthash_feed_def fasthash_feed_loop_foldl)

section \<open>The hash by blocks\<close>

text \<open>One round of the mixer, a little-endian block, and the hash of the bytes from block \<open>n\<close> on.\<close>

definition mix :: "u32 \<Rightarrow> u32 \<Rightarrow> u32 \<Rightarrow> u32" where
  "mix h blk n = (h XOR (blk XOR n)) * 1664525 + 1013904223"

definition le_block :: "u8 list \<Rightarrow> u32" where
  "le_block bs = foldr (\<lambda>b x. ucast b OR push_bit 8 x) bs 0"

fun hash_blocks :: "nat \<Rightarrow> u32 \<Rightarrow> u8 list \<Rightarrow> u32" where
  "hash_blocks n h (a # b # c # d # bs) =
     hash_blocks (n + 1) (mix h (le_block [a, b, c, d]) (word_of_nat (n + 1))) bs"
| "hash_blocks n h [] = h"
| "hash_blocks n h bs = mix h (le_block bs) (word_of_nat n)"

lemma and_3_of_nat: "(word_of_nat n :: u32) AND 3 = word_of_nat (n mod 4)"
proof -
  have "(3 :: u32) = mask 2" by (simp add: mask_eq_exp_minus_1)
  moreover have "(word_of_nat n :: u32) AND mask 2 = word_of_nat (take_bit 2 n)"
    by (simp add: take_bit_of_nat flip: take_bit_eq_mask)
  ultimately show ?thesis by (simp add: take_bit_eq_mod)
qed

lemma drop_2_of_nat: "n < 2 ^ 32 \<Longrightarrow> drop_bit 2 (word_of_nat n :: u32) = word_of_nat (n div 4)"
  by (simp add: word_unat_eq_iff unsigned_of_nat take_bit_nat_eq_self drop_bit_eq_div unat_div)

lemma le_block_append: "le_block (bs @ [b]) = le_block bs OR push_bit (8 * length bs) (ucast b)"
  by (induction bs) (simp_all add: le_block_def push_bit_or or.assoc push_bit_push_bit)

text \<open>The state after \<open>n\<close> whole blocks and the bytes \<open>bs\<close> of the next one.\<close>

definition in_block :: "nat \<Rightarrow> u32 \<Rightarrow> u8 list \<Rightarrow> fasthash_state_s" where
  "in_block n h bs = \<lparr>fh_hash = h, fh_bytes = word_of_nat (4 * n + length bs), fh_next = le_block bs\<rparr>"

lemma fasthash_start_in_block: "fasthash_start salt = in_block 0 (mix 0 salt 0) []"
  by (simp add: fasthash_start_def fasthash_feed_block_def in_block_def mix_def le_block_def Let_def)

lemma feed_byte_in_block:
  assumes "length bs < 4" "4 * n + length bs + 1 < 2 ^ 32"
  shows "fasthash_feed_byte (in_block n h bs) b =
     (if length bs = 3 then in_block (n + 1) (mix h (le_block (bs @ [b])) (word_of_nat (n + 1))) []
      else in_block n h (bs @ [b]))"
proof -
  let ?j = "length bs"
  define w :: u32 where "w = word_of_nat (4 * n + ?j)"
  define v :: u32 where "v = w + 1"
  have v: "v = word_of_nat (4 * n + ?j + 1)" by (simp add: v_def w_def)
  have pos: "unat (w AND 3) = ?j"
    unfolding w_def and_3_of_nat using assms(1) by (simp add: unsigned_of_nat take_bit_nat_eq_self)
  have "(4 * n + ?j + 1) mod 4 = (if ?j = 3 then 0 else ?j + 1)"
    using assms(1) by (auto simp: mod_Suc)
  then have full: "v AND 3 = 0 \<longleftrightarrow> ?j = 3"
    unfolding v and_3_of_nat using assms(1)
    by (auto simp: word_unat_eq_iff unsigned_of_nat take_bit_nat_eq_self simp del: of_nat_Suc)
  have cnt: "drop_bit 2 v = word_of_nat (n + 1)" if "?j = 3"
    using drop_2_of_nat [OF assms(2)] that by (simp add: v)
  have vb: "in_block (n + 1) k [] = \<lparr>fh_hash = k, fh_bytes = v, fh_next = 0\<rparr>" if "?j = 3" for k
    using that by (simp add: in_block_def v le_block_def)
  have vn: "in_block n h (bs @ [b]) = \<lparr>fh_hash = h, fh_bytes = v, fh_next = le_block (bs @ [b])\<rparr>"
    by (simp add: in_block_def v)
  have s: "in_block n h bs = \<lparr>fh_hash = h, fh_bytes = w, fh_next = le_block bs\<rparr>"
    by (simp add: in_block_def w_def)
  show ?thesis
    unfolding s vn
    by (simp add: fasthash_feed_byte_def pos full cnt vb [simplified] fasthash_feed_block_def mix_def Let_def
        le_block_append flip: v_def)
qed

lemma fasthash_finish_in_block:
  assumes "length bs < 4" "4 * n + 4 < 2 ^ 32"
  shows "fst (fasthash_finish (in_block n h bs)) = hash_blocks n h bs"
proof -
  have "(word_of_nat (4 * n + length bs) :: u32) AND 3 = 0 \<longleftrightarrow> bs = []"
    unfolding and_3_of_nat using assms(1)
    by (auto simp: word_unat_eq_iff unsigned_of_nat take_bit_nat_eq_self)
  moreover have "drop_bit 2 (word_of_nat (4 * n + length bs) :: u32) = word_of_nat n"
    using drop_2_of_nat [of "4 * n + length bs"] assms by simp
  moreover have "bs \<noteq> [] \<Longrightarrow> hash_blocks n h bs = mix h (le_block bs) (word_of_nat n)"
    using assms(1) by (cases "(n, h, bs)" rule: hash_blocks.cases) auto
  ultimately show ?thesis
    by (auto simp: fasthash_finish_def in_block_def fasthash_feed_block_def mix_def Let_def
        simp del: of_nat_add of_nat_mult)
qed

lemma feed_bytes_hash_blocks:
  assumes "4 * n + length bs + 4 < 2 ^ 32"
  shows "fst (fasthash_finish (foldl fasthash_feed_byte (in_block n h []) bs)) = hash_blocks n h bs"
  using assms
proof (induction n h bs rule: hash_blocks.induct)
  case (1 n h a b c d bs)
  then show ?case by (simp add: feed_byte_in_block)
qed (simp_all add: feed_byte_in_block fasthash_finish_in_block)

section \<open>Properties\<close>

text \<open>
  C30: The streaming hash is the hash by blocks: however the bytes of a message are split over
  two calls of \<^verbatim>\<open>fasthash_feed\<close> (each of at most 255 bytes), the result is the one obtained by
  mixing the little-endian four-byte blocks of the whole message one after the other.
\<close>

theorem fasthash_stream_eq_blocks:
  assumes "length xs < 256" "length ys < 256"
  shows "\<exists>s1 s2. fasthash_feed (fasthash_start salt) xs (word_of_nat (length xs)) = Some s1 \<and>
           fasthash_feed s1 ys (word_of_nat (length ys)) = Some s2 \<and>
           fasthash_finish_uint32 s2 = hash_blocks 0 (mix 0 salt 0) (xs @ ys)"
  using assms feed_bytes_hash_blocks [of 0 "xs @ ys" "mix 0 salt 0"]
  by (simp add: fasthash_feed_foldl unsigned_of_nat take_bit_nat_eq_self fasthash_start_in_block
      fasthash_finish_uint32_def)

lemma fasthash_stream_eq_blocks_witness:
  "\<exists>s1 s2. fasthash_feed (fasthash_start 0) [1, 2, 3] (word_of_nat (length [1, 2, 3 :: u8])) = Some s1 \<and>
     fasthash_feed s1 [4, 5] (word_of_nat (length [4, 5 :: u8])) = Some s2 \<and>
     fasthash_finish_uint32 s2 = hash_blocks 0 (mix 0 0 0) ([1, 2, 3] @ [4, 5])"
  by (rule fasthash_stream_eq_blocks) simp_all

lemma mix_inj: "mix h x n = mix k y n \<longleftrightarrow> h XOR x = k XOR y"
proof
  assume eq: "mix h x n = mix k y n"
  have "1664525 * 4276115653 = (1 :: u32)" by simp
  then have inv: "z * 1664525 * 4276115653 = z" for z :: u32 by (simp only: mult.assoc mult_1_right)
  have "(h XOR (x XOR n)) * 1664525 = (k XOR (y XOR n)) * 1664525" using eq by (simp add: mix_def)
  then have "h XOR (x XOR n) = k XOR (y XOR n)" by (metis inv)
  then have "(h XOR x) XOR n = (k XOR y) XOR n" by (simp only: xor.assoc)
  then have "((h XOR x) XOR n) XOR n = ((k XOR y) XOR n) XOR n" by (rule arg_cong)
  then show "h XOR x = k XOR y" by (simp add: xor.assoc)
next
  assume "h XOR x = k XOR y"
  then show "mix h x n = mix k y n" unfolding mix_def xor.assoc [symmetric] by (rule arg_cong)
qed

lemma xor_left_inj: "(h :: u32) XOR x = h XOR y \<longleftrightarrow> x = y"
proof
  assume "h XOR x = h XOR y"
  then have "h XOR (h XOR x) = h XOR (h XOR y)" by (rule arg_cong)
  then show "x = y" by (simp flip: xor.assoc)
qed simp

lemma xor_right_inj: "(h :: u32) XOR x = k XOR x \<longleftrightarrow> h = k"
  using xor_left_inj [of x h k] by (simp add: xor.commute)

lemma hash_blocks_inj: "hash_blocks n h bs = hash_blocks n k bs \<longleftrightarrow> h = k"
  by (induction n h bs arbitrary: k rule: hash_blocks.induct) (simp_all add: mix_inj xor_right_inj)

lemma le_block_bytes:
  assumes "le_block [a, b, c, d] = le_block [a', b', c', d']"
  shows "[a, b, c, d] = [a', b', c', d']"
proof -
  have bit: "bit (le_block [a, b, c, d]) i \<longleftrightarrow>
      (if i < 8 then bit a i else if i < 16 then bit b (i - 8) else if i < 24 then bit c (i - 16)
       else i < 32 \<and> bit d (i - 24))" for a b c d :: u8 and i
    by (auto simp: le_block_def bit_simps dest: bit_imp_le_length)
  have eq: "bit (le_block [a, b, c, d]) i = bit (le_block [a', b', c', d']) i" for i
    using assms by simp
  have "bit a i = bit a' i" "bit b i = bit b' i" "bit c i = bit c' i" "bit d i = bit d' i"
    if "i < 8" for i
    using eq [of i] eq [of "i + 8"] eq [of "i + 16"] eq [of "i + 24"] that by (simp_all add: bit)
  then show ?thesis by (auto intro!: bit_word_eqI)
qed

lemma hash_blocks_append:
  "length xs mod 4 = 0 \<Longrightarrow>
   hash_blocks n h (xs @ ys) = hash_blocks (n + length xs div 4) (hash_blocks n h xs) ys"
  by (induction n h xs rule: hash_blocks.induct) auto

text \<open>
  A change inside of one aligned block is always seen: two messages of at most 255 bytes that
  differ in one four-byte block only have different hashes, whatever the salt and the rest of the
  message are.
\<close>

theorem fasthash_detects_block_change:
  assumes "length xs mod 4 = 0" "length b = 4" "length c = 4" "b \<noteq> c" "length (xs @ b @ ys) < 256"
    and "fasthash_feed (fasthash_start salt) (xs @ b @ ys) (word_of_nat (length (xs @ b @ ys))) = Some s1"
    and "fasthash_feed (fasthash_start salt) (xs @ c @ ys) (word_of_nat (length (xs @ c @ ys))) = Some s2"
  shows "fasthash_finish_uint32 s1 \<noteq> fasthash_finish_uint32 s2"
proof -
  obtain b0 b1 b2 b3 where b: "b = [b0, b1, b2, b3]"
    using assms(2) by (auto simp: numeral_eq_Suc length_Suc_conv)
  obtain c0 c1 c2 c3 where c: "c = [c0, c1, c2, c3]"
    using assms(3) by (auto simp: numeral_eq_Suc length_Suc_conv)
  have "le_block b \<noteq> le_block c" using le_block_bytes assms(4) by (auto simp: b c)
  then have "hash_blocks 0 (mix 0 salt 0) (xs @ b @ ys) \<noteq> hash_blocks 0 (mix 0 salt 0) (xs @ c @ ys)"
    by (simp add: hash_blocks_append assms(1) b c hash_blocks_inj mix_inj xor_left_inj)
  moreover have "fasthash_finish_uint32 s = hash_blocks 0 (mix 0 salt 0) m"
    if "fasthash_feed (fasthash_start salt) m (word_of_nat (length m)) = Some s" "length m < 256" for m s
    using that feed_bytes_hash_blocks [of 0 m "mix 0 salt 0"]
    by (auto simp: fasthash_feed_foldl unsigned_of_nat take_bit_nat_eq_self fasthash_start_in_block
        fasthash_finish_uint32_def)
  moreover have "length (xs @ c @ ys) < 256" using assms(2,3,5) by simp
  ultimately show ?thesis using assms(5,6,7) by metis
qed

lemma fasthash_detects_block_change_witness:
  "fasthash_finish_uint32 (the (fasthash_feed (fasthash_start 7) ([] @ [1, 2, 3, 4] @ [9]) 5)) \<noteq>
   fasthash_finish_uint32 (the (fasthash_feed (fasthash_start 7) ([] @ [1, 2, 3, 5] @ [9]) 5))"
  by (rule fasthash_detects_block_change [of "[]" "[1, 2, 3, 4]" "[1, 2, 3, 5]" "[9]" 7])
     (simp_all add: fasthash_feed_foldl)

end
