(* ===== verification/Dupe.thy ===== *)
theory Dupe
  imports Fasthash
begin

text \<open>
  Duplicate detection of inbound messages (\<^verbatim>\<open>src/smcp/smcp-dupe.c\<close>): a ring of the last sixteen
  messages that were not duplicates, each with its hash, its source address and its message ID.
  The theory relates the ring to the window of the last sixteen messages and derives from the
  window what the filter promises.
\<close>

section \<open>State\<close>

text \<open>
  A source address is the bytes of \<^verbatim>\<open>smcp_sockaddr_t\<close> (28 bytes of \<^verbatim>\<open>struct sockaddr_in6\<close>); a message
  ID is kept as it lies in the packet.
\<close>

record dupe_entry =
  de_hash :: u32
  de_from :: "u8 list"
  de_msg_id :: u16
  de_code :: u16

record smcp_dupe_info_s =
  dupe :: "dupe_entry list"
  dupe_index :: u8

definition SMCP_CONF_DUPE_BUFFER_SIZE :: nat where "SMCP_CONF_DUPE_BUFFER_SIZE = 16"

definition sizeof_sockaddr :: nat where "sizeof_sockaddr = 28"

text \<open>The zeroed table of a new instance.\<close>

definition empty_dupe_info :: smcp_dupe_info_s where
  "empty_dupe_info =
     \<lparr>dupe = replicate 16 \<lparr>de_hash = 0, de_from = replicate 28 0, de_msg_id = 0, de_code = 0\<rparr>,
      dupe_index = 0\<rparr>"

section \<open>The check\<close>

definition msg_id_bytes :: "u16 \<Rightarrow> u8 list" where
  "msg_id_bytes i = [ucast i, ucast (drop_bit 8 i)]"

definition dupe_hash :: "u8 list \<Rightarrow> u16 \<Rightarrow> u32 option" where
  "dupe_hash saddr msg_id = do {
     s \<leftarrow> fasthash_feed (fasthash_start 0) saddr (word_of_nat sizeof_sockaddr);
     s \<leftarrow> fasthash_feed s (msg_id_bytes msg_id) 2;
     Some (fasthash_finish_uint32 s)
   }"

text \<open>The loop \<^verbatim>\<open>while (i--)\<close> from the last slot down to the first.\<close>

fun dupe_search :: "dupe_entry list \<Rightarrow> nat \<Rightarrow> u32 \<Rightarrow> u8 list \<Rightarrow> u16 \<Rightarrow> bool" where
  "dupe_search d 0 hash saddr msg_id \<longleftrightarrow> False"
| "dupe_search d (Suc i) hash saddr msg_id \<longleftrightarrow>
     (if de_hash (d ! i) = hash \<and> de_from (d ! i) = saddr \<and> de_msg_id (d ! i) = msg_id then True
      else dupe_search d i hash saddr msg_id)"

definition smcp_inbound_dupe_check ::
    "smcp_dupe_info_s \<Rightarrow> u8 list \<Rightarrow> u16 \<Rightarrow> (bool \<times> smcp_dupe_info_s) option" where
  "smcp_inbound_dupe_check info saddr msg_id = do {
     hash \<leftarrow> dupe_hash saddr msg_id;
     let is_dupe = dupe_search (dupe info) SMCP_CONF_DUPE_BUFFER_SIZE hash saddr msg_id;
     if is_dupe then Some (True, info)
     else do {
       let i = unat (dupe_index info);
       d \<leftarrow> mem_write (dupe info) i
              ((dupe info ! i)\<lparr>de_hash := hash, de_msg_id := msg_id, de_from := saddr\<rparr>);
       Some (False, info\<lparr>dupe := d,
         dupe_index := (dupe_index info + 1) mod word_of_nat SMCP_CONF_DUPE_BUFFER_SIZE\<rparr>)
     }
   }"

section \<open>The window of the last messages\<close>

text \<open>The results of checking a sequence of messages one after the other.\<close>

fun run_checks :: "('s \<Rightarrow> 'm \<Rightarrow> (bool \<times> 's) option) \<Rightarrow> 's \<Rightarrow> 'm list \<Rightarrow> (bool list \<times> 's) option" where
  "run_checks check s [] = Some ([], s)"
| "run_checks check s (m # ms) = do {
     (r, s) \<leftarrow> check s m;
     (rs, s) \<leftarrow> run_checks check s ms;
     Some (r # rs, s)
   }"

text \<open>
  A filter over a sliding window: a message passes when it is not in the window, and then pushes
  the oldest entry out. \<^const>\<open>None\<close> entries of the window are free slots.
\<close>

locale sliding_filter =
  fixes check :: "'s \<Rightarrow> 'm \<Rightarrow> (bool \<times> 's) option"
    and window :: "'s \<Rightarrow> 'm option list"
    and inv :: "'s \<Rightarrow> bool"
    and msg :: "'m \<Rightarrow> bool"
  assumes check_total: "inv s \<Longrightarrow> msg m \<Longrightarrow> \<exists>r s'. check s m = Some (r, s')"
    and check_inv: "inv s \<Longrightarrow> msg m \<Longrightarrow> check s m = Some (r, s') \<Longrightarrow> inv s'"
    and check_result: "inv s \<Longrightarrow> msg m \<Longrightarrow> check s m = Some (r, s') \<Longrightarrow> r \<longleftrightarrow> Some m \<in> set (window s)"
    and check_window: "inv s \<Longrightarrow> msg m \<Longrightarrow> check s m = Some (r, s') \<Longrightarrow>
          window s' = (if r then window s else tl (window s) @ [Some m])"
    and window_nonempty: "inv s \<Longrightarrow> window s \<noteq> []"
begin

lemma run_total:
  "inv s \<Longrightarrow> \<forall>m \<in> set ms. msg m \<Longrightarrow>
   \<exists>rs s'. run_checks check s ms = Some (rs, s') \<and> inv s' \<and> length rs = length ms"
proof (induction ms arbitrary: s)
  case (Cons m ms)
  from Cons.prems obtain r s1 where c: "check s m = Some (r, s1)" using check_total [of s m] by auto
  then have "inv s1" using Cons.prems check_inv [of s m] by auto
  with Cons.IH [of s1] Cons.prems obtain rs s2
    where "run_checks check s1 ms = Some (rs, s2)" "inv s2" "length rs = length ms" by auto
  with c show ?case by auto
qed simp

lemma run_window:
  assumes "inv s" "\<forall>m \<in> set ms. msg m" "run_checks check s ms = Some (rs, s')"
  shows "\<exists>pushed. window s' = drop (length pushed) (window s @ pushed) \<and>
           length pushed = length (filter Not rs) \<and> set pushed \<subseteq> Some ` set ms"
  using assms
proof (induction ms arbitrary: s rs)
  case (Cons m ms)
  from Cons.prems(3) obtain r s1 rs1 where c: "check s m = Some (r, s1)"
      and r: "run_checks check s1 ms = Some (rs1, s')" "rs = r # rs1"
    by (auto split: Option.bind_splits)
  have "inv s1" "\<forall>m \<in> set ms. msg m" using Cons.prems c check_inv [of s m] by auto
  from Cons.IH [OF this r(1)] obtain pushed where p: "window s' = drop (length pushed) (window s1 @ pushed)"
      "length pushed = length (filter Not rs1)" "set pushed \<subseteq> Some ` set ms" by blast
  have w: "window s1 = (if r then window s else tl (window s) @ [Some m])" "window s \<noteq> []"
    using Cons.prems c check_window [of s m] window_nonempty [of s] by auto
  show ?case
  proof (cases r)
    case True
    with p w r(2) show ?thesis by (intro exI [of _ pushed]) auto
  next
    case False
    obtain x xs where "window s = x # xs" using w(2) by (cases "window s") auto
    with False p w(1) r(2) show ?thesis by (intro exI [of _ "Some m # pushed"]) auto
  qed
qed simp

text \<open>A message that passed is recognised until as many others passed as the window has entries.\<close>

lemma recognised:
  assumes "inv s" "msg m" "\<forall>x \<in> set ms. msg x" "check s m = Some (False, s1)"
    and "run_checks check s1 ms = Some (rs, s2)" "length (filter Not rs) < length (window s)"
  shows "\<exists>s3. check s2 m = Some (True, s3)"
proof -
  have i1: "inv s1" using assms check_inv by blast
  have w1: "window s1 = tl (window s) @ [Some m]" using check_window [OF assms(1,2,4)] by simp
  obtain pushed where p: "window s2 = drop (length pushed) (window s1 @ pushed)"
      "length pushed = length (filter Not rs)"
    using run_window [OF i1 assms(3,5)] by blast
  have "length pushed \<le> length (tl (window s))" using p(2) assms(6) by simp
  then have "Some m \<in> set (window s2)" by (simp add: p(1) w1)
  moreover have "inv s2" using run_total [OF i1 assms(3)] assms(5) by auto
  ultimately show ?thesis using check_total [of s2 m] check_result [of s2 m] assms(2) by metis
qed

text \<open>Nothing is taken for a duplicate that was neither in the window before nor checked since.\<close>

lemma not_mistaken:
  assumes "inv s" "msg m" "\<forall>x \<in> set ms. msg x" "run_checks check s ms = Some (rs, s1)"
    and "check s1 m = Some (True, s2)"
  shows "Some m \<in> set (window s) \<or> m \<in> set ms"
proof -
  obtain pushed where p: "window s1 = drop (length pushed) (window s @ pushed)"
      "set pushed \<subseteq> Some ` set ms"
    using run_window [OF assms(1,3,4)] by blast
  have "inv s1" using run_total [OF assms(1,3)] assms(4) by auto
  then have "Some m \<in> set (window s1)" using check_result assms(2,5) by blast
  then have "Some m \<in> set (window s @ pushed)" unfolding p(1) by (rule in_set_dropD)
  then show ?thesis using p(2) by auto
qed

end

section \<open>The ring implements the window\<close>

definition entry_key :: "dupe_entry \<Rightarrow> (u8 list \<times> u16) option" where
  "entry_key e =
     (if dupe_hash (de_from e) (de_msg_id e) = Some (de_hash e) then Some (de_from e, de_msg_id e) else None)"

definition dupe_window :: "smcp_dupe_info_s \<Rightarrow> (u8 list \<times> u16) option list" where
  "dupe_window info = map entry_key (rotate (unat (dupe_index info)) (dupe info))"

definition dupe_inv :: "smcp_dupe_info_s \<Rightarrow> bool" where
  "dupe_inv info \<longleftrightarrow> length (dupe info) = SMCP_CONF_DUPE_BUFFER_SIZE \<and>
     unat (dupe_index info) < SMCP_CONF_DUPE_BUFFER_SIZE"

definition dupe_msg :: "u8 list \<times> u16 \<Rightarrow> bool" where
  "dupe_msg m \<longleftrightarrow> length (fst m) = sizeof_sockaddr"

abbreviation dupe_check_msg :: "smcp_dupe_info_s \<Rightarrow> u8 list \<times> u16 \<Rightarrow> (bool \<times> smcp_dupe_info_s) option" where
  "dupe_check_msg info m \<equiv> smcp_inbound_dupe_check info (fst m) (snd m)"

lemma dupe_hash_total: "length saddr = 28 \<Longrightarrow> \<exists>h. dupe_hash saddr msg_id = Some h"
  by (simp add: dupe_hash_def sizeof_sockaddr_def fasthash_feed_foldl msg_id_bytes_def)

lemma dupe_search_iff:
  "dupe_search d n hash saddr msg_id \<longleftrightarrow>
   (\<exists>i < n. de_hash (d ! i) = hash \<and> de_from (d ! i) = saddr \<and> de_msg_id (d ! i) = msg_id)"
  by (induction n) (auto simp: less_Suc_eq)

lemma dupe_search_window:
  assumes "dupe_inv info" "dupe_hash saddr msg_id = Some hash"
  shows "dupe_search (dupe info) SMCP_CONF_DUPE_BUFFER_SIZE hash saddr msg_id \<longleftrightarrow>
         Some (saddr, msg_id) \<in> set (dupe_window info)"
proof -
  have key: "entry_key e = Some (saddr, msg_id) \<longleftrightarrow>
      de_hash e = hash \<and> de_from e = saddr \<and> de_msg_id e = msg_id" for e
    using assms(2) by (auto simp: entry_key_def)
  have "Some (saddr, msg_id) \<in> set (dupe_window info) \<longleftrightarrow> (\<exists>e \<in> set (dupe info). entry_key e = Some (saddr, msg_id))"
    unfolding dupe_window_def by (simp add: image_iff eq_commute [of "Some (saddr, msg_id)"])
  also have "\<dots> \<longleftrightarrow> (\<exists>i < SMCP_CONF_DUPE_BUFFER_SIZE. entry_key (dupe info ! i) = Some (saddr, msg_id))"
    using assms(1) unfolding dupe_inv_def by (metis in_set_conv_nth)
  finally show ?thesis by (simp add: dupe_search_iff key)
qed

lemma rotate_push:
  assumes "i < length xs"
  shows "rotate (Suc i) (xs[i := e]) = tl (rotate i xs) @ [e]"
proof -
  have "rotate i (xs[i := e]) = e # tl (rotate i xs)"
    using assms by (simp add: rotate_drop_take drop_update_swap Cons_nth_drop_Suc [symmetric])
  then show ?thesis by simp
qed

lemma u8_next_index:
  assumes "unat (i :: u8) < 16"
  shows "unat ((i + 1) mod 16) = (unat i + 1) mod 16"
proof -
  have "unat (i + 1) = unat i + 1"
    using assms by (simp add: unat_word_ariths)
  then show ?thesis by (simp add: unat_mod)
qed

lemma dupe_check_cases:
  assumes "dupe_inv info" "dupe_msg m"
  shows "dupe_check_msg info m =
     (if Some m \<in> set (dupe_window info) then Some (True, info)
      else let i = unat (dupe_index info) in
        Some (False, info\<lparr>dupe := (dupe info)[i := (dupe info ! i)
            \<lparr>de_hash := the (dupe_hash (fst m) (snd m)), de_msg_id := snd m, de_from := fst m\<rparr>],
          dupe_index := (dupe_index info + 1) mod 16\<rparr>))"
proof -
  obtain h where h: "dupe_hash (fst m) (snd m) = Some h"
    using dupe_hash_total assms(2) by (auto simp: dupe_msg_def sizeof_sockaddr_def)
  show ?thesis
    using assms(1) dupe_search_window [OF assms(1) h]
    by (simp add: smcp_inbound_dupe_check_def h Let_def mem_write_def dupe_inv_def
        SMCP_CONF_DUPE_BUFFER_SIZE_def)
qed

lemma dupe_window_push:
  assumes "dupe_inv info" "entry_key e = Some m"
  shows "dupe_window (info\<lparr>dupe := (dupe info)[unat (dupe_index info) := e],
           dupe_index := (dupe_index info + 1) mod 16\<rparr>) = tl (dupe_window info) @ [Some m]"
proof -
  let ?i = "unat (dupe_index info)"
  have i: "?i < length (dupe info)" "length (dupe info) = 16"
    using assms(1) by (auto simp: dupe_inv_def SMCP_CONF_DUPE_BUFFER_SIZE_def)
  have "rotate ((?i + 1) mod 16) ((dupe info)[?i := e]) = rotate (Suc ?i) ((dupe info)[?i := e])"
    using i(2) rotate_conv_mod [of "Suc ?i" "(dupe info)[?i := e]"] by simp
  also have "\<dots> = tl (rotate ?i (dupe info)) @ [e]" using i(1) by (rule rotate_push)
  finally show ?thesis
    using i assms(2) by (simp add: dupe_window_def u8_next_index map_tl)
qed

interpretation ring: sliding_filter dupe_check_msg dupe_window dupe_inv dupe_msg
proof
  fix info :: smcp_dupe_info_s and m r info'
  assume inv: "dupe_inv info"
  show "dupe_window info \<noteq> []"
    using inv by (auto simp: dupe_window_def dupe_inv_def SMCP_CONF_DUPE_BUFFER_SIZE_def)
  assume msg: "dupe_msg m"
  show "\<exists>r info'. dupe_check_msg info m = Some (r, info')"
    by (auto simp: dupe_check_cases [OF inv msg] Let_def)
  obtain h where h: "dupe_hash (fst m) (snd m) = Some h"
    using dupe_hash_total msg by (auto simp: dupe_msg_def sizeof_sockaddr_def)
  assume c: "dupe_check_msg info m = Some (r, info')"
  show "r \<longleftrightarrow> Some m \<in> set (dupe_window info)"
    using c by (auto simp: dupe_check_cases [OF inv msg] Let_def split: if_splits)
  show "dupe_inv info'"
    using c inv u8_next_index [of "dupe_index info"]
    by (auto simp: dupe_check_cases [OF inv msg] Let_def dupe_inv_def SMCP_CONF_DUPE_BUFFER_SIZE_def
        split: if_splits)
  show "dupe_window info' = (if r then dupe_window info else tl (dupe_window info) @ [Some m])"
  proof -
    let ?e = "(dupe info ! unat (dupe_index info))\<lparr>de_hash := h, de_msg_id := snd m, de_from := fst m\<rparr>"
    have "entry_key ?e = Some m" using h by (simp add: entry_key_def)
    from c dupe_window_push [OF inv this] show ?thesis
      by (auto simp: dupe_check_cases [OF inv msg] Let_def h split: if_splits)
  qed
qed

lemma empty_dupe_inv: "dupe_inv empty_dupe_info"
  by (simp add: dupe_inv_def empty_dupe_info_def SMCP_CONF_DUPE_BUFFER_SIZE_def)

text \<open>No address hashes a zeroed slot into a match: the zero address and message ID 0 do not hash to 0.\<close>

lemma dupe_hash_zero: "dupe_hash (replicate 28 0) 0 \<noteq> Some 0"
  by code_simp

lemma empty_dupe_window: "set (dupe_window empty_dupe_info) = {None}"
  using dupe_hash_zero by (simp add: dupe_window_def empty_dupe_info_def entry_key_def)

section \<open>Properties\<close>

text \<open>
  C25: A retransmission is recognised: once a message with some source address and message ID was
  accepted as new, the check reports the same address and ID as a duplicate as long as fewer than
  sixteen other messages were accepted in between, however many duplicates arrived as well.
\<close>

theorem dupe_check_recognises:
  assumes "dupe_inv info" "length saddr = 28" "\<forall>m \<in> set ms. length (fst m) = 28"
    and "smcp_inbound_dupe_check info saddr msg_id = Some (False, info1)"
    and "run_checks dupe_check_msg info1 ms = Some (rs, info2)" "length (filter Not rs) < 16"
  shows "\<exists>info3. smcp_inbound_dupe_check info2 saddr msg_id = Some (True, info3)"
  using ring.recognised [of info "(saddr, msg_id)" ms info1 rs info2] assms
  by (simp add: dupe_msg_def sizeof_sockaddr_def dupe_window_def dupe_inv_def SMCP_CONF_DUPE_BUFFER_SIZE_def)

text \<open>
  C26: A new message is never dropped as a duplicate: starting from the zeroed table of a new
  instance, the check reports a duplicate only for a source address and message ID that it was
  asked about before.
\<close>

theorem dupe_check_no_false_positive:
  assumes "length saddr = 28" "\<forall>m \<in> set ms. length (fst m) = 28"
    and "run_checks dupe_check_msg empty_dupe_info ms = Some (rs, info1)"
    and "smcp_inbound_dupe_check info1 saddr msg_id = Some (True, info2)"
  shows "(saddr, msg_id) \<in> set ms"
  using ring.not_mistaken [of empty_dupe_info "(saddr, msg_id)" ms rs info1 info2] assms
    empty_dupe_inv empty_dupe_window
  by (simp add: dupe_msg_def sizeof_sockaddr_def)

text \<open>
  The check never leaves its table: on a table of sixteen slots with the index in range it
  returns, and the index stays in range, for every sequence of messages.
\<close>

theorem dupe_check_total:
  assumes "dupe_inv info" "\<forall>m \<in> set ms. length (fst m) = 28"
  shows "\<exists>rs info'. run_checks dupe_check_msg info ms = Some (rs, info') \<and> dupe_inv info' \<and>
           length rs = length ms"
  using ring.run_total [of info ms] assms by (simp add: dupe_msg_def sizeof_sockaddr_def)

lemma dupe_check_total_witness:
  "\<exists>rs info'. run_checks dupe_check_msg empty_dupe_info [(replicate 28 1, 5)] = Some (rs, info') \<and>
     dupe_inv info' \<and> length rs = length [(replicate 28 1 :: u8 list, 5 :: u16)]"
  by (rule dupe_check_total) (simp_all add: empty_dupe_inv)

lemma dupe_first_message:
  "smcp_inbound_dupe_check empty_dupe_info (replicate 28 1) 5 =
     Some (False, snd (the (smcp_inbound_dupe_check empty_dupe_info (replicate 28 1) 5)))"
  using ring.check_total [of empty_dupe_info "(replicate 28 1, 5)"]
    ring.check_result [of empty_dupe_info "(replicate 28 1, 5)"] empty_dupe_inv empty_dupe_window
  by (auto simp: dupe_msg_def sizeof_sockaddr_def)

abbreviation one_message :: smcp_dupe_info_s where
  "one_message \<equiv> snd (the (smcp_inbound_dupe_check empty_dupe_info (replicate 28 1) 5))"

lemma dupe_second_message: "\<exists>info3. smcp_inbound_dupe_check one_message (replicate 28 1) 5 = Some (True, info3)"
proof -
  have "dupe_check_msg empty_dupe_info (replicate 28 1, 5) = Some (False, one_message)"
    using dupe_first_message by simp
  from ring.recognised [OF empty_dupe_inv _ _ this, of "[]" "[]"] show ?thesis
    by (simp add: dupe_msg_def sizeof_sockaddr_def dupe_window_def empty_dupe_info_def)
qed

lemma dupe_check_recognises_witness:
  "\<exists>info3. smcp_inbound_dupe_check one_message (replicate 28 1) 5 = Some (True, info3)"
  by (rule dupe_check_recognises [of empty_dupe_info "replicate 28 1" "[]" 5 _ "[]"])
     (use dupe_first_message in \<open>simp_all add: empty_dupe_inv\<close>)

lemma dupe_check_no_false_positive_witness:
  "(\<exists>rs info1 info2. run_checks dupe_check_msg empty_dupe_info [(replicate 28 1, 5)] = Some (rs, info1) \<and>
      smcp_inbound_dupe_check info1 (replicate 28 1) 5 = Some (True, info2)) \<and>
   (replicate 28 1, 5) \<in> set [(replicate 28 1 :: u8 list, 5 :: u16)]"
proof -
  obtain info1 where f: "smcp_inbound_dupe_check empty_dupe_info (replicate 28 1) 5 = Some (False, info1)"
    using dupe_first_message by blast
  then have first: "run_checks dupe_check_msg empty_dupe_info [(replicate 28 1, 5)] = Some ([False], info1)"
    by simp
  obtain info2 where second: "smcp_inbound_dupe_check info1 (replicate 28 1) 5 = Some (True, info2)"
    using dupe_second_message f by auto
  have "(replicate 28 1, 5) \<in> set [(replicate 28 1 :: u8 list, 5 :: u16)]"
    using first second by (intro dupe_check_no_false_positive [of "replicate 28 1"]) simp_all
  with first second show ?thesis by blast
qed

end
