(* ===== verification/Smcp_State.thy ===== *)
theory Smcp_State
  imports Timer Btree Dupe Coap_Codes
begin

text \<open>
  The state of an instance, \<^verbatim>\<open>struct smcp_s\<close> of \<^verbatim>\<open>src/smcp/smcp-internal.h\<close>, with the transactions of
  \<^verbatim>\<open>src/smcp/smcp-transaction.h\<close> that its tree links together.

  Pointers to transactions are addresses; the contents of every transaction is a field of the
  state, and the timer embedded in a transaction has the address of the transaction. The packet
  buffers belong to the state: an inbound packet is the list of the bytes of its buffer, the
  outbound packet lies at the start of \<^verbatim>\<open>packet_bytes\<close>, and a pointer into either of them is an offset.
  There is one instance, so that \<^verbatim>\<open>smcp_get_current_instance()\<close> is the state that is passed along.

  Function pointers are numbers. What a function outside of the library does when it is called
  is given by an environment: the handlers and callbacks of the application, the socket, the
  resolver and the clock. The random numbers that the library will draw are part of the state, and
  so is the list of the packets handed to the socket, the last one first.
\<close>

section \<open>Addresses of peers\<close>

text \<open>\<^verbatim>\<open>struct sockaddr_in6\<close> as its 28 bytes: family, port, flow, address, scope.\<close>

type_synonym sockaddr = "u8 list"

definition smcp_port :: "sockaddr \<Rightarrow> u8 list" where "smcp_port s = take 2 (drop 2 s)"

definition smcp_addr :: "sockaddr \<Rightarrow> u8 list" where "smcp_addr s = take 16 (drop 8 s)"

definition addr_is_v4mapped :: "u8 list \<Rightarrow> bool" where
  "addr_is_v4mapped a \<longleftrightarrow> take 12 a = replicate 10 0 @ [0xFF, 0xFF]"

definition SMCP_IS_ADDR_MULTICAST :: "u8 list \<Rightarrow> bool" where
  "SMCP_IS_ADDR_MULTICAST a \<longleftrightarrow> a ! 0 = 0xFF \<or> addr_is_v4mapped a \<and> a ! 12 AND 0xF0 = 0xE0"

definition SMCP_IS_ADDR_LOOPBACK :: "u8 list \<Rightarrow> bool" where
  "SMCP_IS_ADDR_LOOPBACK a \<longleftrightarrow> a = replicate 15 0 @ [1] \<or> addr_is_v4mapped a \<and> a ! 12 = 127"

definition zero_sockaddr :: sockaddr where "zero_sockaddr = replicate 28 0"

section \<open>Transactions\<close>

type_synonym fn = nat

record smcp_transaction_s =
  resendCallback :: "fn option"
  callback :: "fn option"
  tr_context :: "addr option"
  expiration :: timeval
  token :: u16
  msg_id :: u16
  tr_saddr :: sockaddr
  last_observe :: u32
  next_block2 :: u32
  sent_code :: u16
  flags :: u8
  attemptCount :: "4 word"
  waiting_for_async_response :: bool
  should_dealloc :: bool
  active :: bool
  needs_to_close_observe :: bool
  multicast :: bool

definition SMCP_TRANSACTION_ALWAYS_INVALIDATE :: int where "SMCP_TRANSACTION_ALWAYS_INVALIDATE = 2 ^ 0"
definition SMCP_TRANSACTION_OBSERVE :: int where "SMCP_TRANSACTION_OBSERVE = 2 ^ 1"
definition SMCP_TRANSACTION_KEEPALIVE :: int where "SMCP_TRANSACTION_KEEPALIVE = 2 ^ 2"
definition SMCP_TRANSACTION_NO_AUTO_END :: int where "SMCP_TRANSACTION_NO_AUTO_END = 2 ^ 3"
definition SMCP_TRANSACTION_DELAY_START :: int where "SMCP_TRANSACTION_DELAY_START = 2 ^ 8"

lemmas transaction_flags = SMCP_TRANSACTION_ALWAYS_INVALIDATE_def SMCP_TRANSACTION_OBSERVE_def
  SMCP_TRANSACTION_KEEPALIVE_def SMCP_TRANSACTION_NO_AUTO_END_def SMCP_TRANSACTION_DELAY_START_def

text \<open>The test \<^verbatim>\<open>flags & FLAG\<close>, where the 8-bit field is promoted to int.\<close>

definition has_flag :: "u8 \<Rightarrow> int \<Rightarrow> bool" where
  "has_flag f flag \<longleftrightarrow> uint f AND flag \<noteq> 0"

section \<open>Packets\<close>

record smcp_inbound_s =
  in_packet :: "u8 list option"
  packet_len :: u16
  in_last_option_key :: u32
  this_option :: "nat option"
  in_content_ptr :: "nat option"
  in_content_len :: u16
  content_type :: u16
  was_sent_to_multicast :: bool
  is_fake :: bool
  is_dupe :: bool
  has_observe_option :: bool
  max_age :: "32 word"
  observe_value :: u32
  block2_value :: u32
  in_saddr :: sockaddr
  pktinfo :: "u8 list"

record smcp_outbound_s =
  out_packet :: bool
  max_packet_len :: u16
  out_content_ptr :: nat
  out_content_len :: u16
  next_tid :: u16
  out_last_option_key :: u32
  out_saddr :: sockaddr
  packet_bytes :: "u8 list"

definition SMCP_MAX_PACKET_LENGTH :: u16 where "SMCP_MAX_PACKET_LENGTH = 1024 + 8"

text \<open>\<^verbatim>\<open>memset\<close> of the two structures to zero.\<close>

definition zero_inbound :: smcp_inbound_s where
  "zero_inbound = \<lparr>in_packet = None, packet_len = 0, in_last_option_key = 0, this_option = None,
     in_content_ptr = None, in_content_len = 0, content_type = 0, was_sent_to_multicast = False,
     is_fake = False, is_dupe = False, has_observe_option = False, max_age = 0, observe_value = 0,
     block2_value = 0, in_saddr = zero_sockaddr, pktinfo = replicate 20 0\<rparr>"

definition zero_outbound :: smcp_outbound_s where
  "zero_outbound = \<lparr>out_packet = False, max_packet_len = 0, out_content_ptr = 0, out_content_len = 0,
     next_tid = 0, out_last_option_key = 0, out_saddr = zero_sockaddr,
     packet_bytes = replicate (unat SMCP_MAX_PACKET_LENGTH + 1) 0\<rparr>"

section \<open>The instance\<close>

datatype timer_fn = Transaction_timeout | Timer_fn fn

record smcp_vhost_s =
  vhost_name :: "u8 list"
  vhost_func :: "fn option"
  vhost_context :: "addr option"

text \<open>The credentials set last, a global variable of \<^verbatim>\<open>src/smcp/smcp-auth.c\<close> that nothing reads yet.\<close>

record smcp_auth_user_s =
  username :: "u8 list"
  ha1 :: u32

record smcp_s =
  request_handler :: "fn option"
  request_handler_context :: "addr option"
  timer_state :: "timer_fn timers_s"
  transactions :: bt_heap
  trans :: "addr \<Rightarrow> smcp_transaction_s"
  current_transaction :: "addr option"
  is_responding :: bool
  did_respond :: bool
  is_processing_message :: bool
  force_current_outbound_code :: bool
  last_msg_id :: u16
  inbound :: smcp_inbound_s
  outbound :: smcp_outbound_s
  dupe_info :: smcp_dupe_info_s
  vhost :: "smcp_vhost_s list"
  vhost_count :: u8
  proxy_url :: "string option"
  random_numbers :: "nat \<Rightarrow> u32"
  sent_packets :: "(u8 list \<times> sockaddr) list"
  global_temp_auth_user :: smcp_auth_user_s

text \<open>Functions outside of the library. \<^const>\<open>None\<close> is a call that does not return.\<close>

record smcp_env =
  env_resend :: "fn \<Rightarrow> addr option \<Rightarrow> smcp_s \<Rightarrow> (smcp_status_t \<times> smcp_s) option"
  env_response :: "fn \<Rightarrow> int \<Rightarrow> addr option \<Rightarrow> smcp_s \<Rightarrow> (smcp_status_t \<times> smcp_s) option"
  env_request :: "fn \<Rightarrow> addr option \<Rightarrow> smcp_s \<Rightarrow> (smcp_status_t \<times> smcp_s) option"
  env_timer :: "fn \<Rightarrow> addr option \<Rightarrow> smcp_s \<Rightarrow> smcp_s option"
  env_cancel :: "timer_fn \<Rightarrow> addr option \<Rightarrow> smcp_s \<Rightarrow> smcp_s option"
  env_send :: "u8 list \<Rightarrow> sockaddr \<Rightarrow> int"
  env_lookup :: "string \<Rightarrow> smcp_status_t \<times> sockaddr"
  env_port :: u16
  env_now :: timeval

text \<open>\<^verbatim>\<open>SMCP_FUNC_RANDOM_UINT32()\<close>\<close>

definition draw_random :: "smcp_s \<Rightarrow> u32 \<times> smcp_s" where
  "draw_random self = (random_numbers self 0, self\<lparr>random_numbers := (\<lambda>n. random_numbers self (n + 1))\<rparr>)"

abbreviation set_trans :: "addr \<Rightarrow> (smcp_transaction_s \<Rightarrow> smcp_transaction_s) \<Rightarrow> smcp_s \<Rightarrow> smcp_s" where
  "set_trans h f self \<equiv> self\<lparr>trans := (trans self)(h := f (trans self h))\<rparr>"

abbreviation set_inbound :: "(smcp_inbound_s \<Rightarrow> smcp_inbound_s) \<Rightarrow> smcp_s \<Rightarrow> smcp_s" where
  "set_inbound f self \<equiv> self\<lparr>inbound := f (inbound self)\<rparr>"

abbreviation set_outbound :: "(smcp_outbound_s \<Rightarrow> smcp_outbound_s) \<Rightarrow> smcp_s \<Rightarrow> smcp_s" where
  "set_outbound f self \<equiv> self\<lparr>outbound := f (outbound self)\<rparr>"

text \<open>The zeroed memory of an instance, before the first operation on it.\<close>

definition zero_transaction :: smcp_transaction_s where
  "zero_transaction = \<lparr>resendCallback = None, callback = None, tr_context = None,
     expiration = \<lparr>tv_sec = 0, tv_usec = 0\<rparr>, token = 0, msg_id = 0, tr_saddr = zero_sockaddr,
     last_observe = 0, next_block2 = 0, sent_code = 0, flags = 0, attemptCount = 0,
     waiting_for_async_response = False, should_dealloc = False, active = False,
     needs_to_close_observe = False, multicast = False\<rparr>"

definition zero_smcp :: "(nat \<Rightarrow> u32) \<Rightarrow> smcp_s" where
  "zero_smcp random = \<lparr>request_handler = None, request_handler_context = None,
     timer_state = \<lparr>t_ll = \<lparr>ll_next = \<lambda>_. None, ll_prev = \<lambda>_. None\<rparr>,
       t_fire_date = \<lambda>_. \<lparr>tv_sec = 0, tv_usec = 0\<rparr>, t_context = \<lambda>_. None, t_callback = \<lambda>_. None,
       t_cancel = \<lambda>_. None, timers = None\<rparr>,
     transactions = \<lparr>bt_root = None, bt_lhs = \<lambda>_. None, bt_rhs = \<lambda>_. None, bt_parent = \<lambda>_. None\<rparr>,
     trans = \<lambda>_. zero_transaction, current_transaction = None, is_responding = False,
     did_respond = False, is_processing_message = False, force_current_outbound_code = False,
     last_msg_id = 0, inbound = zero_inbound, outbound = zero_outbound, dupe_info = empty_dupe_info,
     vhost = replicate 3 \<lparr>vhost_name = replicate 64 0, vhost_func = None, vhost_context = None\<rparr>,
     vhost_count = 0, proxy_url = None, random_numbers = random,
     sent_packets = [], global_temp_auth_user = \<lparr>username = replicate 16 0, ha1 = 0\<rparr>\<rparr>"

section \<open>Message identifiers\<close>

definition smcp_get_next_msg_id :: "smcp_s \<Rightarrow> u16 \<times> smcp_s" where
  "smcp_get_next_msg_id self =
     (let self = (if last_msg_id self = 0
                  then let (r, self) = draw_random self in self\<lparr>last_msg_id := ucast r\<rparr>
                  else self);
          self = self\<lparr>last_msg_id := last_msg_id self * 23873 + 41\<rparr>
      in (last_msg_id self, self))"

text \<open>The identifiers drawn one after the other.\<close>

fun msg_ids :: "nat \<Rightarrow> smcp_s \<Rightarrow> u16 list" where
  "msg_ids 0 self = []"
| "msg_ids (Suc n) self = (let (i, self) = smcp_get_next_msg_id self in i # msg_ids n self)"

definition next_id :: "u16 \<Rightarrow> u16" where "next_id x = x * 23873 + 41"

lemma sum_powers_double: "(\<Sum>i<2 * e. a ^ i) = (1 + a) * (\<Sum>i<e. (a * a) ^ i)" for a :: int
proof (induction e)
  case (Suc e)
  have "(a * a) ^ e = a ^ (2 * e)" by (simp add: power_mult power2_eq_square)
  then show ?case using Suc by (simp add: distrib_left distrib_right)
qed simp

lemma parity_sum_powers: "odd a \<Longrightarrow> even (\<Sum>i<d. a ^ i) \<longleftrightarrow> even d" for a :: int
  by (induction d) auto

text \<open>
  The sum of the first \<open>d\<close> powers of a number that is 1 modulo 4 has the factors of two of \<open>d\<close>, which
  makes the period of the sequence of identifiers a multiple of \<open>2 ^ 16\<close>.
\<close>

lemma dvd_sum_powers:
  fixes a :: int
  assumes "a mod 4 = 1" "2 ^ k dvd (\<Sum>i<d. a ^ i)"
  shows "2 ^ k dvd d"
  using assms
proof (induction k arbitrary: a d)
  case (Suc k)
  have "odd a" using Suc.prems(1) by presburger
  moreover have "even (\<Sum>i<d. a ^ i)" using Suc.prems(2) by (simp add: dvd_mult_left)
  ultimately obtain e where e: "d = 2 * e" using parity_sum_powers by blast
  obtain q where q: "a = 4 * q + 1" using Suc.prems(1) by (metis mult_div_mod_eq)
  have "2 * 2 ^ k dvd 2 * ((2 * q + 1) * (\<Sum>i<e. (a * a) ^ i))"
    using Suc.prems(2) unfolding e sum_powers_double by (simp add: q algebra_simps)
  then have "2 ^ k dvd (2 * q + 1) * (\<Sum>i<e. (a * a) ^ i)" by simp
  then have "2 ^ k dvd (\<Sum>i<e. (a * a) ^ i)"
    by (simp add: coprime_dvd_mult_right_iff)
  moreover have "a * a = 4 * (4 * q * q + 2 * q) + 1" unfolding q by (simp add: algebra_simps)
  moreover have "(4 * z + 1) mod 4 = (1 :: int)" for z by presburger
  ultimately have "2 ^ k dvd e" using Suc.IH [of "a * a" e] by metis
  then show ?case using e by simp
qed simp

lemma sum_powers_Suc: "(\<Sum>i<Suc n. a ^ i) = 1 + a * (\<Sum>i<n. a ^ i)" for a :: "'a :: comm_semiring_1"
  by (simp add: sum.lessThan_Suc_shift sum_distrib_left del: sum.lessThan_Suc)

lemma next_id_funpow: "(next_id ^^ n) x = 23873 ^ n * x + 41 * (\<Sum>i<n. 23873 ^ i)"
proof (induction n)
  case (Suc n)
  have "(next_id ^^ Suc n) x = next_id (23873 ^ n * x + 41 * (\<Sum>i<n. 23873 ^ i))" by (simp add: Suc)
  also have "\<dots> = 23873 ^ Suc n * x + 41 * (1 + 23873 * (\<Sum>i<n. 23873 ^ i))"
    by (simp add: next_id_def distrib_left distrib_right mult_ac)
  finally show ?case unfolding sum_powers_Suc .
qed simp

lemma next_id_period:
  assumes "(next_id ^^ d) x = x"
  shows "2 ^ 16 dvd d"
proof -
  let ?S = "\<Sum>i<d. (23873 :: int) ^ i"
  have "(23873 :: u16) ^ d - 1 = 23872 * (\<Sum>i<d. 23873 ^ i)"
    using power_diff_1_eq [of "23873 :: u16" d] by simp
  moreover have "(23873 ^ d - 1) * x + 41 * (\<Sum>i<d. 23873 ^ i) = 0"
    using assms unfolding next_id_funpow by (simp add: left_diff_distrib diff_add_eq)
  ultimately have "(\<Sum>i<d. 23873 ^ i) * (23872 * x + 41) = 0"
    by (simp add: distrib_left mult_ac)
  moreover have "word_of_int (?S * (23872 * uint x + 41)) = (\<Sum>i<d. 23873 ^ i) * (23872 * x + 41)"
    by simp
  ultimately have "(2 :: int) ^ 16 dvd ?S * (23872 * uint x + 41)"
    using word_of_int_eq_0_iff [where ?'a = 16, of "?S * (23872 * uint x + 41)"] by simp
  moreover have "coprime ((2 :: int) ^ 16) (23872 * uint x + 41)"
    unfolding coprime_power_left_iff by simp
  ultimately have "(2 :: int) ^ 16 dvd ?S"
    using coprime_dvd_mult_left_iff by blast
  then show ?thesis using dvd_sum_powers [of 23873 16 d] by simp
qed

lemma next_id_inj: "next_id x = next_id y \<Longrightarrow> x = y"
proof -
  assume "next_id x = next_id y"
  then have e: "x * 23873 = y * 23873" by (simp add: next_id_def)
  have "x * 23873 * 12993 = y * 23873 * 12993" by (simp only: e)
  moreover have "(23873 * 12993 :: u16) = 1" by (simp add: word_unat_eq_iff)
  ultimately show "x = y" unfolding mult.assoc by (simp only: mult_1_right)
qed

lemma next_id_funpow_eq:
  assumes "(next_id ^^ i) x = (next_id ^^ j) x" "i < j" "j < i + 2 ^ 16"
  shows False
proof -
  have "(next_id ^^ i) x = (next_id ^^ i) ((next_id ^^ (j - i)) x)"
    using assms(1,2) by (metis add_diff_inverse_nat comp_apply funpow_add not_less_iff_gr_or_eq)
  then have "x = (next_id ^^ (j - i)) x"
    using next_id_inj inj_fn [of next_id] by (meson injD injI)
  then have "2 ^ 16 dvd j - i" using next_id_period by metis
  then show False using assms(2,3) by (auto dest: dvd_imp_le)
qed

lemma msg_ids_Suc:
  "msg_ids (Suc n) self = (let (i, self) = smcp_get_next_msg_id self in i # msg_ids n self)"
  by simp

lemma next_msg_id_last: "smcp_get_next_msg_id self = (i, self') \<Longrightarrow> last_msg_id self' = i"
  by (auto simp: smcp_get_next_msg_id_def Let_def)

lemma msg_ids_eq:
  "last_msg_id self = x \<Longrightarrow> x \<noteq> 0 \<Longrightarrow> 0 \<notin> set (butlast (msg_ids n self)) \<Longrightarrow>
   msg_ids n self = map (\<lambda>i. (next_id ^^ Suc i) x) [0..<n]"
proof (induction n arbitrary: self x)
  case (Suc n)
  obtain self' where s: "smcp_get_next_msg_id self = (next_id x, self')" "last_msg_id self' = next_id x"
    using Suc.prems(1,2) by (auto simp: smcp_get_next_msg_id_def next_id_def Let_def)
  have "msg_ids n self' = map (\<lambda>i. (next_id ^^ Suc i) (next_id x)) [0..<n]"
  proof (cases n)
    case (Suc m)
    then have "next_id x \<noteq> 0" "0 \<notin> set (butlast (msg_ids n self'))"
      using Suc.prems(3) s(1) by (auto simp: Let_def split: prod.splits if_splits)
    then show ?thesis using Suc.IH s(2) by blast
  qed simp
  then show ?case
    using s(1) by (simp add: upt_rec [of 0] map_Suc_upt [symmetric] funpow_swap1 del: upt_Suc)
qed simp

text \<open>
  C23: message identifiers do not repeat: of up to 65536 identifiers drawn one after the other all are
  different, unless the generator was seeded anew after the identifier 0 came up.
\<close>

theorem msg_ids_distinct:
  assumes "n \<le> 65536" "0 \<notin> set (butlast (msg_ids n self))"
  shows "distinct (msg_ids n self)"
proof (cases n)
  case (Suc m)
  obtain i self' where s: "smcp_get_next_msg_id self = (i, self')" "last_msg_id self' = i"
    using next_msg_id_last by (metis surj_pair)
  have dist: "distinct (map (\<lambda>j. (next_id ^^ j) i) [0..<n])"
  proof -
    have "inj_on (\<lambda>j. (next_id ^^ j) i) (set [0..<n])"
    proof (rule linorder_inj_onI)
      fix a b assume "a < b" "a \<in> set [0..<n]" "b \<in> set [0..<n]"
      then show "(next_id ^^ a) i \<noteq> (next_id ^^ b) i"
        using next_id_funpow_eq [of a i b] assms(1) by auto
    qed auto
    then show ?thesis by (simp add: distinct_map)
  qed
  have "msg_ids m self' = map (\<lambda>j. (next_id ^^ Suc j) i) [0..<m]"
  proof (cases m)
    case (Suc k)
    then have "i \<noteq> 0" "0 \<notin> set (butlast (msg_ids m self'))"
      using assms(2) s(1) \<open>n = Suc m\<close> by (auto simp: Let_def split: prod.splits if_splits)
    then show ?thesis using msg_ids_eq s(2) by blast
  qed simp
  then have "msg_ids n self = map (\<lambda>j. (next_id ^^ j) i) [0..<n]"
    using s(1) Suc by (simp add: upt_rec [of 0] map_Suc_upt [symmetric] del: upt_Suc)
  then show ?thesis using dist by simp
qed simp

lemma msg_ids_distinct_witness: "distinct (msg_ids 3 (zero_smcp (\<lambda>_. 7)))"
  by (rule msg_ids_distinct)
    (simp_all add: numeral_3_eq_3 smcp_get_next_msg_id_def draw_random_def zero_smcp_def Let_def)

end
