(* ===== verification/Url_Encode.thy ===== *)
theory Url_Encode
  imports String_Utils
begin

text \<open>
  Percent encoding and decoding of \<^verbatim>\<open>src/smcp/url-helpers.c\<close>, the quoting of link-format
  attribute values, and the two tokenizers that decode in place. Memory is one list of
  characters and a pointer is an index; source and destination may overlap, which is how
  \<^verbatim>\<open>url_decode_cstr_inplace\<close> uses the decoder. The sizes are unbounded naturals: \<^verbatim>\<open>size_t\<close>
  counters of the loops are bounded by the lengths of the strings.
\<close>

section \<open>Characters\<close>

definition isurlchar :: "char \<Rightarrow> bool" where
  "isurlchar c \<longleftrightarrow> isalnum c \<or> c \<in> set ''$-_.+!*'' \<or> c = CHR 0x27 \<or> c \<in> set ''(),''"

definition int_to_hex_digit :: "nat \<Rightarrow> char" where
  "int_to_hex_digit x = ''0123456789ABCDEF'' ! (x mod 16)"

definition hex_digit_to_int :: "char \<Rightarrow> nat" where
  "hex_digit_to_int c =
     (let n = char_code c in
      if 48 \<le> n \<and> n \<le> 57 then n - 48
      else if 65 \<le> n \<and> n \<le> 70 then 10 + n - 65
      else if 97 \<le> n \<and> n \<le> 102 then 10 + n - 97
      else 0)"

section \<open>Encoding\<close>

function url_encode_loop ::
    "string \<Rightarrow> nat \<Rightarrow> nat \<Rightarrow> nat \<Rightarrow> nat \<Rightarrow> (string \<times> nat) option" where
  "url_encode_loop mem dest src max_size ret = do {
     src_char \<leftarrow> mem_read mem src;
     if src_char = NUL then do { mem \<leftarrow> mem_write mem dest NUL; Some (mem, ret) }
     else if max_size = 0 then do { mem \<leftarrow> mem_write mem dest NUL; Some (mem, ret + 1) }
     else if isurlchar src_char then do {
       mem' \<leftarrow> mem_write mem dest src_char;
       url_encode_loop mem' (dest + 1) (src + 1) (max_size - 1) (ret + 1)
     }
     else if max_size < 3 then do { mem \<leftarrow> mem_write mem dest NUL; Some (mem, ret + 1) }
     else do {
       mem' \<leftarrow> mem_write_n mem dest
         [CHR ''%'', int_to_hex_digit (char_code src_char div 16),
          int_to_hex_digit (char_code src_char mod 16)];
       url_encode_loop mem' (dest + 3) (src + 1) (max_size - 3) (ret + 3)
     }
   }"
  by pat_completeness auto
termination
  by (relation "measure (\<lambda>(mem, dest, src, max_size, ret). length mem - src)")
     (auto dest!: mem_write_length mem_write_n_length simp: mem_read_Some)

declare url_encode_loop.simps [simp del]

definition url_encode_cstr :: "string \<Rightarrow> nat \<Rightarrow> nat \<Rightarrow> nat \<Rightarrow> (string \<times> nat) option" where
  "url_encode_cstr mem dest src max_size =
     (if max_size = 0 then Some (mem, 0) else url_encode_loop mem dest src (max_size - 1) 0)"

section \<open>Decoding\<close>

text \<open>
  \<^verbatim>\<open>url_decode_cstr\<close>: the two characters behind a percent sign are read one after the other, so
  that nothing behind the terminator is read.
\<close>

definition decode_escape :: "string \<Rightarrow> nat \<Rightarrow> char option option" where
  "decode_escape mem src = do {
     a \<leftarrow> mem_read mem src;
     if a = NUL then Some None
     else do {
       b \<leftarrow> mem_read mem (src + 1);
       if b = NUL \<or> a = CHR ''0'' \<and> b = CHR ''0'' then Some None
       else Some (Some (char_of (16 * hex_digit_to_int a + hex_digit_to_int b)))
     }
   }"

function url_decode_loop ::
    "string \<Rightarrow> nat \<Rightarrow> nat \<Rightarrow> nat \<Rightarrow> nat \<Rightarrow> (string \<times> nat) option" where
  "url_decode_loop mem dest src max_size ret = do {
     src_char \<leftarrow> mem_read mem src;
     if src_char = NUL then do { mem \<leftarrow> mem_write mem dest NUL; Some (mem, ret) }
     else if max_size = 0 then do { mem \<leftarrow> mem_write mem dest NUL; Some (mem, ret + 1) }
     else do {
       esc \<leftarrow> (if src_char = CHR ''%'' then decode_escape mem (src + 1) else Some None);
       let (c, n) = (case esc of
                       Some c \<Rightarrow> (c, 3)
                     | None \<Rightarrow> (if src_char = CHR ''+'' then CHR '' '' else src_char, 1));
       mem' \<leftarrow> mem_write mem dest c;
       url_decode_loop mem' (dest + 1) (src + n) (max_size - 1) (ret + 1)
     }
   }"
  by pat_completeness auto
termination
  by (relation "measure (\<lambda>(mem, dest, src, max_size, ret). length mem - src)")
     (auto dest!: mem_write_length simp: mem_read_Some split: option.splits)

declare url_decode_loop.simps [simp del]

definition url_decode_cstr :: "string \<Rightarrow> nat \<Rightarrow> nat \<Rightarrow> nat \<Rightarrow> (string \<times> nat) option" where
  "url_decode_cstr mem dest src max_size =
     (if max_size = 0 then do { mem \<leftarrow> mem_write mem dest NUL; Some (mem, 0) }
      else url_decode_loop mem dest src (max_size - 1) 0)"

text \<open>\<^verbatim>\<open>url_decode_cstr_inplace\<close> passes \<open>- 1\<close>, the largest \<^verbatim>\<open>size_t\<close>.\<close>

definition url_decode_cstr_inplace :: "string \<Rightarrow> nat \<Rightarrow> string option" where
  "url_decode_cstr_inplace mem str =
     map_option fst (url_decode_cstr mem str str (2 ^ 64 - 1))"

text \<open>\<^verbatim>\<open>url_decode_str\<close> gets the length of its source.\<close>

function url_decode_str_loop ::
    "string \<Rightarrow> nat \<Rightarrow> nat \<Rightarrow> nat \<Rightarrow> nat \<Rightarrow> nat \<Rightarrow> (string \<times> nat) option" where
  "url_decode_str_loop mem dest max_size src src_len ret =
     (if src_len = 0 then do { mem \<leftarrow> mem_write mem dest NUL; Some (mem, ret) }
      else do {
        src_char \<leftarrow> mem_read mem src;
        if src_char = NUL then do { mem \<leftarrow> mem_write mem dest NUL; Some (mem, ret) }
        else if max_size = 0 then do { mem \<leftarrow> mem_write mem dest NUL; Some (mem, ret + 1) }
        else do {
          a \<leftarrow> (if src_char = CHR ''%'' \<and> src_len \<ge> 3 then mem_read mem (src + 1) else Some NUL);
          b \<leftarrow> (if a \<noteq> NUL then mem_read mem (src + 2) else Some NUL);
          if b \<noteq> NUL then do {
            mem' \<leftarrow> mem_write mem dest (char_of (16 * hex_digit_to_int a + hex_digit_to_int b));
            url_decode_str_loop mem' (dest + 1) (max_size - 1) (src + 3) (src_len - 3) (ret + 1)
          }
          else do {
            mem' \<leftarrow> mem_write mem dest (if src_char = CHR ''+'' then CHR '' '' else src_char);
            url_decode_str_loop mem' (dest + 1) (max_size - 1) (src + 1) (src_len - 1) (ret + 1)
          }
        }
      })"
  by pat_completeness auto
termination
  by (relation "measure (\<lambda>(mem, dest, max_size, src, src_len, ret). src_len)") auto

declare url_decode_str_loop.simps [simp del]

definition url_decode_str :: "string \<Rightarrow> nat \<Rightarrow> nat \<Rightarrow> nat \<Rightarrow> nat \<Rightarrow> (string \<times> nat) option" where
  "url_decode_str mem dest max_size src src_len =
     (if max_size = 0 then Some (mem, 0)
      else url_decode_str_loop mem dest (max_size - 1) src src_len 0)"

section \<open>Quoting\<close>

text \<open>
  The loop of \<^verbatim>\<open>quoted_cstr\<close>: it ends at the terminator or when only the closing quote fits.
\<close>

function quoted_loop :: "string \<Rightarrow> nat \<Rightarrow> nat \<Rightarrow> nat \<Rightarrow> (string \<times> nat) option" where
  "quoted_loop mem dest src dest_max_size =
     (if dest_max_size - 1 = 0 then Some (mem, dest)
      else do {
        c \<leftarrow> mem_read mem src;
        if c = NUL then Some (mem, dest)
        else do {
          d \<leftarrow> (if c = CHR ''/'' then mem_read mem (src + 1) else Some NUL);
          let (c, n) = (if d = CHR 0x22 then (d, 2) else (c, 1));
          mem' \<leftarrow> mem_write mem dest c;
          quoted_loop mem' (dest + 1) (src + n) (dest_max_size - 1)
        }
      })"
  by pat_completeness auto
termination
  by (relation "measure (\<lambda>(mem, dest, src, dest_max_size). dest_max_size)") auto

declare quoted_loop.simps [simp del]

definition quoted_cstr :: "string \<Rightarrow> nat \<Rightarrow> nat \<Rightarrow> nat \<Rightarrow> (string \<times> nat) option" where
  "quoted_cstr mem dest src dest_max_size =
     (if dest_max_size \<le> 1 then do { mem \<leftarrow> mem_write mem dest NUL; Some (mem, 0) }
      else do {
        mem \<leftarrow> mem_write mem dest (CHR 0x22);
        if dest_max_size = 2 then do { mem \<leftarrow> mem_write mem (dest + 1) NUL; Some (mem, 1) }
        else do {
          (mem, d) \<leftarrow> quoted_loop mem (dest + 1) src (dest_max_size - 2);
          mem \<leftarrow> mem_write mem d (CHR 0x22);
          mem \<leftarrow> mem_write mem (d + 1) NUL;
          Some (mem, d + 1 - dest)
        }
      })"

section \<open>Tokenizers\<close>

text \<open>
  \<^verbatim>\<open>url_form_next_value\<close>. The first loop looks for the end of the key: the flag tells that it stopped
  at an equals sign; at a separator the character is overwritten and skipped.
\<close>

function form_key_loop :: "string \<Rightarrow> nat \<Rightarrow> nat \<Rightarrow> (string \<times> nat \<times> nat \<times> bool) option" where
  "form_key_loop mem p bytes_parsed = do {
     c \<leftarrow> mem_read mem p;
     if c = NUL then Some (mem, p, bytes_parsed, False)
     else if c = CHR ''='' then Some (mem, p, bytes_parsed, True)
     else if c = CHR '';'' \<or> c = CHR ''&'' then do {
       mem \<leftarrow> mem_write mem p NUL;
       Some (mem, p + 1, bytes_parsed + 1, False)
     }
     else form_key_loop mem (p + 1) (bytes_parsed + 1)
   }"
  by pat_completeness auto
termination
  by (relation "measure (\<lambda>(mem, p, n). length mem - p)") (auto simp: mem_read_Some)

declare form_key_loop.simps [simp del]

text \<open>The loops that look for the next separator; \<open>stops\<close> are the characters that end them.\<close>

function scan_loop :: "char set \<Rightarrow> string \<Rightarrow> nat \<Rightarrow> nat \<Rightarrow> (nat \<times> nat) option" where
  "scan_loop stops mem p bytes_parsed = do {
     c \<leftarrow> mem_read mem p;
     if c = NUL \<or> c \<in> stops then Some (p, bytes_parsed)
     else scan_loop stops mem (p + 1) (bytes_parsed + 1)
   }"
  by pat_completeness auto
termination
  by (relation "measure (\<lambda>(stops, mem, p, n). length mem - p)") (auto simp: mem_read_Some)

declare scan_loop.simps [simp del]

text \<open>Zero-terminate at the position where a scan stopped, unless it is the end of the string.\<close>

definition cut_at :: "string \<Rightarrow> nat \<Rightarrow> nat \<Rightarrow> (string \<times> nat \<times> nat) option" where
  "cut_at mem p bytes_parsed = do {
     c \<leftarrow> mem_read mem p;
     if c \<noteq> NUL then do {
       mem \<leftarrow> mem_write mem p NUL;
       Some (mem, p + 1, bytes_parsed + 1)
     }
     else Some (mem, p, bytes_parsed)
   }"

record form_token =
  ft_rest :: nat
  ft_key :: "nat option"
  ft_value :: "nat option"
  ft_bytes :: nat

definition url_form_next_value :: "string \<Rightarrow> nat \<Rightarrow> bool \<Rightarrow> (string \<times> form_token) option" where
  "url_form_next_value mem form_string want_value = do {
     c \<leftarrow> mem_read mem form_string;
     if c = NUL then Some (mem, \<lparr>ft_rest = form_string, ft_key = None, ft_value = None, ft_bytes = 0\<rparr>)
     else do {
       (mem, p, n, has_value) \<leftarrow> form_key_loop mem form_string 0;
       if \<not> has_value
       then Some (mem, \<lparr>ft_rest = p, ft_key = Some form_string, ft_value = None, ft_bytes = n\<rparr>)
       else do {
         mem \<leftarrow> (if want_value then mem_write mem p NUL else Some mem);
         let v = p + 1;
         (p, n) \<leftarrow> scan_loop {CHR '';'', CHR ''&''} mem v (n + 1);
         (mem, p, n) \<leftarrow> cut_at mem p n;
         mem \<leftarrow> url_decode_cstr_inplace mem v;
         Some (mem, \<lparr>ft_rest = p, ft_key = Some form_string,
                     ft_value = (if want_value then Some v else None), ft_bytes = n\<rparr>)
       }
     }
   }"

definition url_path_next_component ::
    "string \<Rightarrow> nat \<Rightarrow> (string \<times> nat \<times> nat option \<times> nat) option" where
  "url_path_next_component mem path_string = do {
     c \<leftarrow> mem_read mem path_string;
     if c = NUL then Some (mem, path_string, None, 0)
     else do {
       (p, n) \<leftarrow> scan_loop {CHR ''/''} mem path_string 0;
       (mem, p, n) \<leftarrow> cut_at mem p n;
       mem \<leftarrow> url_decode_cstr_inplace mem path_string;
       Some (mem, p, Some path_string, n)
     }
   }"

section \<open>The encoding as a function on strings\<close>

definition encode_char :: "char \<Rightarrow> string" where
  "encode_char c =
     (if isurlchar c then [c]
      else [CHR ''%'', int_to_hex_digit (char_code c div 16), int_to_hex_digit (char_code c mod 16)])"

definition url_encode :: "string \<Rightarrow> string" where
  "url_encode s = concat (map encode_char s)"

definition escaped :: "string \<Rightarrow> bool" where
  "escaped s \<longleftrightarrow> 2 \<le> length s \<and> \<not> (s ! 0 = CHR ''0'' \<and> s ! 1 = CHR ''0'')"

definition unescape :: "string \<Rightarrow> char" where
  "unescape s = char_of (16 * hex_digit_to_int (s ! 0) + hex_digit_to_int (s ! 1))"

fun url_decode :: "string \<Rightarrow> string" where
  "url_decode [] = []"
| "url_decode (c # s) =
     (if c = CHR ''%'' \<and> escaped s then unescape s # url_decode (drop 2 s)
      else (if c = CHR ''+'' then CHR '' '' else c) # url_decode s)"

lemma upt_0_16: "[0..<16] = [0, 1, 2, 3, 4, 5, 6, 7, 8, 9, 10, 11, 12, 13, 14, 15]"
  by (simp add: upt_rec)

lemma hex_digit_inverse: "n < 16 \<Longrightarrow> hex_digit_to_int (int_to_hex_digit n) = n"
proof -
  have "list_all (\<lambda>n. hex_digit_to_int (int_to_hex_digit n) = n) [0..<16]"
    by (simp add: upt_0_16 int_to_hex_digit_def hex_digit_to_int_def char_code_def Let_def)
  then show "n < 16 \<Longrightarrow> ?thesis" by (auto simp: list_all_iff)
qed

lemma hex_digit_neq:
  "int_to_hex_digit n \<noteq> NUL" "int_to_hex_digit n = CHR ''0'' \<longleftrightarrow> n mod 16 = 0"
proof -
  have "list_all (\<lambda>n. int_to_hex_digit n \<noteq> NUL \<and> (int_to_hex_digit n = CHR ''0'' \<longleftrightarrow> n = 0)) [0..<16]"
    by (simp add: upt_0_16 int_to_hex_digit_def)
  moreover have "int_to_hex_digit n = int_to_hex_digit (n mod 16)"
    by (simp add: int_to_hex_digit_def)
  moreover have "n mod 16 < 16" by simp
  ultimately show "int_to_hex_digit n \<noteq> NUL" "int_to_hex_digit n = CHR ''0'' \<longleftrightarrow> n mod 16 = 0"
    by (auto simp: list_all_iff)
qed

lemma char_code_eq_0: "char_code c = 0 \<longleftrightarrow> c = NUL"
proof
  assume "char_code c = 0"
  then have "of_char c = (of_char NUL :: nat)" by (simp add: char_code_def)
  then show "c = NUL" by (simp only: of_char_eq_iff)
qed (simp add: char_code_def)

lemma decode_encode_char:
  assumes "c \<noteq> NUL" "c \<noteq> CHR ''+''"
  shows "url_decode (encode_char c @ s) = c # url_decode s"
proof (cases "isurlchar c")
  case True
  then have "c \<noteq> CHR ''%''" by (auto simp: isurlchar_def isalnum_def isalpha_def isupper_def
      islower_def isdigit_def char_code_def)
  with True assms show ?thesis by (simp add: encode_char_def)
next
  case False
  let ?n = "char_code c"
  have n: "?n < 256" "?n \<noteq> 0" using assms(1) by (auto simp: code_less char_code_eq_0)
  then have hi: "?n div 16 < 16" by simp
  have "\<not> (?n div 16 = 0 \<and> ?n mod 16 = 0)" using n by (metis div_mult_mod_eq mult_0 add_0)
  with hi have "escaped (int_to_hex_digit (?n div 16) # int_to_hex_digit (?n mod 16) # s)"
    by (simp add: escaped_def hex_digit_neq)
  moreover have "unescape (int_to_hex_digit (?n div 16) # int_to_hex_digit (?n mod 16) # s) = c"
    using hi by (simp add: unescape_def hex_digit_inverse) (simp add: char_code_def)
  ultimately show ?thesis using False by (simp add: encode_char_def)
qed

lemma url_decode_encode:
  "\<forall>c \<in> set s. c \<noteq> NUL \<and> c \<noteq> CHR ''+'' \<Longrightarrow> url_decode (url_encode s) = s"
  by (induction s) (simp_all add: url_encode_def decode_encode_char)

lemma url_encode_no_NUL: "NUL \<notin> set s \<Longrightarrow> NUL \<notin> set (url_encode s)"
  using hex_digit_neq(1) [THEN not_sym]
  by (auto simp: url_encode_def encode_char_def split: if_splits)

lemma length_url_decode: "length (url_decode s) \<le> length s"
  by (induction s rule: url_decode.induct) (auto intro: le_SucI dual_order.trans)

section \<open>The loops compute the encoding\<close>

lemma decode_escape_eq:
  assumes "mem_holds mem p (s @ [NUL])" "NUL \<notin> set s"
  shows "decode_escape mem p = Some (if escaped s then Some (unescape s) else None)"
proof (cases s)
  case Nil
  with assms show ?thesis by (simp add: decode_escape_def escaped_def)
next
  case (Cons a t)
  with assms show ?thesis
    by (cases t) (auto simp: decode_escape_def escaped_def unescape_def)
qed

text \<open>
  The decoder works when the destination lies behind the source string, and when it starts
  before the source string or with it, however they overlap.
\<close>

lemma url_decode_loop_spec:
  assumes "mem_holds mem src (s @ [NUL])" "NUL \<notin> set s" "length s \<le> max_size"
    and "dest \<le> src \<or> src + length s < dest" "dest + length (url_decode s) < length mem"
  shows "url_decode_loop mem dest src max_size ret =
    Some (take dest mem @ (url_decode s @ [NUL]) @ drop (dest + length (url_decode s @ [NUL])) mem,
          ret + length (url_decode s))"
  using assms
proof (induction s arbitrary: mem dest src max_size ret rule: url_decode.induct)
  case 1
  then show ?case
    by (subst url_decode_loop.simps)
       (simp add: mem_write_def take_Suc_conv_app_nth flip: upd_conv_take_nth_drop)
next
  case (2 c s)
  have rd: "mem_read mem src = Some c" and s: "mem_holds mem (src + 1) (s @ [NUL])"
    and c: "c \<noteq> NUL" "NUL \<notin> set s" "0 < max_size" "dest < length mem"
    using "2.prems" by (auto split: if_splits)
  have esc: "decode_escape mem (src + 1) = Some (if escaped s then Some (unescape s) else None)"
    using decode_escape_eq [OF s c(2)] .
  show ?case
  proof (cases "c = CHR ''%'' \<and> escaped s")
    case True
    let ?m = "mem[dest := unescape s]"
    have l: "2 \<le> length s" using True by (simp add: escaped_def)
    have "mem_holds mem (src + 3) (drop 2 s @ [NUL])"
    proof -
      obtain a b t where "s = a # b # t" using l by (auto simp: numeral_eq_Suc Suc_le_length_iff)
      with s show ?thesis by (simp add: numeral_eq_Suc)
    qed
    then have h: "mem_holds ?m (src + 3) (drop 2 s @ [NUL])"
      using "2.prems"(4) l by (subst mem_holds_write) auto
    have n: "NUL \<notin> set (drop 2 s)" using c(2) by (meson in_set_dropD)
    have d: "length (drop 2 s) \<le> max_size - 1"
        "dest + 1 \<le> src + 3 \<or> src + 3 + length (drop 2 s) < dest + 1"
      using "2.prems"(3,4) l by auto
    have "dest + 1 + length (url_decode (drop 2 s)) < length ?m"
      using "2.prems"(5) True by auto
    from "2.IH"(1) [OF True h n d this, of "ret + 1"] True rd esc c show ?thesis
      by (subst url_decode_loop.simps) (simp add: mem_write_def write_run [simplified])
  next
    case False
    let ?x = "if c = CHR ''+'' then CHR '' '' else c"
    let ?m = "mem[dest := ?x]"
    have h: "mem_holds ?m (src + 1) (s @ [NUL])"
      using "2.prems"(4) s by (subst mem_holds_write) auto
    have d: "length s \<le> max_size - 1" "dest + 1 \<le> src + 1 \<or> src + 1 + length s < dest + 1"
      using "2.prems"(3,4) by auto
    have "dest + 1 + length (url_decode s) < length ?m" using "2.prems"(5) False by auto
    from "2.IH"(2) [OF False h c(2) d this, of "ret + 1"] False rd esc c
    show ?thesis
      by (cases "c = CHR ''%''"; subst url_decode_loop.simps)
         (simp_all add: mem_write_def write_run [simplified])
  qed
qed

text \<open>What fits of the encoding into \<open>max_size\<close> characters.\<close>

fun url_encode_fit :: "nat \<Rightarrow> string \<Rightarrow> string" where
  "url_encode_fit max_size [] = []"
| "url_encode_fit max_size (c # s) =
     (if length (encode_char c) \<le> max_size
      then encode_char c @ url_encode_fit (max_size - length (encode_char c)) s else [])"

lemma length_url_encode_fit: "length (url_encode_fit max_size s) \<le> max_size"
  by (induction max_size s rule: url_encode_fit.induct) (auto split: if_splits)

lemma url_encode_fit_all: "length (url_encode s) \<le> max_size \<Longrightarrow> url_encode_fit max_size s = url_encode s"
  by (induction max_size s rule: url_encode_fit.induct) (auto simp: url_encode_def)

lemma url_encode_fit_prefix:
  "\<exists>k. url_encode_fit max_size s = url_encode (take k s) \<and>
       (take k s = s \<longleftrightarrow> length (url_encode s) \<le> max_size)"
proof (induction max_size s rule: url_encode_fit.induct)
  case (2 max_size c s)
  show ?case
  proof (cases "length (encode_char c) \<le> max_size")
    case True
    with 2 obtain k where "url_encode_fit (max_size - length (encode_char c)) s = url_encode (take k s)"
        "take k s = s \<longleftrightarrow> length (url_encode s) \<le> max_size - length (encode_char c)" by blast
    with True show ?thesis by (intro exI [of _ "Suc k"]) (auto simp: url_encode_def)
  next
    case False
    then show ?thesis by (intro exI [of _ 0]) (auto simp: url_encode_def)
  qed
qed (simp add: url_encode_def)

lemma length_encode_char: "length (encode_char c) = (if isurlchar c then 1 else 3)"
  by (simp add: encode_char_def)

lemma mem_write_n_run:
  assumes "mem_write_n mem d xs = Some mem'"
  shows "take (d + length xs) mem' @ cs @ drop (d + length xs + length cs) mem' =
         take d mem @ (xs @ cs) @ drop (d + length (xs @ cs)) mem"
  using assms
  by (cases "xs = []") (auto simp: mem_write_n_def ac_simps split: if_splits)

lemma mem_write_n_single: "mem_write_n mem d [c] = mem_write mem d c"
  by (simp add: mem_write_n_def mem_write_def upd_conv_take_nth_drop)

lemma url_encode_loop_spec:
  assumes "mem_holds mem src (s @ [NUL])" "NUL \<notin> set s"
    and "dest + max_size < src \<or> src + length s < dest" "dest + max_size < length mem"
  shows "url_encode_loop mem dest src max_size ret =
    Some (take dest mem @ (url_encode_fit max_size s @ [NUL])
            @ drop (dest + length (url_encode_fit max_size s @ [NUL])) mem,
          ret + length (url_encode_fit max_size s)
              + (if length (url_encode s) \<le> max_size then 0 else 1))"
  using assms
proof (induction s arbitrary: mem dest src max_size ret)
  case Nil
  then show ?case
    by (subst url_encode_loop.simps)
       (simp add: mem_write_def upd_conv_take_nth_drop url_encode_def)
next
  case (Cons c s)
  have rd: "mem_read mem src = Some c" and s: "mem_holds mem (src + 1) (s @ [NUL])"
    and c: "c \<noteq> NUL" "NUL \<notin> set s" "dest < length mem"
    using Cons.prems by auto
  have enc: "url_encode (c # s) = encode_char c @ url_encode s" by (simp add: url_encode_def)
  show ?case
  proof (cases "length (encode_char c) \<le> max_size")
    case False
    then show ?thesis using rd c
      by (subst url_encode_loop.simps)
         (auto simp: mem_write_def upd_conv_take_nth_drop length_encode_char enc split: if_splits)
  next
    case fits: True
    obtain mem' where m: "mem_write_n mem dest (encode_char c) = Some mem'"
        and l: "length mem' = length mem"
      using fits Cons.prems(4) mem_write_n_length by (auto simp: mem_write_n_def)
    have "url_encode_loop mem dest src max_size ret =
        url_encode_loop mem' (dest + length (encode_char c)) (src + 1)
          (max_size - length (encode_char c)) (ret + length (encode_char c))"
      using rd c(1) m fits
      by (cases "isurlchar c"; subst url_encode_loop.simps)
         (simp_all add: encode_char_def mem_write_n_single numeral_3_eq_3)
    moreover have "mem_holds mem' (src + 1) (s @ [NUL])"
      using s Cons.prems(3) fits by (subst mem_holds_write_n [OF m]) auto
    ultimately show ?thesis
      using Cons.IH [of mem' "src + 1" "dest + length (encode_char c)"
          "max_size - length (encode_char c)" "ret + length (encode_char c)"]
        Cons.prems fits c l
        mem_write_n_run [OF m, of "url_encode_fit (max_size - length (encode_char c)) s @ [NUL]"]
      by (auto simp: enc)
  qed
qed

section \<open>The functions on a string in memory\<close>

lemma mem_holds_run:
  "d \<le> length mem \<Longrightarrow> mem_holds (take d mem @ xs @ ys) d xs"
  using mem_holds_self [of "take d mem" xs ys] by simp

lemma mem_holds_bound: "mem_holds mem p xs \<Longrightarrow> xs \<noteq> [] \<Longrightarrow> p + length xs \<le> length mem"
proof (induction xs arbitrary: p)
  case (Cons x xs)
  then show ?case by (cases "xs = []") (auto simp: mem_read_Some, force)
qed simp

lemma mem_holds_beyond:
  assumes "mem_holds mem q ys" "p + length xs \<le> q" "p + length xs \<le> length mem"
  shows "mem_holds (take p mem @ xs @ drop (p + length xs) mem) q ys"
  using assms
proof (induction ys arbitrary: q)
  case (Cons y ys)
  have "(take p mem @ xs @ drop (p + length xs) mem) ! q = mem ! q"
    using Cons.prems by (auto simp: nth_append mem_read_Some)
  with Cons show ?case by (auto simp: mem_read_def split: if_splits)
qed simp

lemma mem_holds_before:
  assumes "mem_holds mem q ys" "q + length ys \<le> p" "p \<le> length mem"
  shows "mem_holds (take p mem @ zs) q ys"
  using assms by (induction ys arbitrary: q) (auto simp: mem_read_def nth_append)

lemma url_encode_cstr_spec:
  assumes "mem_holds mem src (s @ [NUL])" "NUL \<notin> set s" "0 < max_size"
    and "dest + max_size \<le> src \<or> src + length s < dest" "dest + max_size \<le> length mem"
  defines "out \<equiv> url_encode_fit (max_size - 1) s @ [NUL]"
  shows "url_encode_cstr mem dest src max_size =
    Some (take dest mem @ out @ drop (dest + length out) mem,
          if length (url_encode s) < max_size then length (url_encode s)
          else length (url_encode_fit (max_size - 1) s) + 1)"
  using url_encode_loop_spec [of mem src s dest "max_size - 1" 0] assms
    url_encode_fit_all [of s "max_size - 1"]
  by (auto simp: url_encode_cstr_def out_def)

lemma url_decode_inplace_spec:
  assumes "mem_holds mem p (s @ [NUL])" "NUL \<notin> set s" "length s < 2 ^ 64 - 1"
  defines "out \<equiv> url_decode s @ [NUL]"
  shows "url_decode_cstr_inplace mem p = Some (take p mem @ out @ drop (p + length out) mem)"
proof -
  have "p + length (url_decode s) < length mem"
    using mem_holds_bound [OF assms(1)] length_url_decode [of s] by simp
  then show ?thesis
    using url_decode_loop_spec [of mem p s "2 ^ 64 - 2" p 0] assms
    by (simp add: url_decode_cstr_inplace_def url_decode_cstr_def out_def)
qed

lemma scan_loop_spec:
  assumes "mem_holds mem p (s @ [c])" "c = NUL \<or> c \<in> stops" "\<forall>x \<in> set s. x \<noteq> NUL \<and> x \<notin> stops"
  shows "scan_loop stops mem p n = Some (p + length s, n + length s)"
  using assms by (induction s arbitrary: p n) (auto simp: scan_loop.simps)

section \<open>Properties\<close>

text \<open>
  C34: Percent encoding round-trips: for a string without a plus sign and a large enough
  destination outside of it, \<^verbatim>\<open>url_encode_cstr\<close> returns the length of the encoding, and decoding the
  destination in place with \<^verbatim>\<open>url_decode_cstr_inplace\<close> leaves the original string there.
\<close>

theorem url_encode_decode_roundtrip:
  assumes "mem_holds mem src (s @ [NUL])" "NUL \<notin> set s" "CHR ''+'' \<notin> set s"
    and "length (url_encode s) < max_size" "max_size < 2 ^ 64"
    and "dest + max_size \<le> src \<or> src + length s < dest" "dest + max_size \<le> length mem"
  shows "\<exists>mem' mem''. url_encode_cstr mem dest src max_size = Some (mem', length (url_encode s)) \<and>
    url_decode_cstr_inplace mem' dest = Some mem'' \<and> mem_holds mem'' dest (s @ [NUL])"
proof -
  define m where "m = take dest mem @ (url_encode s @ [NUL]) @ drop (dest + length (url_encode s @ [NUL])) mem"
  have enc: "url_encode_cstr mem dest src max_size = Some (m, length (url_encode s))"
    using url_encode_cstr_spec [of mem src s max_size dest] assms
      url_encode_fit_all [of s "max_size - 1"] by (simp add: m_def)
  have inv: "url_decode (url_encode s) = s" using assms(2,3) by (intro url_decode_encode) auto
  have d: "dest \<le> length mem" "dest \<le> length m" using assms(7) by (auto simp: m_def)
  have "mem_holds m dest (url_encode s @ [NUL])" unfolding m_def using d(1) by (rule mem_holds_run)
  then have "url_decode_cstr_inplace m dest =
      Some (take dest m @ (s @ [NUL]) @ drop (dest + length (s @ [NUL])) m)"
    using url_decode_inplace_spec [of m dest "url_encode s"] url_encode_no_NUL [OF assms(2)] assms
    by (simp add: inv)
  with enc mem_holds_run [OF d(2)] show ?thesis by blast
qed

lemma url_encode_decode_roundtrip_witness:
  "\<exists>mem' mem''. url_encode_cstr (''a b'' @ [NUL] @ replicate 8 (CHR ''x'')) 4 0 8 =
      Some (mem', length (url_encode ''a b'')) \<and>
    url_decode_cstr_inplace mem' 4 = Some mem'' \<and> mem_holds mem'' 4 (''a b'' @ [NUL])"
  by (rule url_encode_decode_roundtrip)
     (simp_all add: mem_read_def url_encode_def length_encode_char isurlchar_def isalnum_def isalpha_def
        isupper_def islower_def isdigit_def char_code_def)

text \<open>
  \<^verbatim>\<open>url_encode_cstr\<close> respects the size it is given: for every string and every size it writes
  only inside of the first \<open>max_size\<close> characters of the destination, leaves there a terminated
  string that encodes a prefix of the source, and returns a number of at most \<open>max_size\<close> that is
  the length of what it wrote when everything fitted and one more otherwise.
\<close>

theorem url_encode_cstr_bounded:
  assumes "mem_holds mem src (s @ [NUL])" "NUL \<notin> set s" "0 < max_size"
    and "dest + max_size \<le> src \<or> src + length s < dest" "dest + max_size \<le> length mem"
  shows "\<exists>k ret. url_encode_cstr mem dest src max_size =
      Some (take dest mem @ url_encode (take k s) @
              NUL # drop (dest + length (url_encode (take k s)) + 1) mem, ret) \<and>
    length (url_encode (take k s)) < max_size \<and> ret \<le> max_size \<and>
    ret = length (url_encode (take k s)) + (if take k s = s then 0 else 1)"
proof -
  obtain k where k: "url_encode_fit (max_size - 1) s = url_encode (take k s)"
      "take k s = s \<longleftrightarrow> length (url_encode s) \<le> max_size - 1"
    using url_encode_fit_prefix by blast
  then have len: "length (url_encode (take k s)) < max_size"
    using length_url_encode_fit [of "max_size - 1" s] assms(3) by simp
  moreover have "length (url_encode s) < max_size \<longleftrightarrow> take k s = s" using k(2) assms(3) by auto
  ultimately show ?thesis
    using url_encode_cstr_spec [OF assms] unfolding k(1)
    by (intro exI [of _ k] exI [of _ "length (url_encode (take k s)) + (if take k s = s then 0 else 1)"])
       (auto simp del: take_all_iff)
qed

lemma url_encode_cstr_bounded_witness:
  "\<exists>k ret. url_encode_cstr (''a b'' @ [NUL] @ ''xxxx'') 4 0 3 =
      Some (take 4 (''a b'' @ [NUL] @ ''xxxx'') @ url_encode (take k ''a b'') @
              NUL # drop (4 + length (url_encode (take k ''a b'')) + 1) (''a b'' @ [NUL] @ ''xxxx''), ret) \<and>
    length (url_encode (take k ''a b'')) < 3 \<and> ret \<le> 3 \<and>
    ret = length (url_encode (take k ''a b'')) + (if take k ''a b'' = ''a b'' then 0 else 1)"
  by (rule url_encode_cstr_bounded) (simp_all add: mem_read_def)

text \<open>
  Decoding in place is safe and computes the decoding: on any terminated string in memory
  \<^verbatim>\<open>url_decode_cstr_inplace\<close> leaves the decoded string in its place, terminated, and changes no
  character outside of the bytes of the original string.
\<close>

theorem url_decode_cstr_inplace_correct:
  assumes "mem_holds mem p (s @ [NUL])" "NUL \<notin> set s" "length s < 2 ^ 64 - 1"
  shows "\<exists>mem'. url_decode_cstr_inplace mem p = Some mem' \<and>
    mem_holds mem' p (url_decode s @ [NUL]) \<and> length mem' = length mem \<and>
    (\<forall>i. i < p \<or> p + length s < i \<longrightarrow> mem' ! i = mem ! i)"
proof -
  have b: "p + length s < length mem" "length (url_decode s) \<le> length s"
    using mem_holds_bound [OF assms(1)] length_url_decode by auto
  then have "mem_holds (take p mem @ (url_decode s @ [NUL]) @
      drop (p + length (url_decode s @ [NUL])) mem) p (url_decode s @ [NUL])"
    by (intro mem_holds_run) simp
  with b show ?thesis
    using url_decode_inplace_spec [OF assms] by (auto simp: nth_append min_def)
qed

lemma url_decode_cstr_inplace_correct_witness:
  "\<exists>mem'. url_decode_cstr_inplace (''xa%20b'' @ [NUL]) 1 = Some mem' \<and>
    mem_holds mem' 1 (url_decode ''a%20b'' @ [NUL]) \<and> length mem' = length (''xa%20b'' @ [NUL]) \<and>
    (\<forall>i. i < 1 \<or> 1 + length ''a%20b'' < i \<longrightarrow> mem' ! i = (''xa%20b'' @ [NUL]) ! i)"
  by (rule url_decode_cstr_inplace_correct) (simp_all add: mem_read_def)

text \<open>
  \<^verbatim>\<open>url_path_next_component\<close> takes the first component off a path: for a nonempty path it
  returns a pointer to the decoded component, counts the bytes of the component and its slash,
  and moves on to the rest of the path, which it leaves as it was.
\<close>

theorem url_path_next_component_correct:
  assumes "mem_holds mem p (a @ c # rest)" "a @ [c] \<noteq> [NUL]" "length a < 2 ^ 64 - 1"
    and "\<forall>x \<in> set a. x \<noteq> NUL \<and> x \<noteq> CHR ''/''" "c = CHR ''/'' \<or> c = NUL"
  defines "n \<equiv> length a + (if c = NUL then 0 else 1)"
  shows "\<exists>mem'. url_path_next_component mem p = Some (mem', p + n, Some p, n) \<and>
    mem_holds mem' p (url_decode a @ [NUL]) \<and> mem_holds mem' (p + length a + 1) rest"
proof -
  define m where "m = (if c = NUL then mem else mem[p + length a := NUL])"
  have h: "mem_holds mem p (a @ [c])" "mem_holds mem (p + length a + 1) rest"
    using assms(1) by (simp_all add: mem_holds_append)
  have at: "mem_read mem (p + length a) = Some c" using h(1) by (simp add: mem_holds_append)
  have first: "\<exists>x. mem_read mem p = Some x \<and> x \<noteq> NUL"
    using assms(2,4,5) h(1) by (cases a) auto
  have scan: "scan_loop {CHR ''/''} mem p 0 = Some (p + length a, length a)"
    using scan_loop_spec [OF h(1), of "{CHR ''/''}" 0] assms(4,5) by auto
  have cut: "cut_at mem (p + length a) (length a) = Some (m, p + n, n)"
    using at by (auto simp: cut_at_def m_def n_def mem_write_def mem_read_def split: if_splits)
  have hm: "mem_holds m p (a @ [NUL])" "mem_holds m (p + length a + 1) rest"
    using h at by (auto simp: m_def mem_holds_append mem_holds_write mem_read_def
        split: if_splits)
  let ?m = "take p m @ (url_decode a @ [NUL]) @ drop (p + length (url_decode a @ [NUL])) m"
  have dec: "url_decode_cstr_inplace m p = Some ?m"
    using url_decode_inplace_spec [OF hm(1)] assms(3,4) by auto
  have b: "p + length a < length m" using mem_holds_bound [OF hm(1)] by simp
  then have "mem_holds ?m p (url_decode a @ [NUL])" by (intro mem_holds_run) simp
  moreover have "mem_holds ?m (p + length a + 1) rest"
    using hm(2) b length_url_decode [of a] by (intro mem_holds_beyond) auto
  ultimately show ?thesis
    using first scan cut dec by (auto simp: url_path_next_component_def)
qed

lemma url_path_next_component_correct_witness:
  "\<exists>mem'. url_path_next_component (''a%20b/c'' @ [NUL]) 0 =
      Some (mem', 0 + (length ''a%20b'' + (if CHR ''/'' = NUL then 0 else 1)), Some 0,
            length ''a%20b'' + (if CHR ''/'' = NUL then 0 else 1)) \<and>
    mem_holds mem' 0 (url_decode ''a%20b'' @ [NUL]) \<and>
    mem_holds mem' (0 + length ''a%20b'' + 1) (''c'' @ [NUL])"
  by (rule url_path_next_component_correct) (simp_all add: mem_read_def)

lemma form_key_loop_spec:
  assumes "mem_holds mem p (k @ [CHR ''=''])" "\<forall>x \<in> set k. x \<notin> {NUL, CHR ''='', CHR '';'', CHR ''&''}"
  shows "form_key_loop mem p n = Some (mem, p + length k, n + length k, True)"
  using assms by (induction k arbitrary: p n) (auto simp: form_key_loop.simps)

text \<open>
  \<^verbatim>\<open>url_form_next_value\<close> takes the first key and value off a form string: the key becomes a
  terminated string, the value is decoded in place, both pointers are returned, the bytes of the
  pair and its separator are counted, and the rest of the form string is left as it was.
\<close>

theorem url_form_next_value_correct:
  assumes "mem_holds mem p (k @ CHR ''='' # v @ c # rest)" "k \<noteq> []" "length v < 2 ^ 64 - 1"
    and "\<forall>x \<in> set k. x \<notin> {NUL, CHR ''='', CHR '';'', CHR ''&''}"
    and "\<forall>x \<in> set v. x \<notin> {NUL, CHR '';'', CHR ''&''}" "c \<in> {NUL, CHR '';'', CHR ''&''}"
  defines "q \<equiv> p + length k + 1"
    and "n \<equiv> length k + 1 + length v + (if c = NUL then 0 else 1)"
  shows "\<exists>mem'. url_form_next_value mem p True =
      Some (mem', \<lparr>ft_rest = p + n, ft_key = Some p, ft_value = Some q, ft_bytes = n\<rparr>) \<and>
    mem_holds mem' p (k @ [NUL]) \<and> mem_holds mem' q (url_decode v @ [NUL]) \<and>
    mem_holds mem' (q + length v + 1) rest"
proof -
  have h: "mem_holds mem p (k @ [CHR ''=''])" "mem_holds mem q (v @ [c])"
      "mem_holds mem (q + length v + 1) rest"
    using assms(1) by (simp_all add: mem_holds_append q_def)
  have first: "\<exists>x. mem_read mem p = Some x \<and> x \<noteq> NUL" using assms(2,4) h(1) by (cases k) auto
  have "p + length k < length mem" using mem_holds_bound [OF h(1)] by simp
  then have wr: "mem_write mem (p + length k) NUL = Some (mem[p + length k := NUL])"
    by (simp add: mem_write_def)
  define m1 where "m1 = mem[p + length k := NUL]"
  have h1: "mem_holds m1 p (k @ [NUL])" "mem_holds m1 q (v @ [c])" "mem_holds m1 (q + length v + 1) rest"
    using h \<open>p + length k < length mem\<close>
    by (auto simp: m1_def q_def mem_holds_append mem_holds_write mem_read_def split: if_splits)
  have at: "mem_read m1 (q + length v) = Some c" using h1(2) by (simp add: mem_holds_append)
  have scan: "scan_loop {CHR '';'', CHR ''&''} m1 q (length k + 1) = Some (q + length v, length k + 1 + length v)"
    using scan_loop_spec [OF h1(2), of "{CHR '';'', CHR ''&''}" "length k + 1"] assms(5,6) by auto
  define m2 where "m2 = (if c = NUL then m1 else m1[q + length v := NUL])"
  have cut: "cut_at m1 (q + length v) (length k + 1 + length v) = Some (m2, p + n, n)"
    using at by (auto simp: cut_at_def m2_def n_def q_def mem_write_def mem_read_def split: if_splits)
  have h2: "mem_holds m2 p (k @ [NUL])" "mem_holds m2 q (v @ [NUL])" "mem_holds m2 (q + length v + 1) rest"
    using h1 at by (auto simp: m2_def q_def mem_holds_append mem_holds_write mem_read_def split: if_splits)
  let ?m = "take q m2 @ (url_decode v @ [NUL]) @ drop (q + length (url_decode v @ [NUL])) m2"
  have dec: "url_decode_cstr_inplace m2 q = Some ?m"
    using url_decode_inplace_spec [OF h2(2)] assms(3,5) by auto
  have b: "q + length v < length m2" using mem_holds_bound [OF h2(2)] by simp
  have "mem_holds ?m p (k @ [NUL])"
    using h2(1) b by (intro mem_holds_before) (auto simp: q_def)
  moreover have "mem_holds ?m q (url_decode v @ [NUL])" using b by (intro mem_holds_run) simp
  moreover have "mem_holds ?m (q + length v + 1) rest"
    using h2(3) b length_url_decode [of v] by (intro mem_holds_beyond) auto
  ultimately show ?thesis
    using first scan cut dec wr form_key_loop_spec [OF h(1) assms(4), of 0]
    by (auto simp: url_form_next_value_def m1_def q_def)
qed

lemma url_form_next_value_correct_witness:
  "\<exists>mem'. url_form_next_value (''a=%41;b=c'' @ [NUL]) 0 True =
      Some (mem', \<lparr>ft_rest = 0 + (length ''a'' + 1 + length ''%41'' + (if CHR '';'' = NUL then 0 else 1)),
          ft_key = Some 0, ft_value = Some (0 + length ''a'' + 1),
          ft_bytes = length ''a'' + 1 + length ''%41'' + (if CHR '';'' = NUL then 0 else 1)\<rparr>) \<and>
    mem_holds mem' 0 (''a'' @ [NUL]) \<and> mem_holds mem' (0 + length ''a'' + 1) (url_decode ''%41'' @ [NUL]) \<and>
    mem_holds mem' (0 + length ''a'' + 1 + length ''%41'' + 1) (''b=c'' @ [NUL])"
  by (rule url_form_next_value_correct) (simp_all add: mem_read_def)

end
