(* ===== verification/Coap_Layout.thy ===== *)
theory Coap_Layout
  imports Coap_Option
begin

text \<open>
  The layout of options as bytes, and the proof that the decoder and the encoder of
  \<open>Coap_Option\<close> read and write exactly that layout.
\<close>

section \<open>Layout of one option\<close>

definition opt_nibble :: "nat \<Rightarrow> nat" where
  "opt_nibble n = (if n < 13 then n else if n < 269 then 13 else 14)"

definition opt_ext :: "nat \<Rightarrow> u8 list" where
  "opt_ext n =
     (if n < 13 then [] else if n < 269 then [word_of_nat (n - 13)]
      else [word_of_nat ((n - 269) div 256), word_of_nat ((n - 269) mod 256)])"

definition opt_header :: "nat \<Rightarrow> nat \<Rightarrow> u8 list" where
  "opt_header d l =
     (push_bit 4 (word_of_nat (opt_nibble d)) OR word_of_nat (opt_nibble l)) # opt_ext d @ opt_ext l"

definition option_bytes :: "nat \<Rightarrow> nat \<Rightarrow> u8 list \<Rightarrow> u8 list" where
  "option_bytes prev k v = opt_header (k - prev) (length v) @ v"

fun encode_options :: "nat \<Rightarrow> (nat \<times> u8 list) list \<Rightarrow> u8 list" where
  "encode_options prev [] = []"
| "encode_options prev ((k, v) # os) = option_bytes prev k v @ encode_options k os"

text \<open>The largest number two extension bytes can hold is \<open>268 + 2 ^ 16\<close>.\<close>

abbreviation (input) opt_max :: nat where "opt_max \<equiv> 65805"

lemma opt_nibble_less: "opt_nibble n < 15"
  by (simp add: opt_nibble_def)

lemma word_opt_nibble_less: "(word_of_nat (opt_nibble n) :: u8) < 16"
  using opt_nibble_less [of n] by (simp add: word_less_nat_alt unsigned_of_nat take_bit_nat_eq_self)

lemma word_opt_nibble_neq_15: "(word_of_nat (opt_nibble n) :: u8) \<noteq> 15"
  by (simp add: opt_nibble_def word_unat_eq_iff unsigned_of_nat take_bit_nat_eq_self)

lemma ucast_of_nat_u8: "n < 256 \<Longrightarrow> (ucast (word_of_nat n :: u8) :: 'a::len word) = word_of_nat n"
  by (simp add: unsigned_of_nat take_bit_nat_eq_self)

lemma two_bytes_value:
  assumes "n < 65536"
  shows "ucast (word_of_nat (n mod 256) :: u8) + push_bit 8 (ucast (word_of_nat (n div 256) :: u8)) =
         (word_of_nat n :: 'a::len word)"
proof -
  have "n mod 256 + n div 256 * 256 = n" by simp
  then have "word_of_nat n = (word_of_nat (n mod 256) + word_of_nat (n div 256) * 256 :: 'a word)"
    by (metis of_nat_add of_nat_mult of_nat_numeral)
  with assms show ?thesis
    by (simp add: ucast_of_nat_u8 push_bit_eq_mult less_mult_imp_div_less)
qed

lemma opt_nibble_word_cases:
  "(word_of_nat (opt_nibble n) :: u8) = 13 \<longleftrightarrow> 13 \<le> n \<and> n < 269"
  "(word_of_nat (opt_nibble n) :: u8) = 14 \<longleftrightarrow> 269 \<le> n"
  by (auto simp: opt_nibble_def word_unat_eq_iff unsigned_of_nat take_bit_nat_eq_self)

lemma ucast_opt_nibble:
  "n < 13 \<Longrightarrow> (ucast (word_of_nat (opt_nibble n) :: u8) :: 'a::len word) = word_of_nat n"
  by (simp add: opt_nibble_def ucast_of_nat_u8)

lemma coap_decode_len_ext:
  assumes "l < opt_max"
  shows "coap_decode_len (xs @ opt_ext l @ zs) (length xs) (word_of_nat (opt_nibble l)) =
         Some (word_of_nat l, length xs + length (opt_ext l))"
proof -
  consider "l < 13" | "13 \<le> l" "l < 269" | "269 \<le> l" by linarith
  then show ?thesis
  proof cases
    case 1
    then show ?thesis
      by (simp add: coap_decode_len_def opt_nibble_word_cases opt_ext_def ucast_opt_nibble)
  next
    case 2
    then have "(13 :: u16) + ucast (word_of_nat (l - 13) :: u8) = word_of_nat l"
      by (subst ucast_of_nat_u8) simp_all
    with 2 show ?thesis
      by (simp add: coap_decode_len_def opt_nibble_word_cases opt_ext_def mem_read_def nth_append)
  next
    case 3
    have "(269 :: u16) + (ucast (word_of_nat ((l - 269) mod 256) :: u8)
            + push_bit 8 (ucast (word_of_nat ((l - 269) div 256) :: u8))) = word_of_nat l"
      using 3 assms by (subst two_bytes_value) (auto simp: of_nat_diff)
    with 3 show ?thesis
      by (simp add: coap_decode_len_def opt_nibble_word_cases opt_ext_def mem_read_def nth_append
          add.assoc)
  qed
qed

lemma coap_decode_delta_ext:
  assumes "d < opt_max"
  shows "coap_decode_delta (xs @ b # opt_ext d @ zs) (length xs) (word_of_nat (opt_nibble d)) key =
         Some (map_option (\<lambda>k. k + word_of_nat d) key, length xs + 1 + length (opt_ext d))"
proof (cases key)
  case None
  then show ?thesis
    by (simp add: coap_decode_delta_def opt_nibble_word_cases opt_ext_def)
next
  case (Some k)
  consider "d < 13" | "13 \<le> d" "d < 269" | "269 \<le> d" by linarith
  then show ?thesis
  proof cases
    case 1
    then show ?thesis using Some
      by (simp add: coap_decode_delta_def opt_nibble_word_cases opt_ext_def ucast_opt_nibble)
  next
    case 2
    then have "(13 :: u32) + ucast (word_of_nat (d - 13) :: u8) = word_of_nat d"
      by (subst ucast_of_nat_u8) simp_all
    with 2 Some show ?thesis
      by (simp add: coap_decode_delta_def opt_nibble_word_cases opt_ext_def mem_read_def nth_append)
  next
    case 3
    have "(269 :: u32) + (ucast (word_of_nat ((d - 269) mod 256) :: u8)
            + push_bit 8 (ucast (word_of_nat ((d - 269) div 256) :: u8))) = word_of_nat d"
      using 3 assms by (subst two_bytes_value) (auto simp: of_nat_diff)
    with 3 Some show ?thesis
      by (simp add: coap_decode_delta_def opt_nibble_word_cases opt_ext_def mem_read_def nth_append
          add.assoc)
  qed
qed

text \<open>The decoder on a laid-out header, in any buffer.\<close>

lemma coap_decode_option_header:
  assumes "d < opt_max" "l < opt_max"
  shows "coap_decode_option (xs @ opt_header d l @ zs) (length xs) key =
         Some (Decode_At (length xs + length (opt_header d l) + unat (word_of_nat l :: u16))
                (map_option (\<lambda>k. k + word_of_nat d) key)
                (length xs + length (opt_header d l)) (word_of_nat l))"
proof -
  define b :: u8 where "b = push_bit 4 (word_of_nat (opt_nibble d)) OR word_of_nat (opt_nibble l)"
  have header: "opt_header d l = b # opt_ext d @ opt_ext l"
    by (simp add: opt_header_def b_def)
  have rd: "mem_read (xs @ opt_header d l @ zs) (length xs) = Some b"
    by (simp add: mem_read_def header nth_append)
  have hi: "drop_bit 4 b = word_of_nat (opt_nibble d)"
    unfolding b_def by (intro nibble_high word_opt_nibble_less)
  have lo: "b AND 15 = word_of_nat (opt_nibble l)"
    unfolding b_def by (intro nibble_low word_opt_nibble_less)
  have delta: "coap_decode_delta (xs @ opt_header d l @ zs) (length xs)
        (word_of_nat (opt_nibble d)) key =
      Some (map_option (\<lambda>k. k + word_of_nat d) key, length xs + 1 + length (opt_ext d))"
    using coap_decode_delta_ext [OF assms(1), of xs b "opt_ext l @ zs" key] by (simp add: header)
  have len: "coap_decode_len (xs @ opt_header d l @ zs) (length xs + 1 + length (opt_ext d))
        (word_of_nat (opt_nibble l)) =
      Some (word_of_nat l, length xs + length (opt_header d l))"
    using coap_decode_len_ext [OF assms(2), of "xs @ b # opt_ext d" zs] by (simp add: header)
  show ?thesis
    using delta len
    by (simp add: coap_decode_option_def rd hi lo word_opt_nibble_neq_15 Let_def)
qed

section \<open>The encoder writes the layout\<close>

lemma u16_of_nat_le:
  "n < 65536 \<Longrightarrow> m < 65536 \<Longrightarrow> (word_of_nat m :: u16) \<le> word_of_nat n \<longleftrightarrow> m \<le> n"
  by (simp add: word_le_nat_alt unsigned_of_nat take_bit_nat_eq_self)

lemma u16_high_byte:
  "n < 65536 \<Longrightarrow> (ucast (drop_bit 8 (word_of_nat n :: u16)) :: u8) = word_of_nat (n div 256)"
  by (simp add: drop_bit_eq_div word_unat_eq_iff unsigned_of_nat unsigned_ucast_eq unat_div
      take_bit_nat_eq_self)

lemma u16_low_byte:
  "n < 65536 \<Longrightarrow> (ucast ((word_of_nat n :: u16) AND 0xFF) :: u8) = word_of_nat (n mod 256)"
proof -
  assume n: "n < 65536"
  have "(0xFF :: u16) = mask 8" by (simp add: mask_eq_exp_minus_1)
  then have "(word_of_nat n :: u16) AND 0xFF = take_bit 8 (word_of_nat n)"
    by (simp add: take_bit_eq_mask)
  with n show ?thesis
    by (simp add: word_unat_eq_iff unsigned_of_nat unsigned_ucast_eq unsigned_take_bit_eq
        take_bit_nat_eq_self take_bit_eq_mod unat_mod)
qed

lemma u16_and_15: "n < 16 \<Longrightarrow> (word_of_nat n :: u16) AND 15 = word_of_nat n"
proof -
  assume n: "n < 16"
  have "(15 :: u16) = mask 4" by (simp add: mask_eq_exp_minus_1)
  then have "(word_of_nat n :: u16) AND 15 = take_bit 4 (word_of_nat n)"
    by (simp add: take_bit_eq_mask)
  with n show ?thesis
    by (simp add: word_unat_eq_iff unsigned_of_nat unsigned_take_bit_eq take_bit_nat_eq_self)
qed

lemma ucast_u16_u8: "(ucast (word_of_nat n :: u16) :: u8) = word_of_nat n"
  by (simp add: word_unat_eq_iff unsigned_of_nat unsigned_ucast_eq)

lemma coap_encode_delta_layout:
  assumes d: "d < 65536" and hs: "length hs = 1 + length (opt_ext d)"
  shows "coap_encode_delta (xs @ hs @ zs) (length xs) (word_of_nat d) =
         Some (xs @ push_bit 4 (word_of_nat (opt_nibble d)) # opt_ext d @ zs,
               1 + length (opt_ext d))"
proof -
  consider "d < 13" | "13 \<le> d" "d < 269" | "269 \<le> d" by linarith
  then show ?thesis
  proof cases
    case 1
    then obtain h where [simp]: "hs = [h]"
      using hs by (auto simp: opt_ext_def length_Suc_conv)
    have "(ucast (push_bit 4 (word_of_nat d :: u16)) :: u8) = push_bit 4 (word_of_nat d)"
    proof -
      have "push_bit 4 (word_of_nat d :: u16) = word_of_nat (d * 16)"
        by (simp add: push_bit_eq_mult)
      then show ?thesis by (simp only: ucast_u16_u8) (simp add: push_bit_eq_mult)
    qed
    with 1 show ?thesis
      using u16_of_nat_le [of d 13] u16_of_nat_le [of d 269]
      by (simp add: coap_encode_delta_def opt_ext_def opt_nibble_def mem_write_def)
  next
    case 2
    then obtain h h1 where [simp]: "hs = [h, h1]"
      using hs by (auto simp: opt_ext_def length_Suc_conv)
    show ?thesis
      using 2 u16_of_nat_le [of d 13] u16_of_nat_le [of d 269]
      by (simp add: coap_encode_delta_def opt_ext_def opt_nibble_def mem_write_def
          list_update_append ucast_u16_u8)
  next
    case 3
    then obtain h h1 h2 where [simp]: "hs = [h, h1, h2]"
      using hs by (auto simp: opt_ext_def length_Suc_conv)
    have e: "(word_of_nat d :: u16) - 269 = word_of_nat (d - 269)" using 3 by simp
    show ?thesis
      using 3 d u16_of_nat_le [of d 13] u16_of_nat_le [of d 269] u16_high_byte [of "d - 269"]
        u16_low_byte [of "d - 269"]
      by (simp add: coap_encode_delta_def opt_ext_def opt_nibble_def mem_write_def
          list_update_append e Let_def del: of_nat_diff)
  qed
qed

lemma coap_encode_len_layout:
  assumes l: "l < 65536" and hs: "length hs = length (opt_ext l)"
  shows "coap_encode_len (xs @ b # es @ hs @ zs) (length xs) (1 + length es) (word_of_nat l) =
         Some (xs @ (b OR word_of_nat (opt_nibble l)) # es @ opt_ext l @ zs,
               1 + length es + length (opt_ext l))"
proof -
  consider "l < 13" | "13 \<le> l" "l < 269" | "269 \<le> l" by linarith
  then show ?thesis
  proof cases
    case 1
    then have [simp]: "hs = []" using hs by (simp add: opt_ext_def)
    have "(word_of_nat l :: u16) AND 15 = word_of_nat l"
      using 1 by (simp add: u16_and_15)
    with 1 show ?thesis
      using u16_of_nat_le [of l 13] u16_of_nat_le [of l 269]
      by (simp add: coap_encode_len_def opt_ext_def opt_nibble_def mem_write_def mem_read_def
          nth_append ucast_u16_u8)
  next
    case 2
    then obtain h where [simp]: "hs = [h]"
      using hs by (auto simp: opt_ext_def length_Suc_conv)
    show ?thesis
      using 2 u16_of_nat_le [of l 13] u16_of_nat_le [of l 269]
      by (simp add: coap_encode_len_def opt_ext_def opt_nibble_def mem_write_def mem_read_def
          nth_append list_update_append ucast_u16_u8)
  next
    case 3
    then obtain h h1 where [simp]: "hs = [h, h1]"
      using hs by (auto simp: opt_ext_def length_Suc_conv)
    have e: "(word_of_nat l :: u16) - 269 = word_of_nat (l - 269)" using 3 by simp
    show ?thesis
      using 3 l u16_of_nat_le [of l 13] u16_of_nat_le [of l 269] u16_high_byte [of "l - 269"]
        u16_low_byte [of "l - 269"]
      by (simp add: coap_encode_len_def opt_ext_def opt_nibble_def mem_write_def mem_read_def
          nth_append list_update_append e Let_def del: of_nat_diff)
  qed
qed

lemma length_opt_ext: "length (opt_ext n) = (if 13 \<le> n then 1 else 0) + (if 269 \<le> n then 1 else 0)"
  by (simp add: opt_ext_def)

lemma length_opt_header: "length (opt_header d l) = 1 + length (opt_ext d) + length (opt_ext l)"
  by (simp add: opt_header_def)

lemma ucast_key_diff:
  "prev \<le> k \<Longrightarrow> (ucast (word_of_nat k - word_of_nat prev :: u32) :: u16) = word_of_nat (k - prev)"
proof -
  assume "prev \<le> k"
  then have "word_of_nat k - word_of_nat prev = (word_of_nat (k - prev) :: u32)" by simp
  then show ?thesis
    by (simp only:) (simp add: word_unat_eq_iff unsigned_of_nat unsigned_ucast_eq del: of_nat_diff)
qed

lemma coap_encode_option_layout:
  assumes k: "prev \<le> k" "k - prev < 65536" and v: "length v \<le> 1034"
    and hs: "length hs = length (opt_header (k - prev) (length v))" and vs: "length vs = length v"
    and src: "src = Src_ext (v @ ws) \<or> src = Src_own (length xs + length hs) \<and> vs = v"
  shows "coap_encode_option (xs @ hs @ vs @ zs) (length xs) (word_of_nat prev) (word_of_nat k) src
           (word_of_nat (length v)) =
         Some (xs @ option_bytes prev k v @ zs, length xs + length (option_bytes prev k v))"
proof -
  let ?d = "k - prev" and ?l = "length v"
  define b :: u8 where "b = push_bit 4 (word_of_nat (opt_nibble ?d))"
  obtain h1 h2 where split: "hs = h1 @ h2" "length h1 = 1 + length (opt_ext ?d)"
      "length h2 = length (opt_ext ?l)"
    by (rule that [of "take (1 + length (opt_ext ?d)) hs" "drop (1 + length (opt_ext ?d)) hs"])
       (use hs in \<open>auto simp: length_opt_header\<close>)
  have delta: "coap_encode_delta (xs @ hs @ vs @ zs) (length xs)
        (ucast (word_of_nat k - word_of_nat prev :: u32)) =
      Some (xs @ b # opt_ext ?d @ h2 @ vs @ zs, 1 + length (opt_ext ?d))"
    using coap_encode_delta_layout [OF k(2) split(2), of xs "h2 @ vs @ zs"]
    by (simp only: ucast_key_diff [OF k(1)] split(1) b_def append_assoc)
  have len: "coap_encode_len (xs @ b # opt_ext ?d @ h2 @ vs @ zs) (length xs)
        (1 + length (opt_ext ?d)) (word_of_nat ?l) =
      Some (xs @ opt_header ?d ?l @ vs @ zs, length hs)"
    using coap_encode_len_layout [of ?l h2 xs b "opt_ext ?d" "vs @ zs"] split(3) v hs
    by (simp add: opt_header_def b_def)
  have max: "\<not> COAP_MAX_OPTION_VALUE_SIZE < (word_of_nat ?l :: u16)" "unat (word_of_nat ?l :: u16) = ?l"
    using v by (simp_all add: COAP_MAX_OPTION_VALUE_SIZE_def word_less_nat_alt unsigned_of_nat
        take_bit_nat_eq_self)
  have rd: "read_src (xs @ opt_header ?d ?l @ vs @ zs) src ?l = Some v"
    using src mem_read_n_split [of _ "xs @ opt_header ?d ?l" ?l v zs] hs
    by (auto simp: read_src_def)
  have wr: "mem_write_n (xs @ opt_header ?d ?l @ vs @ zs) (length xs + length hs) v =
      Some (xs @ option_bytes prev k v @ zs)"
    using mem_write_n_split [of _ "xs @ opt_header ?d ?l" vs v zs] hs vs
    by (simp add: option_bytes_def)
  show ?thesis
    unfolding coap_encode_option_def
    by (simp add: delta len [simplified] max rd wr Let_def) (simp add: option_bytes_def hs)
qed

lemma coap_decode_option_bytes:
  assumes "prev \<le> k" "k - prev < 65536" "length v \<le> 1034"
  shows "coap_decode_option (xs @ option_bytes prev k v @ zs) (length xs)
           (Some (word_of_nat prev)) =
         Some (Decode_At (length xs + length (option_bytes prev k v)) (Some (word_of_nat k))
                (length xs + length (opt_header (k - prev) (length v))) (word_of_nat (length v)))"
  using coap_decode_option_header [of "k - prev" "length v" xs "v @ zs" "Some (word_of_nat prev)"]
    assms
  by (simp add: option_bytes_def unsigned_of_nat take_bit_nat_eq_self add.assoc)

end
