(* ===== verification/Coap_Insert.thy ===== *)
theory Coap_Insert
  imports Coap_Layout
begin

text \<open>
  \<^verbatim>\<open>coap_insert_option\<close> on the bytes of a packet is insertion into a sorted list of options: the
  new option goes behind every option whose number is not larger. The specification is
  \<open>insert_opt\<close>; the theorem \<open>coap_insert_option_refines\<close> is the functional refinement.
\<close>

section \<open>Specification: sorted option lists\<close>

definition wf_opts :: "nat \<Rightarrow> (nat \<times> u8 list) list \<Rightarrow> bool" where
  "wf_opts prev opts \<longleftrightarrow>
     sorted (prev # map fst opts) \<and> (\<forall>(k, v) \<in> set opts. k < 65536 \<and> length v \<le> 1034)"

definition insert_opt ::
    "nat \<Rightarrow> u8 list \<Rightarrow> (nat \<times> u8 list) list \<Rightarrow> (nat \<times> u8 list) list" where
  "insert_opt key v opts =
     takeWhile (\<lambda>x. fst x \<le> key) opts @ (key, v) # dropWhile (\<lambda>x. fst x \<le> key) opts"

fun last_key :: "nat \<Rightarrow> (nat \<times> u8 list) list \<Rightarrow> nat" where
  "last_key prev [] = prev"
| "last_key prev ((k, v) # opts) = last_key k opts"

lemma encode_options_append:
  "encode_options prev (as @ bs) = encode_options prev as @ encode_options (last_key prev as) bs"
  by (induction prev as rule: last_key.induct) simp_all

lemma wf_opts_Cons [simp]:
  "wf_opts prev ((k, v) # opts) \<longleftrightarrow>
     prev \<le> k \<and> k < 65536 \<and> length v \<le> 1034 \<and> wf_opts k opts"
  by (auto simp: wf_opts_def)

lemma wf_opts_Nil [simp]: "wf_opts prev []"
  by (simp add: wf_opts_def)

lemma wf_opts_append:
  "wf_opts prev (as @ bs) \<longleftrightarrow> wf_opts prev as \<and> wf_opts (last_key prev as) bs"
  by (induction prev as rule: last_key.induct) simp_all

lemma last_key_takeWhile:
  "prev \<le> key \<Longrightarrow> last_key prev (takeWhile (\<lambda>x. fst x \<le> key) opts) \<le> key"
  by (induction prev opts rule: last_key.induct) auto

lemma insert_opt_wf:
  assumes "wf_opts prev opts" "prev \<le> key" "key < 65536" "length v \<le> 1034"
  shows "wf_opts prev (insert_opt key v opts)"
proof -
  let ?P = "\<lambda>x :: nat \<times> u8 list. fst x \<le> key"
  have split: "wf_opts prev (takeWhile ?P opts)"
      "wf_opts (last_key prev (takeWhile ?P opts)) (dropWhile ?P opts)"
    using assms(1) wf_opts_append [of prev "takeWhile ?P opts" "dropWhile ?P opts"] by simp_all
  have "wf_opts key (dropWhile ?P opts)"
  proof (cases "dropWhile ?P opts")
    case (Cons x bs)
    then have "\<not> ?P x" using hd_dropWhile [of ?P opts] by simp
    with split(2) Cons show ?thesis by (cases x) simp
  next
    case Nil
    show ?thesis unfolding Nil by simp
  qed
  with split(1) assms show ?thesis
    by (simp add: insert_opt_def wf_opts_append last_key_takeWhile)
qed

section \<open>Finding the insertion point\<close>

lemma u32_of_nat_le:
  "n < 65536 \<Longrightarrow> m < 65536 \<Longrightarrow> (word_of_nat m :: u32) \<le> word_of_nat n \<longleftrightarrow> m \<le> n"
  by (simp add: word_le_nat_alt unsigned_of_nat take_bit_nat_eq_self)

lemma u32_of_nat_less:
  "n < 65536 \<Longrightarrow> m < 65536 \<Longrightarrow> (word_of_nat m :: u32) < word_of_nat n \<longleftrightarrow> m < n"
  by (simp add: word_less_nat_alt unsigned_of_nat take_bit_nat_eq_self)

lemma coap_insert_find_opts:
  assumes "opts \<noteq> []" "wf_opts prev opts" "key < 65536"
  shows "coap_insert_find (xs @ encode_options prev opts @ zs)
           (length xs + length (encode_options prev opts)) (word_of_nat key)
           (length xs) (word_of_nat prev) (length xs) (word_of_nat prev) =
         (let as = takeWhile (\<lambda>x. fst x \<le> key) opts;
              ip = length xs + length (encode_options prev as);
              pk = last_key prev as
          in case dropWhile (\<lambda>x. fst x \<le> key) opts of
               [] \<Rightarrow> Some (Some ip, word_of_nat pk, ip, word_of_nat pk)
             | (k2, v2) # _ \<Rightarrow>
                 Some (Some (ip + length (option_bytes pk k2 v2)), word_of_nat k2, ip, word_of_nat pk))"
  using assms(1,2)
proof (induction opts arbitrary: prev xs)
  case Nil
  then show ?case by simp
next
  case (Cons o1 opts)
  obtain k v where o1: "o1 = (k, v)" by (cases o1)
  let ?ob = "option_bytes prev k v"
  have wf: "prev \<le> k" "k < 65536" "length v \<le> 1034" "wf_opts k opts"
    using Cons.prems(2) by (simp_all add: o1)
  have dec: "coap_decode_option (xs @ ?ob @ encode_options k opts @ zs) (length xs)
        (Some (word_of_nat prev)) =
      Some (Decode_At (length xs + length ?ob) (Some (word_of_nat k))
        (length xs + length (opt_header (k - prev) (length v))) (word_of_nat (length v)))"
    using coap_decode_option_bytes [of prev k v xs "encode_options k opts @ zs"] wf by simp
  have le: "(word_of_nat k :: u32) \<le> word_of_nat key \<longleftrightarrow> k \<le> key"
    using wf assms(3) by (intro u32_of_nat_le)
  show ?case
  proof (cases "k \<le> key")
    case False
    then show ?thesis
      by (subst coap_insert_find.simps) (simp add: dec le o1 Let_def)
  next
    case True
    show ?thesis
    proof (cases opts)
      case Nil
      with True dec show ?thesis
        by (subst coap_insert_find.simps) (simp add: le o1 Let_def)
    next
      case more: (Cons o2 opts')
      have "encode_options k opts \<noteq> []"
        by (cases o2) (simp add: more option_bytes_def opt_header_def)
      then have lt: "length xs + length ?ob < length xs + length (encode_options prev (o1 # opts))"
        by (simp add: o1)
      have ne: "opts \<noteq> []" by (simp add: more)
      note IH = Cons.IH [OF ne wf(4), of "xs @ ?ob"]
      show ?thesis
        using True lt IH
        by (cases "dropWhile (\<lambda>x. fst x \<le> key) opts"; subst coap_insert_find.simps)
           (auto simp: dec le o1 add.assoc Let_def simp del: dropWhile_eq_Nil_conv)
    qed
  qed
qed

section \<open>The size difference\<close>

lemma nibble_and_F0:
  fixes d l :: u8
  assumes "d < 16" "l < 16"
  shows "(push_bit 4 d OR l) AND 0xF0 = push_bit 4 d"
proof -
  have "(push_bit 4 d OR l) AND 0xF0 = push_bit 4 (drop_bit 4 (push_bit 4 d OR l))"
  proof -
    have m: "(0xF0 :: u8) = push_bit 4 (mask 4)" by (simp add: mask_eq_exp_minus_1 push_bit_eq_mult)
    show ?thesis unfolding m by (rule bit_word_eqI) (auto simp: bit_simps)
  qed
  also have "\<dots> = push_bit 4 d" using nibble_high [OF assms] by simp
  finally show ?thesis .
qed

lemma push_bit_4_eq_iff:
  fixes d e :: u8
  assumes "d < 16" "e < 16"
  shows "push_bit 4 d = push_bit 4 e \<longleftrightarrow> d = e"
proof -
  have "(0 :: u8) < 16" by simp
  then show ?thesis using nibble_high [OF assms(1)] nibble_high [OF assms(2)] by metis
qed

lemma opt_header_ext_length:
  assumes "b = hd (opt_header d l)"
  shows "(if b AND 0xF0 = push_bit 4 13 then 1 else if b AND 0xF0 = push_bit 4 14 then 2 else 0) =
         (word_of_nat (length (opt_ext d)) :: u16)"
proof -
  have eq: "b AND 0xF0 = push_bit 4 (word_of_nat (opt_nibble d))"
    unfolding assms opt_header_def
    by (simp only: list.sel) (intro nibble_and_F0 word_opt_nibble_less)
  have e13: "b AND 0xF0 = push_bit 4 13 \<longleftrightarrow> 13 \<le> d \<and> d < 269"
    unfolding eq
    by (subst push_bit_4_eq_iff) (simp_all add: word_opt_nibble_less opt_nibble_word_cases)
  have e14: "b AND 0xF0 = push_bit 4 14 \<longleftrightarrow> 269 \<le> d"
    unfolding eq
    by (subst push_bit_4_eq_iff) (simp_all add: word_opt_nibble_less opt_nibble_word_cases)
  show ?thesis unfolding e13 e14 length_opt_ext by auto
qed

lemma u32_diff_le:
  assumes "m \<le> n" "n < 65536"
  shows "13 \<le> (word_of_nat n - word_of_nat m :: u32) \<longleftrightarrow> 13 \<le> n - m"
    "269 \<le> (word_of_nat n - word_of_nat m :: u32) \<longleftrightarrow> 269 \<le> n - m"
proof -
  have "(word_of_nat n - word_of_nat m :: u32) = word_of_nat (n - m)" using assms by simp
  then show "13 \<le> (word_of_nat n - word_of_nat m :: u32) \<longleftrightarrow> 13 \<le> n - m"
    "269 \<le> (word_of_nat n - word_of_nat m :: u32) \<longleftrightarrow> 269 \<le> n - m"
    using assms u32_of_nat_le [of "n - m" 13] u32_of_nat_le [of "n - m" 269] by simp_all
qed

text \<open>
  The growth, computed in 16 bits, is the length of the new option plus the change in the
  header of the option behind it.
\<close>

lemma coap_insert_size_diff_eq:
  assumes "pk \<le> key" "key \<le> k2" "k2 < 65536" "length v \<le> 1034" "b = hd (opt_header (k2 - pk) l)"
  shows "unat (coap_insert_size_diff (word_of_nat (length v)) (word_of_nat key) (word_of_nat pk)
           (word_of_nat k2) b) + length (opt_header (k2 - pk) l) =
         length (option_bytes pk key v) + length (opt_header (k2 - key) l)"
proof -
  let ?n = "length (option_bytes pk key v) + length (opt_ext (k2 - key))"
  let ?c = "length (opt_ext (k2 - pk))"
  have c: "?c \<le> ?n" using assms
    by (auto simp: option_bytes_def length_opt_header length_opt_ext)
  have len: "13 \<le> (word_of_nat (length v) :: u16) \<longleftrightarrow> 13 \<le> length v"
      "269 \<le> (word_of_nat (length v) :: u16) \<longleftrightarrow> 269 \<le> length v"
    using u16_of_nat_le [of "length v" 13] u16_of_nat_le [of "length v" 269] assms(4) by simp_all
  have "coap_insert_size_diff (word_of_nat (length v)) (word_of_nat key) (word_of_nat pk)
           (word_of_nat k2) b =
        word_of_nat (length v) + 1 + word_of_nat (length (opt_ext (length v)))
        + word_of_nat (length (opt_ext (key - pk))) - word_of_nat ?c
        + word_of_nat (length (opt_ext (k2 - key)))"
    unfolding coap_insert_size_diff_def opt_header_ext_length [OF assms(5)]
    using assms len by (simp add: u32_diff_le length_opt_ext)
  also have "\<dots> = word_of_nat ?n - word_of_nat ?c"
    by (simp add: option_bytes_def length_opt_header)
  also have "\<dots> = word_of_nat (?n - ?c)" using c by simp
  finally have "unat (coap_insert_size_diff (word_of_nat (length v)) (word_of_nat key)
      (word_of_nat pk) (word_of_nat k2) b) = ?n - ?c"
    using assms(4) by (simp add: unsigned_of_nat take_bit_nat_eq_self option_bytes_def
        length_opt_header length_opt_ext del: of_nat_diff)
  with c show ?thesis by (simp add: length_opt_header)
qed

section \<open>Refinement\<close>

lemma take_take_drop: "take a zs @ take b (drop a zs) @ drop (a + b) zs = zs"
  by (simp flip: append_assoc take_add)

text \<open>The two ways of \<^verbatim>\<open>coap_insert_option\<close>: append at the end, or shift and re-encode.\<close>

lemma coap_insert_append:
  assumes "prev \<le> key" "key < 65536" "length v \<le> 1034"
    "length (option_bytes prev key v) \<le> length zs"
  shows "coap_encode_option (xs @ zs) (length xs) (word_of_nat prev) (word_of_nat key)
           (Src_ext (v @ ws)) (word_of_nat (length v)) =
         Some (xs @ option_bytes prev key v @ drop (length (option_bytes prev key v)) zs,
               length xs + length (option_bytes prev key v))"
proof -
  let ?h = "length (opt_header (key - prev) (length v))"
  let ?hs = "take ?h zs" and ?vs = "take (length v) (drop ?h zs)"
  let ?rest = "drop (length (option_bytes prev key v)) zs"
  have "zs = ?hs @ ?vs @ ?rest"
    using take_take_drop [of ?h zs "length v"] by (simp add: option_bytes_def)
  moreover have "length ?hs = ?h" "length ?vs = length v"
    using assms(4) by (auto simp: option_bytes_def)
  ultimately show ?thesis
    using coap_encode_option_layout [of prev key v ?hs ?vs "Src_ext (v @ ws)" ws xs ?rest] assms
    by simp
qed

lemma coap_insert_shift:
  assumes keys: "pk \<le> key" "key \<le> k2" "k2 < 65536" and v: "length v \<le> 1034"
    and v2: "length v2 \<le> 1034"
    and sd: "sd + length (opt_header (k2 - pk) (length v2)) =
             length (option_bytes pk key v) + length (opt_header (k2 - key) (length v2))"
    and P: "length P = sd"
  shows "do {
           (mem, it) \<leftarrow> coap_encode_option (xs @ P @ option_bytes pk k2 v2 @ zs) (length xs)
             (word_of_nat pk) (word_of_nat key) (Src_ext (v @ ws)) (word_of_nat (length v));
           (mem, it) \<leftarrow> coap_encode_option mem it (word_of_nat key) (word_of_nat k2)
             (Src_own (length xs + sd + length (opt_header (k2 - pk) (length v2))))
             (word_of_nat (length v2));
           Some (mem, d)
         } = Some (xs @ option_bytes pk key v @ option_bytes key k2 v2 @ zs, d)"
proof -
  let ?H = "opt_header (k2 - pk) (length v2)"
  let ?n = "length (option_bytes pk key v)"
  let ?m = "length (opt_header (k2 - key) (length v2))"
  define R where "R = drop ?n (P @ ?H)"
  have R: "length R = ?m" and n: "?n \<le> length (P @ ?H)" using sd P by (simp_all add: R_def)
  have first: "coap_encode_option (xs @ P @ option_bytes pk k2 v2 @ zs) (length xs)
      (word_of_nat pk) (word_of_nat key) (Src_ext (v @ ws)) (word_of_nat (length v)) =
      Some (xs @ option_bytes pk key v @ R @ v2 @ zs, length xs + ?n)"
    using coap_insert_append [of pk key v "P @ ?H @ v2 @ zs" xs ws] keys v n
    by (simp add: option_bytes_def R_def)
  have second: "coap_encode_option (xs @ option_bytes pk key v @ R @ v2 @ zs)
      (length xs + ?n) (word_of_nat key) (word_of_nat k2)
      (Src_own (length xs + sd + length ?H)) (word_of_nat (length v2)) =
      Some (xs @ option_bytes pk key v @ option_bytes key k2 v2 @ zs,
            length xs + ?n + length (option_bytes key k2 v2))"
    using coap_encode_option_layout [of key k2 v2 R v2 "Src_own (length xs + sd + length ?H)" "[]"
        "xs @ option_bytes pk key v" zs] keys v2 R sd
    by (simp add: add.assoc)
  show ?thesis by (simp add: first second)
qed

text \<open>Inserting before the option \<open>(k2, v2)\<close>: shift, decode the shifted option, encode both.\<close>

lemma coap_insert_before_layout:
  assumes keys: "pk \<le> key" "key \<le> k2" "k2 < 65536" and v: "length v \<le> 1034"
    and v2: "length v2 \<le> 1034"
    and d: "d = coap_insert_size_diff (word_of_nat (length v)) (word_of_nat key) (word_of_nat pk)
              (word_of_nat k2) (hd (opt_header (k2 - pk) (length v2)))"
    and room: "unat d \<le> length zs"
    and mem: "mem = xs @ option_bytes pk k2 v2 @ bs @ zs" and ip: "ip = length xs"
    and e: "e = ip + length (option_bytes pk k2 v2 @ bs)"
  shows "coap_insert_before mem ip e (word_of_nat pk) (word_of_nat key) (word_of_nat k2)
           (v @ ws) (word_of_nat (length v)) =
         Some (xs @ option_bytes pk key v @ option_bytes key k2 v2 @ bs @ drop (unat d) zs, d)"
proof -
  let ?ob = "option_bytes pk k2 v2" and ?H = "opt_header (k2 - pk) (length v2)"
  have sd: "unat d + length ?H =
      length (option_bytes pk key v) + length (opt_header (k2 - key) (length v2))"
    unfolding d by (rule coap_insert_size_diff_eq [OF keys v refl])
  define P where "P = take (unat d) (?ob @ bs @ zs)"
  have P: "length P = unat d" using room by (simp add: P_def)
  have b: "mem_read mem ip = Some (hd ?H)"
    by (simp add: mem_read_def mem ip option_bytes_def opt_header_def nth_append)
  have rd: "mem_read_n mem ip (e - ip) = Some (?ob @ bs)"
    using mem_read_n_split [of _ xs _ "?ob @ bs" zs] by (simp add: mem ip e)
  have wr: "(if d \<noteq> 0 then mem_write_n mem (ip + unat d) (?ob @ bs) else Some mem) =
      Some (xs @ P @ ?ob @ bs @ drop (unat d) zs)"
    using room by (auto simp: mem_write_n_def P_def mem ip)
  have dec: "coap_decode_option (xs @ P @ ?ob @ bs @ drop (unat d) zs) (ip + unat d) None =
      Some (Decode_At (ip + unat d + length ?ob) None (ip + unat d + length ?H)
        (word_of_nat (length v2)))"
    using coap_decode_option_header
        [of "k2 - pk" "length v2" "xs @ P" "v2 @ bs @ drop (unat d) zs" None] keys v2 P
    by (simp add: option_bytes_def unsigned_of_nat take_bit_nat_eq_self add.assoc ip)
  show ?thesis
    using coap_insert_shift [OF keys v v2 sd P, of xs "bs @ drop (unat d) zs" ws d, folded ip]
    unfolding coap_insert_before_def
    by (simp only: b d [symmetric] rd wr dec Option.bind.simps Let_def prod.case coap_decode.case)
qed

text \<open>Every header grows by no more than the option put before it.\<close>

lemma insert_opt_encode:
  assumes "wf_opts 0 opts" "dropWhile (\<lambda>x. fst x \<le> key) opts = (k2, v2) # bs"
    and "pk = last_key 0 (takeWhile (\<lambda>x. fst x \<le> key) opts)"
    and "xs = encode_options 0 (takeWhile (\<lambda>x. fst x \<le> key) opts)"
  shows "encode_options 0 opts = xs @ option_bytes pk k2 v2 @ encode_options k2 bs"
    "encode_options 0 (insert_opt key v opts) =
       xs @ option_bytes pk key v @ option_bytes key k2 v2 @ encode_options k2 bs"
    "pk \<le> key" "key < k2" "k2 < 65536" "length v2 \<le> 1034"
proof -
  let ?P = "\<lambda>x :: nat \<times> u8 list. fst x \<le> key"
  have opts: "opts = takeWhile ?P opts @ (k2, v2) # bs"
    using assms(2) takeWhile_dropWhile_id [of ?P opts] by simp
  show "encode_options 0 opts = xs @ option_bytes pk k2 v2 @ encode_options k2 bs"
    by (subst opts) (simp only: encode_options_append assms(3,4) encode_options.simps)
  show "encode_options 0 (insert_opt key v opts) =
      xs @ option_bytes pk key v @ option_bytes key k2 v2 @ encode_options k2 bs"
    by (simp add: insert_opt_def assms encode_options_append)
  show "pk \<le> key" by (simp add: assms last_key_takeWhile)
  show "key < k2" using hd_dropWhile [of ?P opts] assms(2) by simp
  have "wf_opts pk ((k2, v2) # bs)"
    using assms(1,3) wf_opts_append [of 0 "takeWhile ?P opts" "(k2, v2) # bs"] opts by simp
  then show "k2 < 65536" "length v2 \<le> 1034" by simp_all
qed

lemma coap_insert_option_refines:
  assumes wf: "wf_opts 0 opts" and key: "key < 65536" and v: "length v \<le> 1034"
    and new: "new = encode_options 0 (insert_opt key v opts)"
    and old: "old = encode_options 0 opts"
    and room: "length new \<le> length old + length zs"
  shows "length old \<le> length new \<and>
         coap_insert_option (xs @ old @ zs) (length xs) (length xs + length old)
           (word_of_nat key) (v @ ws) (word_of_nat (length v)) =
         Some (xs @ new @ drop (length new - length old) zs,
               word_of_nat (length new - length old))"
proof (cases "dropWhile (\<lambda>x. fst x \<le> key) opts")
  case Nil
  let ?P = "\<lambda>x :: nat \<times> u8 list. fst x \<le> key"
  let ?pk = "last_key 0 opts"
  have all: "takeWhile ?P opts = opts" using Nil takeWhile_dropWhile_id [of ?P opts] by simp
  have new': "new = old @ option_bytes ?pk key v"
    unfolding new old insert_opt_def all Nil encode_options_append by simp
  have pk: "?pk \<le> key" using last_key_takeWhile [of 0 key opts] all by simp
  have app: "coap_encode_option (xs @ old @ zs) (length xs + length old) (word_of_nat ?pk)
      (word_of_nat key) (Src_ext (v @ ws)) (word_of_nat (length v)) =
      Some (xs @ new @ drop (length new - length old) zs, length xs + length new)"
    using coap_insert_append [OF pk key v, of zs "xs @ old" ws] room by (simp add: new')
  show ?thesis
  proof (cases "opts = []")
    case True
    with app show ?thesis by (simp add: coap_insert_option_def old new' del: of_nat_diff)
  next
    case False
    have pos: "old \<noteq> []"
      using False by (cases opts) (auto simp: old option_bytes_def opt_header_def)
    have "\<not> (word_of_nat key :: u32) < word_of_nat ?pk"
      using pk key u32_of_nat_less [of ?pk key] by simp
    moreover have "coap_insert_find (xs @ old @ zs) (length xs + length old) (word_of_nat key)
        (length xs) 0 (length xs) 0 =
      Some (Some (length xs + length old), word_of_nat ?pk, length xs + length old, word_of_nat ?pk)"
      using coap_insert_find_opts [OF False wf key, of xs zs]
      unfolding Nil all by (simp add: Let_def old)
    ultimately show ?thesis
      using app pos by (simp add: coap_insert_option_def new' del: of_nat_diff)
  qed
next
  case (Cons o2 bs)
  obtain k2 v2 where o2: "o2 = (k2, v2)" by (cases o2)
  let ?as = "takeWhile (\<lambda>x. fst x \<le> key) opts"
  let ?pk = "last_key 0 ?as" and ?A = "encode_options 0 ?as" and ?B = "encode_options k2 bs"
  note enc = insert_opt_encode [OF wf Cons [unfolded o2] refl refl]
  define d where "d = coap_insert_size_diff (word_of_nat (length v)) (word_of_nat key)
      (word_of_nat ?pk) (word_of_nat k2) (hd (opt_header (k2 - ?pk) (length v2)))"
  have le: "key \<le> k2" using enc(4) by simp
  have diff: "length old + unat d = length new"
    using coap_insert_size_diff_eq [OF enc(3) le enc(5) v refl, of "length v2"]
    by (simp add: old new enc(1,2) option_bytes_def d_def)
  have room': "unat d \<le> length zs" using diff room by simp
  have ins: "coap_insert_before (xs @ old @ zs) (length xs + length ?A) (length xs + length old)
      (word_of_nat ?pk) (word_of_nat key) (word_of_nat k2) (v @ ws) (word_of_nat (length v)) =
      Some (xs @ new @ drop (unat d) zs, d)"
    using coap_insert_before_layout [OF enc(3) le enc(5) v enc(6) d_def room' refl refl refl,
        of "xs @ ?A" ?B ws]
    by (simp add: old new enc(1,2) add.assoc)
  have ne: "opts \<noteq> []" "old \<noteq> []" using Cons
    by (auto simp: old enc(1) option_bytes_def opt_header_def)
  have lt: "(word_of_nat key :: u32) < word_of_nat k2"
    using enc(4,5) u32_of_nat_less [of k2 key] by simp
  have find: "coap_insert_find (xs @ old @ zs) (length xs + length old) (word_of_nat key)
      (length xs) 0 (length xs) 0 =
      Some (Some (length xs + length ?A + length (option_bytes ?pk k2 v2)),
        word_of_nat k2, length xs + length ?A, word_of_nat ?pk)"
    using coap_insert_find_opts [OF ne(1) wf key, of xs zs] Cons by (simp add: o2 old Let_def)
  have "coap_insert_option (xs @ old @ zs) (length xs) (length xs + length old)
           (word_of_nat key) (v @ ws) (word_of_nat (length v)) =
      Some (xs @ new @ drop (unat d) zs, d)"
    using ne lt find ins by (simp add: coap_insert_option_def)
  with diff show ?thesis by (simp flip: diff)
qed

section \<open>Properties\<close>

text \<open>
  C9: \<^verbatim>\<open>coap_insert_option\<close> is insertion into a sorted list of options. On a buffer that holds the
  layout of a sorted option list, and has room behind it, the call never leaves the buffer, leaves
  the bytes before the options alone, leaves behind the layout of the list with the new option put
  after every option whose number is not larger, and returns the number of bytes added.
\<close>

theorem coap_insert_option_sorted:
  assumes "wf_opts 0 opts" and "key < 65536" and "length v \<le> 1034"
    and "length (encode_options 0 (insert_opt key v opts)) \<le>
         length (encode_options 0 opts) + length zs"
  shows "\<exists>size_diff.
           length (encode_options 0 opts) + size_diff =
             length (encode_options 0 (insert_opt key v opts)) \<and>
           wf_opts 0 (insert_opt key v opts) \<and>
           coap_insert_option (xs @ encode_options 0 opts @ zs) (length xs)
             (length xs + length (encode_options 0 opts)) (word_of_nat key) v
             (word_of_nat (length v)) =
           Some (xs @ encode_options 0 (insert_opt key v opts) @ drop size_diff zs,
                 word_of_nat size_diff)"
  using coap_insert_option_refines [OF assms(1-3) refl refl assms(4), of xs "[]"]
    insert_opt_wf [OF assms(1) _ assms(2,3)]
  by (intro exI [of _ "length (encode_options 0 (insert_opt key v opts)) -
        length (encode_options 0 opts)"]) simp

lemma coap_insert_option_sorted_witness:
  "coap_insert_option [7, 0xB1, 0x61, 0xFF, 0, 0] 1 3 6 [] 0 =
     Some ([7, 0x60, 0x51, 0x61, 0, 0], 1)"
proof -
  have h: "wf_opts 0 [(11, [0x61])]" "(6 :: nat) < 65536" "length ([] :: u8 list) \<le> 1034"
    "length (encode_options 0 (insert_opt 6 [] [(11, [0x61])])) \<le>
       length (encode_options 0 [(11, [0x61])]) + length [0xFF :: u8, 0, 0]"
    by (simp_all add: insert_opt_def option_bytes_def opt_header_def opt_nibble_def opt_ext_def)
  show ?thesis
    using coap_insert_option_sorted [OF h, of "[7]"]
    by (simp add: insert_opt_def option_bytes_def opt_header_def opt_nibble_def opt_ext_def
        push_bit_eq_mult numeral_3_eq_3)
qed

text \<open>
  C10: Encoding an option and decoding it again gives the option back: the decoder returns the
  position behind the option, the option number and a view of the value, and the encoder touches
  no byte outside of the option.
\<close>

theorem coap_option_roundtrip:
  assumes "prev \<le> k" "k < 65536" "length v \<le> 1034"
    and "length (option_bytes prev k v) \<le> length zs"
  shows "\<exists>mem q vp.
           coap_encode_option (xs @ zs) (length xs) (word_of_nat prev) (word_of_nat k) (Src_ext v)
             (word_of_nat (length v)) = Some (mem, q) \<and>
           coap_decode_option mem (length xs) (Some (word_of_nat prev)) =
             Some (Decode_At q (Some (word_of_nat k)) vp (word_of_nat (length v))) \<and>
           mem_read_n mem vp (length v) = Some v \<and>
           take (length xs) mem = xs \<and> drop q mem = drop q (xs @ zs)"
proof -
  let ?ob = "option_bytes prev k v" and ?H = "opt_header (k - prev) (length v)"
  let ?mem = "xs @ ?ob @ drop (length ?ob) zs"
  have "mem_read_n ?mem (length xs + length ?H) (length v) = Some v"
    using mem_read_n_split [of _ "xs @ ?H" _ v "drop (length ?ob) zs"] by (simp add: option_bytes_def)
  then show ?thesis
    using coap_insert_append [OF assms, of xs "[]"]
      coap_decode_option_bytes [of prev k v xs "drop (length ?ob) zs"] assms
    by (intro exI [of _ ?mem] exI [of _ "length xs + length ?ob"] exI [of _ "length xs + length ?H"])
       simp
qed

lemma coap_option_roundtrip_witness:
  "\<exists>mem q vp.
     coap_encode_option ([1] @ [0, 0, 0, 0]) 1 (word_of_nat 0) (word_of_nat 300) (Src_ext [])
       (word_of_nat 0) = Some (mem, q) \<and>
     coap_decode_option mem 1 (Some (word_of_nat 0)) =
       Some (Decode_At q (Some (word_of_nat 300)) vp (word_of_nat 0)) \<and>
     mem_read_n mem vp 0 = Some [] \<and> take 1 mem = [1] \<and> drop q mem = drop q ([1] @ [0, 0, 0, 0])"
proof -
  have h: "length (option_bytes 0 300 []) \<le> length [0 :: u8, 0, 0, 0]"
    by (simp add: option_bytes_def length_opt_header length_opt_ext)
  show ?thesis
    using coap_option_roundtrip [of 0 300 "[]" "[0, 0, 0, 0]" "[1]"] h by simp
qed

end
