(* ===== verification/Coap_Verify.thy ===== *)
theory Coap_Verify
  imports Coap_Insert
begin

text \<open>
  What \<^verbatim>\<open>coap_verify_packet\<close> accepts: a packet is accepted exactly when it is a header, a token,
  a run of laid-out options and, if anything is left, a payload behind a marker byte. The length
  of an option value is the length field reduced to 16 bits, as the decoder computes it.
\<close>

section \<open>Every byte string the decoder accepts is a layout\<close>

lemma opt_ext_one: "opt_ext (13 + unat (x :: u8)) = [x]" "opt_nibble (13 + unat (x :: u8)) = 13"
  using unat_u8_less [of x] by (auto simp: opt_ext_def opt_nibble_def)

lemma opt_ext_two:
  "opt_ext (269 + unat (lo :: u8) + 256 * unat (hi :: u8)) = [hi, lo]"
  "opt_nibble (269 + unat (lo :: u8) + 256 * unat (hi :: u8)) = 14"
  "269 + unat (lo :: u8) + 256 * unat (hi :: u8) < opt_max"
proof -
  have b: "unat lo < 256" "unat hi < 256" by (rule unat_u8_less)+
  then have "(unat lo + 256 * unat hi) div 256 = unat hi" "(unat lo + 256 * unat hi) mod 256 = unat lo"
    by simp_all
  then show "opt_ext (269 + unat lo + 256 * unat hi) = [hi, lo]"
    by (simp add: opt_ext_def)
  show "opt_nibble (269 + unat lo + 256 * unat hi) = 14" by (simp add: opt_nibble_def)
  show "269 + unat lo + 256 * unat hi < opt_max" using b by simp
qed

lemma opt_ext_small:
  assumes "b < (16 :: u8)" "b \<noteq> 13" "b \<noteq> 14" "b \<noteq> 15"
  shows "opt_ext (unat b) = []" "opt_nibble (unat b) = unat b" "unat b < 13"
proof -
  have "unat b < 16" "unat b \<noteq> 13" "unat b \<noteq> 14" "unat b \<noteq> 15"
    using assms by (auto simp: word_less_nat_alt word_unat_eq_iff)
  then show "unat b < 13" by simp
  then show "opt_ext (unat b) = []" "opt_nibble (unat b) = unat b"
    by (auto simp: opt_ext_def opt_nibble_def)
qed

lemma drop_mem_read: "mem_read mem p = Some x \<Longrightarrow> drop p mem = x # drop (Suc p) mem"
  by (auto simp: mem_read_def Cons_nth_drop_Suc split: if_splits)

lemma coap_decode_delta_inv:
  assumes "coap_decode_delta mem p delta (Some k) = Some (k', q)" "delta < 16" "delta \<noteq> 15"
  obtains d where "d < opt_max" "delta = word_of_nat (opt_nibble d)" "k' = Some (k + word_of_nat d)"
    "drop (Suc p) mem = opt_ext d @ drop q mem" "q = p + 1 + length (opt_ext d)"
proof -
  consider "delta = 13" | "delta = 14" | "delta \<noteq> 13" "delta \<noteq> 14" by blast
  then show ?thesis
  proof cases
    case 1
    with assms(1) obtain x where x: "mem_read mem (Suc p) = Some x" "q = p + 2"
        "k' = Some (k + (13 + ucast x))"
      by (auto simp: coap_decode_delta_def split: Option.bind_splits)
    show ?thesis
      using 1 x drop_mem_read [OF x(1)] unat_u8_less [of x]
      by (intro that [of "13 + unat x"]) (simp_all add: opt_ext_one numeral_2_eq_2)
  next
    case 2
    with assms(1) obtain lo hi where x: "mem_read mem (Suc p) = Some hi"
        "mem_read mem (Suc (Suc p)) = Some lo" "q = p + 3"
        "k' = Some (k + (269 + ucast lo + push_bit 8 (ucast hi)))"
      by (auto simp: coap_decode_delta_def numeral_2_eq_2 split: Option.bind_splits)
    show ?thesis
      using 2 x drop_mem_read [OF x(1)] drop_mem_read [OF x(2)] opt_ext_two [of lo hi]
      by (intro that [of "269 + unat lo + 256 * unat hi"])
         (simp_all add: push_bit_eq_mult numeral_3_eq_3)
  next
    case 3
    note small = opt_ext_small [OF assms(2) 3 assms(3)]
    show ?thesis
      using assms(1) 3 small
      by (intro that [of "unat delta"]) (auto simp: coap_decode_delta_def)
  qed
qed

lemma coap_decode_len_inv:
  assumes "coap_decode_len mem p len = Some (l, q)" "len < 16" "len \<noteq> 15"
  obtains n where "n < opt_max" "len = word_of_nat (opt_nibble n)" "l = word_of_nat n"
    "drop p mem = opt_ext n @ drop q mem" "q = p + length (opt_ext n)"
proof -
  consider "len = 13" | "len = 14" | "len \<noteq> 13" "len \<noteq> 14" by blast
  then show ?thesis
  proof cases
    case 1
    with assms(1) obtain x where x: "mem_read mem p = Some x" "q = p + 1" "l = 13 + ucast x"
      by (auto simp: coap_decode_len_def split: Option.bind_splits)
    show ?thesis
      using 1 x drop_mem_read [OF x(1)] unat_u8_less [of x]
      by (intro that [of "13 + unat x"]) (simp_all add: opt_ext_one)
  next
    case 2
    with assms(1) obtain lo hi where x: "mem_read mem p = Some hi"
        "mem_read mem (Suc p) = Some lo" "q = p + 2" "l = 269 + ucast lo + push_bit 8 (ucast hi)"
      by (auto simp: coap_decode_len_def split: Option.bind_splits)
    show ?thesis
      using 2 x drop_mem_read [OF x(1)] drop_mem_read [OF x(2)] opt_ext_two [of lo hi]
      by (intro that [of "269 + unat lo + 256 * unat hi"])
         (simp_all add: push_bit_eq_mult numeral_2_eq_2)
  next
    case 3
    note small = opt_ext_small [OF assms(2) 3 assms(3)]
    show ?thesis
      using assms(1) 3 small
      by (intro that [of "unat len"]) (auto simp: coap_decode_len_def)
  qed
qed

lemma nibble_join: "push_bit 4 (drop_bit 4 b) OR (b AND 15) = (b :: u8)"
proof -
  have m: "(15 :: u8) = mask 4" by (simp add: mask_eq_exp_minus_1)
  show ?thesis unfolding m by (rule bit_word_eqI) (auto simp: bit_simps)
qed

lemma coap_decode_option_inv:
  assumes "coap_decode_option mem p (Some k) = Some (Decode_At q k' v l)"
  obtains d n where "d < opt_max" "n < opt_max" "drop p mem = opt_header d n @ drop v mem"
    "v = p + length (opt_header d n)" "q = v + n mod 65536" "k' = Some (k + word_of_nat d)"
    "l = word_of_nat n"
proof -
  obtain b where b: "mem_read mem p = Some b"
    using assms by (auto simp: coap_decode_option_def split: Option.bind_splits)
  have nib: "drop_bit 4 b < 16" "b AND 15 < 16" by (rule drop_bit_4_u8_less, rule and_15_u8_less)
  obtain p' where delta: "drop_bit 4 b \<noteq> 15" "coap_decode_delta mem p (drop_bit 4 b) (Some k) = Some (k', p')"
    and len: "b AND 15 \<noteq> 15" "coap_decode_len mem p' (b AND 15) = Some (l, v)" and q: "q = v + unat l"
    using assms b
    by (auto simp: coap_decode_option_def Let_def split: Option.bind_splits if_splits)
  obtain d where d: "d < opt_max" "drop_bit 4 b = word_of_nat (opt_nibble d)"
      "k' = Some (k + word_of_nat d)" "drop (Suc p) mem = opt_ext d @ drop p' mem"
      "p' = p + 1 + length (opt_ext d)"
    using coap_decode_delta_inv [OF delta(2) nib(1) delta(1)] by blast
  obtain n where n: "n < opt_max" "b AND 15 = word_of_nat (opt_nibble n)" "l = word_of_nat n"
      "drop p' mem = opt_ext n @ drop v mem" "v = p' + length (opt_ext n)"
    using coap_decode_len_inv [OF len(2) nib(2) len(1)] by blast
  show ?thesis
  proof (rule that [OF d(1) n(1)])
    have "b = push_bit 4 (word_of_nat (opt_nibble d)) OR word_of_nat (opt_nibble n)"
      using nibble_join [of b] d(2) n(2) by simp
    then show "drop p mem = opt_header d n @ drop v mem"
      using drop_mem_read [OF b] d(4) n(4) by (simp add: opt_header_def)
    show "v = p + length (opt_header d n)"
      using d(5) n(5) by (simp add: length_opt_header)
    show "q = v + n mod 65536"
      using q n(3) by (simp add: unsigned_of_nat take_bit_eq_mod)
  qed (use d n in simp_all)
qed

section \<open>The grammar of a packet\<close>

inductive options_layout :: "u8 list \<Rightarrow> bool" where
  options_end: "options_layout []"
| options_more: "d < opt_max \<Longrightarrow> l < opt_max \<Longrightarrow> length v = l mod 65536 \<Longrightarrow> options_layout os \<Longrightarrow>
     options_layout (opt_header d l @ v @ os)"

definition packet_layout :: "u8 list \<Rightarrow> bool" where
  "packet_layout pkt \<longleftrightarrow>
     (\<exists>b0 code m0 m1 token os payload.
        pkt = [b0, code, m0, m1] @ token @ os @ payload \<and>
        header_version b0 = COAP_VERSION \<and>
        length token = unat (header_token_len b0) \<and> length token \<le> 8 \<and>
        (code = COAP_CODE_EMPTY \<longrightarrow> length pkt = 4) \<and>
        options_layout os \<and> (payload = [] \<or> hd payload = 0xFF))"

lemma opt_header_hd: "hd (opt_header d l) \<noteq> 0xFF"
proof
  assume eq: "hd (opt_header d l) = 0xFF"
  have "drop_bit 4 (hd (opt_header d l)) = word_of_nat (opt_nibble d)"
    unfolding opt_header_def by (simp only: list.sel) (intro nibble_high word_opt_nibble_less)
  moreover have "drop_bit 4 (0xFF :: u8) = 15" by (simp add: drop_bit_eq_div)
  ultimately show False using eq word_opt_nibble_neq_15 [of d] by simp
qed

lemma coap_verify_loop_accepts:
  assumes "options_layout os" "payload = [] \<or> hd payload = 0xFF"
  shows "coap_verify_loop (xs @ os @ payload @ zs) (length xs + length os + length payload)
           (length xs) key = Some (Some (length xs + length os))"
  using assms(1)
proof (induction os arbitrary: xs key rule: options_layout.induct)
  case options_end
  show ?case
    using assms(2)
    by (cases payload; subst coap_verify_loop.simps) (auto simp: mem_read_def nth_append)
next
  case (options_more d l v os)
  let ?H = "opt_header d l"
  let ?rest = "os @ payload @ zs"
  have dec: "coap_decode_option (xs @ ?H @ v @ ?rest) (length xs) (Some key) =
      Some (Decode_At (length xs + length ?H + length v) (Some (key + word_of_nat d))
        (length xs + length ?H) (word_of_nat l))"
    using coap_decode_option_header [of d l xs "v @ ?rest" "Some key"] options_more.hyps
    by (simp add: unsigned_of_nat take_bit_eq_mod)
  have rd: "mem_read (xs @ ?H @ v @ ?rest) (length xs) = Some (hd ?H)"
    by (simp add: mem_read_def opt_header_def nth_append)
  have pos: "?H \<noteq> []" by (simp add: opt_header_def)
  show ?case
    using options_more.IH [of "xs @ ?H @ v" "key + word_of_nat d"]
    by (subst coap_verify_loop.simps) (simp add: dec rd opt_header_hd pos add.assoc)
qed

lemma coap_verify_loop_sound:
  "coap_verify_loop mem n p key = Some (Some q) \<Longrightarrow> p \<le> n \<Longrightarrow> n \<le> length mem \<Longrightarrow>
   \<exists>os. options_layout os \<and> drop p mem = os @ drop q mem \<and> q = p + length os \<and> q \<le> n \<and>
     (q < n \<longrightarrow> mem ! q = 0xFF)"
proof (induction mem n p key rule: coap_verify_loop.induct)
  case (1 mem n p key)
  show ?case
  proof (cases "p < n \<and> mem ! p \<noteq> 0xFF")
    case False
    with "1.prems" have "q = p" "p < n \<longrightarrow> mem ! p = 0xFF"
      by (auto simp: coap_verify_loop.simps [of mem n p key] mem_read_def split: if_splits)
    with "1.prems" show ?thesis by (intro exI [of _ "[]"]) (simp add: options_end)
  next
    case True
    then have rd: "mem_read mem p = Some (mem ! p)"
      using "1.prems"(3) by (simp add: mem_read_def)
    with True "1.prems"(1) obtain next' k v l
      where dec: "coap_decode_option mem p (Some key) = Some (Decode_At next' k v l)"
        and le: "next' \<le> n" and rec: "coap_verify_loop mem n next' (the k) = Some (Some q)"
      by (auto simp: coap_verify_loop.simps [of mem n p key]
          split: option.splits coap_decode.splits if_splits)
    obtain d m where m: "d < opt_max" "m < opt_max" "drop p mem = opt_header d m @ drop v mem"
        "v = p + length (opt_header d m)" "next' = v + m mod 65536"
      using coap_decode_option_inv [OF dec] by metis
    obtain os where os: "options_layout os" "drop next' mem = os @ drop q mem"
        "q = next' + length os" "q \<le> n" "q < n \<longrightarrow> mem ! q = 0xFF"
      using "1.IH" [OF _ rd _ dec refl] True le rec "1.prems"(3) by auto
    let ?v = "take (m mod 65536) (drop v mem)"
    have len: "length ?v = m mod 65536" using le m(5) "1.prems"(3) by simp
    have "drop v mem = ?v @ drop next' mem"
      using append_take_drop_id [of "m mod 65536" "drop v mem"] m(5) by (simp add: add.commute)
    with os m len show ?thesis
      by (intro exI [of _ "opt_header d m @ ?v @ os"]) (simp add: options_more)
  qed
qed

section \<open>Memory safety and the decision\<close>

text \<open>The decoder reads at most five bytes.\<close>

lemma coap_decode_option_total:
  "p + 5 \<le> length mem \<Longrightarrow> \<exists>r. coap_decode_option mem p key = Some r"
  by (auto simp: coap_decode_option_def coap_decode_delta_def coap_decode_len_def mem_read_def
      Let_def split: option.split)

lemma coap_verify_loop_total:
  "n + 4 \<le> length mem \<Longrightarrow> \<exists>r. coap_verify_loop mem n p key = Some r"
proof (induction mem n p key rule: coap_verify_loop.induct)
  case (1 mem n p key)
  show ?case
  proof (cases "p < n \<and> mem ! p \<noteq> 0xFF")
    case False
    with "1.prems" show ?thesis
      by (auto simp: coap_verify_loop.simps [of mem n p key] mem_read_def)
  next
    case True
    then obtain r where dec: "coap_decode_option mem p (Some key) = Some r"
      using coap_decode_option_total [of p mem] "1.prems" by auto
    have rd: "mem_read mem p = Some (mem ! p)" using True "1.prems" by (simp add: mem_read_def)
    show ?thesis
    proof (cases r)
      case Decode_End
      with True dec rd show ?thesis by (simp add: coap_verify_loop.simps [of mem n p key])
    next
      case (Decode_At next' k v l)
      with "1.IH" [OF _ rd _ dec] True "1.prems" dec rd show ?thesis
        by (cases "next' > n") (auto simp: coap_verify_loop.simps [of mem n p key])
    qed
  qed
qed

lemma coap_verify_packet_accepts:
  assumes "packet_layout pkt" "length pkt \<le> 1240"
  shows "coap_verify_packet (pkt @ zs) (word_of_nat (length pkt)) = Some True"
proof -
  obtain b0 code m0 m1 token os payload
    where pkt: "pkt = [b0, code, m0, m1] @ token @ os @ payload"
      and hdr: "header_version b0 = COAP_VERSION" "length token = unat (header_token_len b0)"
        "length token \<le> 8" "code = COAP_CODE_EMPTY \<longrightarrow> length pkt = 4"
      and os: "options_layout os" "payload = [] \<or> hd payload = 0xFF"
    using assms(1) [unfolded packet_layout_def] by blast
  have n: "unat (word_of_nat (length pkt) :: u16) = length pkt"
    using assms(2) by (simp add: unsigned_of_nat take_bit_nat_eq_self)
  have bounds: "\<not> (word_of_nat (length pkt) :: u16) < 4"
      "\<not> COAP_MAX_MESSAGE_SIZE < (word_of_nat (length pkt) :: u16)" "\<not> 8 < header_token_len b0"
      "(word_of_nat (length pkt) :: u16) = 4 \<longleftrightarrow> length pkt = 4"
    using n assms(2) hdr pkt
    by (simp_all add: word_less_nat_alt COAP_MAX_MESSAGE_SIZE_def word_unat_eq_iff)
  have loop: "coap_verify_loop (pkt @ zs) (length pkt) (4 + unat (header_token_len b0)) 0 =
      Some (Some (4 + length token + length os))"
    using coap_verify_loop_accepts [OF os, of "[b0, code, m0, m1] @ token" zs 0]
    by (simp add: pkt hdr(2) add.assoc numeral_eq_Suc)
  have rd: "mem_read (pkt @ zs) 0 = Some b0" "mem_read (pkt @ zs) 1 = Some code"
    by (simp_all add: pkt mem_read_def)
  have last: "payload \<noteq> [] \<Longrightarrow> mem_read (pkt @ zs) (4 + length token + length os) = Some 0xFF"
    using os(2) by (cases payload) (simp_all add: pkt mem_read_def nth_append)
  have len: "length pkt = 4 + length token + length os + length payload" by (simp add: pkt)
  then have "\<not> length pkt < 4 + length token + length os"
      "4 + length token + length os < length pkt \<longleftrightarrow> payload \<noteq> []"
    by simp_all
  then show ?thesis
    unfolding coap_verify_packet_def
    using hdr(1,4) bounds last by (simp add: rd [simplified] n loop Let_def)
qed

lemma coap_verify_packet_sound:
  assumes "coap_verify_packet (pkt @ zs) (word_of_nat (length pkt)) = Some True"
    and "length pkt < 65536"
  shows "packet_layout pkt \<and> length pkt \<le> 1240"
proof -
  have n: "unat (word_of_nat (length pkt) :: u16) = length pkt"
    using assms(2) by (simp add: unsigned_of_nat take_bit_nat_eq_self)
  obtain b0 code q where rd: "mem_read (pkt @ zs) 0 = Some b0" "mem_read (pkt @ zs) 1 = Some code"
      and hdr: "\<not> (word_of_nat (length pkt) :: u16) < 4" "header_version b0 = COAP_VERSION"
        "\<not> COAP_MAX_MESSAGE_SIZE < (word_of_nat (length pkt) :: u16)" "\<not> 8 < header_token_len b0"
        "code = COAP_CODE_EMPTY \<longrightarrow> (word_of_nat (length pkt) :: u16) = 4"
      and loop: "coap_verify_loop (pkt @ zs) (length pkt) (4 + unat (header_token_len b0)) 0 =
        Some (Some q)" "q \<le> length pkt"
    using assms(1)
    by (auto simp: coap_verify_packet_def n Let_def
        split: Option.bind_splits option.splits if_splits)
  let ?t = "unat (header_token_len b0)"
  have len: "4 \<le> length pkt" "length pkt \<le> 1240" "?t \<le> 8"
      "code = COAP_CODE_EMPTY \<longrightarrow> length pkt = 4"
    using hdr n by (auto simp: word_less_nat_alt COAP_MAX_MESSAGE_SIZE_def word_unat_eq_iff)
  have "4 + ?t \<le> length pkt"
  proof (rule ccontr)
    assume "\<not> ?thesis"
    then have "q = 4 + ?t" using loop(1) by (simp add: coap_verify_loop.simps)
    with loop(2) \<open>\<not> ?thesis\<close> show False by simp
  qed
  then obtain os where os: "options_layout os"
      "drop (4 + ?t) (pkt @ zs) = os @ drop q (pkt @ zs)" "q = 4 + ?t + length os"
      "q < length pkt \<longrightarrow> (pkt @ zs) ! q = 0xFF"
    using coap_verify_loop_sound [OF loop(1)] by auto
  obtain m0 m1 rest where pkt: "pkt = [b0, code, m0, m1] @ rest"
  proof -
    obtain a b c d r where "pkt = [a, b, c, d] @ r"
      using len(1) by (auto simp: numeral_eq_Suc Suc_le_length_iff)
    with that rd show ?thesis by (auto simp: mem_read_def)
  qed
  let ?payload = "drop q pkt"
  have "drop ?t rest = os @ ?payload"
    using os(2,3) loop(2) by (simp add: pkt numeral_eq_Suc)
  then have "rest = take ?t rest @ os @ ?payload"
    by (metis append_take_drop_id)
  with pkt have eq: "pkt = [b0, code, m0, m1] @ take ?t rest @ os @ ?payload" by metis
  have "length (take ?t rest) = ?t" using \<open>4 + ?t \<le> length pkt\<close> by (simp add: pkt)
  moreover have "?payload = [] \<or> hd ?payload = 0xFF"
    using os(4) loop(2) by (cases "q < length pkt") (auto simp: hd_drop_conv_nth nth_append)
  ultimately have "packet_layout pkt"
    unfolding packet_layout_def using eq hdr(2) len os(1) by metis
  with len show ?thesis by simp
qed

lemma coap_verify_packet_total:
  assumes "unat n + 4 \<le> length packet"
  shows "\<exists>r. coap_verify_packet packet n = Some r"
proof -
  obtain b0 where b0: "mem_read packet 0 = Some b0" using assms by (cases packet) (auto simp: mem_read_def)
  obtain c where c: "mem_read packet 1 = Some c" using assms by (simp add: mem_read_def)
  obtain r where r: "coap_verify_loop packet (unat n) (4 + unat (header_token_len b0)) 0 = Some r"
    using coap_verify_loop_total [OF assms] by blast
  have "mem_read packet q = Some (packet ! q)" if "q < unat n" for q
    using that assms by (simp add: mem_read_def)
  then show ?thesis
    by (cases r) (auto simp: coap_verify_packet_def b0 c [simplified] r Let_def)
qed

section \<open>Properties\<close>

text \<open>
  C11: \<^verbatim>\<open>coap_verify_packet\<close> decides the packet grammar: in a buffer with four readable bytes
  behind the packet it returns true exactly for the packets of at most 1240 bytes that are a
  version 1 header, a token of at most eight bytes, a run of laid-out options and an optional
  payload behind its marker, where the empty code goes with the bare header only.
\<close>

theorem coap_verify_packet_decides:
  assumes "length pkt < 65536" and "4 \<le> length zs"
  shows "coap_verify_packet (pkt @ zs) (word_of_nat (length pkt)) =
         Some (packet_layout pkt \<and> length pkt \<le> 1240)"
proof -
  obtain r where r: "coap_verify_packet (pkt @ zs) (word_of_nat (length pkt)) = Some r"
    using coap_verify_packet_total [of "word_of_nat (length pkt)" "pkt @ zs"] assms
    by (auto simp: unsigned_of_nat take_bit_nat_eq_self)
  show ?thesis
    using coap_verify_packet_sound [of pkt zs] coap_verify_packet_accepts [of pkt zs] r assms(1)
    by (cases r) auto
qed

lemma coap_verify_packet_decides_witness:
  "coap_verify_packet ([0x40, 1, 0, 0] @ [0, 0, 0, 0]) (word_of_nat 4) =
     Some (packet_layout [0x40, 1, 0, 0] \<and> (4 :: nat) \<le> 1240)"
  using coap_verify_packet_decides [of "[0x40, 1, 0, 0]" "[0, 0, 0, 0]"] by simp

text \<open>
  The slack is needed: a packet whose last byte announces extension bytes is read past its end.
\<close>

lemma coap_verify_packet_overread: "coap_verify_packet [0x40, 1, 0, 0, 0xEE] 5 = None"
  by code_simp

text \<open>
  A length field of 65536 wraps to 0 in the 16-bit \<^verbatim>\<open>coap_size_t\<close>, so a packet whose only option
  claims a value of 65536 bytes is accepted.
\<close>

lemma coap_verify_packet_length_wrap:
  "coap_verify_packet [0x40, 1, 0, 0, 0x0E, 0xFE, 0xF3, 0, 0, 0, 0] 7 = Some True"
  by code_simp

end
