(* ===== verification/Inbound.thy ===== *)
theory Inbound
  imports Smcp_State Url_Encode Coap_Verify
begin

text \<open>
  Access to the inbound packet (first half of \<^verbatim>\<open>src/smcp/smcp-inbound.c\<close>): the getters, the scanner over
  the options, and the path of a request. A null pointer that would be followed makes the
  operation return \<^const>\<open>None\<close>, like any other access outside of an allocation.
\<close>

section \<open>Option numbers\<close>

definition COAP_OPTION_URI_HOST :: u32 where "COAP_OPTION_URI_HOST = 3"
definition COAP_OPTION_OBSERVE :: u32 where "COAP_OPTION_OBSERVE = 6"
definition COAP_OPTION_URI_PORT :: u32 where "COAP_OPTION_URI_PORT = 7"
definition COAP_OPTION_URI_PATH :: u32 where "COAP_OPTION_URI_PATH = 11"
definition COAP_OPTION_CONTENT_TYPE :: u32 where "COAP_OPTION_CONTENT_TYPE = 12"
definition COAP_OPTION_MAX_AGE :: u32 where "COAP_OPTION_MAX_AGE = 14"
definition COAP_OPTION_URI_QUERY :: u32 where "COAP_OPTION_URI_QUERY = 15"
definition COAP_OPTION_BLOCK2 :: u32 where "COAP_OPTION_BLOCK2 = 23"
definition COAP_OPTION_PROXY_URI :: u32 where "COAP_OPTION_PROXY_URI = 35"
definition COAP_OPTION_AUTHENTICATE :: u32 where "COAP_OPTION_AUTHENTICATE = 65102"

lemmas option_keys = COAP_OPTION_INVALID_def COAP_OPTION_URI_HOST_def COAP_OPTION_OBSERVE_def
  COAP_OPTION_URI_PORT_def COAP_OPTION_URI_PATH_def COAP_OPTION_CONTENT_TYPE_def
  COAP_OPTION_MAX_AGE_def COAP_OPTION_URI_QUERY_def COAP_OPTION_BLOCK2_def
  COAP_OPTION_PROXY_URI_def COAP_OPTION_AUTHENTICATE_def

definition COAP_TRANS_TYPE_CONFIRMABLE :: u8 where "COAP_TRANS_TYPE_CONFIRMABLE = 0"
definition COAP_TRANS_TYPE_NONCONFIRMABLE :: u8 where "COAP_TRANS_TYPE_NONCONFIRMABLE = 1"
definition COAP_TRANS_TYPE_ACK :: u8 where "COAP_TRANS_TYPE_ACK = 2"
definition COAP_TRANS_TYPE_RESET :: u8 where "COAP_TRANS_TYPE_RESET = 3"

section \<open>Getters\<close>

definition smcp_inbound_get_packet :: "smcp_s \<Rightarrow> u8 list option" where
  "smcp_inbound_get_packet self = in_packet (inbound self)"

definition smcp_inbound_get_packet_length :: "smcp_s \<Rightarrow> u16" where
  "smcp_inbound_get_packet_length self = packet_len (inbound self)"

definition smcp_inbound_get_content_ptr :: "smcp_s \<Rightarrow> nat option" where
  "smcp_inbound_get_content_ptr self = in_content_ptr (inbound self)"

definition smcp_inbound_get_content_len :: "smcp_s \<Rightarrow> u16" where
  "smcp_inbound_get_content_len self = in_content_len (inbound self)"

definition smcp_inbound_get_content_type :: "smcp_s \<Rightarrow> u16" where
  "smcp_inbound_get_content_type self = content_type (inbound self)"

definition smcp_inbound_is_dupe :: "smcp_s \<Rightarrow> bool" where
  "smcp_inbound_is_dupe self \<longleftrightarrow> is_dupe (inbound self)"

definition smcp_inbound_is_fake :: "smcp_s \<Rightarrow> bool" where
  "smcp_inbound_is_fake self \<longleftrightarrow> is_fake (inbound self)"

text \<open>The fields of the header of a packet.\<close>

definition packet_tt :: "u8 list \<Rightarrow> u8 option" where
  "packet_tt p = map_option header_tt (mem_read p 0)"

definition packet_token_len :: "u8 list \<Rightarrow> nat option" where
  "packet_token_len p = map_option (\<lambda>b. unat (header_token_len b)) (mem_read p 0)"

definition packet_code :: "u8 list \<Rightarrow> u16 option" where
  "packet_code p = map_option ucast (mem_read p 1)"

definition packet_msg_id :: "u8 list \<Rightarrow> u16 option" where
  "packet_msg_id p = do {
     lo \<leftarrow> mem_read p 2;
     hi \<leftarrow> mem_read p 3;
     Some (ucast lo + push_bit 8 (ucast hi))
   }"

definition smcp_inbound_get_code :: "smcp_s \<Rightarrow> u16 option" where
  "smcp_inbound_get_code self = Option.bind (smcp_inbound_get_packet self) packet_code"

definition smcp_inbound_get_msg_id :: "smcp_s \<Rightarrow> u16 option" where
  "smcp_inbound_get_msg_id self = Option.bind (smcp_inbound_get_packet self) packet_msg_id"

definition smcp_inbound_get_srcaddr :: "smcp_s \<Rightarrow> sockaddr" where
  "smcp_inbound_get_srcaddr self = in_saddr (inbound self)"

section \<open>The option scanner\<close>

definition smcp_inbound_reset_next_option :: "smcp_s \<Rightarrow> smcp_s option" where
  "smcp_inbound_reset_next_option self = do {
     packet \<leftarrow> in_packet (inbound self);
     token_len \<leftarrow> packet_token_len packet;
     Some (set_inbound (\<lambda>i. i\<lparr>in_last_option_key := 0, this_option := Some (4 + token_len)\<rparr>) self)
   }"

text \<open>
  The result of a scan: the key, and what was written through the pointers for the value and the
  length, if anything was.
\<close>

type_synonym scanned = "u32 \<times> (nat option \<times> u16) option"

definition decoded_value :: "coap_decode \<Rightarrow> nat option \<times> u16" where
  "decoded_value d = (case d of Decode_End \<Rightarrow> (None, 0) | Decode_At q k v l \<Rightarrow> (Some v, l))"

definition decoded_key :: "coap_decode \<Rightarrow> u32" where
  "decoded_key d = (case d of Decode_End \<Rightarrow> COAP_OPTION_INVALID | Decode_At q k v l \<Rightarrow> the k)"

definition decoded_next :: "coap_decode \<Rightarrow> nat option" where
  "decoded_next d = (case d of Decode_End \<Rightarrow> None | Decode_At q k v l \<Rightarrow> Some q)"

text \<open>The condition of both scanners: there is another option before the end of the packet.\<close>

definition more_options :: "smcp_s \<Rightarrow> bool option" where
  "more_options self = do {
     packet \<leftarrow> in_packet (inbound self);
     this \<leftarrow> this_option (inbound self);
     if this < unat (packet_len (inbound self)) then do {
       b \<leftarrow> mem_read packet this;
       Some (b \<noteq> 0xFF)
     }
     else Some False
   }"

definition smcp_inbound_next_option :: "smcp_s \<Rightarrow> (scanned \<times> smcp_s) option" where
  "smcp_inbound_next_option self = do {
     more \<leftarrow> more_options self;
     if more then do {
       packet \<leftarrow> in_packet (inbound self);
       this \<leftarrow> this_option (inbound self);
       d \<leftarrow> coap_decode_option packet this (Some (in_last_option_key (inbound self)));
       Some ((decoded_key d, Some (decoded_value d)),
         set_inbound (\<lambda>i. i\<lparr>this_option := decoded_next d, in_last_option_key := decoded_key d\<rparr>) self)
     }
     else Some ((COAP_OPTION_INVALID, None), set_inbound (\<lambda>i. i\<lparr>in_last_option_key := COAP_OPTION_INVALID\<rparr>) self)
   }"

definition smcp_inbound_peek_option :: "smcp_s \<Rightarrow> scanned option" where
  "smcp_inbound_peek_option self =
     (if in_last_option_key (inbound self) = COAP_OPTION_INVALID then Some (COAP_OPTION_INVALID, None)
      else do {
        more \<leftarrow> more_options self;
        if more then do {
          packet \<leftarrow> in_packet (inbound self);
          this \<leftarrow> this_option (inbound self);
          d \<leftarrow> coap_decode_option packet this (Some (in_last_option_key (inbound self)));
          Some (decoded_key d, Some (decoded_value d))
        }
        else Some (COAP_OPTION_INVALID, None)
      })"

definition smcp_inbound_option_strequal :: "smcp_s \<Rightarrow> u32 \<Rightarrow> u8 list \<Rightarrow> bool option" where
  "smcp_inbound_option_strequal self key cstr =
     (case this_option (inbound self) of
        None \<Rightarrow> Some False
      | Some this \<Rightarrow> do {
          packet \<leftarrow> in_packet (inbound self);
          d \<leftarrow> coap_decode_option packet this (Some (in_last_option_key (inbound self)));
          if decoded_key d \<noteq> key then Some False
          else case decoded_value d of
                 (None, _) \<Rightarrow> Some (cstr = [])
               | (Some v, l) \<Rightarrow> cstr_prefix_loop packet v (unat l) cstr
        })"

definition htonl :: "u32 \<Rightarrow> u32" where
  "htonl x = push_bit 24 x OR (push_bit 8 x AND 0xFF0000) OR (drop_bit 8 x AND 0xFF00) OR drop_bit 24 x"

text \<open>The port of an address as the 16-bit number that lies in memory.\<close>

definition port_word :: "sockaddr \<Rightarrow> u16" where
  "port_word s = ucast (smcp_port s ! 0) + push_bit 8 (ucast (smcp_port s ! 1))"

definition smcp_inbound_origin_is_local :: "u16 \<Rightarrow> smcp_s \<Rightarrow> bool" where
  "smcp_inbound_origin_is_local port self \<longleftrightarrow>
     (let saddr = smcp_inbound_get_srcaddr self in
      if htonl (ucast port) \<noteq> ucast (port_word saddr) then False
      else SMCP_IS_ADDR_LOOPBACK (smcp_addr saddr))"

text \<open>Every option that the scanner returns takes it closer to the end of the packet.\<close>

definition scan_left :: "smcp_s \<Rightarrow> nat" where
  "scan_left self =
     (case this_option (inbound self) of None \<Rightarrow> 0 | Some p \<Rightarrow> unat (packet_len (inbound self)) - p)"

lemma next_option_progress:
  "smcp_inbound_next_option self = Some ((key, v), self') \<Longrightarrow> key \<noteq> COAP_OPTION_INVALID \<Longrightarrow>
   scan_left self' < scan_left self"
  by (auto simp: smcp_inbound_next_option_def more_options_def scan_left_def decoded_next_def decoded_key_def
      dest!: coap_decode_option_progress split: Option.bind_splits if_splits coap_decode.splits)

section \<open>The path of a request\<close>

definition byte_chars :: "u8 list \<Rightarrow> string" where
  "byte_chars bs = map (\<lambda>b. char_of (unat b)) bs"

definition SMCP_MAX_URI_LENGTH :: nat where "SMCP_MAX_URI_LENGTH = 1024"

definition SMCP_GET_PATH_REMAINING :: nat where "SMCP_GET_PATH_REMAINING = 0"
definition SMCP_GET_PATH_LEADING_SLASH :: nat where "SMCP_GET_PATH_LEADING_SLASH = 1"
definition SMCP_GET_PATH_INCLUDE_QUERY :: nat where "SMCP_GET_PATH_INCLUDE_QUERY = 2"

text \<open>
  \<^verbatim>\<open>url_encode_cstr(iter, str, SMCP_MAX_URI_LENGTH-(iter-where))\<close>: the string lies in another
  allocation, in front of the destination buffer in the combined memory. The difference is
  converted to \<^verbatim>\<open>size_t\<close>.
\<close>

definition encode_to :: "string \<Rightarrow> nat \<Rightarrow> string \<Rightarrow> (string \<times> nat) option" where
  "encode_to where iter str = do {
     let src = str @ [NUL];
     let max = nat ((int SMCP_MAX_URI_LENGTH - int iter) mod 2 ^ 64);
     (mem, n) \<leftarrow> url_encode_cstr (src @ where) (length src + iter) 0 max;
     Some (drop (length src) mem, iter + n)
   }"

text \<open>The value of an option as a string, cut at its first zero, and its two halves around \<^verbatim>\<open>=\<close>.\<close>

definition option_cstr :: "smcp_s \<Rightarrow> (nat option \<times> u16) option \<Rightarrow> string option" where
  "option_cstr self v = do {
     packet \<leftarrow> in_packet (inbound self);
     (p, l) \<leftarrow> v;
     p \<leftarrow> p;
     mem_read packet (p + unat l);
     bs \<leftarrow> mem_read_n packet p (unat l);
     Some (takeWhile (\<lambda>c. c \<noteq> NUL) (byte_chars bs))
   }"

function skip_to_option :: "u32 \<Rightarrow> smcp_s \<Rightarrow> (u32 \<times> smcp_s) option" where
  "skip_to_option key self =
     (case smcp_inbound_peek_option self of
        None \<Rightarrow> None
      | Some (k, _) \<Rightarrow>
          if k \<noteq> key \<and> k \<noteq> COAP_OPTION_INVALID
          then (case smcp_inbound_next_option self of
                  None \<Rightarrow> None
                | Some ((k', _), self') \<Rightarrow> if k' = COAP_OPTION_INVALID then Some (k', self') else skip_to_option key self')
          else Some (k, self))"
  by pat_completeness auto
termination
  by (relation "measure (scan_left \<circ> snd)") (auto dest: next_option_progress)

declare skip_to_option.simps [simp del]

function path_segments :: "bool \<Rightarrow> string \<Rightarrow> nat \<Rightarrow> smcp_s \<Rightarrow> (string \<times> nat \<times> smcp_s) option" where
  "path_segments leading where iter self =
     (case smcp_inbound_next_option self of
        None \<Rightarrow> None
      | Some ((key, v), self') \<Rightarrow>
          if key \<noteq> COAP_OPTION_URI_PATH then Some (where, iter, self')
          else do {
            filename \<leftarrow> option_cstr self' v;
            (where, iter) \<leftarrow>
              (if iter \<noteq> 0 \<or> leading
               then map_option (\<lambda>w. (w, iter + 1)) (mem_write where iter (CHR ''/''))
               else Some (where, iter));
            (where, iter) \<leftarrow> encode_to where iter filename;
            path_segments leading where iter self'
          })"
  by pat_completeness auto
termination
  by (relation "measure (\<lambda>(_, _, _, self). scan_left self)")
    (auto simp: option_keys dest: next_option_progress)

declare path_segments.simps [simp del]

function query_segments :: "string \<Rightarrow> nat \<Rightarrow> smcp_s \<Rightarrow> (string \<times> nat \<times> smcp_s) option" where
  "query_segments where iter self =
     (case smcp_inbound_next_option self of
        None \<Rightarrow> None
      | Some ((key, v), self') \<Rightarrow>
          if key \<noteq> COAP_OPTION_URI_QUERY then Some (where, iter, self')
          else do {
            filename \<leftarrow> option_cstr self' v;
            last \<leftarrow> mem_read where (iter - 1);
            (where, iter) \<leftarrow>
              (if last \<noteq> CHR ''?''
               then map_option (\<lambda>w. (w, iter + 1)) (mem_write where iter (CHR '';''))
               else Some (where, iter));
            let name = takeWhile (\<lambda>c. c \<noteq> CHR ''='') filename;
            (where, iter) \<leftarrow> encode_to where iter name;
            (where, iter) \<leftarrow>
              (if length name < length filename then do {
                 where \<leftarrow> mem_write where iter (CHR ''='');
                 encode_to where (iter + 1) (drop (length name + 1) filename)
               }
               else Some (where, iter));
            query_segments where iter self'
          })"
  by pat_completeness auto
termination
  by (relation "measure (\<lambda>(_, _, self). scan_left self)")
    (auto simp: option_keys dest: next_option_progress)

declare query_segments.simps [simp del]

definition smcp_inbound_get_path :: "string \<Rightarrow> u8 \<Rightarrow> smcp_s \<Rightarrow> string option" where
  "smcp_inbound_get_path where path_flags self = do {
     self \<leftarrow> (if bit path_flags SMCP_GET_PATH_REMAINING then Some self else smcp_inbound_reset_next_option self);
     (_, self) \<leftarrow> skip_to_option COAP_OPTION_URI_PATH self;
     (where, iter, self) \<leftarrow> path_segments (bit path_flags SMCP_GET_PATH_LEADING_SLASH) where 0 self;
     (where, iter) \<leftarrow>
       (if bit path_flags SMCP_GET_PATH_INCLUDE_QUERY then do {
          self \<leftarrow> smcp_inbound_reset_next_option self;
          (key, self) \<leftarrow> skip_to_option COAP_OPTION_URI_QUERY self;
          if key = COAP_OPTION_URI_QUERY then do {
            where \<leftarrow> mem_write where iter (CHR ''?'');
            (where, iter, _) \<leftarrow> query_segments where (iter + 1) self;
            Some (where, iter)
          }
          else Some (where, iter)
        }
        else Some (where, iter));
     mem_write where iter NUL
   }"

end
