(* ===== verification/Url_Parse.thy ===== *)
theory Url_Parse
  imports Url_Encode
begin

text \<open>
  The URL splitter of \<^verbatim>\<open>src/smcp/url-helpers.c\<close>: \<^verbatim>\<open>url_parse\<close> cuts a URL in memory into
  zero-terminated components and sets the pointers of \<^verbatim>\<open>struct url_components_s\<close>; the predicates
  \<^verbatim>\<open>url_is_absolute\<close>, \<^verbatim>\<open>url_is_root\<close> and \<^verbatim>\<open>string_contains_colons\<close> only read. The property is that
  parsing inverts the assembly of a URL from its parts.
\<close>

section \<open>Predicates on URLs\<close>

function skip_while :: "(char \<Rightarrow> bool) \<Rightarrow> string \<Rightarrow> nat \<Rightarrow> nat option" where
  "skip_while P mem p = do {
     c \<leftarrow> mem_read mem p;
     if P c then skip_while P mem (p + 1) else Some p
   }"
  by pat_completeness auto
termination
  by (relation "measure (\<lambda>(P, mem, p). length mem - p)") (auto simp: mem_read_Some)

declare skip_while.simps [simp del]

definition url_is_absolute :: "string \<Rightarrow> nat \<Rightarrow> bool option" where
  "url_is_absolute mem uri = do {
     p \<leftarrow> skip_while (\<lambda>c. c \<noteq> NUL \<and> (isalpha c \<or> c = CHR ''-'') \<and> c \<noteq> CHR '':'') mem uri;
     c \<leftarrow> mem_read mem p;
     Some (p \<noteq> uri \<and> c = CHR '':'')
   }"

text \<open>The slashes at the end of \<^verbatim>\<open>url_is_root\<close>: a run of slashes counts as one.\<close>

function root_slashes :: "string \<Rightarrow> nat \<Rightarrow> bool option" where
  "root_slashes mem p = do {
     c \<leftarrow> mem_read mem p;
     if c = NUL then Some True
     else if c \<noteq> CHR ''/'' then Some False
     else do {
       d \<leftarrow> mem_read mem (p + 1);
       if d = CHR ''/'' then root_slashes mem (p + 1) else Some (d = NUL)
     }
   }"
  by pat_completeness auto
termination
  by (relation "measure (\<lambda>(mem, p). length mem - p)") (auto simp: mem_read_Some)

declare root_slashes.simps [simp del]

definition url_is_root :: "string \<Rightarrow> nat \<Rightarrow> bool option" where
  "url_is_root mem url = do {
     c \<leftarrow> mem_read mem url;
     if \<not> isalpha c then Some False
     else do {
       absolute \<leftarrow> url_is_absolute mem url;
       if absolute then do {
         p \<leftarrow> skip_while (\<lambda>c. c \<noteq> NUL \<and> isalpha c \<and> c \<noteq> CHR '':'') mem url;
         c0 \<leftarrow> mem_read mem p;
         if c0 \<noteq> CHR '':'' then Some False
         else do {
           c1 \<leftarrow> mem_read mem (p + 1);
           if c1 \<noteq> CHR ''/'' then Some False
           else do {
             c2 \<leftarrow> mem_read mem (p + 2);
             if c2 \<noteq> CHR ''/'' then Some False
             else do {
               p \<leftarrow> skip_while (\<lambda>c. c \<noteq> NUL \<and> c \<noteq> CHR ''/'') mem (p + 3);
               root_slashes mem p
             }
           }
         }
       }
       else root_slashes mem url
     }
   }"

definition string_contains_colons :: "string \<Rightarrow> nat option \<Rightarrow> bool option" where
  "string_contains_colons mem str =
     (case str of
        None \<Rightarrow> Some False
      | Some s \<Rightarrow> do {
          p \<leftarrow> skip_while (\<lambda>c. c \<noteq> CHR '':'' \<and> c \<noteq> NUL) mem s;
          c \<leftarrow> mem_read mem p;
          Some (c = CHR '':'')
        })"

section \<open>Parsing\<close>

record url_components_s =
  uc_protocol :: "nat option"
  uc_username :: "nat option"
  uc_password :: "nat option"
  uc_host :: "nat option"
  uc_port :: "nat option"
  uc_path :: "nat option"
  uc_query :: "nat option"

definition no_components :: url_components_s where
  "no_components = \<lparr>uc_protocol = None, uc_username = None, uc_password = None, uc_host = None,
     uc_port = None, uc_path = None, uc_query = None\<rparr>"

definition isaddrchar :: "char \<Rightarrow> bool" where
  "isaddrchar c \<longleftrightarrow> c \<noteq> CHR ''/'' \<and> (isurlchar c \<or> c \<in> set ''[]:%@'')"

definition ispathchar :: "char \<Rightarrow> bool" where
  "ispathchar c \<longleftrightarrow> c \<noteq> CHR ''#'' \<and> c \<noteq> CHR ''?'' \<and> (isurlchar c \<or> c \<in> set ''[]:/=&%'')"

definition isquerychar :: "char \<Rightarrow> bool" where
  "isquerychar c \<longleftrightarrow> c \<noteq> CHR ''#'' \<and> (isurlchar c \<or> c \<in> set ''[]:/=&%;'')"

text \<open>
  The loops that walk back over the authority. The position is \<^verbatim>\<open>addr_end + 1\<close>; the first loop
  stops behind an at sign or an opening bracket, or at \<^verbatim>\<open>addr_begin\<close>. The character in front of
  \<^verbatim>\<open>addr_begin\<close> is the second slash.
\<close>

fun host_loop :: "string \<Rightarrow> nat \<Rightarrow> nat \<Rightarrow> bool \<Rightarrow> url_components_s \<Rightarrow>
    (string \<times> nat \<times> url_components_s) option" where
  "host_loop mem addr_begin p got_port components =
     (if p \<le> addr_begin then Some (mem, p, components)
      else do {
        c \<leftarrow> mem_read mem (p - 1);
        if c = CHR ''@'' \<or> c = CHR ''['' then Some (mem, p, components)
        else if c = CHR '']'' then do {
          mem \<leftarrow> mem_write mem (p - 1) NUL;
          host_loop mem addr_begin (p - 1) True components
        }
        else if \<not> got_port \<and> c = CHR '':'' then do {
          mem \<leftarrow> mem_write mem (p - 1) NUL;
          host_loop mem addr_begin (p - 1) True (components\<lparr>uc_port := Some p\<rparr>)
        }
        else host_loop mem addr_begin (p - 1) got_port components
      })"

declare host_loop.simps [simp del]

fun user_loop :: "string \<Rightarrow> nat \<Rightarrow> nat \<Rightarrow> url_components_s \<Rightarrow>
    (string \<times> nat \<times> url_components_s) option" where
  "user_loop mem addr_begin p components =
     (if p \<le> addr_begin then Some (mem, p, components)
      else do {
        c \<leftarrow> mem_read mem (p - 1);
        if c = CHR ''/'' then Some (mem, p, components)
        else if c = CHR '':'' then do {
          mem \<leftarrow> mem_write mem (p - 1) NUL;
          user_loop mem addr_begin (p - 1) (components\<lparr>uc_password := Some p\<rparr>)
        }
        else user_loop mem addr_begin (p - 1) components
      })"

declare user_loop.simps [simp del]

definition url_parse_authority ::
    "string \<Rightarrow> nat \<Rightarrow> url_components_s \<Rightarrow> (string \<times> nat \<times> url_components_s) option" where
  "url_parse_authority mem addr_begin components = do {
     uri \<leftarrow> skip_while isaddrchar mem addr_begin;
     c \<leftarrow> mem_read mem uri;
     let addr_end = uri;
     (mem, uri) \<leftarrow> (if c \<noteq> NUL then do { mem \<leftarrow> mem_write mem uri NUL; Some (mem, uri + 1) }
                   else Some (mem, uri));
     (mem, p, components) \<leftarrow> host_loop mem addr_begin addr_end False components;
     let components = components\<lparr>uc_host := Some p\<rparr>;
     c \<leftarrow> mem_read mem (p - 1);
     if c = CHR ''@'' then do {
       mem \<leftarrow> mem_write mem (p - 1) NUL;
       (mem, p, components) \<leftarrow> user_loop mem addr_begin p components;
       c \<leftarrow> mem_read mem (p - 1);
       Some (mem, uri, if c = CHR ''/'' then components\<lparr>uc_username := Some p\<rparr> else components)
     }
     else Some (mem, uri, components)
   }"

text \<open>
  The part from the label \<^verbatim>\<open>skip_absolute_url_stuff\<close> on. The counter \<^verbatim>\<open>bytes_parsed\<close> goes up
  with every step of the pointer, so it is the distance from the start, and one more when the
  last character is overwritten.
\<close>

definition url_parse_path ::
    "string \<Rightarrow> nat \<Rightarrow> nat \<Rightarrow> url_components_s \<Rightarrow> (string \<times> nat \<times> url_components_s) option" where
  "url_parse_path mem start uri components = do {
     let components = components\<lparr>uc_path := Some uri\<rparr>;
     uri \<leftarrow> skip_while ispathchar mem uri;
     c \<leftarrow> mem_read mem uri;
     (mem, uri, components) \<leftarrow>
       (if c = CHR ''?'' then do {
          mem \<leftarrow> mem_write mem uri NUL;
          let q = uri + 1;
          uri \<leftarrow> skip_while isquerychar mem q;
          Some (mem, uri, components\<lparr>uc_query := Some q\<rparr>)
        }
        else Some (mem, uri, components));
     c \<leftarrow> mem_read mem uri;
     if c \<noteq> NUL then do { mem \<leftarrow> mem_write mem uri NUL; Some (mem, uri - start + 1, components) }
     else Some (mem, uri - start, components)
   }"

definition url_parse ::
    "string \<Rightarrow> nat \<Rightarrow> url_components_s \<Rightarrow> (string \<times> nat \<times> url_components_s) option" where
  "url_parse mem start components = do {
     absolute \<leftarrow> url_is_absolute mem start;
     if \<not> absolute then url_parse_path mem start start components
     else do {
       let components = components\<lparr>uc_protocol := Some start\<rparr>;
       uri \<leftarrow> skip_while (\<lambda>c. c \<noteq> CHR '':'' \<and> c \<noteq> NUL) mem start;
       c \<leftarrow> mem_read mem uri;
       if c = NUL then Some (mem, uri - start, components)
       else do {
         mem \<leftarrow> mem_write mem uri NUL;
         let uri = uri + 1;
         c0 \<leftarrow> mem_read mem uri;
         if c0 = NUL then Some (mem, uri - start, components)
         else do {
           c1 \<leftarrow> (if c0 = CHR ''/'' then mem_read mem (uri + 1) else Some NUL);
           if c1 = CHR ''/'' then do {
             (mem, uri, components) \<leftarrow> url_parse_authority mem (uri + 2) components;
             url_parse_path mem start uri components
           }
           else url_parse_path mem start uri components
         }
       }
     }
   }"

section \<open>Assembling a URL\<close>

definition authority_text :: "bool \<Rightarrow> string \<Rightarrow> string option \<Rightarrow> string" where
  "authority_text bracket host port =
     (if bracket then ''['' @ host @ '']'' else host) @
     (case port of None \<Rightarrow> [] | Some n \<Rightarrow> CHR '':'' # n)"

definition url_text :: "string \<Rightarrow> bool \<Rightarrow> string \<Rightarrow> string option \<Rightarrow> string \<Rightarrow> string option \<Rightarrow> string" where
  "url_text scheme bracket host port path query =
     scheme @ ''://'' @ authority_text bracket host port @ ''/'' @ path @
     (case query of None \<Rightarrow> [] | Some q \<Rightarrow> CHR ''?'' # q)"

definition host_ok :: "bool \<Rightarrow> string \<Rightarrow> bool" where
  "host_ok bracket host \<longleftrightarrow>
     (\<forall>c \<in> set host. isaddrchar c \<and> c \<notin> set ''@[]'' \<and> (bracket \<or> c \<noteq> CHR '':''))"

definition url_parts_ok ::
    "string \<Rightarrow> bool \<Rightarrow> string \<Rightarrow> string option \<Rightarrow> string \<Rightarrow> string option \<Rightarrow> bool" where
  "url_parts_ok scheme bracket host port path query \<longleftrightarrow>
     scheme \<noteq> [] \<and> (\<forall>c \<in> set scheme. isalpha c \<or> c = CHR ''-'') \<and> host_ok bracket host \<and>
     (case port of None \<Rightarrow> True | Some n \<Rightarrow> host_ok False n) \<and> (\<forall>c \<in> set path. ispathchar c) \<and>
     (case query of None \<Rightarrow> True | Some q \<Rightarrow> \<forall>c \<in> set q. isquerychar c)"

lemma skip_while_spec:
  assumes "mem_holds mem p (s @ [c])" "\<forall>x \<in> set s. P x" "\<not> P c"
  shows "skip_while P mem p = Some (p + length s)"
  using assms by (induction s arbitrary: p) (auto simp: skip_while.simps)

lemma mem_holds_cong:
  assumes "\<And>i. p \<le> i \<Longrightarrow> i < p + length xs \<Longrightarrow> mem_read mem' i = mem_read mem i"
  shows "mem_holds mem' p xs = mem_holds mem p xs"
  using assms by (induction xs arbitrary: p) auto

lemma mem_read_update: "mem_read (mem[d := c]) i = (if i = d \<and> d < length mem then Some c else mem_read mem i)"
  by (auto simp: mem_read_def)

lemma host_loop_skip:
  assumes "mem_holds mem q s" "b \<le> q" "\<forall>c \<in> set s. c \<notin> set ''@[]'' \<and> (c = CHR '':'' \<longrightarrow> got_port)"
  shows "host_loop mem b (q + length s) got_port comps = host_loop mem b q got_port comps"
  using assms
proof (induction s rule: rev_induct)
  case (snoc c s)
  then show ?case
    by (auto simp: mem_holds_append host_loop.simps [of mem b "Suc (q + length s)"])
qed simp

lemma host_loop_begin: "host_loop mem b b got_port comps = Some (mem, b, comps)"
  by (simp add: host_loop.simps)

text \<open>The host with its brackets, when the loop stands behind it.\<close>

lemma host_loop_host:
  assumes "mem_holds mem b (if bracket then ''['' @ host @ '']'' else host)" "host_ok bracket host"
    and "0 < b"
  defines "e \<equiv> b + length (if bracket then ''['' @ host @ '']'' else host)"
    and "h \<equiv> (if bracket then b + 1 else b)"
  shows "host_loop mem b e got_port comps =
    Some (if bracket then mem[e - 1 := NUL] else mem, h, comps)"
proof (cases bracket)
  case False
  with assms show ?thesis
    using host_loop_skip [of mem b host b got_port comps] by (auto simp: host_ok_def host_loop_begin)
next
  case True
  then have e: "e = Suc (b + 1 + length host)" by (simp add: e_def)
  have rd: "mem_read mem (b + 1 + length host) = Some (CHR '']'')" "mem_read mem b = Some (CHR ''['')"
      "mem_holds mem (b + 1) host"
    using assms(1) True by (simp_all add: mem_holds_append)
  let ?m = "mem[e - 1 := NUL]"
  have wr: "mem_write mem (b + 1 + length host) NUL = Some ?m"
    using rd(1) by (simp add: e mem_write_def mem_read_Some)
  have "mem_holds ?m (b + 1) host" using rd(3) by (simp add: e mem_holds_write)
  then have "host_loop ?m b (b + 1 + length host) True comps = host_loop ?m b (b + 1) True comps"
    using assms(2) by (intro host_loop_skip) (auto simp: host_ok_def)
  also have "\<dots> = Some (?m, b + 1, comps)"
    using rd(2) by (subst host_loop.simps) (simp add: e mem_read_update)
  finally show ?thesis
    using True rd(1) wr by (subst host_loop.simps) (simp add: e h_def)
qed

text \<open>
  The walk over the authority, with or without a port: the port is cut off, then the host is
  treated as above.
\<close>

definition host_end :: "nat \<Rightarrow> bool \<Rightarrow> string \<Rightarrow> nat" where
  "host_end b bracket host = b + length (if bracket then ''['' @ host @ '']'' else host)"

definition cut_host :: "string \<Rightarrow> nat \<Rightarrow> bool \<Rightarrow> string \<Rightarrow> string option \<Rightarrow> string" where
  "cut_host mem b bracket host port =
     (let e = host_end b bracket host;
          m = (case port of None \<Rightarrow> mem | Some n \<Rightarrow> mem[e := NUL])
      in if bracket then m[e - 1 := NUL] else m)"

lemma host_loop_authority:
  assumes "mem_holds mem b (authority_text bracket host port)" "0 < b" "host_ok bracket host"
    and "\<And>n. port = Some n \<Longrightarrow> host_ok False n"
  shows "host_loop mem b (b + length (authority_text bracket host port)) False comps =
    Some (cut_host mem b bracket host port, if bracket then b + 1 else b,
      comps\<lparr>uc_port := (case port of None \<Rightarrow> uc_port comps | Some n \<Rightarrow> Some (host_end b bracket host + 1))\<rparr>)"
proof (cases port)
  case None
  then show ?thesis
    using host_loop_host [of mem b bracket host False comps] assms
    by (simp add: authority_text_def cut_host_def host_end_def)
next
  case (Some n)
  let ?e = "host_end b bracket host"
  let ?m = "mem[?e := NUL]"
  have h: "mem_holds mem b (if bracket then ''['' @ host @ '']'' else host)"
      "mem_read mem ?e = Some (CHR '':'')" "mem_holds mem (?e + 1) n"
    using assms(1) Some by (simp_all add: authority_text_def mem_holds_append host_end_def)
  have len: "b + length (authority_text bracket host port) = ?e + 1 + length n"
    by (simp add: Some authority_text_def host_end_def)
  have eb: "b \<le> ?e" by (simp add: host_end_def)
  have wr: "mem_write mem ?e NUL = Some ?m" using h(2) by (simp add: mem_write_def mem_read_Some)
  have "host_loop mem b (?e + 1 + length n) False comps = host_loop mem b (?e + 1) False comps"
    using h(3) assms(4) [OF Some] eb by (intro host_loop_skip) (auto simp: host_ok_def)
  also have "\<dots> = host_loop ?m b ?e True (comps\<lparr>uc_port := Some (?e + 1)\<rparr>)"
    using h(2) eb wr by (subst host_loop.simps) simp
  also have "mem_holds ?m b (if bracket then ''['' @ host @ '']'' else host)"
    using h(1) by (subst mem_holds_write) (auto simp: host_end_def)
  then have "host_loop ?m b ?e True (comps\<lparr>uc_port := Some (?e + 1)\<rparr>) =
      Some (if bracket then ?m[?e - 1 := NUL] else ?m, if bracket then b + 1 else b,
        comps\<lparr>uc_port := Some (?e + 1)\<rparr>)"
    using assms(3,2) unfolding host_end_def by (rule host_loop_host)
  finally show ?thesis by (simp only: len) (simp add: Some cut_host_def Let_def)
qed

lemma cut_host_frame:
  "i < b \<or> b + length (authority_text bracket host port) \<le> i \<Longrightarrow>
   mem_read (cut_host mem b bracket host port) i = mem_read mem i"
  by (auto simp: cut_host_def Let_def authority_text_def host_end_def mem_read_update
      split: option.splits)

lemma cut_host_strings:
  assumes "mem_holds mem b (authority_text bracket host port @ [NUL])"
  shows "mem_holds (cut_host mem b bracket host port) (if bracket then b + 1 else b) (host @ [NUL])"
    and "port = Some n \<Longrightarrow>
      mem_holds (cut_host mem b bracket host port) (host_end b bracket host + 1) (n @ [NUL])"
  using assms
  by (cases bracket; cases port;
      simp add: cut_host_def Let_def authority_text_def host_end_def mem_holds_append mem_holds_write
        mem_read_update mem_read_Some)+

lemma isaddrchar_delims:
  "isaddrchar (CHR ''['')" "isaddrchar (CHR '']'')" "isaddrchar (CHR '':'')" "\<not> isaddrchar (CHR ''/'')"
  by (simp_all add: isaddrchar_def)

lemma host_ok_addr: "host_ok bracket host \<Longrightarrow> \<forall>c \<in> set host. isaddrchar c"
  by (simp add: host_ok_def)

lemma url_parse_authority_spec:
  fixes bracket host port b
  defines "e \<equiv> b + length (authority_text bracket host port)"
  assumes H: "mem_holds mem b (authority_text bracket host port @ ''/'')"
    and b: "mem_read mem (b - 1) = Some (CHR ''/'')" "0 < b"
    and ok: "host_ok bracket host" "\<And>n. port = Some n \<Longrightarrow> host_ok False n"
  shows "\<exists>mem'. url_parse_authority mem b comps = Some (mem', e + 1,
        comps\<lparr>uc_port := (case port of None \<Rightarrow> uc_port comps | Some n \<Rightarrow> Some (host_end b bracket host + 1)),
              uc_host := Some (if bracket then b + 1 else b)\<rparr>) \<and>
      mem_holds mem' (if bracket then b + 1 else b) (host @ [NUL]) \<and>
      (\<forall>n. port = Some n \<longrightarrow> mem_holds mem' (host_end b bracket host + 1) (n @ [NUL])) \<and>
      (\<forall>i. i < b \<or> e < i \<longrightarrow> mem_read mem' i = mem_read mem i)"
proof -
  let ?t = "authority_text bracket host port"
  have chars: "\<forall>c \<in> set ?t. isaddrchar c"
    using host_ok_addr [OF ok(1)] host_ok_addr [OF ok(2)]
    by (auto simp: authority_text_def isaddrchar_delims split: option.splits)
  have skip: "skip_while isaddrchar mem b = Some e"
    using skip_while_spec [OF H, of isaddrchar] chars by (simp add: e_def isaddrchar_delims)
  have rd: "mem_read mem e = Some (CHR ''/'')" using H by (simp add: mem_holds_append e_def)
  define m where "m = mem[e := NUL]"
  have m: "mem_holds m b (?t @ [NUL])"
    using H rd by (simp add: m_def e_def mem_holds_append mem_holds_write mem_read_update mem_read_Some)
  define m' where "m' = cut_host m b bracket host port"
  have walk: "host_loop m b e False comps = Some (m', if bracket then b + 1 else b,
      comps\<lparr>uc_port := (case port of None \<Rightarrow> uc_port comps | Some n \<Rightarrow> Some (host_end b bracket host + 1))\<rparr>)"
    unfolding m'_def e_def using m b(2) ok by (intro host_loop_authority) (auto simp: mem_holds_append)
  have frame: "mem_read m' i = mem_read mem i" if "i < b \<or> e < i" for i
    using that by (auto simp: m'_def m_def cut_host_frame mem_read_update e_def)
  obtain c where c: "mem_read m' ((if bracket then b + 1 else b) - 1) = Some c" "c \<noteq> CHR ''@''"
  proof (cases bracket)
    case False
    with frame [of "b - 1"] b that show ?thesis by simp
  next
    case True
    have "mem_read m' b = mem_read mem b"
      using True by (auto simp: m'_def m_def cut_host_def host_end_def Let_def e_def authority_text_def
          mem_read_update split: option.splits)
    with True H that show ?thesis by (simp add: authority_text_def)
  qed
  have "mem_write mem e NUL = Some m" using rd by (simp add: mem_write_def mem_read_Some m_def)
  then have "url_parse_authority mem b comps = Some (m', e + 1,
      comps\<lparr>uc_port := (case port of None \<Rightarrow> uc_port comps | Some n \<Rightarrow> Some (host_end b bracket host + 1)),
            uc_host := Some (if bracket then b + 1 else b)\<rparr>)"
    using c by (simp add: url_parse_authority_def Let_def skip rd walk split del: if_split)
  then show ?thesis
    using frame cut_host_strings [OF m, folded m'_def] by blast
qed

lemma pathchar_delims:
  "\<not> ispathchar NUL" "\<not> ispathchar (CHR ''?'')" "\<not> isquerychar NUL"
  by (simp_all add: ispathchar_def isquerychar_def isurlchar_def isalnum_def isalpha_def isupper_def
      islower_def isdigit_def char_code_def)

definition query_text :: "string option \<Rightarrow> string" where
  "query_text query = (case query of None \<Rightarrow> [] | Some q \<Rightarrow> CHR ''?'' # q)"

lemma url_parse_path_spec:
  assumes H: "mem_holds mem u (path @ query_text query @ [NUL])" and u: "start \<le> u"
    and ok: "\<forall>c \<in> set path. ispathchar c" "\<And>q. query = Some q \<Longrightarrow> \<forall>c \<in> set q. isquerychar c"
  shows "\<exists>mem'. url_parse_path mem start u comps =
      Some (mem', u + length (path @ query_text query) - start,
        comps\<lparr>uc_path := Some u,
              uc_query := (case query of None \<Rightarrow> uc_query comps | Some q \<Rightarrow> Some (u + length path + 1))\<rparr>) \<and>
    mem_holds mem' u (path @ [NUL]) \<and>
    (\<forall>q. query = Some q \<longrightarrow> mem_holds mem' (u + length path + 1) (q @ [NUL])) \<and>
    (\<forall>i < u. mem_read mem' i = mem_read mem i)"
proof (cases query)
  case None
  then have h: "mem_holds mem u (path @ [NUL])" using H by (simp add: query_text_def)
  then have "mem_read mem (u + length path) = Some NUL" by (simp add: mem_holds_append)
  with h None skip_while_spec [OF h ok(1)] show ?thesis
    by (auto simp: url_parse_path_def query_text_def pathchar_delims Let_def)
next
  case (Some q)
  let ?e = "u + length path"
  have h: "mem_holds mem u (path @ ''?'')" "mem_holds mem (?e + 1) (q @ [NUL])"
    using H Some by (simp_all add: query_text_def mem_holds_append)
  have skip: "skip_while ispathchar mem u = Some ?e"
    using skip_while_spec [OF h(1) ok(1)] by (simp add: pathchar_delims)
  have rd: "mem_read mem ?e = Some (CHR ''?'')" using h(1) by (simp add: mem_holds_append)
  define m where "m = mem[?e := NUL]"
  have wr: "mem_write mem ?e NUL = Some m" using rd by (simp add: mem_write_def mem_read_Some m_def)
  have m: "mem_holds m (?e + 1) (q @ [NUL])" "mem_holds m u (path @ [NUL])"
    using h rd by (simp_all add: m_def mem_holds_append mem_holds_write mem_read_update mem_read_Some)
  have skip2: "skip_while isquerychar m (?e + 1) = Some (?e + 1 + length q)"
    using skip_while_spec [OF m(1) ok(2) [OF Some]] by (simp add: pathchar_delims)
  have "mem_read m (?e + 1 + length q) = Some NUL" using m(1) by (simp add: mem_holds_append)
  then have "url_parse_path mem start u comps = Some (m, u + length (path @ query_text query) - start,
      comps\<lparr>uc_path := Some u, uc_query := Some (?e + 1)\<rparr>)"
    using skip rd wr skip2 Some by (simp add: url_parse_path_def query_text_def Let_def)
  moreover have "\<forall>i < u. mem_read m i = mem_read mem i" by (simp add: m_def mem_read_update)
  ultimately show ?thesis using m Some by auto
qed

lemma scheme_char: "isalpha c \<or> c = CHR ''-'' \<Longrightarrow> c \<noteq> NUL \<and> c \<noteq> CHR '':''"
  by (auto simp: isalpha_def isupper_def islower_def char_code_def)

text \<open>The scheme is cut off and the authority follows.\<close>

lemma url_parse_scheme:
  fixes scheme :: string
  defines "n \<equiv> length scheme"
  assumes H: "mem_holds mem p (scheme @ ''://'')"
    and ok: "scheme \<noteq> []" "\<forall>c \<in> set scheme. isalpha c \<or> c = CHR ''-''"
  shows "url_parse mem p comps = do {
     (mem, uri, components) \<leftarrow> url_parse_authority (mem[p + n := NUL]) (p + n + 3)
        (comps\<lparr>uc_protocol := Some p\<rparr>);
     url_parse_path mem p uri components
   }"
proof -
  have h: "mem_holds mem p (scheme @ '':'')" "mem_read mem (p + n + 1) = Some (CHR ''/'')"
      "mem_read mem (p + n + 2) = Some (CHR ''/'')"
    using H by (simp_all add: mem_holds_append n_def numeral_eq_Suc)
  have at: "mem_read mem (p + n) = Some (CHR '':'')" using h(1) by (simp add: mem_holds_append n_def)
  have abs: "url_is_absolute mem p = Some True"
    using skip_while_spec [OF h(1), of "\<lambda>c. c \<noteq> NUL \<and> (isalpha c \<or> c = CHR ''-'') \<and> c \<noteq> CHR '':''"]
      ok scheme_char at by (auto simp: url_is_absolute_def n_def)
  have skip: "skip_while (\<lambda>c. c \<noteq> CHR '':'' \<and> c \<noteq> NUL) mem p = Some (p + n)"
    using skip_while_spec [OF h(1), of "\<lambda>c. c \<noteq> CHR '':'' \<and> c \<noteq> NUL"] ok(2) scheme_char
    by (auto simp: n_def)
  have wr: "mem_write mem (p + n) NUL = Some (mem[p + n := NUL])"
    using at by (simp add: mem_write_def mem_read_Some)
  have "mem_read (mem[p + n := NUL]) (p + n + 1) = Some (CHR ''/'')"
      "mem_read (mem[p + n := NUL]) (p + n + 1 + 1) = Some (CHR ''/'')"
    using h(2,3) by (simp_all add: mem_read_update)
  then show ?thesis
    unfolding url_parse_def Let_def abs
    by (simp add: skip at wr numeral_3_eq_3)
qed

text \<open>The whole URL.\<close>

lemma url_parse_parts:
  fixes scheme bracket host port path query p
  defines "b \<equiv> p + length scheme + 3"
  defines "u \<equiv> b + length (authority_text bracket host port) + 1"
    and "h \<equiv> (if bracket then b + 1 else b)"
  assumes H: "mem_holds mem p (url_text scheme bracket host port path query @ [NUL])"
    and ok: "url_parts_ok scheme bracket host port path query"
  shows "\<exists>mem'. url_parse mem p comps =
      Some (mem', length (url_text scheme bracket host port path query),
        comps\<lparr>uc_protocol := Some p, uc_host := Some h,
         uc_port := (case port of None \<Rightarrow> uc_port comps | Some n \<Rightarrow> Some (host_end b bracket host + 1)), uc_path := Some u,
         uc_query := (case query of None \<Rightarrow> uc_query comps | Some q \<Rightarrow> Some (u + length path + 1))\<rparr>) \<and>
    mem_holds mem' p (scheme @ [NUL]) \<and> mem_holds mem' h (host @ [NUL]) \<and>
    (\<forall>n. port = Some n \<longrightarrow> mem_holds mem' (host_end b bracket host + 1) (n @ [NUL])) \<and>
    mem_holds mem' u (path @ [NUL]) \<and>
    (\<forall>q. query = Some q \<longrightarrow> mem_holds mem' (u + length path + 1) (q @ [NUL]))"
proof -
  define c1 where "c1 = comps\<lparr>uc_protocol := Some p\<rparr>"
  define c2 where "c2 = c1\<lparr>uc_port := (case port of None \<Rightarrow> uc_port comps | Some n \<Rightarrow> Some (host_end b bracket host + 1)), uc_host := Some h\<rparr>"
  define m1 where "m1 = mem[p + length scheme := NUL]"
  have sch: "scheme \<noteq> []" "\<forall>c \<in> set scheme. isalpha c \<or> c = CHR ''-''"
    and ho: "host_ok bracket host" "\<And>n. port = Some n \<Longrightarrow> host_ok False n"
    and pq: "\<forall>c \<in> set path. ispathchar c" "\<And>q. query = Some q \<Longrightarrow> \<forall>c \<in> set q. isquerychar c"
    using ok by (auto simp: url_parts_ok_def)
  have h: "mem_holds mem p (scheme @ ''://'')" "mem_read mem (b - 1) = Some (CHR ''/'')"
      "mem_holds mem b (authority_text bracket host port @ ''/'')"
      "mem_holds mem u (path @ query_text query @ [NUL])"
    using H by (simp_all add: url_text_def b_def u_def mem_holds_append query_text_def add_ac
        numeral_eq_Suc)
  have fr1: "mem_read m1 i = mem_read mem i" if "p + length scheme < i" for i
    using that by (simp add: m1_def mem_read_update)
  have h1: "mem_holds m1 p (scheme @ [NUL])" "mem_holds m1 b (authority_text bracket host port @ ''/'')"
    using h(1,3) by (auto simp: m1_def b_def mem_holds_append mem_holds_write mem_read_update mem_read_Some)
  have "mem_read m1 (b - 1) = Some (CHR ''/'')" "0 < b"
    using h(2) fr1 [of "b - 1"] by (simp_all add: b_def)
  from url_parse_authority_spec [OF h1(2) this ho, of c1]
  obtain m2 where m2: "url_parse_authority m1 b c1 = Some (m2, u, c2)" "mem_holds m2 h (host @ [NUL])"
      "\<forall>n. port = Some n \<longrightarrow> mem_holds m2 (host_end b bracket host + 1) (n @ [NUL])"
      "\<forall>i. i < b \<or> u \<le> i \<longrightarrow> mem_read m2 i = mem_read m1 i"
    by (auto simp: u_def h_def c2_def c1_def Suc_le_eq split: option.splits)
  have "mem_holds m2 u (path @ query_text query @ [NUL])"
    using h(4) m2(4) fr1 by (subst mem_holds_cong [of _ _ _ mem]) (auto simp: u_def b_def)
  moreover have "p \<le> u" by (simp add: u_def b_def)
  ultimately obtain m3 where "url_parse_path m2 p u c2 = Some (m3, u + length (path @ query_text query) - p,
        c2\<lparr>uc_path := Some u,
           uc_query := (case query of None \<Rightarrow> uc_query c2 | Some q \<Rightarrow> Some (u + length path + 1))\<rparr>)"
      "mem_holds m3 u (path @ [NUL])"
      "\<forall>q. query = Some q \<longrightarrow> mem_holds m3 (u + length path + 1) (q @ [NUL])"
      "\<forall>i < u. mem_read m3 i = mem_read m2 i"
    using url_parse_path_spec [of m2 u path query p c2, OF _ _ pq] by blast
  then
  obtain m3 where m3: "url_parse_path m2 p u c2 = Some (m3, u + length (path @ query_text query) - p,
        c2\<lparr>uc_path := Some u, uc_query := (case query of None \<Rightarrow> uc_query comps | Some q \<Rightarrow> Some (u + length path + 1))\<rparr>)"
      "mem_holds m3 u (path @ [NUL])"
      "\<forall>q. query = Some q \<longrightarrow> mem_holds m3 (u + length path + 1) (q @ [NUL])"
      "\<forall>i < u. mem_read m3 i = mem_read m2 i"
    by (auto simp: c2_def c1_def split: option.splits)
  have fr3: "mem_holds m3 q xs" if "mem_holds m2 q xs" "q + length xs \<le> u" for q xs
    using that m3(4) by (subst mem_holds_cong [of _ _ _ m2]) auto
  have "mem_holds m3 p (scheme @ [NUL])"
    using h1(1) m2(4) m3(4) by (subst mem_holds_cong [of _ _ _ m1]) (auto simp: u_def b_def)
  moreover have "mem_holds m3 h (host @ [NUL])"
    using m2(2) by (rule fr3) (auto simp: h_def u_def authority_text_def)
  moreover have "\<forall>n. port = Some n \<longrightarrow> mem_holds m3 (host_end b bracket host + 1) (n @ [NUL])"
    using m2(3) by (auto intro!: fr3 simp: u_def authority_text_def host_end_def)
  moreover have "url_parse mem p comps = Some (m3, u + length (path @ query_text query) - p,
      c2\<lparr>uc_path := Some u, uc_query := (case query of None \<Rightarrow> uc_query comps | Some q \<Rightarrow> Some (u + length path + 1))\<rparr>)"
    using url_parse_scheme [OF h(1) sch, of comps] m2(1) m3(1)
    by (simp add: b_def m1_def c1_def)
  moreover have "u + length (path @ query_text query) - p = length (url_text scheme bracket host port path query)"
    by (simp add: u_def b_def url_text_def query_text_def)
  ultimately show ?thesis
    using m3(2,3) by (auto simp: c2_def c1_def)
qed

section \<open>Properties\<close>

text \<open>
  C33: \<^verbatim>\<open>url_parse\<close> inverts the assembly of a URL: on the text of a URL with a scheme, a host (with
  or without IPv6 brackets), an optional port, a path and an optional query, it consumes the
  whole text, sets exactly the pointers of the parts that are present, and each of them points to
  the zero-terminated text of its part.
\<close>

theorem url_parse_assembled:
  fixes scheme bracket host port path query p
  defines "b \<equiv> p + length scheme + 3"
  defines "u \<equiv> b + length (authority_text bracket host port) + 1"
    and "h \<equiv> (if bracket then b + 1 else b)"
  assumes H: "mem_holds mem p (url_text scheme bracket host port path query @ [NUL])"
    and ok: "url_parts_ok scheme bracket host port path query"
  shows "\<exists>mem'. url_parse mem p no_components =
      Some (mem', length (url_text scheme bracket host port path query),
        \<lparr>uc_protocol = Some p, uc_username = None, uc_password = None, uc_host = Some h,
         uc_port = map_option (\<lambda>_. host_end b bracket host + 1) port, uc_path = Some u,
         uc_query = map_option (\<lambda>_. u + length path + 1) query\<rparr>) \<and>
    mem_holds mem' p (scheme @ [NUL]) \<and> mem_holds mem' h (host @ [NUL]) \<and>
    (\<forall>n. port = Some n \<longrightarrow> mem_holds mem' (host_end b bracket host + 1) (n @ [NUL])) \<and>
    mem_holds mem' u (path @ [NUL]) \<and>
    (\<forall>q. query = Some q \<longrightarrow> mem_holds mem' (u + length path + 1) (q @ [NUL]))"
  unfolding b_def u_def h_def using url_parse_parts [OF H ok, of no_components]
  by (cases port; cases query) (simp_all add: no_components_def)

lemma url_parse_assembled_witness:
  "\<exists>mem'. url_parse (''coap://[::1]:56/a?b'' @ [NUL]) 0 no_components =
      Some (mem', 19, \<lparr>uc_protocol = Some 0, uc_username = None, uc_password = None,
        uc_host = Some 8, uc_port = Some 13, uc_path = Some 16, uc_query = Some 18\<rparr>) \<and>
    mem_holds mem' 8 (''::1'' @ [NUL])"
proof -
  let ?t = "url_text ''coap'' True ''::1'' (Some ''56'') ''a'' (Some ''b'')"
  have "mem_holds (?t @ [NUL]) 0 (?t @ [NUL])"
    using mem_holds_self [of "[]" "?t @ [NUL]" "[]"] by simp
  moreover have "url_parts_ok ''coap'' True ''::1'' (Some ''56'') ''a'' (Some ''b'')"
    by (simp add: url_parts_ok_def host_ok_def isaddrchar_def ispathchar_def isquerychar_def isurlchar_def
        isalnum_def isalpha_def isdigit_def isupper_def islower_def char_code_def)
  ultimately show ?thesis
    using url_parse_assembled [of "?t @ [NUL]" 0 "''coap''" True "''::1''" "Some ''56''" "''a''" "Some ''b''"]
    by (auto simp: url_text_def authority_text_def host_end_def)
qed

end
