(* ===== verification/Outbound.thy ===== *)
theory Outbound
  imports Inbound Url_Parse Coap_Insert
begin

text \<open>
  The outbound packet (\<^verbatim>\<open>src/smcp/smcp-outbound.c\<close>, with the functions of \<^verbatim>\<open>src/smcp/smcp-auth.c\<close> it
  calls and the send hook of \<^verbatim>\<open>src/smcp/smcp-plat-bsd.c\<close>). The packet is built in place: header, token,
  options in order of their numbers, the payload marker, the payload. \<^verbatim>\<open>content_ptr\<close> is the offset
  behind the marker.
\<close>

section \<open>Access to the packet under construction\<close>

definition out_bytes :: "smcp_s \<Rightarrow> u8 list option" where
  "out_bytes self = (if out_packet (outbound self) then Some (packet_bytes (outbound self)) else None)"

definition out_write :: "nat \<Rightarrow> u8 list \<Rightarrow> smcp_s \<Rightarrow> smcp_s option" where
  "out_write p bs self = do {
     mem \<leftarrow> out_bytes self;
     mem \<leftarrow> mem_write_n mem p bs;
     Some (set_outbound (\<lambda>out. out\<lparr>packet_bytes := mem\<rparr>) self)
   }"

text \<open>The bit fields of the first byte.\<close>

definition with_tt :: "u8 \<Rightarrow> u8 \<Rightarrow> u8" where "with_tt tt b = (b AND 0xCF) OR push_bit 4 (tt AND 3)"
definition with_version :: "u8 \<Rightarrow> u8 \<Rightarrow> u8" where "with_version v b = (b AND 0x3F) OR push_bit 6 v"
definition with_token_len :: "u8 \<Rightarrow> u8 \<Rightarrow> u8" where "with_token_len n b = (b AND 0xF0) OR (n AND 15)"

definition out_header :: "(u8 \<Rightarrow> u8) \<Rightarrow> smcp_s \<Rightarrow> smcp_s option" where
  "out_header f self = do {
     mem \<leftarrow> out_bytes self;
     b \<leftarrow> mem_read mem 0;
     out_write 0 [f b] self
   }"

definition out_token_len :: "smcp_s \<Rightarrow> nat option" where
  "out_token_len self = Option.bind (out_bytes self) packet_token_len"

definition out_code :: "smcp_s \<Rightarrow> u16 option" where
  "out_code self = Option.bind (out_bytes self) packet_code"

section \<open>Starting a packet\<close>

definition smcp_outbound_drop :: "smcp_s \<Rightarrow> smcp_s" where
  "smcp_outbound_drop self = self\<lparr>is_responding := False, did_respond := True\<rparr>"

definition smcp_outbound_reset :: "smcp_s \<Rightarrow> smcp_s" where
  "smcp_outbound_reset self = self\<lparr>outbound := zero_outbound, is_responding := False, did_respond := False\<rparr>"

abbreviation COAP_RESULT_100 :: u16 where "COAP_RESULT_100 \<equiv> 32"

text \<open>The token of the packet: that of the request, or that of the current transaction.\<close>

definition outbound_token :: "u16 \<Rightarrow> smcp_s \<Rightarrow> u8 list option" where
  "outbound_token code self = do {
     in_len \<leftarrow> (case in_packet (inbound self) of
                  None \<Rightarrow> Some 0
                | Some p \<Rightarrow> if is_processing_message self then packet_token_len p else Some 0);
     if in_len \<noteq> 0 \<and> code \<noteq> 0 then Option.bind (in_packet (inbound self)) (\<lambda>p. mem_read_n p 4 in_len)
     else if code \<noteq> 0 \<and> code < COAP_RESULT_100
     then (case current_transaction self of
             Some t \<Rightarrow> Some (msg_id_bytes (token (trans self t)))
           | None \<Rightarrow> Some [])
     else Some []
   }"

definition smcp_outbound_begin :: "u16 \<Rightarrow> u8 \<Rightarrow> smcp_s \<Rightarrow> (smcp_status_t \<times> smcp_s) option" where
  "smcp_outbound_begin code tt self = do {
     let self = set_outbound (\<lambda>out. out\<lparr>max_packet_len := SMCP_MAX_PACKET_LENGTH, out_packet := True,
                                    out_saddr := zero_sockaddr\<rparr>) self;
     self \<leftarrow> out_header (with_tt tt) self;
     self \<leftarrow> out_write 2 (msg_id_bytes (next_tid (outbound self))) self;
     self \<leftarrow> out_write 1 [ucast code] self;
     self \<leftarrow> out_header (with_version COAP_VERSION) self;
     token \<leftarrow> outbound_token code self;
     self \<leftarrow> out_header (with_token_len (word_of_nat (length token))) self;
     self \<leftarrow> out_write 4 token self;
     self \<leftarrow> out_write (4 + length token) [0xFF] self;
     let self = set_outbound (\<lambda>out. out\<lparr>out_last_option_key := 0, out_content_ptr := 4 + length token + 1,
                                    out_content_len := 0\<rparr>) self;
     Some (SMCP_STATUS_OK, self\<lparr>force_current_outbound_code := False, is_responding := False\<rparr>)
   }"

definition smcp_outbound_set_msg_id :: "u16 \<Rightarrow> smcp_s \<Rightarrow> (smcp_status_t \<times> smcp_s) option" where
  "smcp_outbound_set_msg_id tid self = map_option (Pair SMCP_STATUS_OK) (out_write 2 (msg_id_bytes tid) self)"

definition smcp_outbound_set_code :: "u16 \<Rightarrow> smcp_s \<Rightarrow> (smcp_status_t \<times> smcp_s) option" where
  "smcp_outbound_set_code code self =
     (if force_current_outbound_code self then Some (SMCP_STATUS_OK, self)
      else map_option (Pair SMCP_STATUS_OK) (out_write 1 [ucast code] self))"

text \<open>The length field holds four bits; the token is the list of its bytes.\<close>

definition smcp_outbound_set_token :: "u8 list \<Rightarrow> u8 \<Rightarrow> smcp_s \<Rightarrow> (smcp_status_t \<times> smcp_s) option" where
  "smcp_outbound_set_token tok token_length self =
     (if token_length > 8 then Some (SMCP_STATUS_INVALID_ARGUMENT, self)
      else do {
        old \<leftarrow> out_token_len self;
        self \<leftarrow>
          (if old \<noteq> unat token_length then do {
             self \<leftarrow> out_header (with_token_len token_length) self;
             let p = 4 + unat token_length;
             self \<leftarrow> out_write p [0xFF] self;
             Some (set_outbound (\<lambda>out. out\<lparr>out_content_ptr := p + 1, out_content_len := 0\<rparr>) self)
           }
           else Some self);
        self \<leftarrow>
          (if token_length \<noteq> 0
           then if unat token_length \<le> length tok then out_write 4 (take (unat token_length) tok) self else None
           else Some self);
        Some (SMCP_STATUS_OK, self)
      })"

definition smcp_outbound_set_destaddr :: "sockaddr \<Rightarrow> smcp_s \<Rightarrow> smcp_status_t \<times> smcp_s" where
  "smcp_outbound_set_destaddr sockaddr self =
     (let self = set_outbound (\<lambda>out. out\<lparr>out_saddr := sockaddr\<rparr>) self
      in (SMCP_STATUS_OK,
          case current_transaction self of
            None \<Rightarrow> self
          | Some t \<Rightarrow> set_trans t (\<lambda>tr. tr\<lparr>tr_saddr := sockaddr,
                          multicast := SMCP_IS_ADDR_MULTICAST (smcp_addr sockaddr)\<rparr>) self))"

definition smcp_outbound_begin_response :: "u16 \<Rightarrow> smcp_s \<Rightarrow> (smcp_status_t \<times> smcp_s) option" where
  "smcp_outbound_begin_response code self =
     (if did_respond self then Some (SMCP_STATUS_RESPONSE_NOT_ALLOWED, self\<lparr>is_responding := False\<rparr>)
      else if is_responding self then Some (SMCP_STATUS_OK, self)
      else do {
        self \<leftarrow> (if is_processing_message self then do {
                   tid \<leftarrow> smcp_inbound_get_msg_id self;
                   Some (set_outbound (\<lambda>out. out\<lparr>next_tid := tid\<rparr>) self)
                 }
                 else Some self);
        packet \<leftarrow> in_packet (inbound self);
        tt \<leftarrow> packet_tt packet;
        (_, self) \<leftarrow> smcp_outbound_begin code
          (if tt = COAP_TRANS_TYPE_NONCONFIRMABLE then COAP_TRANS_TYPE_NONCONFIRMABLE else COAP_TRANS_TYPE_ACK) self;
        let self = self\<lparr>is_responding := True\<rparr>;
        if is_processing_message self then do {
          tid \<leftarrow> smcp_inbound_get_msg_id self;
          (_, self) \<leftarrow> smcp_outbound_set_msg_id tid self;
          Some (smcp_outbound_set_destaddr (in_saddr (inbound self)) self)
        }
        else Some (SMCP_STATUS_OK, self)
      })"

section \<open>Options\<close>

definition smcp_outbound_get_space_remaining :: "smcp_s \<Rightarrow> u16" where
  "smcp_outbound_get_space_remaining self =
     (let len = word_of_nat (out_content_ptr (outbound self)) + out_content_len (outbound self)
      in if max_packet_len (outbound self) > len then max_packet_len (outbound self) - len else 0)"

definition SMCP_CSTR_LEN :: u16 where "SMCP_CSTR_LEN = - 1"

text \<open>\<^verbatim>\<open>strlen\<close>: there must be a zero in the allocation.\<close>

definition strlen :: "u8 list \<Rightarrow> nat option" where
  "strlen s = (if 0 \<in> set s then Some (length (takeWhile (\<lambda>b. b \<noteq> 0) s)) else None)"

definition actual_len :: "u8 list \<Rightarrow> u16 \<Rightarrow> u16 option" where
  "actual_len val len = (if len = SMCP_CSTR_LEN then map_option word_of_nat (strlen val) else Some len)"

definition smcp_outbound_add_option_1 :: "u32 \<Rightarrow> u8 list \<Rightarrow> u16 \<Rightarrow> smcp_s \<Rightarrow> (smcp_status_t \<times> smcp_s) option" where
  "smcp_outbound_add_option_1 key val len self = do {
     len \<leftarrow> actual_len val len;
     if unat (smcp_outbound_get_space_remaining self) < unat len + 8
     then Some (SMCP_STATUS_MESSAGE_TOO_BIG, self)
     else do {
       token_len \<leftarrow> out_token_len self;
       mem \<leftarrow> out_bytes self;
       let content_ptr = out_content_ptr (outbound self);
       let content_ptr = (if content_ptr \<noteq> 4 + token_len then content_ptr - 1 else content_ptr);
       (mem, n) \<leftarrow> coap_insert_option mem (4 + token_len) content_ptr key val len;
       let content_ptr = content_ptr + unat n;
       mem \<leftarrow> mem_write mem content_ptr 0xFF;
       Some (SMCP_STATUS_OK,
         set_outbound (\<lambda>out. out\<lparr>packet_bytes := mem, out_content_ptr := content_ptr + 1,
           out_last_option_key := (if key > out_last_option_key out then key else out_last_option_key out)\<rparr>) self)
     }
   }"

text \<open>The bytes of a number as they lie in memory on a little-endian machine.\<close>

definition u32_bytes :: "u32 \<Rightarrow> u8 list" where
  "u32_bytes x = [ucast x, ucast (drop_bit 8 x), ucast (drop_bit 16 x), ucast (drop_bit 24 x)]"

definition smcp_calc_uint32_option_size :: "u32 \<Rightarrow> nat" where
  "smcp_calc_uint32_option_size big_endian_value =
     (let b = u32_bytes big_endian_value
      in if b ! 0 \<noteq> 0 then 4 else if b ! 1 \<noteq> 0 then 3 else if b ! 2 \<noteq> 0 then 2
         else if b ! 3 \<noteq> 0 then 1 else 0)"

definition uint_option_value :: "u32 \<Rightarrow> u8 list" where
  "uint_option_value val =
     (let val = htonl val in drop (4 - smcp_calc_uint32_option_size val) (u32_bytes val))"

definition smcp_outbound_add_options_up_to_key :: "u32 \<Rightarrow> smcp_s \<Rightarrow> (smcp_status_t \<times> smcp_s) option" where
  "smcp_outbound_add_options_up_to_key key self = do {
     (ret, self) \<leftarrow>
       (case current_transaction self of
          Some t \<Rightarrow>
            if next_block2 (trans self t) \<noteq> 0 \<and> out_last_option_key (outbound self) < COAP_OPTION_BLOCK2 \<and>
               key > COAP_OPTION_BLOCK2
            then let val = uint_option_value (next_block2 (trans self t))
                 in smcp_outbound_add_option_1 COAP_OPTION_BLOCK2 val (word_of_nat (length val)) self
            else Some (SMCP_STATUS_OK, self)
        | None \<Rightarrow> Some (SMCP_STATUS_OK, self));
     case current_transaction self of
       Some t \<Rightarrow>
         if has_flag (flags (trans self t)) SMCP_TRANSACTION_OBSERVE \<and>
            out_last_option_key (outbound self) < COAP_OPTION_OBSERVE \<and> key > COAP_OPTION_OBSERVE
         then do {
           code \<leftarrow> out_code self;
           if code \<noteq> 0 \<and> code < COAP_RESULT_100
           then smcp_outbound_add_option_1 COAP_OPTION_OBSERVE [] 0 self
           else Some (ret, self)
         }
         else Some (ret, self)
     | None \<Rightarrow> Some (ret, self)
   }"

definition smcp_outbound_add_option :: "u32 \<Rightarrow> u8 list \<Rightarrow> u16 \<Rightarrow> smcp_s \<Rightarrow> (smcp_status_t \<times> smcp_s) option" where
  "smcp_outbound_add_option key val len self = do {
     (ret, self) \<leftarrow> smcp_outbound_add_options_up_to_key key self;
     if ret \<noteq> SMCP_STATUS_OK then Some (ret, self)
     else if key = COAP_OPTION_BLOCK2 \<and>
             (case current_transaction self of None \<Rightarrow> False | Some t \<Rightarrow> next_block2 (trans self t) \<noteq> 0)
     then Some (ret, self)
     else smcp_outbound_add_option_1 key val len self
   }"

definition smcp_outbound_add_option_uint :: "u32 \<Rightarrow> u32 \<Rightarrow> smcp_s \<Rightarrow> (smcp_status_t \<times> smcp_s) option" where
  "smcp_outbound_add_option_uint key val self =
     smcp_outbound_add_option key (uint_option_value val) (word_of_nat (length (uint_option_value val))) self"

section \<open>Content\<close>

definition smcp_outbound_get_content_ptr :: "smcp_s \<Rightarrow> (nat \<times> u16 \<times> smcp_s) option" where
  "smcp_outbound_get_content_ptr self = do {
     code \<leftarrow> out_code self;
     self \<leftarrow> (if code \<noteq> 0 then map_option snd (smcp_outbound_add_options_up_to_key COAP_OPTION_INVALID self)
              else Some self);
     Some (out_content_ptr (outbound self),
           smcp_outbound_get_space_remaining self + out_content_len (outbound self), self)
   }"

definition smcp_outbound_set_content_len :: "u16 \<Rightarrow> smcp_s \<Rightarrow> smcp_status_t \<times> smcp_s" where
  "smcp_outbound_set_content_len len self =
     (SMCP_STATUS_OK, set_outbound (\<lambda>out. out\<lparr>out_content_len := len\<rparr>) self)"

definition smcp_outbound_append_content :: "u8 list \<Rightarrow> u16 \<Rightarrow> smcp_s \<Rightarrow> (smcp_status_t \<times> smcp_s) option" where
  "smcp_outbound_append_content val len self = do {
     let max_len = smcp_outbound_get_space_remaining self;
     len \<leftarrow> actual_len val len;
     if max_len \<le> len then Some (SMCP_STATUS_MESSAGE_TOO_BIG, self)
     else do {
       (dest, _, self) \<leftarrow> smcp_outbound_get_content_ptr self;
       bs \<leftarrow> mem_read_n val 0 (unat len);
       self \<leftarrow> out_write (dest + unat (out_content_len (outbound self))) bs self;
       Some (SMCP_STATUS_OK, set_outbound (\<lambda>out. out\<lparr>out_content_len := out_content_len out + len\<rparr>) self)
     }
   }"

text \<open>
  \<^verbatim>\<open>smcp_outbound_set_content_formatted\<close>, given the text that the format and its arguments make.
  \<^verbatim>\<open>vsnprintf\<close> writes at most \<open>len - 1\<close> characters and a terminator, and returns the length of the
  whole text.
\<close>

definition vsnprintf_bytes :: "nat \<Rightarrow> u8 list \<Rightarrow> u8 list" where
  "vsnprintf_bytes len text = (if len = 0 then [] else take (len - 1) text @ [0])"

definition smcp_outbound_set_content_formatted :: "u8 list \<Rightarrow> smcp_s \<Rightarrow> (smcp_status_t \<times> smcp_s) option" where
  "smcp_outbound_set_content_formatted text self = do {
     (content, _, self) \<leftarrow> smcp_outbound_get_content_ptr self;
     let len = smcp_outbound_get_space_remaining self;
     let content = content + unat (out_content_len (outbound self));
     self \<leftarrow> out_write content (vsnprintf_bytes (unat len) text) self;
     let len = (word_of_nat (length text) :: u16);
     if len = 0 then Some (SMCP_STATUS_FAILURE, self)
     else Some (smcp_outbound_set_content_len (len + out_content_len (outbound self)) self)
   }"

definition string_bytes :: "string \<Rightarrow> u8 list" where
  "string_bytes s = map (\<lambda>c. word_of_nat (char_code c)) s"

definition int_text :: "int \<Rightarrow> string" where
  "int_text v = (if v < 0 then CHR ''-'' # dec_string (nat (- v)) else dec_string (nat v))"

definition smcp_outbound_set_var_content_int :: "int \<Rightarrow> smcp_s \<Rightarrow> (smcp_status_t \<times> smcp_s) option" where
  "smcp_outbound_set_var_content_int v self = do {
     (_, self) \<leftarrow> smcp_outbound_add_option_uint COAP_OPTION_CONTENT_TYPE 65005 self;
     smcp_outbound_set_content_formatted (string_bytes (''v='' @ int_text v)) self
   }"

definition smcp_outbound_set_var_content_unsigned_int :: "u32 \<Rightarrow> smcp_s \<Rightarrow> (smcp_status_t \<times> smcp_s) option" where
  "smcp_outbound_set_var_content_unsigned_int v self =
     smcp_outbound_set_content_formatted (string_bytes (''v='' @ dec_string (unat v))) self"

text \<open>The conversion \<^verbatim>\<open>%ul\<close> is \<^verbatim>\<open>%u\<close>, which prints the low 32 bits, followed by the letter.\<close>

definition smcp_outbound_set_var_content_unsigned_long_int :: "64 word \<Rightarrow> smcp_s \<Rightarrow> (smcp_status_t \<times> smcp_s) option" where
  "smcp_outbound_set_var_content_unsigned_long_int v self =
     smcp_outbound_set_content_formatted (string_bytes (''v='' @ dec_string (unat (ucast v :: u32)) @ ''l'')) self"

section \<open>Sending\<close>

definition smcp_auth_outbound_finalize :: "smcp_s \<Rightarrow> smcp_status_t \<times> smcp_s" where
  "smcp_auth_outbound_finalize self = (SMCP_STATUS_OK, self)"

definition smcp_auth_outbound_is_using_dtls :: "smcp_s \<Rightarrow> bool" where
  "smcp_auth_outbound_is_using_dtls self = False"

definition smcp_auth_outbound_use_dtls :: smcp_status_t where
  "smcp_auth_outbound_use_dtls = SMCP_STATUS_NOT_IMPLEMENTED"

definition smcp_outbound_send_secure_hook :: "smcp_s \<Rightarrow> (smcp_status_t \<times> smcp_s) option" where
  "smcp_outbound_send_secure_hook self = Some (SMCP_STATUS_NOT_IMPLEMENTED, self)"

definition smcp_outbound_send_hook :: "smcp_env \<Rightarrow> smcp_s \<Rightarrow> (smcp_status_t \<times> smcp_s) option" where
  "smcp_outbound_send_hook env self = do {
     (p, _, self) \<leftarrow> smcp_outbound_get_content_ptr self;
     let header_len = (word_of_nat p :: u16);
     let header_len = (if out_content_len (outbound self) = 0 then header_len - 1 else header_len);
     if take 2 (out_saddr (outbound self)) = [0, 0] then Some (SMCP_STATUS_FAILURE, self)
     else do {
       bytes \<leftarrow> mem_read_n (packet_bytes (outbound self)) 0
                  (unat header_len + unat (out_content_len (outbound self)));
       let sent_bytes = env_send env bytes (out_saddr (outbound self));
       let self = self\<lparr>sent_packets := (bytes, out_saddr (outbound self)) # sent_packets self\<rparr>;
       Some (if sent_bytes < 0 then SMCP_STATUS_ERRNO
             else if sent_bytes = 0 then SMCP_STATUS_FAILURE
             else SMCP_STATUS_OK, self)
     }
   }"

definition smcp_outbound_send :: "smcp_env \<Rightarrow> smcp_s \<Rightarrow> (smcp_status_t \<times> smcp_s) option" where
  "smcp_outbound_send env self = do {
     code \<leftarrow> out_code self;
     let (ret, self) = (if code \<noteq> 0 then smcp_auth_outbound_finalize self else (SMCP_STATUS_OK, self));
     if ret \<noteq> SMCP_STATUS_OK then Some (ret, self)
     else do {
       let self = (case current_transaction self of
                     None \<Rightarrow> self
                   | Some t \<Rightarrow> set_trans t (\<lambda>tr. tr\<lparr>sent_code := code\<rparr>) self);
       (ret, self) \<leftarrow>
         (if smcp_auth_outbound_is_using_dtls self then smcp_outbound_send_secure_hook self
          else smcp_outbound_send_hook env self);
       if ret \<noteq> SMCP_STATUS_OK then Some (ret, self)
       else Some (SMCP_STATUS_OK,
         self\<lparr>did_respond := (did_respond self \<or> is_responding self), is_responding := False\<rparr>)
     }
   }"

definition smcp_outbound_quick_response :: "smcp_env \<Rightarrow> u16 \<Rightarrow> u8 list option \<Rightarrow> smcp_s \<Rightarrow> (smcp_status_t \<times> smcp_s) option" where
  "smcp_outbound_quick_response env code body self = do {
     (_, self) \<leftarrow> smcp_outbound_begin_response code self;
     self \<leftarrow> (case body of
                None \<Rightarrow> Some self
              | Some b \<Rightarrow> map_option snd (smcp_outbound_append_content b SMCP_CSTR_LEN self));
     smcp_outbound_send env self
   }"

end
