(* ===== verification/Outbound_Packet.thy ===== *)
theory Outbound_Packet
  imports Outbound Coap_Verify
begin

text \<open>
  What the packet under construction holds: a header, a token, a sorted list of options and the
  content. The operations of \<open>Outbound\<close> are operations on these parts, and what is sent is a
  packet that the verifier accepts.
\<close>

section \<open>The abstract packet\<close>

record packet =
  p_first :: u8
  p_code :: u8
  p_msg_id :: u16
  p_token :: "u8 list"
  p_options :: "(nat \<times> u8 list) list"
  p_content :: "u8 list"

definition packet_head :: "packet \<Rightarrow> u8 list" where
  "packet_head p = [p_first p, p_code p] @ msg_id_bytes (p_msg_id p) @ p_token p"

definition packet_front :: "packet \<Rightarrow> u8 list" where
  "packet_front p = packet_head p @ encode_options 0 (p_options p)"

definition packet_ok :: "packet \<Rightarrow> bool" where
  "packet_ok p \<longleftrightarrow> header_version (p_first p) = COAP_VERSION \<and> length (p_token p) \<le> 8 \<and>
     unat (header_token_len (p_first p)) = length (p_token p) \<and> wf_opts 0 (p_options p)"

text \<open>The packet buffer holds the parts, and the pointers into it are right.\<close>

definition holds_packet :: "smcp_s \<Rightarrow> packet \<Rightarrow> bool" where
  "holds_packet self p \<longleftrightarrow> packet_ok p \<and> out_packet (outbound self) \<and>
     max_packet_len (outbound self) = SMCP_MAX_PACKET_LENGTH \<and>
     length (packet_bytes (outbound self)) = 1033 \<and>
     out_content_ptr (outbound self) = length (packet_front p) + 1 \<and>
     out_content_len (outbound self) = word_of_nat (length (p_content p)) \<and>
     length (packet_front p) + 1 + length (p_content p) \<le> 1032 \<and>
     (\<exists>zs. packet_bytes (outbound self) = packet_front p @ 0xFF # p_content p @ zs)"

lemma msg_id_bytes_length [simp]: "length (msg_id_bytes m) = 2"
  by (simp add: msg_id_bytes_def)

lemma packet_head_length: "length (packet_head p) = 4 + length (p_token p)"
  by (simp add: packet_head_def)

lemma u16_le_1032: "n \<le> 1032 \<Longrightarrow> unat (word_of_nat n :: u16) = n"
  by (simp add: unsigned_of_nat take_bit_nat_eq_self)

lemma u16_minus_one: "unat (- 1 :: u16) = 65535"
  by (simp add: unsigned_minus_1_eq_mask mask_eq_exp_minus_1)

lemma u16_space: "n \<le> 1032 \<Longrightarrow> unat (if (word_of_nat n :: u16) < 1032 then (1032 - word_of_nat n :: u16) else 0) = 1032 - n"
  by (cases "n < 1032")
    (auto simp: u16_le_1032 word_less_nat_alt unat_sub_if_size word_size)

lemma holds_packet_space:
  assumes "holds_packet self p"
  shows "unat (smcp_outbound_get_space_remaining self) =
    1032 - (length (packet_front p) + 1 + length (p_content p))"
proof -
  define n where "n = length (packet_front p) + 1 + length (p_content p)"
  have "n \<le> 1032" using assms by (simp add: holds_packet_def n_def)
  moreover have "word_of_nat (length (packet_front p) + 1) + word_of_nat (length (p_content p)) = (word_of_nat n :: u16)"
    by (simp add: n_def)
  ultimately have "unat (smcp_outbound_get_space_remaining self) = 1032 - n"
    using assms u16_space [of n]
    by (simp add: smcp_outbound_get_space_remaining_def holds_packet_def SMCP_MAX_PACKET_LENGTH_def Let_def
        cong: if_cong del: of_nat_add of_nat_Suc split del: if_split)
  then show ?thesis by (simp add: n_def)
qed

section \<open>Adding an option\<close>

lemma opt_ext_mono: "a \<le> b \<Longrightarrow> length (opt_ext a) \<le> length (opt_ext b)"
  by (simp add: length_opt_ext)

lemma option_bytes_length: "length (option_bytes prev k v) \<le> length v + 5"
  by (simp add: option_bytes_def length_opt_header length_opt_ext)

text \<open>An option adds at most five bytes to its value; the option behind it does not get longer.\<close>

lemma encode_insert_length:
  "length (encode_options 0 (insert_opt key v opts)) \<le> length (encode_options 0 opts) + length v + 5"
proof -
  let ?P = "\<lambda>x :: nat \<times> u8 list. fst x \<le> key"
  let ?pk = "last_key 0 (takeWhile ?P opts)"
  have split: "encode_options 0 opts = encode_options 0 (takeWhile ?P opts) @ encode_options ?pk (dropWhile ?P opts)"
    by (metis encode_options_append takeWhile_dropWhile_id)
  have pk: "?pk \<le> key" by (simp add: last_key_takeWhile)
  have "length (encode_options key (dropWhile ?P opts)) \<le> length (encode_options ?pk (dropWhile ?P opts))"
  proof (cases "dropWhile ?P opts")
    case (Cons x bs)
    obtain k2 v2 where x: "x = (k2, v2)" by (cases x)
    then show ?thesis
      using Cons pk opt_ext_mono [of "k2 - key" "k2 - ?pk"]
      by (simp add: option_bytes_def length_opt_header length_opt_ext)
  next
    case Nil
    show ?thesis unfolding Nil by simp
  qed
  then show ?thesis
    using option_bytes_length [of ?pk key v] by (simp add: split insert_opt_def encode_options_append)
qed

lemma holds_packet_token_len:
  assumes "holds_packet self p"
  shows "out_token_len self = Some (length (p_token p))" "out_code self = Some (ucast (p_code p))"
proof -
  obtain zs where "packet_bytes (outbound self) = [p_first p, p_code p] @ zs"
    using assms by (auto simp: holds_packet_def packet_front_def packet_head_def)
  then show "out_token_len self = Some (length (p_token p))" "out_code self = Some (ucast (p_code p))"
    using assms by (simp_all add: out_token_len_def out_code_def out_bytes_def packet_token_len_def packet_code_def
        mem_read_def holds_packet_def packet_ok_def)
qed

text \<open>Only the packet buffer, the content pointer and the largest option number change.\<close>

definition same_but_packet :: "smcp_s \<Rightarrow> smcp_s \<Rightarrow> bool" where
  "same_but_packet self self' \<longleftrightarrow>
     (\<exists>mem p k. self' = set_outbound (\<lambda>out. out\<lparr>packet_bytes := mem, out_content_ptr := p, out_last_option_key := k\<rparr>) self)"

lemma add_option_1_refines:
  assumes "holds_packet self p" "p_content p = []" "key < 65536" "length v < 65535"
    and room: "length (packet_front p) + length v + 9 \<le> 1032"
  shows "\<exists>self'. smcp_outbound_add_option_1 (word_of_nat key) (v @ ws) (word_of_nat (length v)) self =
      Some (SMCP_STATUS_OK, self') \<and>
    holds_packet self' (p\<lparr>p_options := insert_opt key v (p_options p)\<rparr>) \<and> same_but_packet self self'"
proof -
  let ?q = "p\<lparr>p_options := insert_opt key v (p_options p)\<rparr>"
  let ?old = "encode_options 0 (p_options p)" and ?new = "encode_options 0 (p_options ?q)"
  obtain zs where zs: "packet_bytes (outbound self) = packet_head p @ ?old @ 0xFF # zs"
    using assms(1,2) by (auto simp: holds_packet_def packet_front_def)
  have len: "length (packet_bytes (outbound self)) = 1033" "out_content_ptr (outbound self) = length (packet_front p) + 1"
      "wf_opts 0 (p_options p)" "out_packet (outbound self)"
    using assms(1) by (simp_all add: holds_packet_def packet_ok_def)
  have grow: "length ?new \<le> length ?old + length v + 5"
    using encode_insert_length [of key v "p_options p"] by simp
  have front: "length (packet_front p) = length (packet_head p) + length ?old"
    by (simp add: packet_front_def)
  have total: "length (packet_head p) + length ?old + 1 + length zs = 1033" using zs len(1) by simp
  have v: "length v \<le> 1034" using room by simp
  have ins: "length ?old \<le> length ?new"
      "coap_insert_option (packet_head p @ ?old @ 0xFF # zs) (length (packet_head p)) (length (packet_head p) + length ?old)
        (word_of_nat key) (v @ ws) (word_of_nat (length v)) =
       Some (packet_head p @ ?new @ drop (length ?new - length ?old) (0xFF # zs), word_of_nat (length ?new - length ?old))"
    using coap_insert_option_refines [OF len(3) assms(3) v refl refl, of "0xFF # zs" "packet_head p" ws] grow front total room
    by simp_all
  define d where "d = length ?new - length ?old"
  have d: "unat (word_of_nat d :: u16) = d" "length ?old + d = length ?new" "d \<le> length v + 5"
    using u16_le_1032 [of d] ins(1) grow room by (simp_all add: d_def)
  obtain y ys where ys: "drop d (0xFF # zs) = y # ys"
    using d(3) total room front by (cases "drop d (0xFF # zs)") auto
  have wr: "mem_write (packet_head p @ ?new @ y # ys) (length (packet_head p) + length ?old + d) 0xFF =
      Some (packet_head p @ ?new @ 0xFF # ys)"
    using mem_write_split [of "packet_head p @ ?new" y ys "0xFF"] d(2) by (simp add: add.assoc)
  let ?mem = "packet_head p @ ?new @ 0xFF # ys"
  define self' where "self' = set_outbound (\<lambda>out. out\<lparr>packet_bytes := ?mem, out_content_ptr := length (packet_head p) + length ?old + d + 1,
     out_last_option_key := (if word_of_nat key > out_last_option_key out then word_of_nat key else out_last_option_key out)\<rparr>) self"
  have cstr: "actual_len (v @ ws) (word_of_nat (length v)) = Some (word_of_nat (length v))"
    using u16_le_1032 [of "length v"] room by (auto simp: actual_len_def SMCP_CSTR_LEN_def word_unat_eq_iff u16_minus_one)
  have ne: "length (packet_head p) + length ?old \<noteq> 3 + length (p_token p)" by (simp add: packet_head_length)
  have fits: "\<not> unat (smcp_outbound_get_space_remaining self) < unat (word_of_nat (length v) :: u16) + 8"
    using room holds_packet_space [OF assms(1)] assms(2) u16_le_1032 [of "length v"] by simp
  have "smcp_outbound_add_option_1 (word_of_nat key) (v @ ws) (word_of_nat (length v)) self = Some (SMCP_STATUS_OK, self')"
    using fits
    by (simp add: ne smcp_outbound_add_option_1_def cstr holds_packet_token_len(1) [OF assms(1)] out_bytes_def len zs
        front packet_head_length [symmetric] ins(2) [folded d_def] d(1) ys wr [simplified] self'_def Let_def)
  moreover have "holds_packet self' ?q"
  proof -
    have head: "packet_head ?q = packet_head p" by (simp add: packet_head_def)
    have "packet_ok ?q"
      using assms(1,3) v insert_opt_wf [of 0 "p_options p" key v] by (simp add: holds_packet_def packet_ok_def)
    moreover have "length ys + d + 1 = 1 + length zs" using arg_cong [OF ys, of length] d total room front by simp
    then have "length ?mem = 1033" using d(2) total by simp
    ultimately show ?thesis
      using assms(1,2) d room front
      by (simp add: holds_packet_def self'_def packet_front_def head)
  qed
  moreover have "same_but_packet self self'"
    unfolding same_but_packet_def self'_def by blast
  ultimately show ?thesis by blast
qed

lemma add_option_1_too_big:
  assumes "holds_packet self p" "p_content p = []" "length v < 65535"
    and "\<not> length (packet_front p) + length v + 9 \<le> 1032"
  shows "smcp_outbound_add_option_1 key (v @ ws) (word_of_nat (length v)) self = Some (SMCP_STATUS_MESSAGE_TOO_BIG, self)"
proof -
  have v: "unat (word_of_nat (length v) :: u16) = length v"
    using assms(3) by (simp add: unsigned_of_nat take_bit_nat_eq_self)
  have "actual_len (v @ ws) (word_of_nat (length v)) = Some (word_of_nat (length v))"
    using v assms(3) by (auto simp: actual_len_def SMCP_CSTR_LEN_def word_unat_eq_iff u16_minus_one)
  moreover have "unat (smcp_outbound_get_space_remaining self) < unat (word_of_nat (length v) :: u16) + 8"
    using assms holds_packet_space [OF assms(1)] v by simp
  ultimately show ?thesis by (simp add: smcp_outbound_add_option_1_def)
qed

lemma up_to_key_idle:
  "current_transaction self = None \<Longrightarrow> smcp_outbound_add_options_up_to_key key self = Some (SMCP_STATUS_OK, self)"
  by (simp add: smcp_outbound_add_options_up_to_key_def)

lemma add_option_holds:
  assumes "holds_packet self p" "p_content p = []" "current_transaction self = None" "k < 65536"
    and room: "length (packet_front p) + length v + 9 \<le> 1032"
  shows "\<exists>self'. smcp_outbound_add_option (word_of_nat k) v (word_of_nat (length v)) self = Some (SMCP_STATUS_OK, self') \<and>
    holds_packet self' (p\<lparr>p_options := insert_opt k v (p_options p)\<rparr>) \<and> same_but_packet self self'"
  using add_option_1_refines [OF assms(1,2,4) _ room, of "[]"] room assms(3)
  by (simp add: smcp_outbound_add_option_def up_to_key_idle)

section \<open>Content\<close>

lemma content_ptr_idle:
  assumes "holds_packet self p" "current_transaction self = None"
  shows "smcp_outbound_get_content_ptr self = Some (length (packet_front p) + 1,
    smcp_outbound_get_space_remaining self + out_content_len (outbound self), self)"
  using assms holds_packet_token_len(2) [OF assms(1)]
  by (simp add: smcp_outbound_get_content_ptr_def up_to_key_idle holds_packet_def)

lemma append_content_holds:
  assumes "holds_packet self p" "current_transaction self = None" "length bs < 65535"
    and room: "length (packet_front p) + 1 + length (p_content p) + length bs < 1032"
  shows "\<exists>out. smcp_outbound_append_content (bs @ ws) (word_of_nat (length bs)) self =
      Some (SMCP_STATUS_OK, self\<lparr>outbound := out\<rparr>) \<and>
    holds_packet (self\<lparr>outbound := out\<rparr>) (p\<lparr>p_content := p_content p @ bs\<rparr>)"
proof -
  let ?q = "p\<lparr>p_content := p_content p @ bs\<rparr>"
  obtain zs where zs: "packet_bytes (outbound self) = packet_front p @ 0xFF # p_content p @ zs"
    using assms(1) by (auto simp: holds_packet_def)
  have h: "length (packet_bytes (outbound self)) = 1033" "out_packet (outbound self)"
      "out_content_len (outbound self) = word_of_nat (length (p_content p))"
    using assms(1) by (simp_all add: holds_packet_def)
  have n: "unat (word_of_nat (length bs) :: u16) = length bs"
      "unat (word_of_nat (length (p_content p)) :: u16) = length (p_content p)"
    using room by (simp_all add: u16_le_1032)
  have len: "actual_len (bs @ ws) (word_of_nat (length bs)) = Some (word_of_nat (length bs))"
    using n(1) assms(3) by (auto simp: actual_len_def SMCP_CSTR_LEN_def word_unat_eq_iff u16_minus_one)
  have le: "\<not> smcp_outbound_get_space_remaining self \<le> word_of_nat (length bs)"
    using holds_packet_space [OF assms(1)] room n(1) by (simp add: word_le_nat_alt)
  have rd: "mem_read_n (bs @ ws) 0 (length bs) = Some bs" by (simp add: mem_read_n_def)
  have zl: "length bs \<le> length zs" using zs h(1) room by simp
  have wr: "mem_write_n (packet_bytes (outbound self)) (length (packet_front p) + 1 + length (p_content p)) bs =
      Some (packet_front p @ 0xFF # p_content p @ bs @ drop (length bs) zs)"
    using mem_write_n_split [of _ "packet_front p @ 0xFF # p_content p" "take (length bs) zs" bs "drop (length bs) zs"] zl
    by (simp add: zs)
  define self' where "self' = set_outbound (\<lambda>out. out\<lparr>packet_bytes := packet_front p @ 0xFF # p_content p @ bs @ drop (length bs) zs,
      out_content_len := word_of_nat (length (p_content p)) + word_of_nat (length bs)\<rparr>) self"
  have "smcp_outbound_append_content (bs @ ws) (word_of_nat (length bs)) self = Some (SMCP_STATUS_OK, self')"
    using le content_ptr_idle [OF assms(1,2)]
    by (simp add: smcp_outbound_append_content_def len n rd h(2,3) out_write_def out_bytes_def wr [simplified] self'_def Let_def)
  moreover have "holds_packet self' ?q"
    using assms(1) room zs h(1) zl
    by (simp add: holds_packet_def self'_def packet_ok_def packet_front_def packet_head_def)
  ultimately show ?thesis unfolding self'_def by blast
qed

section \<open>Sending\<close>

definition packet_wire :: "packet \<Rightarrow> u8 list" where
  "packet_wire p = packet_front p @ (if p_content p = [] then [] else 0xFF # p_content p)"

lemma options_layout_encode: "wf_opts prev opts \<Longrightarrow> options_layout (encode_options prev opts)"
proof (induction prev opts rule: encode_options.induct)
  case (2 prev k v opts)
  then have "k - prev < opt_max" "length v < opt_max" by auto
  then show ?case
    using 2 options_more [of "k - prev" "length v" v "encode_options k opts"] by (simp add: option_bytes_def)
qed (simp add: options_end)

lemma packet_wire_layout:
  assumes "packet_ok p" "p_code p = COAP_CODE_EMPTY \<Longrightarrow> p_token p = [] \<and> p_options p = [] \<and> p_content p = []"
  shows "packet_layout (packet_wire p)"
proof -
  have "packet_wire p = [p_first p, p_code p, ucast (p_msg_id p), ucast (drop_bit 8 (p_msg_id p))] @ p_token p @
      encode_options 0 (p_options p) @ (if p_content p = [] then [] else 0xFF # p_content p)"
    by (simp add: packet_wire_def packet_front_def packet_head_def msg_id_bytes_def)
  moreover have "options_layout (encode_options 0 (p_options p))"
    using assms(1) by (simp add: packet_ok_def options_layout_encode)
  ultimately show ?thesis
    unfolding packet_layout_def using assms
    by (intro exI conjI) (assumption | simp add: packet_ok_def | force simp: packet_ok_def)+
qed

definition send_status :: "int \<Rightarrow> smcp_status_t" where
  "send_status sent_bytes =
     (if sent_bytes < 0 then SMCP_STATUS_ERRNO else if sent_bytes = 0 then SMCP_STATUS_FAILURE else SMCP_STATUS_OK)"

lemma send_hook_holds:
  assumes "holds_packet self p" "current_transaction self = None" "take 2 (out_saddr (outbound self)) \<noteq> [0, 0]"
  shows "smcp_outbound_send_hook env self =
    Some (send_status (env_send env (packet_wire p) (out_saddr (outbound self))),
      self\<lparr>sent_packets := (packet_wire p, out_saddr (outbound self)) # sent_packets self\<rparr>)"
proof -
  obtain zs where zs: "packet_bytes (outbound self) = packet_front p @ 0xFF # p_content p @ zs"
    using assms(1) by (auto simp: holds_packet_def)
  define n where "n = length (packet_front p)"
  have n: "n + 1 + length (p_content p) \<le> 1032" "out_content_len (outbound self) = word_of_nat (length (p_content p))"
    using assms(1) by (simp_all add: holds_packet_def n_def)
  have z: "(word_of_nat (length (p_content p)) :: u16) = 0 \<longleftrightarrow> p_content p = []"
    using n(1) u16_le_1032 [of "length (p_content p)"] by (auto simp: word_unat_eq_iff)
  have h: "unat (if p_content p = [] then word_of_nat (Suc n) - 1 else word_of_nat (Suc n) :: u16) +
      unat (word_of_nat (length (p_content p)) :: u16) = length (packet_wire p)"
    using n(1) u16_le_1032 [of n] u16_le_1032 [of "n + 1"] u16_le_1032 [of "length (p_content p)"]
    by (simp add: packet_wire_def n_def)
  have rd: "mem_read_n (packet_bytes (outbound self)) 0 (length (packet_wire p)) = Some (packet_wire p)"
    by (simp add: mem_read_n_def zs packet_wire_def)
  show ?thesis
    using assms(3) content_ptr_idle [OF assms(1,2)] h rd
    by (simp add: smcp_outbound_send_hook_def n(2) z n_def [symmetric] send_status_def Let_def split del: if_split del: of_nat_Suc of_nat_add)
qed

text \<open>The whole send: only a packet that the socket took counts as the response.\<close>

lemma outbound_send_holds:
  assumes "holds_packet self p" "current_transaction self = None" "take 2 (out_saddr (outbound self)) \<noteq> [0, 0]"
    and "sent \<longleftrightarrow> env_send env (packet_wire p) (out_saddr (outbound self)) > 0"
  shows "smcp_outbound_send env self =
      Some (send_status (env_send env (packet_wire p) (out_saddr (outbound self))),
        self\<lparr>did_respond := did_respond self \<or> is_responding self \<and> sent, is_responding := is_responding self \<and> \<not> sent,
             sent_packets := (packet_wire p, out_saddr (outbound self)) # sent_packets self\<rparr>)"
proof -
  obtain code where "out_code self = Some code" using holds_packet_token_len(2) [OF assms(1)] by blast
  then show ?thesis
    using send_hook_holds [OF assms(1-3), of env] assms(2,4)
    by (cases sent) (auto simp: smcp_outbound_send_def smcp_auth_outbound_finalize_def
        smcp_auth_outbound_is_using_dtls_def send_status_def Let_def)
qed

section \<open>Starting a packet\<close>

lemma u8_and_15: "(n :: u8) < 16 \<Longrightarrow> n AND 15 = n"
  using take_bit_4_u8 [of n] by (simp add: take_bit_eq_mask mask_eq_exp_minus_1)

lemma u8_and_3: "(n :: u8) < 4 \<Longrightarrow> n AND 3 = n"
proof -
  assume "n < 4"
  then have "take_bit 2 n = n"
    by (simp add: word_unat_eq_iff unsigned_take_bit_eq take_bit_nat_eq_self_iff word_less_nat_alt)
  then show ?thesis by (simp add: take_bit_eq_mask mask_eq_exp_minus_1)
qed

lemmas and_or_simps = bit.conj_disj_distrib2 drop_bit_or drop_bit_and and.assoc

lemmas header_defs = header_version_def header_tt_def header_token_len_def with_token_len_def with_version_def with_tt_def

lemma drop_bit_6_u8: "drop_bit 6 b AND 3 = drop_bit 6 (b :: u8)"
proof -
  have "unat b < 256" by (rule unat_u8_less)
  then have "drop_bit 6 b < 4" by (simp add: word_less_nat_alt drop_bit_eq_div unat_div)
  then show ?thesis by (rule u8_and_3)
qed

lemma drop_push_4_u8: "(t :: u8) < 4 \<Longrightarrow> drop_bit 4 (push_bit 4 t) = t"
  using nibble_high [of t 0] by (simp add: order.strict_trans)

lemma header_with_token_len [simp]:
  "header_version (with_token_len n b) = header_version b"
  "header_tt (with_token_len n b) = header_tt b"
  "n < 16 \<Longrightarrow> header_token_len (with_token_len n b) = n"
  by (simp_all add: header_defs and_or_simps u8_and_15 drop_bit_6_u8)

lemma header_with_tt [simp]:
  "header_version (with_tt t b) = header_version b"
  "t < 4 \<Longrightarrow> header_tt (with_tt t b) = t"
  "header_token_len (with_tt t b) = header_token_len b"
  by (simp_all add: header_defs and_or_simps u8_and_3 drop_bit_6_u8 drop_push_4_u8)

lemma header_with_version [simp]:
  "header_version (with_version 1 b) = 1"
  "header_tt (with_version 1 b) = header_tt b"
  "header_token_len (with_version 1 b) = header_token_len b"
  by (simp_all add: header_defs and_or_simps)

lemma out_header_split:
  assumes "out_packet (outbound self)" "packet_bytes (outbound self) = b # rest"
  shows "out_header f self = Some (set_outbound (\<lambda>out. out\<lparr>packet_bytes := f b # rest\<rparr>) self)"
  using assms by (simp add: out_header_def out_write_def out_bytes_def mem_read_def mem_write_n_def)

lemma out_write_split:
  assumes "out_packet (outbound self)" "packet_bytes (outbound self) = xs @ ys @ zs" "length xs = n" "length ys = length bs"
  shows "out_write n bs self = Some (set_outbound (\<lambda>out. out\<lparr>packet_bytes := xs @ bs @ zs\<rparr>) self)"
  using assms mem_write_n_split [of n xs ys bs zs] by (simp add: out_write_def out_bytes_def)

text \<open>The packet that \<^verbatim>\<open>smcp_outbound_begin\<close> starts.\<close>

definition begun_packet :: "u16 \<Rightarrow> u8 \<Rightarrow> u8 list \<Rightarrow> smcp_s \<Rightarrow> packet" where
  "begun_packet code tt tok self = \<lparr>
     p_first = with_token_len (word_of_nat (length tok)) (with_version COAP_VERSION (with_tt tt (hd (packet_bytes (outbound self))))),
     p_code = ucast code, p_msg_id = next_tid (outbound self), p_token = tok, p_options = [], p_content = []\<rparr>"

lemma outbound_token_outbound [simp]: "outbound_token code (self\<lparr>outbound := out\<rparr>) = outbound_token code self"
  by (simp add: outbound_token_def cong: if_cong option.case_cong)

lemma take_drop_four:
  "take (4 + n) (a # b # c # d # xs) = a # b # c # d # take n xs"
  "drop (4 + n) (a # b # c # d # xs) = drop n xs"
  "drop (5 + n) (a # b # c # d # xs) = drop (Suc n) xs"
  by (simp_all add: numeral_eq_Suc)

lemma outbound_begin_holds:
  assumes "length (packet_bytes (outbound self)) = 1033" "outbound_token code self = Some tok" "length tok \<le> 8"
  shows "\<exists>self'. smcp_outbound_begin code tt self = Some (SMCP_STATUS_OK, self') \<and>
    holds_packet self' (begun_packet code tt tok self) \<and> out_saddr (outbound self') = zero_sockaddr \<and>
    self' = self\<lparr>outbound := outbound self', force_current_outbound_code := False, is_responding := False\<rparr>"
proof -
  obtain b0 b1 b2 b3 rest where m: "packet_bytes (outbound self) = [b0, b1, b2, b3] @ rest" "length rest = 1029"
  proof -
    have that4: "4 \<le> length (packet_bytes (outbound self))" using assms(1) by simp
    obtain a b c d r where "packet_bytes (outbound self) = [a, b, c, d] @ r"
      using that4 by (auto simp: numeral_eq_Suc Suc_le_length_iff)
    with that assms(1) show ?thesis by auto
  qed
  define r1 r2 where "r1 = take (length tok) rest" and "r2 = drop (length tok) rest"
  obtain z zs where z: "r2 = z # zs" using m(2) assms(3) by (cases r2) (auto simp: r2_def)
  have rest: "rest = r1 @ [z] @ zs" "length r1 = length tok" using append_take_drop_id [of "length tok" rest] m(2) assms(3) z
    unfolding r1_def r2_def by (metis append_Cons append_Nil, simp)
  let ?p = "begun_packet code tt tok self"
  define self' where "self' = self\<lparr>outbound := (outbound self)\<lparr>max_packet_len := SMCP_MAX_PACKET_LENGTH, out_packet := True,
     out_saddr := zero_sockaddr, packet_bytes := packet_head ?p @ 0xFF # zs, out_last_option_key := 0,
     out_content_ptr := 4 + length tok + 1, out_content_len := 0\<rparr>, force_current_outbound_code := False, is_responding := False\<rparr>"
  have "smcp_outbound_begin code tt self = Some (SMCP_STATUS_OK, self')"
    using assms(2,3) rest(2) by (simp add: smcp_outbound_begin_def out_header_def out_write_def out_bytes_def mem_read_def
        mem_write_n_def m(1) rest(1) msg_id_bytes_def Let_def self'_def packet_head_def begun_packet_def take_drop_four)
  moreover have "(word_of_nat (length tok) :: u8) < 16" "unat (word_of_nat (length tok) :: u8) = length tok"
    using assms(3) by (simp_all add: word_less_nat_alt unsigned_of_nat take_bit_nat_eq_self)
  then have "packet_ok ?p" using assms(3) by (simp add: packet_ok_def begun_packet_def COAP_VERSION_def)
  then have "holds_packet self' ?p"
    using assms(3) m(2) rest
    by (simp add: holds_packet_def self'_def packet_front_def packet_head_length) (simp add: begun_packet_def)
  ultimately show ?thesis by (auto simp: self'_def)
qed

section \<open>The operations on packets\<close>

text \<open>
  From any state with a packet buffer, \<^verbatim>\<open>smcp_outbound_begin\<close> succeeds and leaves a packet that has the
  code, the type, the protocol version, the next message identifier and the token of the request
  (or of the current transaction), and no options and no content; the destination is cleared.
\<close>

theorem outbound_begin_packet:
  assumes "length (packet_bytes (outbound self)) = 1033" "tt < 4"
    and "outbound_token code self = Some tok" "length tok \<le> 8"
  shows "\<exists>self' p. smcp_outbound_begin code tt self = Some (SMCP_STATUS_OK, self') \<and> holds_packet self' p \<and>
    header_tt (p_first p) = tt \<and> p_code p = ucast code \<and> p_msg_id p = next_tid (outbound self) \<and>
    p_token p = tok \<and> p_options p = [] \<and> p_content p = [] \<and> out_saddr (outbound self') = zero_sockaddr"
proof -
  have "header_tt (p_first (begun_packet code tt tok self)) = tt"
    using assms(2) by (simp add: begun_packet_def COAP_VERSION_def)
  then show ?thesis
    using outbound_begin_holds [OF assms(1,3,4), of tt] by (force simp: begun_packet_def)
qed

abbreviation zero_state :: smcp_s where "zero_state \<equiv> zero_smcp (\<lambda>_. 0)"

lemma zero_state_begin:
  "length (packet_bytes (outbound zero_state)) = 1033" "outbound_token 1 zero_state = Some []"
  by (simp_all add: zero_smcp_def zero_outbound_def SMCP_MAX_PACKET_LENGTH_def outbound_token_def zero_inbound_def)

theorem outbound_begin_packet_witness:
  "\<exists>self' p. smcp_outbound_begin 1 0 zero_state = Some (SMCP_STATUS_OK, self') \<and> holds_packet self' p \<and>
    header_tt (p_first p) = 0 \<and> p_code p = ucast (1 :: u16) \<and> p_msg_id p = next_tid (outbound zero_state) \<and>
    p_token p = [] \<and> p_options p = [] \<and> p_content p = [] \<and> out_saddr (outbound self') = zero_sockaddr"
  using outbound_begin_packet [of zero_state 0 1 "[]"] zero_state_begin by simp

text \<open>
  C17: outside of a transaction, adding an option to a packet without content inserts it behind the
  options with the same or smaller number when there is room for it and eight bytes, and otherwise
  returns MESSAGE_TOO_BIG and leaves the state alone.
\<close>

theorem outbound_add_option_refines:
  assumes "holds_packet self p" "p_content p = []" "current_transaction self = None"
    and "key < 65536" "length v < 65535"
  shows "if length (packet_front p) + 1 + length v + 8 \<le> 1032
    then \<exists>self'. smcp_outbound_add_option (word_of_nat key) (v @ ws) (word_of_nat (length v)) self =
           Some (SMCP_STATUS_OK, self') \<and>
         holds_packet self' (p\<lparr>p_options := insert_opt key v (p_options p)\<rparr>) \<and> same_but_packet self self'
    else smcp_outbound_add_option (word_of_nat key) (v @ ws) (word_of_nat (length v)) self =
           Some (SMCP_STATUS_MESSAGE_TOO_BIG, self)"
proof -
  have "smcp_outbound_add_option (word_of_nat key) (v @ ws) (word_of_nat (length v)) self =
      smcp_outbound_add_option_1 (word_of_nat key) (v @ ws) (word_of_nat (length v)) self"
    using assms(3) by (simp add: smcp_outbound_add_option_def up_to_key_idle)
  then show ?thesis
    using add_option_1_refines [OF assms(1,2,4,5)] add_option_1_too_big [OF assms(1,2,5)] by auto
qed

text \<open>A request under construction, for the instances below.\<close>

lemma zero_state_begun:
  "\<exists>self. holds_packet self (begun_packet 1 0 [] zero_state) \<and> current_transaction self = None"
proof -
  obtain self where s: "holds_packet self (begun_packet 1 0 [] zero_state)" "self = zero_state\<lparr>outbound := outbound self,
      force_current_outbound_code := False, is_responding := False\<rparr>"
    using outbound_begin_holds [of zero_state 1 "[]" 0] zero_state_begin by auto
  have "current_transaction self = None" by (subst s(2)) (simp add: zero_smcp_def)
  with s(1) show ?thesis by blast
qed

theorem outbound_add_option_refines_witness:
  "\<exists>self p self'. smcp_outbound_add_option 11 [65, 66, 0] 2 self = Some (SMCP_STATUS_OK, self') \<and>
     holds_packet self' p \<and> p_options p = [(11, [65, 66])]"
proof -
  obtain self where s: "holds_packet self (begun_packet 1 0 [] zero_state)" "current_transaction self = None"
    using zero_state_begun by blast
  then show ?thesis
    using outbound_add_option_refines [OF s(1) _ s(2), of 11 "[65, 66]" "[0]"]
    by (force simp: begun_packet_def packet_front_def packet_head_def insert_opt_def)
qed

text \<open>
  C18: what \<^verbatim>\<open>smcp_outbound_send\<close> hands to the socket is the packet that was built: the header, the
  options in order, and the payload behind its marker if there is any. The verifier of the receiving
  side accepts it. The status is OK exactly if the socket took it, and only then does the send
  count as the response.
\<close>

theorem outbound_send_verified:
  assumes "holds_packet self p" "current_transaction self = None" "take 2 (out_saddr (outbound self)) \<noteq> [0, 0]"
    and "p_code p = COAP_CODE_EMPTY \<Longrightarrow> p_token p = [] \<and> p_options p = [] \<and> p_content p = []"
  shows "\<exists>ret self'. smcp_outbound_send env self = Some (ret, self') \<and>
    sent_packets self' = (packet_wire p, out_saddr (outbound self)) # sent_packets self \<and>
    coap_verify_packet (packet_wire p @ zs) (word_of_nat (length (packet_wire p))) = Some True \<and>
    (ret = SMCP_STATUS_OK \<longleftrightarrow> env_send env (packet_wire p) (out_saddr (outbound self)) > 0) \<and>
    did_respond self' = (did_respond self \<or> is_responding self \<and> ret = SMCP_STATUS_OK)"
proof -
  have "length (packet_wire p) \<le> 1240"
    using assms(1) by (simp add: holds_packet_def packet_wire_def)
  then have "coap_verify_packet (packet_wire p @ zs) (word_of_nat (length (packet_wire p))) = Some True"
    using assms(1,4) by (intro coap_verify_packet_accepts packet_wire_layout) (auto simp: holds_packet_def)
  then show ?thesis
    using outbound_send_holds [OF assms(1-3) refl, of env] by (auto simp: send_status_def)
qed

text \<open>An environment whose socket takes every packet.\<close>

definition accepting_env :: smcp_env where
  "accepting_env = \<lparr>env_resend = \<lambda>_ _ self. Some (SMCP_STATUS_OK, self), env_response = \<lambda>_ _ _ self. Some (SMCP_STATUS_OK, self),
     env_request = \<lambda>_ _ self. Some (SMCP_STATUS_OK, self), env_timer = \<lambda>_ _ self. Some self,
     env_cancel = \<lambda>_ _ self. Some self, env_send = \<lambda>bs _. int (length bs),
     env_lookup = \<lambda>_. (SMCP_STATUS_OK, zero_sockaddr), env_port = 5683, env_now = \<lparr>tv_sec = 0, tv_usec = 0\<rparr>\<rparr>"

theorem outbound_send_verified_witness:
  "\<exists>self p ret self'. smcp_outbound_send accepting_env self = Some (ret, self') \<and>
     sent_packets self' = (packet_wire p, replicate 28 1) # sent_packets self \<and> ret = SMCP_STATUS_OK \<and>
     coap_verify_packet (packet_wire p @ [0]) (word_of_nat (length (packet_wire p))) = Some True"
proof -
  obtain self where s: "holds_packet self (begun_packet 1 0 [] zero_state)" "current_transaction self = None"
    using zero_state_begun by blast
  let ?self = "set_outbound (\<lambda>out. out\<lparr>out_saddr := replicate 28 1\<rparr>) self"
  have "holds_packet ?self (begun_packet 1 0 [] zero_state)" "current_transaction ?self = None"
      "take 2 (out_saddr (outbound ?self)) \<noteq> [0, 0]" "length (packet_wire (begun_packet 1 0 [] zero_state)) > 0"
    using s by (simp_all add: holds_packet_def packet_wire_def packet_front_def packet_head_length numeral_2_eq_2)
  from outbound_send_verified [OF this(1-3), where zs = "[0]"] this(4)
  show ?thesis by (force simp: begun_packet_def COAP_CODE_EMPTY_def accepting_env_def)
qed

end
