(* ===== verification/Transaction.thy ===== *)
theory Transaction
  imports Outbound
begin

text \<open>
  Transactions (\<^verbatim>\<open>src/smcp/smcp-transaction.c\<close>): requests that wait for a response, kept in a tree that is
  ordered by message identifier, each with a timer for its retransmissions.
\<close>

section \<open>The order of transactions\<close>

definition smcp_transaction_compare :: "(addr \<Rightarrow> smcp_transaction_s) \<Rightarrow> addr \<Rightarrow> addr \<Rightarrow> int" where
  "smcp_transaction_compare tr lhs rhs =
     (if msg_id (tr lhs) > msg_id (tr rhs) then 1
      else if msg_id (tr lhs) < msg_id (tr rhs) then - 1
      else 0)"

definition smcp_transaction_compare_msg_id :: "(addr \<Rightarrow> smcp_transaction_s) \<Rightarrow> addr \<Rightarrow> u16 \<Rightarrow> int" where
  "smcp_transaction_compare_msg_id tr lhs rhs =
     (if msg_id (tr lhs) > rhs then 1 else if msg_id (tr lhs) < rhs then - 1 else 0)"

section \<open>Lookup\<close>

definition smcp_transaction_find_via_msg_id :: "smcp_s \<Rightarrow> u16 \<Rightarrow> addr option option" where
  "smcp_transaction_find_via_msg_id self mid =
     bt_find (\<lambda>lhs. smcp_transaction_compare_msg_id (trans self) lhs mid) (transactions self)"

partial_function (option) find_token_loop ::
    "(addr \<Rightarrow> smcp_transaction_s) \<Rightarrow> bt_heap \<Rightarrow> u16 \<Rightarrow> addr option \<Rightarrow> addr option option" where
  "find_token_loop tr h tok ret =
     (case ret of
        None \<Rightarrow> Some None
      | Some t \<Rightarrow>
          if token (tr t) \<noteq> tok then Option.bind (bt_next h ret) (\<lambda>n. find_token_loop tr h tok n)
          else Some (Some t))"

definition smcp_transaction_find_via_token :: "smcp_s \<Rightarrow> u16 \<Rightarrow> addr option option" where
  "smcp_transaction_find_via_token self tok = do {
     ret \<leftarrow> bt_first (transactions self) (bt_root (transactions self));
     find_token_loop (trans self) (transactions self) tok ret
   }"

section \<open>Timers of transactions\<close>

definition invalidate_timer :: "smcp_env \<Rightarrow> addr \<Rightarrow> smcp_s \<Rightarrow> smcp_s option" where
  "invalidate_timer env timer self =
     (let (ts, call) = smcp_invalidate_timer (timer_state self) timer;
          self = self\<lparr>timer_state := ts\<rparr>
      in case call of None \<Rightarrow> Some self | Some (cancel, context) \<Rightarrow> env_cancel env cancel context self)"

definition schedule_timer :: "smcp_env \<Rightarrow> addr \<Rightarrow> int \<Rightarrow> smcp_s \<Rightarrow> (smcp_status_t \<times> smcp_s) option" where
  "schedule_timer env timer cms self = do {
     (ret, ts) \<leftarrow> smcp_schedule_timer (env_now env) (timer_state self) timer cms;
     Some (ret, self\<lparr>timer_state := ts\<rparr>)
   }"

definition COAP_MAX_ACK_RETRANSMIT_DURATION :: int where "COAP_MAX_ACK_RETRANSMIT_DURATION = 14"

text \<open>
  \<^verbatim>\<open>calc_retransmit_timeout\<close>. The product is taken on \<^verbatim>\<open>uint32_t\<close>, since the random number is unsigned, and
  converted back to \<^verbatim>\<open>int32_t\<close>.
\<close>

definition calc_retransmit_timeout :: "nat \<Rightarrow> smcp_s \<Rightarrow> int \<times> smcp_s" where
  "calc_retransmit_timeout retries self =
     (let (r, self) = draw_random self;
          ret = push_bit retries (1500 :: u32);
          ret = ret * (512 + r mod 256);
          ret = sint ret sdiv 512;
          ret = (if ret > COAP_MAX_ACK_RETRANSMIT_DURATION * MSEC_PER_SEC
                 then COAP_MAX_ACK_RETRANSMIT_DURATION * MSEC_PER_SEC else ret)
      in (ret, self))"

text \<open>
  \<^verbatim>\<open>MIN(cms, calc_retransmit_timeout(retries))\<close>. The macro evaluates the smaller argument a second time,
  so that a timeout below \<open>cms\<close> is drawn anew.
\<close>

definition min_retransmit_timeout :: "int \<Rightarrow> nat \<Rightarrow> smcp_s \<Rightarrow> int \<times> smcp_s" where
  "min_retransmit_timeout cms retries self =
     (let (t, self) = calc_retransmit_timeout retries self
      in if cms < t then (cms, self) else calc_retransmit_timeout retries self)"

section \<open>Deleting and renumbering\<close>

definition smcp_internal_delete_transaction :: "smcp_env \<Rightarrow> addr \<Rightarrow> smcp_s \<Rightarrow> smcp_s option" where
  "smcp_internal_delete_transaction env handler self = do {
     self \<leftarrow> invalidate_timer env handler self;
     let self = set_trans handler (\<lambda>tr. tr\<lparr>active := False\<rparr>) self;
     case callback (trans self handler) of
       None \<Rightarrow> Some self
     | Some f \<Rightarrow> map_option snd
         (env_response env f SMCP_STATUS_TRANSACTION_INVALIDATED (tr_context (trans self handler)) self)
   }"

text \<open>Insertion and removal in the tree of transactions, with the delete function.\<close>

definition insert_transaction :: "smcp_env \<Rightarrow> addr \<Rightarrow> smcp_s \<Rightarrow> smcp_s option" where
  "insert_transaction env handler self = do {
     (_, h, replaced) \<leftarrow>
       bt_insert (\<lambda>lhs. smcp_transaction_compare (trans self) lhs handler) handler (transactions self);
     let self = self\<lparr>transactions := h\<rparr>;
     case replaced of None \<Rightarrow> Some self | Some old \<Rightarrow> smcp_internal_delete_transaction env old self
   }"

definition remove_transaction :: "smcp_env \<Rightarrow> bool \<Rightarrow> addr \<Rightarrow> smcp_s \<Rightarrow> smcp_s option" where
  "remove_transaction env delete handler self = do {
     (_, h, removed) \<leftarrow>
       bt_remove (\<lambda>lhs. smcp_transaction_compare (trans self) lhs handler) (transactions self);
     let self = self\<lparr>transactions := h\<rparr>;
     case removed of
       None \<Rightarrow> Some self
     | Some old \<Rightarrow> if delete then smcp_internal_delete_transaction env old self else Some self
   }"

text \<open>\<^verbatim>\<open>smcp_transaction_new_msg_id\<close> asserts that the new identifier is not in use.\<close>

definition smcp_transaction_new_msg_id :: "smcp_env \<Rightarrow> addr \<Rightarrow> u16 \<Rightarrow> smcp_s \<Rightarrow> smcp_s option" where
  "smcp_transaction_new_msg_id env handler mid self =
     (if \<not> active (trans self handler) then Some self
      else do {
        self \<leftarrow> remove_transaction env False handler self;
        found \<leftarrow> smcp_transaction_find_via_msg_id self mid;
        if found \<noteq> None then None
        else insert_transaction env handler (set_trans handler (\<lambda>tr. tr\<lparr>msg_id := mid\<rparr>) self)
      })"

definition smcp_transaction_end :: "smcp_env \<Rightarrow> addr \<Rightarrow> smcp_s \<Rightarrow> (smcp_status_t \<times> smcp_s) option" where
  "smcp_transaction_end env transaction self = do {
     let self = (if current_transaction self = Some transaction then self\<lparr>current_transaction := None\<rparr> else self);
     self \<leftarrow> (if active (trans self transaction)
              then remove_transaction env True transaction (set_trans transaction (\<lambda>tr. tr\<lparr>active := False\<rparr>) self)
              else Some self);
     Some (SMCP_STATUS_OK, self)
   }"

section \<open>Timeouts\<close>

definition SMCP_TRANSACTION_MAX_ATTEMPTS :: "4 word" where "SMCP_TRANSACTION_MAX_ATTEMPTS = 15"
definition SMCP_OBSERVATION_KEEPALIVE_INTERVAL :: int where "SMCP_OBSERVATION_KEEPALIVE_INTERVAL = 45 * MSEC_PER_SEC"
definition SMCP_OBSERVATION_DEFAULT_MAX_AGE :: int where "SMCP_OBSERVATION_DEFAULT_MAX_AGE = 30 * MSEC_PER_SEC"
definition CMS_DISTANT_FUTURE :: int where "CMS_DISTANT_FUTURE = 2 ^ 31 - 1"

text \<open>A transaction with keep-alives waits no longer than the keep-alive interval.\<close>

definition keepalive_cap :: "u8 \<Rightarrow> int \<Rightarrow> int" where
  "keepalive_cap f cms =
     (if has_flag f SMCP_TRANSACTION_KEEPALIVE \<and> cms > SMCP_OBSERVATION_KEEPALIVE_INTERVAL
      then SMCP_OBSERVATION_KEEPALIVE_INTERVAL else cms)"

text \<open>The branch of \<^verbatim>\<open>smcp_internal_transaction_timeout_\<close> for a transaction that has time left.\<close>

definition transaction_resend :: "smcp_env \<Rightarrow> addr \<Rightarrow> int \<Rightarrow> smcp_s \<Rightarrow> (smcp_status_t \<times> smcp_s) option" where
  "transaction_resend env handler cms self = do {
     let tr = trans self handler;
     let cms = keepalive_cap (flags tr) cms;
     let cms = (if cms \<le> 0 then 0 else cms);
     let status = (if attemptCount tr = 0 \<and> waiting_for_async_response tr \<and>
                      \<not> has_flag (flags tr) SMCP_TRANSACTION_KEEPALIVE
                   then SMCP_STATUS_OK else SMCP_STATUS_TIMEOUT);
     (status, cms, self) \<leftarrow>
       (case resendCallback tr of
          Some f \<Rightarrow>
            if status = SMCP_STATUS_TIMEOUT then do {
              let self = set_outbound (\<lambda>out. out\<lparr>next_tid := msg_id tr\<rparr>) self;
              (status, self) \<leftarrow> env_resend env f (tr_context tr)
                (self\<lparr>is_processing_message := False, is_responding := False, did_respond := False\<rparr>);
              if status = SMCP_STATUS_OK then do {
                let (cms, self) = min_retransmit_timeout cms (unat (attemptCount (trans self handler))) self;
                let self = (if attemptCount (trans self handler) \<noteq> SMCP_TRANSACTION_MAX_ATTEMPTS
                            then set_trans handler (\<lambda>tr. tr\<lparr>attemptCount := attemptCount tr + 1\<rparr>) self
                            else self);
                Some (status, cms, self)
              }
              else if status = SMCP_STATUS_WAIT_FOR_DNS then Some (SMCP_STATUS_OK, 100, self)
              else Some (status, cms, self)
            }
            else Some (status, cms, set_trans handler (\<lambda>tr. tr\<lparr>attemptCount :=
                   attemptCount tr + (if attemptCount tr = 0 then 1 else 0)\<rparr>) self)
        | None \<Rightarrow> Some (status, cms, set_trans handler (\<lambda>tr. tr\<lparr>attemptCount :=
                   attemptCount tr + (if attemptCount tr = 0 then 1 else 0)\<rparr>) self));
     (_, self) \<leftarrow> schedule_timer env handler cms self;
     Some (status, self)
   }"

text \<open>The branch for an observing transaction whose maximum age has passed.\<close>

definition transaction_restart :: "smcp_env \<Rightarrow> addr \<Rightarrow> int \<Rightarrow> smcp_s \<Rightarrow> (smcp_status_t \<times> smcp_s) option" where
  "transaction_restart env handler cms self = do {
     let self = set_trans handler (\<lambda>tr. tr\<lparr>waiting_for_async_response := False, attemptCount := 0,
                                            last_observe := 0, next_block2 := 0\<rparr>) self;
     let (mid, self) = smcp_get_next_msg_id self;
     self \<leftarrow> smcp_transaction_new_msg_id env handler mid self;
     let self = set_trans handler (\<lambda>tr. tr\<lparr>expiration :=
                  convert_cms_to_timeval (env_now env) SMCP_OBSERVATION_DEFAULT_MAX_AGE\<rparr>) self;
     let tr = trans self handler;
     let (cms, self) =
       (if resendCallback tr \<noteq> None
        then if has_flag (flags tr) SMCP_TRANSACTION_DELAY_START
             then let (r, self) = draw_random self in (10 + uint (r mod 290), self)
             else (0, self)
        else (cms, self));
     schedule_timer env handler (keepalive_cap (flags tr) cms) self
   }"

definition smcp_internal_transaction_timeout :: "smcp_env \<Rightarrow> addr \<Rightarrow> smcp_s \<Rightarrow> smcp_s option" where
  "smcp_internal_transaction_timeout env handler self = do {
     let context = tr_context (trans self handler);
     let cms = convert_timeval_to_cms (env_now env) (expiration (trans self handler));
     let self = self\<lparr>current_transaction := Some handler\<rparr>;
     (status, self) \<leftarrow>
       (if cms > 0 \<or> attemptCount (trans self handler) = 0 then transaction_resend env handler cms self
        else if has_flag (flags (trans self handler)) SMCP_TRANSACTION_OBSERVE
        then transaction_restart env handler cms self
        else Some (SMCP_STATUS_TIMEOUT, self));
     if status = SMCP_STATUS_OK then Some (self\<lparr>current_transaction := None\<rparr>)
     else do {
       let cb = callback (trans self handler);
       let f = flags (trans self handler);
       let self = (if \<not> has_flag f SMCP_TRANSACTION_ALWAYS_INVALIDATE \<and> \<not> has_flag f SMCP_TRANSACTION_NO_AUTO_END
                   then set_trans handler (\<lambda>tr. tr\<lparr>callback := None\<rparr>) self else self);
       self \<leftarrow> (case cb of None \<Rightarrow> Some self | Some g \<Rightarrow> map_option snd (env_response env g status context self));
       if current_transaction self \<noteq> Some handler then Some self
       else do {
         self \<leftarrow> (if has_flag (flags (trans self handler)) SMCP_TRANSACTION_NO_AUTO_END then Some self
                  else map_option snd (smcp_transaction_end env handler self));
         Some (self\<lparr>current_transaction := None\<rparr>)
       }
     }
   }"

section \<open>Beginning a transaction\<close>

definition smcp_transaction_init ::
    "addr \<Rightarrow> bool \<Rightarrow> int \<Rightarrow> fn option \<Rightarrow> fn option \<Rightarrow> addr option \<Rightarrow> smcp_s \<Rightarrow> smcp_s" where
  "smcp_transaction_init handler allocated tflags resend cb context self =
     (let h = transactions self;
          h = bt_set_parent handler None (bt_put (Rhs handler) None (bt_put (Lhs handler) None h))
      in self\<lparr>transactions := h,
              timer_state := smcp_timer_init handler None None None (timer_state self),
              trans := (trans self)(handler := zero_transaction\<lparr>should_dealloc := allocated,
                resendCallback := resend, callback := cb, tr_context := context, flags := word_of_int tflags\<rparr>)\<rparr>)"

definition smcp_transaction_tickle :: "smcp_env \<Rightarrow> addr \<Rightarrow> smcp_s \<Rightarrow> (smcp_status_t \<times> smcp_s) option" where
  "smcp_transaction_tickle env handler self = do {
     self \<leftarrow> invalidate_timer env handler self;
     (_, self) \<leftarrow> schedule_timer env handler 0 self;
     Some (SMCP_STATUS_OK, self)
   }"

text \<open>\<^verbatim>\<open>COAP_EXCHANGE_LIFETIME * MSEC_PER_SEC\<close>, which is 271.25 seconds.\<close>

definition COAP_EXCHANGE_LIFETIME_cms :: int where "COAP_EXCHANGE_LIFETIME_cms = 271250"

definition smcp_transaction_begin :: "smcp_env \<Rightarrow> addr option \<Rightarrow> int \<Rightarrow> smcp_s \<Rightarrow> (smcp_status_t \<times> smcp_s) option" where
  "smcp_transaction_begin env transaction expiry self =
     (case transaction of
        None \<Rightarrow> Some (SMCP_STATUS_OK, self)
      | Some handler \<Rightarrow> do {
          self \<leftarrow> remove_transaction env False handler self;
          let expiry = (if expiry < 0 then COAP_EXCHANGE_LIFETIME_cms else expiry);
          let (mid, self) = smcp_get_next_msg_id self;
          let self = set_trans handler (\<lambda>tr. tr\<lparr>token := mid, msg_id := mid, waiting_for_async_response := False,
                       attemptCount := 0, last_observe := 0, next_block2 := 0, active := True,
                       expiration := convert_cms_to_timeval (env_now env) expiry\<rparr>) self;
          let tr = trans self handler;
          let (expiry, self) =
            (if resendCallback tr \<noteq> None
             then if has_flag (flags tr) SMCP_TRANSACTION_DELAY_START
                  then let (r, self) = draw_random self in (10 + uint (r mod 5000), self)
                  else (0, self)
             else (expiry, self));
          let self = self\<lparr>timer_state :=
            smcp_timer_init handler (Some Transaction_timeout) None (Some handler) (timer_state self)\<rparr>;
          (_, self) \<leftarrow> schedule_timer env handler (keepalive_cap (flags tr) expiry) self;
          self \<leftarrow> insert_transaction env handler self;
          Some (SMCP_STATUS_OK, self)
        })"

end
