(* ===== verification/Response.thy ===== *)
theory Response
  imports Transaction
begin

text \<open>
  Matching an inbound response with its transaction and handling it: \<^verbatim>\<open>smcp_handle_response\<close> of
  \<^verbatim>\<open>src/smcp/smcp-transaction.c\<close>, and \<^verbatim>\<open>smcp_auth_inbound_init\<close> of \<^verbatim>\<open>src/smcp/smcp-auth.c\<close>.
\<close>

section \<open>Authentication of inbound messages\<close>

function scan_to_end :: "smcp_s \<Rightarrow> smcp_s option" where
  "scan_to_end self =
     (case smcp_inbound_next_option self of
        None \<Rightarrow> None
      | Some ((key, _), self') \<Rightarrow> if key = COAP_OPTION_INVALID then Some self' else scan_to_end self')"
  by pat_completeness auto
termination
  by (relation "measure scan_left") (auto dest: next_option_progress)

declare scan_to_end.simps [simp del]

text \<open>Every request is accepted; the scan over its options has no effect on the result.\<close>

definition smcp_auth_inbound_init :: "smcp_s \<Rightarrow> (smcp_status_t \<times> smcp_s) option" where
  "smcp_auth_inbound_init self = do {
     code \<leftarrow> smcp_inbound_get_code self;
     self \<leftarrow> (if COAP_CODE_IS_REQUEST (ucast code)
              then Option.bind (smcp_inbound_reset_next_option self) scan_to_end
              else Some self);
     Some (SMCP_STATUS_OK, self)
   }"

section \<open>Matching\<close>

definition word_of_bytes :: "u8 list \<Rightarrow> u16" where
  "word_of_bytes bs = ucast (bs ! 0) + push_bit 8 (ucast (bs ! 1))"

definition response_transaction :: "smcp_s \<Rightarrow> addr option option" where
  "response_transaction self = do {
     packet \<leftarrow> in_packet (inbound self);
     mid \<leftarrow> packet_msg_id packet;
     token_len \<leftarrow> packet_token_len packet;
     code \<leftarrow> packet_code packet;
     tt \<leftarrow> packet_tt packet;
     tok \<leftarrow> (if token_len = 2 then map_option word_of_bytes (mem_read_n packet 4 2) else Some 0);
     found \<leftarrow> smcp_transaction_find_via_msg_id self mid;
     found \<leftarrow>
       (case found of
          None \<Rightarrow> if tt < COAP_TRANS_TYPE_ACK then smcp_transaction_find_via_token self tok else Some None
        | Some t \<Rightarrow> Some (if code \<noteq> ucast COAP_CODE_EMPTY \<and> tok \<noteq> token (trans self t) then None else Some t));
     Some (case found of
             None \<Rightarrow> None
           | Some t \<Rightarrow>
               if \<not> multicast (trans self t) \<and>
                  (smcp_addr (tr_saddr (trans self t)) \<noteq> smcp_addr (in_saddr (inbound self)) \<or>
                   smcp_port (tr_saddr (trans self t)) \<noteq> smcp_port (in_saddr (inbound self)))
               then None else Some t)
   }"

section \<open>Handling\<close>

text \<open>The status code that the callback gets.\<close>

definition response_status :: "smcp_s \<Rightarrow> int option" where
  "response_status self = do {
     packet \<leftarrow> in_packet (inbound self);
     tt \<leftarrow> packet_tt packet;
     code \<leftarrow> packet_code packet;
     Some (if tt = COAP_TRANS_TYPE_RESET then SMCP_STATUS_RESET else uint code)
   }"

definition max_age_cms :: "smcp_s \<Rightarrow> int" where
  "max_age_cms self = to_cms (sint (max_age (inbound self)) * MSEC_PER_SEC)"

text \<open>Waiting for the next notification, shared by the two branches for observing transactions.\<close>

definition observe_wait :: "smcp_env \<Rightarrow> addr \<Rightarrow> int \<Rightarrow> smcp_s \<Rightarrow> smcp_s option" where
  "observe_wait env handler cms self = do {
     self \<leftarrow> invalidate_timer env handler self;
     let cms = (if cms = 0
                then if has_observe_option (inbound self) then CMS_DISTANT_FUTURE else SMCP_OBSERVATION_DEFAULT_MAX_AGE
                else cms);
     let self = set_trans handler (\<lambda>tr. tr\<lparr>expiration := convert_cms_to_timeval (env_now env) cms\<rparr>) self;
     (_, self) \<leftarrow> schedule_timer env handler (keepalive_cap (flags (trans self handler)) cms) self;
     Some self
   }"

definition stale_observation :: "smcp_s \<Rightarrow> addr \<Rightarrow> bool" where
  "stale_observation self handler \<longleftrightarrow>
     observe_value (inbound self) \<le> last_observe (trans self handler) \<and>
     last_observe (trans self handler) - observe_value (inbound self) > 0x7FFFFF"

text \<open>
  The branches return the status, the transaction if it is still to be ended on an error, and
  the state. \<open>mid\<close> is the message identifier that the transaction had before its callback ran.
\<close>

definition handle_notification ::
    "smcp_env \<Rightarrow> addr \<Rightarrow> fn \<Rightarrow> u16 \<Rightarrow> smcp_s \<Rightarrow> (smcp_status_t \<times> addr option \<times> smcp_s) option" where
  "handle_notification env handler cb mid self = do {
     let cms = max_age_cms self;
     if stale_observation self handler then Some (SMCP_STATUS_DUPE, Some handler, self)
     else do {
       let self = set_trans handler (\<lambda>tr. tr\<lparr>last_observe := observe_value (inbound self)\<rparr>) self;
       status \<leftarrow> response_status self;
       (ret, self) \<leftarrow> env_response env cb status (tr_context (trans self handler)) self;
       if current_transaction self = None then Some (ret, None, self)
       else if mid \<noteq> msg_id (trans self handler) then Some (ret, None, self)
       else do {
         let self = set_trans handler (\<lambda>tr. tr\<lparr>attemptCount := 0, waiting_for_async_response :=
                      (has_observe_option (inbound self) \<or> waiting_for_async_response tr)\<rparr>) self;
         let self = self\<lparr>timer_state := (timer_state self)\<lparr>t_cancel := (t_cancel (timer_state self))(handler := None)\<rparr>\<rparr>;
         self \<leftarrow> observe_wait env handler cms self;
         Some (ret, Some handler, self)
       }
     }
   }"

definition handle_plain_response ::
    "smcp_env \<Rightarrow> addr \<Rightarrow> fn \<Rightarrow> u16 \<Rightarrow> smcp_s \<Rightarrow> (smcp_status_t \<times> addr option \<times> smcp_s) option" where
  "handle_plain_response env handler cb mid self = do {
     let f = flags (trans self handler);
     let self = (if \<not> has_flag f SMCP_TRANSACTION_ALWAYS_INVALIDATE \<and> \<not> has_flag f SMCP_TRANSACTION_OBSERVE
                 then set_trans handler (\<lambda>tr. tr\<lparr>callback := None\<rparr>) self else self);
     status \<leftarrow> response_status self;
     (ret, self) \<leftarrow> env_response env cb status (tr_context (trans self handler)) self;
     if current_transaction self \<noteq> Some handler then Some (ret, None, self)
     else do {
       let self = set_trans handler (\<lambda>tr. tr\<lparr>attemptCount := 0, waiting_for_async_response := False\<rparr>) self;
       let tr = trans self handler;
       if active tr \<and> mid = msg_id tr then
         if ret = SMCP_STATUS_OK \<and> bit (block2_value (inbound self)) 3 \<and>
            has_flag (flags tr) SMCP_TRANSACTION_ALWAYS_INVALIDATE then do {
           let self = set_trans handler (\<lambda>tr. tr\<lparr>next_block2 := block2_value (inbound self) + 16\<rparr>) self;
           let (new_id, self) = smcp_get_next_msg_id self;
           self \<leftarrow> smcp_transaction_new_msg_id env handler new_id self;
           self \<leftarrow> invalidate_timer env handler self;
           (_, self) \<leftarrow> schedule_timer env handler 0 self;
           Some (ret, Some handler, self)
         }
         else if ret = SMCP_STATUS_OK \<and> has_flag (flags tr) SMCP_TRANSACTION_OBSERVE then do {
           let self = set_trans handler (\<lambda>tr. tr\<lparr>next_block2 := 0\<rparr>) self;
           self \<leftarrow> observe_wait env handler (max_age_cms self) self;
           Some (ret, Some handler, self)
         }
         else do {
           let self = set_trans handler (\<lambda>tr. tr\<lparr>resendCallback := None\<rparr>) self;
           self \<leftarrow> (if has_flag (flags tr) SMCP_TRANSACTION_NO_AUTO_END then Some self
                    else map_option snd (smcp_transaction_end env handler self));
           Some (ret, None, self)
         }
       else Some (ret, Some handler, self)
     }
   }"

text \<open>A response that no transaction waits for: answered with a reset, unless it is an ACK or a reset.\<close>

definition handle_unknown_response :: "smcp_env \<Rightarrow> smcp_s \<Rightarrow> (smcp_status_t \<times> smcp_s) option" where
  "handle_unknown_response env self = do {
     packet \<leftarrow> in_packet (inbound self);
     tt \<leftarrow> packet_tt packet;
     if tt \<le> COAP_TRANS_TYPE_NONCONFIRMABLE then do {
       (_, self) \<leftarrow> smcp_outbound_begin_response 0 self;
       self \<leftarrow> out_header (with_tt COAP_TRANS_TYPE_RESET) self;
       smcp_outbound_send env self
     }
     else Some (SMCP_STATUS_OK, self)
   }"

definition smcp_handle_response :: "smcp_env \<Rightarrow> smcp_s \<Rightarrow> (smcp_status_t \<times> smcp_s) option" where
  "smcp_handle_response env self = do {
     packet \<leftarrow> in_packet (inbound self);
     tt \<leftarrow> packet_tt packet;
     code \<leftarrow> packet_code packet;
     found \<leftarrow> response_transaction self;
     let self = self\<lparr>current_transaction := found\<rparr>;
     case found of
       None \<Rightarrow> handle_unknown_response env self
     | Some handler \<Rightarrow>
         if (tt = COAP_TRANS_TYPE_ACK \<or> tt = COAP_TRANS_TYPE_NONCONFIRMABLE) \<and>
            code = ucast COAP_CODE_EMPTY \<and> sent_code (trans self handler) < COAP_RESULT_100
         then Some (SMCP_STATUS_OK, set_trans handler (\<lambda>tr. tr\<lparr>waiting_for_async_response := True\<rparr>) self)
         else (case callback (trans self handler) of
           None \<Rightarrow> Some (SMCP_STATUS_OK, self)
         | Some cb \<Rightarrow> do {
             let mid = msg_id (trans self handler);
             (ret, self) \<leftarrow> smcp_auth_inbound_init self;
             (ret, left, self) \<leftarrow>
               (if ret \<noteq> SMCP_STATUS_OK then Some (ret, Some handler, self)
                else do {
                  self \<leftarrow> smcp_inbound_reset_next_option self;
                  if has_flag (flags (trans self handler)) SMCP_TRANSACTION_OBSERVE \<and> has_observe_option (inbound self)
                  then handle_notification env handler cb mid self
                  else handle_plain_response env handler cb mid self
                });
             case left of
               None \<Rightarrow> Some (ret, self)
             | Some h \<Rightarrow>
                 if ret \<noteq> SMCP_STATUS_OK \<and> \<not> has_flag (flags (trans self h)) SMCP_TRANSACTION_NO_AUTO_END
                 then map_option (\<lambda>r. (ret, snd r)) (smcp_transaction_end env h self)
                 else Some (ret, self)
           })
   }"

end
