(* ===== verification/Outbound_Uri.thy ===== *)
theory Outbound_Uri
  imports Outbound
begin

text \<open>
  The destination of an outbound packet: host lookup, and \<^verbatim>\<open>smcp_outbound_set_uri\<close>, which parses a copy
  of the URI in place and adds the options for its authority, path and query.
\<close>

section \<open>Credentials\<close>

definition strncpy_bytes :: "nat \<Rightarrow> u8 list \<Rightarrow> u8 list" where
  "strncpy_bytes n s = take n (takeWhile (\<lambda>b. b \<noteq> 0) s @ replicate n 0)"

definition smcp_auth_user_set ::
    "u8 list \<Rightarrow> u8 list \<Rightarrow> u8 list \<Rightarrow> smcp_auth_user_s \<Rightarrow> smcp_auth_user_s option" where
  "smcp_auth_user_set name password realm auth_user = do {
     let user = strncpy_bytes 15 name @ drop 15 (username auth_user);
     n \<leftarrow> strlen user;
     s \<leftarrow> fasthash_feed (fasthash_start 0) user (word_of_nat n);
     let s = fasthash_feed_byte s (word_of_nat (char_code (CHR '':'')));
     n \<leftarrow> strlen realm;
     s \<leftarrow> fasthash_feed s realm (word_of_nat n);
     let s = fasthash_feed_byte s (word_of_nat (char_code (CHR '':'')));
     n \<leftarrow> strlen password;
     s \<leftarrow> fasthash_feed s password (word_of_nat n);
     Some \<lparr>username = user, ha1 = fst (fasthash_finish s)\<rparr>
   }"

text \<open>No user is ever found, so that the credentials always go to the global variable.\<close>

definition smcp_auth_outbound_set_credentials ::
    "u8 list \<Rightarrow> u8 list option \<Rightarrow> smcp_s \<Rightarrow> (smcp_status_t \<times> smcp_s) option" where
  "smcp_auth_outbound_set_credentials name password self = do {
     (ret, self) \<leftarrow> smcp_outbound_add_option COAP_OPTION_AUTHENTICATE [] 0 self;
     case password of
       None \<Rightarrow> Some (ret, self)
     | Some pw \<Rightarrow> do {
         u \<leftarrow> smcp_auth_user_set name pw [0] (global_temp_auth_user self);
         Some (ret, self\<lparr>global_temp_auth_user := u\<rparr>)
       }
   }"

section \<open>Hosts\<close>

definition htons_bytes :: "u16 \<Rightarrow> u8 list" where
  "htons_bytes port = [ucast (drop_bit 8 port), ucast port]"

definition smcp_outbound_set_destaddr_from_host_and_port ::
    "smcp_env \<Rightarrow> string \<Rightarrow> u16 \<Rightarrow> smcp_s \<Rightarrow> (smcp_status_t \<times> smcp_s) option" where
  "smcp_outbound_set_destaddr_from_host_and_port env addr_str toport self = do {
     let addr_str = (if strcaseequal addr_str ''coap-alldevices'' then ''FF02::FD'' else addr_str);
     let (ret, saddr) = env_lookup env addr_str;
     if ret \<noteq> SMCP_STATUS_OK then Some (ret, self)
     else do {
       let saddr = take 2 saddr @ htons_bytes toport @ drop 4 saddr;
       let (ret, self) = smcp_outbound_set_destaddr saddr self;
       if SMCP_IS_ADDR_MULTICAST (smcp_addr saddr) then do {
         mem \<leftarrow> out_bytes self;
         tt \<leftarrow> packet_tt mem;
         self \<leftarrow> (if tt = COAP_TRANS_TYPE_CONFIRMABLE then out_header (with_tt COAP_TRANS_TYPE_NONCONFIRMABLE) self
                  else Some self);
         Some (ret, self)
       }
       else Some (ret, self)
     }
   }"

section \<open>The components of a URI\<close>

definition cstr_at :: "string \<Rightarrow> nat \<Rightarrow> string option" where
  "cstr_at mem p =
     (if NUL \<in> set (drop p mem) then Some (takeWhile (\<lambda>c. c \<noteq> NUL) (drop p mem)) else None)"

definition cstr_bytes :: "string \<Rightarrow> u8 list" where
  "cstr_bytes s = string_bytes s @ [0]"

text \<open>Every token that is taken off the path or the query shortens what is left.\<close>

lemma scan_loop_mono: "scan_loop stops mem p n = Some (p', n') \<Longrightarrow> p \<le> p' \<and> p' < length mem"
proof (induction stops mem p n rule: scan_loop.induct)
  case (1 stops mem p n)
  then show ?case
    by (subst (asm) (2) scan_loop.simps) (auto simp: mem_read_Some split: Option.bind_splits if_splits)
qed

lemma url_decode_loop_length: "url_decode_loop mem d s m r = Some (mem', n) \<Longrightarrow> length mem' = length mem"
proof (induction mem d s m r rule: url_decode_loop.induct)
  case (1 mem d s m r)
  then show ?case
    by (subst (asm) (2) url_decode_loop.simps)
      (auto simp: Let_def mem_write_length split: Option.bind_splits if_splits prod.splits option.splits)
qed

lemma decode_inplace_length: "url_decode_cstr_inplace mem p = Some mem' \<Longrightarrow> length mem' = length mem"
  by (auto simp: url_decode_cstr_inplace_def url_decode_cstr_def mem_write_length
      dest: url_decode_loop_length split: Option.bind_splits if_splits)

lemma cut_at_progress:
  "cut_at mem p n = Some (mem', p', n') \<Longrightarrow>
   length mem' = length mem \<and> p \<le> p' \<and> (mem_read mem p \<noteq> Some NUL \<longrightarrow> p < p')"
  by (auto simp: cut_at_def mem_write_length split: Option.bind_splits if_splits)

lemma path_component_progress:
  assumes "url_path_next_component mem p = Some (mem', p', c, n)" "n \<noteq> 0"
  shows "length mem' - p' < length mem - p"
proof -
  obtain x q k m where x: "mem_read mem p = Some x" "x \<noteq> NUL" "scan_loop {CHR ''/''} mem p 0 = Some (q, k)"
      "cut_at mem q k = Some (m, p', n)" "url_decode_cstr_inplace m p = Some mem'"
    using assms by (auto simp: url_path_next_component_def split: Option.bind_splits if_splits)
  have "p \<le> q" using scan_loop_mono [OF x(3)] by simp
  then have "p < p'"
    using cut_at_progress [OF x(4)] x(1,2) by (cases "q = p") auto
  then show ?thesis
    using cut_at_progress [OF x(4)] decode_inplace_length [OF x(5)] x(1) by (auto simp: mem_read_Some)
qed

lemma form_key_loop_progress:
  "form_key_loop mem p n = Some (mem', p', n', b) \<Longrightarrow>
   length mem' = length mem \<and> p \<le> p' \<and> (mem_read mem p \<noteq> Some NUL \<longrightarrow> p < p' \<or> b)"
proof (induction mem p n rule: form_key_loop.induct)
  case (1 mem p n)
  then show ?case
    by (subst (asm) (2) form_key_loop.simps)
      (fastforce simp: mem_write_length mem_read_Some split: Option.bind_splits if_splits)
qed

lemma form_value_progress:
  assumes "url_form_next_value mem p w = Some (mem', t)" "ft_bytes t \<noteq> 0"
  shows "length mem' - ft_rest t < length mem - p"
proof -
  obtain x m q k b where x: "mem_read mem p = Some x" "x \<noteq> NUL" "form_key_loop mem p 0 = Some (m, q, k, b)"
    using assms by (auto simp: url_form_next_value_def split: Option.bind_splits if_splits)
  have q: "length m = length mem" "p \<le> q" "p < q \<or> b" using form_key_loop_progress [OF x(3)] x(1,2) by auto
  have "length mem' = length mem \<and> p < ft_rest t"
  proof (cases b)
    case False
    then show ?thesis using assms(1) x q by (auto simp: url_form_next_value_def)
  next
    case True
    then obtain m1 q1 k1 m2 q2 k2 where r: "length m1 = length m" "scan_loop {CHR '';'', CHR ''&''} m1 (q + 1) (k + 1) = Some (q1, k1)"
        "cut_at m1 q1 k1 = Some (m2, q2, k2)" "url_decode_cstr_inplace m2 (q + 1) = Some mem'" "ft_rest t = q2"
      using assms(1) x
      by (auto simp: url_form_next_value_def dest!: mem_write_length split: Option.bind_splits if_splits)
    then show ?thesis
      using q scan_loop_mono [OF r(2)] cut_at_progress [OF r(3)] decode_inplace_length [OF r(4)] by auto
  qed
  then show ?thesis using x(1) by (auto simp: mem_read_Some)
qed

section \<open>Setting the URI\<close>

function add_path_options :: "string \<Rightarrow> nat \<Rightarrow> smcp_s \<Rightarrow> (smcp_status_t \<times> smcp_s) option" where
  "add_path_options mem path self =
     (case url_path_next_component mem path of
        None \<Rightarrow> None
      | Some (mem', path', component, n) \<Rightarrow>
          if n = 0 then Some (SMCP_STATUS_OK, self)
          else do {
            component \<leftarrow> component;
            str \<leftarrow> cstr_at mem' component;
            (ret, self) \<leftarrow> smcp_outbound_add_option COAP_OPTION_URI_PATH (cstr_bytes str) SMCP_CSTR_LEN self;
            if ret \<noteq> SMCP_STATUS_OK then Some (ret, self) else add_path_options mem' path' self
          })"
  by pat_completeness auto
termination
  by (relation "measure (\<lambda>(mem, p, _). length mem - p)") (auto dest: path_component_progress)

declare add_path_options.simps [simp del]

function add_query_options :: "string \<Rightarrow> nat \<Rightarrow> smcp_s \<Rightarrow> (smcp_status_t \<times> smcp_s) option" where
  "add_query_options mem query self =
     (case url_form_next_value mem query False of
        None \<Rightarrow> None
      | Some (mem', t) \<Rightarrow>
          if ft_bytes t = 0 then Some (SMCP_STATUS_OK, self)
          else do {
            key \<leftarrow> ft_key t;
            str \<leftarrow> cstr_at mem' key;
            let len = (word_of_nat (length str) :: u16);
            (ret, self) \<leftarrow>
              (if len \<noteq> 0 then smcp_outbound_add_option COAP_OPTION_URI_QUERY (cstr_bytes str) len self
               else Some (SMCP_STATUS_OK, self));
            if ret \<noteq> SMCP_STATUS_OK then Some (ret, self) else add_query_options mem' (ft_rest t) self
          })"
  by pat_completeness auto
termination
  by (relation "measure (\<lambda>(mem, p, _). length mem - p)") (auto dest: form_value_progress)

declare add_query_options.simps [simp del]

text \<open>An optional step of \<^verbatim>\<open>smcp_outbound_set_uri\<close>, and the sequence of steps up to the first error.\<close>

type_synonym step = "smcp_s \<Rightarrow> (smcp_status_t \<times> smcp_s) option"

fun steps :: "step list \<Rightarrow> step" where
  "steps [] self = Some (SMCP_STATUS_OK, self)"
| "steps (f # fs) self = do {
     (ret, self) \<leftarrow> f self;
     if ret \<noteq> SMCP_STATUS_OK then Some (ret, self) else steps fs self
   }"

definition step_if :: "bool \<Rightarrow> step \<Rightarrow> step" where
  "step_if c f self = (if c then f self else Some (SMCP_STATUS_OK, self))"

definition add_path :: "string \<Rightarrow> nat \<Rightarrow> step" where
  "add_path mem path self = do {
     str \<leftarrow> cstr_at mem path;
     let has_trailing_slash = (str \<noteq> [] \<and> last str = CHR ''/'');
     start \<leftarrow> skip_while (\<lambda>c. c = CHR ''/'') mem path;
     steps [add_path_options mem start,
            step_if has_trailing_slash (smcp_outbound_add_option COAP_OPTION_URI_PATH [] 0)] self
   }"

text \<open>
  The parts of the parsed URI. A relative reference talks to the instance itself. The query is
  read after the path was cut and decoded in place, which does not touch it.
\<close>

record uri_parts =
  up_protocol :: "string option"
  up_host :: "string option"
  up_port :: "string option"
  up_toport :: u16
  up_username :: "string option"
  up_password :: "string option"
  up_skip_authority :: bool

definition uri_parts_of :: "smcp_env \<Rightarrow> string \<Rightarrow> url_components_s \<Rightarrow> bool \<Rightarrow> uri_parts option" where
  "uri_parts_of env mem c skip_authority = do {
     let str = (\<lambda>p. case p of None \<Rightarrow> Some None | Some q \<Rightarrow> map_option Some (cstr_at mem q));
     protocol \<leftarrow> str (uc_protocol c);
     host \<leftarrow> str (uc_host c);
     port \<leftarrow> str (uc_port c);
     user \<leftarrow> str (uc_username c);
     password \<leftarrow> str (uc_password c);
     Some (if uc_protocol c = None \<and> uc_host c = None
           then \<lparr>up_protocol = Some ''coap'', up_host = Some ''::1'', up_port = port, up_toport = env_port env,
                 up_username = user, up_password = password, up_skip_authority = True\<rparr>
           else \<lparr>up_protocol = protocol, up_host = host, up_port = port,
                 up_toport = (case port of None \<Rightarrow> 5683 | Some s \<Rightarrow> word_of_nat (atoi s)),
                 up_username = user, up_password = password, up_skip_authority = skip_authority\<rparr>)
   }"

text \<open>
  \<^verbatim>\<open>smcp_outbound_set_uri\<close>. \<open>is_proxy\<close> tells that the pointer \<^verbatim>\<open>uri\<close> is the proxy URL of the instance, and
  bounds the recursion. The bits of \<open>skip\<close> are \<^verbatim>\<open>SMCP_MSG_SKIP_DESTADDR\<close> and \<^verbatim>\<open>SMCP_MSG_SKIP_AUTHORITY\<close>.
\<close>

definition set_uri_options :: "smcp_env \<Rightarrow> string \<Rightarrow> url_components_s \<Rightarrow> uri_parts \<Rightarrow> bool \<Rightarrow> step" where
  "set_uri_options env mem c parts skip_destaddr =
     steps [
       step_if (\<not> up_skip_authority parts \<and>
                (case up_host parts of None \<Rightarrow> False | Some h \<Rightarrow> CHR '':'' \<notin> set h))
         (smcp_outbound_add_option COAP_OPTION_URI_HOST (cstr_bytes (the (up_host parts))) SMCP_CSTR_LEN),
       step_if (\<not> up_skip_authority parts \<and> up_port parts \<noteq> None)
         (smcp_outbound_add_option_uint COAP_OPTION_URI_PORT (ucast (up_toport parts))),
       step_if (\<not> skip_destaddr \<and> up_host parts \<noteq> None \<and> up_host parts \<noteq> Some [])
         (smcp_outbound_set_destaddr_from_host_and_port env (the (up_host parts)) (up_toport parts)),
       step_if (up_username parts \<noteq> None)
         (smcp_auth_outbound_set_credentials (cstr_bytes (the (up_username parts)))
           (map_option cstr_bytes (up_password parts))),
       step_if (uc_path c \<noteq> None) (add_path mem (the (uc_path c))),
       step_if (uc_query c \<noteq> None) (add_query_options mem (the (uc_query c)))]"

function (sequential) smcp_outbound_set_uri_1 ::
    "bool \<Rightarrow> smcp_env \<Rightarrow> string option \<Rightarrow> u8 \<Rightarrow> smcp_s \<Rightarrow> (smcp_status_t \<times> smcp_s) option" where
  "smcp_outbound_set_uri_1 is_proxy env None skip self = Some (SMCP_STATUS_INVALID_ARGUMENT, self)"
| "smcp_outbound_set_uri_1 is_proxy env (Some uri) skip self =
     (case url_parse (uri @ [NUL]) 0 no_components of
        None \<Rightarrow> None
      | Some (mem, n, c) \<Rightarrow>
          if n = 0 then Some (SMCP_STATUS_URI_PARSE_FAILURE, self)
          else case uri_parts_of env mem c (bit skip 1) of
                 None \<Rightarrow> None
               | Some parts \<Rightarrow>
                   if up_protocol parts = Some ''coaps'' then Some (smcp_auth_outbound_use_dtls, self)
                   else if up_protocol parts \<noteq> None \<and> up_protocol parts \<noteq> Some ''coap''
                   then if proxy_url self = None \<or> is_proxy then Some (SMCP_STATUS_INVALID_ARGUMENT, self)
                        else case smcp_outbound_add_option COAP_OPTION_PROXY_URI (cstr_bytes uri) SMCP_CSTR_LEN self of
                               None \<Rightarrow> None
                             | Some (ret, self') \<Rightarrow>
                                 if ret \<noteq> SMCP_STATUS_OK then Some (ret, self')
                                 else smcp_outbound_set_uri_1 True env (proxy_url self') skip self'
                   else set_uri_options env mem c parts (bit skip 0) self)"
  by pat_completeness auto
termination
  by (relation "measure (\<lambda>(p, _). if p then 0 else 1)") auto

declare smcp_outbound_set_uri_1.simps [simp del]

definition smcp_outbound_set_uri :: "smcp_env \<Rightarrow> string option \<Rightarrow> u8 \<Rightarrow> smcp_s \<Rightarrow> (smcp_status_t \<times> smcp_s) option" where
  "smcp_outbound_set_uri env uri skip self = smcp_outbound_set_uri_1 False env uri skip self"

end
