(* ===== verification/Instance.thy ===== *)
theory Instance
  imports Response Outbound_Uri
begin

text \<open>
  The instance: routing of requests (\<^verbatim>\<open>src/smcp/smcp.c\<close>), processing of an inbound packet from its
  verification to the response (second half of \<^verbatim>\<open>src/smcp/smcp-inbound.c\<close>), asynchronous responses,
  and one round of the main loop (\<^verbatim>\<open>smcp_process\<close> of \<^verbatim>\<open>src/smcp/smcp-plat-bsd.c\<close>).
\<close>

section \<open>Configuration\<close>

definition smcp_set_proxy_url :: "string option \<Rightarrow> smcp_s \<Rightarrow> smcp_s" where
  "smcp_set_proxy_url url self = self\<lparr>proxy_url := url\<rparr>"

definition smcp_set_default_request_handler :: "fn option \<Rightarrow> addr option \<Rightarrow> smcp_s \<Rightarrow> smcp_s" where
  "smcp_set_default_request_handler handler context self =
     self\<lparr>request_handler := handler, request_handler_context := context\<rparr>"

section \<open>Virtual hosts\<close>

definition SMCP_MAX_VHOSTS :: u8 where "SMCP_MAX_VHOSTS = 3"

text \<open>The name is a C string: the bytes before its terminator.\<close>

definition smcp_vhost_add :: "u8 list option \<Rightarrow> fn option \<Rightarrow> addr option \<Rightarrow> smcp_s \<Rightarrow> (smcp_status_t \<times> smcp_s) option" where
  "smcp_vhost_add name func context self =
     (if name = None \<or> name = Some [] then Some (SMCP_STATUS_INVALID_ARGUMENT, self)
      else if \<not> vhost_count self < SMCP_MAX_VHOSTS then Some (SMCP_STATUS_FAILURE, self)
      else do {
        let i = unat (vhost_count self);
        old \<leftarrow> mem_read (vhost self) i;
        vs \<leftarrow> mem_write (vhost self) i
          \<lparr>vhost_name = strncpy_bytes 63 (the name) @ drop 63 (vhost_name old),
           vhost_func = func, vhost_context = context\<rparr>;
        Some (SMCP_STATUS_OK, self\<lparr>vhost := vs, vhost_count := vhost_count self + 1\<rparr>)
      })"

text \<open>\<^verbatim>\<open>strncmp(a, b, n) == 0\<close>\<close>

fun strncmp_eq :: "u8 list \<Rightarrow> u8 list \<Rightarrow> nat \<Rightarrow> bool option" where
  "strncmp_eq a b 0 = Some True"
| "strncmp_eq (x # a) (y # b) (Suc n) =
     (if x \<noteq> y then Some False else if x = 0 then Some True else strncmp_eq a b n)"
| "strncmp_eq _ _ (Suc n) = None"

fun vhost_search :: "smcp_vhost_s list \<Rightarrow> u8 list \<Rightarrow> nat \<Rightarrow> (fn option \<times> addr option) option option" where
  "vhost_search [] val n = Some None"
| "vhost_search (v # vs) val n = do {
     eq \<leftarrow> strncmp_eq (vhost_name v) val n;
     c \<leftarrow> (if \<not> eq then mem_read (vhost_name v) n else Some 1);
     if \<not> eq \<and> c = 0 then Some (Some (vhost_func v, vhost_context v)) else vhost_search vs val n
   }"

text \<open>The scan for the host option: it returns the key it stopped at and the last value written.\<close>

function scan_to_host :: "(nat option \<times> u16) \<Rightarrow> smcp_s \<Rightarrow> (u32 \<times> (nat option \<times> u16) \<times> smcp_s) option" where
  "scan_to_host v self =
     (case smcp_inbound_next_option self of
        None \<Rightarrow> None
      | Some ((key, w), self') \<Rightarrow>
          let v' = (case w of None \<Rightarrow> v | Some u \<Rightarrow> u) in
          if key = COAP_OPTION_INVALID \<or> key \<ge> COAP_OPTION_URI_HOST then Some (key, v', self')
          else scan_to_host v' self')"
  by pat_completeness auto
termination
  by (relation "measure (scan_left \<circ> snd)") (auto dest: next_option_progress)

declare scan_to_host.simps [simp del]

definition smcp_vhost_route ::
    "(fn option \<times> addr option) \<Rightarrow> smcp_s \<Rightarrow> (smcp_status_t \<times> (fn option \<times> addr option) \<times> smcp_s) option" where
  "smcp_vhost_route target self =
     (if vhost_count self = 0 then Some (SMCP_STATUS_OK, target, self)
      else do {
        self \<leftarrow> smcp_inbound_reset_next_option self;
        (key, (val, val_len), self) \<leftarrow> scan_to_host (None, 0) self;
        if unat val_len > 63 then Some (SMCP_STATUS_INVALID_ARGUMENT, target, self)
        else if key = COAP_OPTION_URI_HOST then do {
          packet \<leftarrow> in_packet (inbound self);
          p \<leftarrow> val;
          found \<leftarrow> vhost_search (take (unat (vhost_count self)) (vhost self)) (drop p packet) (unat val_len);
          Some (SMCP_STATUS_OK, case found of None \<Rightarrow> target | Some t \<Rightarrow> t, self)
        }
        else Some (SMCP_STATUS_OK, target, self)
      })"

section \<open>Requests\<close>

definition smcp_handle_request :: "smcp_env \<Rightarrow> smcp_s \<Rightarrow> (smcp_status_t \<times> smcp_s) option" where
  "smcp_handle_request env self = do {
     let target = (request_handler self, request_handler_context self);
     (ret, self) \<leftarrow> smcp_auth_inbound_init self;
     if ret \<noteq> SMCP_STATUS_OK then Some (ret, self)
     else do {
       (_, (handler, context), self) \<leftarrow> smcp_vhost_route target self;
       case handler of
         None \<Rightarrow> Some (SMCP_STATUS_NOT_IMPLEMENTED, self)
       | Some f \<Rightarrow> do {
           self \<leftarrow> smcp_inbound_reset_next_option self;
           env_request env f context self
         }
     }
   }"

section \<open>Inbound packets\<close>

definition COAP_CONTENT_TYPE_UNKNOWN :: u16 where "COAP_CONTENT_TYPE_UNKNOWN = 65535"

definition smcp_inbound_start_packet :: "u8 list \<Rightarrow> u16 \<Rightarrow> smcp_s \<Rightarrow> (smcp_status_t \<times> smcp_s) option" where
  "smcp_inbound_start_packet buffer packet_length self = do {
     ok \<leftarrow> coap_verify_packet buffer packet_length;
     if \<not> ok then Some (SMCP_STATUS_BAD_PACKET, self)
     else do {
       buffer \<leftarrow> mem_write buffer (unat packet_length) 0;
       Some (SMCP_STATUS_OK,
         self\<lparr>inbound := zero_inbound\<lparr>in_packet := Some buffer, packet_len := packet_length,
                                        content_type := COAP_CONTENT_TYPE_UNKNOWN\<rparr>,
              is_processing_message := True, did_respond := False\<rparr>)
     }
   }"

definition smcp_inbound_set_srcaddr :: "sockaddr \<Rightarrow> smcp_s \<Rightarrow> smcp_status_t \<times> smcp_s" where
  "smcp_inbound_set_srcaddr sockaddr self =
     (if \<not> is_processing_message self then (SMCP_STATUS_FAILURE, self)
      else (SMCP_STATUS_OK, set_inbound (\<lambda>i. i\<lparr>in_saddr := sockaddr\<rparr>) self))"

text \<open>\<^verbatim>\<open>pktinfo\<close> is the destination address and a 32-bit interface index.\<close>

definition smcp_inbound_set_destaddr :: "sockaddr \<Rightarrow> smcp_s \<Rightarrow> smcp_status_t \<times> smcp_s" where
  "smcp_inbound_set_destaddr sockaddr self =
     (if \<not> is_processing_message self then (SMCP_STATUS_FAILURE, self)
      else (SMCP_STATUS_OK,
        set_inbound (\<lambda>i. i\<lparr>was_sent_to_multicast := SMCP_IS_ADDR_MULTICAST (smcp_addr sockaddr),
                           pktinfo := smcp_addr sockaddr @ [0, 0, 0, 0]\<rparr>) self))"

text \<open>What the initial scan over the options records of one option.\<close>

definition note_option :: "u32 \<Rightarrow> u32 \<Rightarrow> smcp_inbound_s \<Rightarrow> smcp_inbound_s" where
  "note_option key n i =
     (if key = COAP_OPTION_CONTENT_TYPE then i\<lparr>content_type := ucast n\<rparr>
      else if key = COAP_OPTION_OBSERVE then i\<lparr>observe_value := n, has_observe_option := True\<rparr>
      else if key = COAP_OPTION_MAX_AGE then i\<lparr>max_age := (if sint (n + 1) < 5 then 5 else n + 1)\<rparr>
      else if key = COAP_OPTION_BLOCK2 then i\<lparr>block2_value := n\<rparr>
      else i)"

lemma note_option_fields [simp]:
  "this_option (note_option key n i) = this_option i" "packet_len (note_option key n i) = packet_len i"
  "in_packet (note_option key n i) = in_packet i" "in_last_option_key (note_option key n i) = in_last_option_key i"
  by (auto simp: note_option_def)

lemma scan_left_note [simp]: "scan_left (set_inbound (note_option key n) self) = scan_left self"
  by (simp add: scan_left_def split: option.split)

definition noted_keys :: "u32 set" where
  "noted_keys = {COAP_OPTION_CONTENT_TYPE, COAP_OPTION_OBSERVE, COAP_OPTION_MAX_AGE, COAP_OPTION_BLOCK2}"

function initial_scan :: "smcp_s \<Rightarrow> smcp_s option" where
  "initial_scan self =
     (case smcp_inbound_next_option self of
        None \<Rightarrow> None
      | Some ((key, v), self') \<Rightarrow>
          if key = COAP_OPTION_INVALID then Some self'
          else if key \<in> noted_keys
          then (case (in_packet (inbound self'), v) of
                  (Some packet, Some (Some p, l)) \<Rightarrow>
                    (case coap_decode_uint32 (drop p packet) (ucast l) of
                       None \<Rightarrow> None
                     | Some n \<Rightarrow> initial_scan (set_inbound (note_option key n) self'))
                | _ \<Rightarrow> None)
          else initial_scan self')"
  by pat_completeness auto
termination
  by (relation "measure scan_left") (auto dest: next_option_progress)

declare initial_scan.simps [simp del]

text \<open>The content starts behind the payload marker, where the options end.\<close>

definition find_content :: "smcp_s \<Rightarrow> smcp_s option" where
  "find_content self = do {
     p \<leftarrow> this_option (inbound self);
     let len = packet_len (inbound self) - word_of_nat p;
     Some (set_inbound (\<lambda>i. if len \<noteq> 0 then i\<lparr>in_content_ptr := Some (p + 1), in_content_len := len - 1\<rparr>
                            else i\<lparr>in_content_ptr := Some p, in_content_len := len\<rparr>) self)
   }"

abbreviation COAP_METHOD_GET :: u16 where "COAP_METHOD_GET \<equiv> 1"
abbreviation COAP_METHOD_POST :: u16 where "COAP_METHOD_POST \<equiv> 2"
abbreviation COAP_METHOD_PUT :: u16 where "COAP_METHOD_PUT \<equiv> 3"
abbreviation COAP_METHOD_DELETE :: u16 where "COAP_METHOD_DELETE \<equiv> 4"

text \<open>The code of the response to a request that its handler did not answer.\<close>

definition default_result_code :: "u16 \<Rightarrow> smcp_status_t \<Rightarrow> u16 \<Rightarrow> u16" where
  "default_result_code code ret result_code =
     (if ret \<noteq> SMCP_STATUS_OK then result_code
      else if code = COAP_METHOD_GET then word_of_nat (HTTP_TO_COAP_CODE 205)
      else if code = COAP_METHOD_POST \<or> code = COAP_METHOD_PUT then word_of_nat (HTTP_TO_COAP_CODE 204)
      else if code = COAP_METHOD_DELETE then word_of_nat (HTTP_TO_COAP_CODE 202)
      else result_code)"

text \<open>The response to a confirmable message that was not answered: the part after the handlers.\<close>

definition respond_by_default :: "smcp_env \<Rightarrow> u16 \<Rightarrow> smcp_status_t \<Rightarrow> smcp_s \<Rightarrow> (smcp_status_t \<times> smcp_s) option" where
  "respond_by_default env code ret self = do {
     let self = smcp_outbound_reset self;
     self \<leftarrow>
       (if COAP_CODE_IS_REQUEST (ucast code) then do {
          let result_code = smcp_convert_status_to_result_code ret;
          let ret = (if is_dupe (inbound self) then SMCP_STATUS_OK else ret);
          let result_code = default_result_code code ret result_code;
          (_, self) \<leftarrow> smcp_outbound_begin_response result_code self;
          if result_code = word_of_nat (HTTP_TO_COAP_CODE 500)
          then map_option snd (smcp_outbound_set_var_content_int ret self)
          else Some self
        }
        else do {
          (_, self) \<leftarrow> smcp_outbound_begin_response 0 self;
          self \<leftarrow> out_header (with_tt (if ret \<noteq> SMCP_STATUS_OK \<and> \<not> is_dupe (inbound self)
                                     then COAP_TRANS_TYPE_RESET else COAP_TRANS_TYPE_ACK)) self;
          map_option snd (smcp_outbound_set_token [] 0 self)
        });
     smcp_outbound_send env self
   }"

definition finish_inbound :: "smcp_s \<Rightarrow> smcp_s" where
  "finish_inbound self =
     (set_inbound (\<lambda>i. i\<lparr>in_packet := None, in_content_ptr := None, in_content_len := 0\<rparr>) self)
       \<lparr>is_processing_message := False, force_current_outbound_code := False\<rparr>"

definition check_dupe :: "smcp_s \<Rightarrow> smcp_s option" where
  "check_dupe self =
     (if is_fake (inbound self) then Some self
      else do {
        mid \<leftarrow> smcp_inbound_get_msg_id self;
        (d, info) \<leftarrow> smcp_inbound_dupe_check (dupe_info self) (in_saddr (inbound self)) mid;
        Some (set_inbound (\<lambda>i. i\<lparr>is_dupe := d\<rparr>) (self\<lparr>dupe_info := info\<rparr>))
      })"

definition smcp_inbound_finish_packet :: "smcp_env \<Rightarrow> smcp_s \<Rightarrow> (smcp_status_t \<times> smcp_s) option" where
  "smcp_inbound_finish_packet env self =
     (if \<not> is_processing_message self then Some (SMCP_STATUS_FAILURE, finish_inbound self)
      else do {
        packet \<leftarrow> in_packet (inbound self);
        tt \<leftarrow> packet_tt packet;
        code \<leftarrow> packet_code packet;
        if was_sent_to_multicast (inbound self) \<and> tt = COAP_TRANS_TYPE_CONFIRMABLE
        then Some (SMCP_STATUS_FAILURE, finish_inbound self)
        else do {
          self \<leftarrow> check_dupe self;
          self \<leftarrow> smcp_inbound_reset_next_option self;
          self \<leftarrow> initial_scan self;
          self \<leftarrow> find_content self;
          self \<leftarrow> smcp_inbound_reset_next_option self;
          (ret, self) \<leftarrow>
            (if COAP_CODE_IS_REQUEST (ucast code) then smcp_handle_request env self
             else if COAP_CODE_IS_RESULT (ucast code) then smcp_handle_response env self
             else Some (SMCP_STATUS_OK, self));
          (ret, self) \<leftarrow>
            (if \<not> did_respond self \<and> tt = COAP_TRANS_TYPE_CONFIRMABLE
             then respond_by_default env code ret self else Some (ret, self));
          Some (ret, finish_inbound self)
        }
      })"

section \<open>Asynchronous responses\<close>

record smcp_async_response_s =
  remote_saddr :: sockaddr
  async_pktinfo :: "u8 list"
  request_len :: u16
  request :: "u8 list"

definition smcp_outbound_begin_async_response ::
    "u16 \<Rightarrow> smcp_async_response_s \<Rightarrow> smcp_s \<Rightarrow> (smcp_status_t \<times> smcp_s) option" where
  "smcp_outbound_begin_async_response code x self = do {
     token_len \<leftarrow> packet_token_len (request x);
     tt \<leftarrow> packet_tt (request x);
     let self = set_inbound (\<lambda>i. i\<lparr>in_packet := Some (request x), packet_len := request_len x,
                  in_content_ptr := Some (4 + token_len), in_last_option_key := 0, this_option := Some 4,
                  is_fake := True, in_saddr := remote_saddr x, pktinfo := async_pktinfo x\<rparr>) self;
     let self = self\<lparr>is_processing_message := True, did_respond := False\<rparr>;
     (_, self) \<leftarrow> smcp_outbound_begin_response code self;
     t \<leftarrow> current_transaction self;
     self \<leftarrow> out_write 2 (msg_id_bytes (msg_id (trans self t))) self;
     self \<leftarrow> out_header (with_tt tt) self;
     tok \<leftarrow> mem_read_n (request x) 4 token_len;
     (ret, self) \<leftarrow> smcp_outbound_set_token tok (word_of_nat token_len) self;
     if ret \<noteq> SMCP_STATUS_OK then Some (ret, self)
     else do {
       let (ret, self) = smcp_outbound_set_destaddr (remote_saddr x) self;
       if ret \<noteq> SMCP_STATUS_OK then Some (ret, self)
       else do {
         ok \<leftarrow> coap_verify_packet (request x) (ucast (request_len x));
         if \<not> ok then None else Some (ret, self)
       }
     }
   }"

text \<open>\<open>x\<close> is \<^const>\<open>None\<close> for a null pointer. The buffer for the request has 80 bytes, and
  what is stored there has to pass \<^verbatim>\<open>coap_verify_packet\<close>.\<close>

definition smcp_start_async_response ::
    "smcp_env \<Rightarrow> smcp_async_response_s option \<Rightarrow> bool \<Rightarrow> smcp_s \<Rightarrow>
     (smcp_status_t \<times> smcp_async_response_s option \<times> smcp_s) option" where
  "smcp_start_async_response env x dont_ack self =
     (case x of
        None \<Rightarrow> Some (SMCP_STATUS_INVALID_ARGUMENT, x, self)
      | Some a \<Rightarrow> do {
          let len = int (unat (packet_len (inbound self))) - int (unat (in_content_len (inbound self)));
          if len mod 2 ^ 64 > 80 then do {
            (_, self) \<leftarrow> smcp_outbound_quick_response env (word_of_nat (HTTP_TO_COAP_CODE 413)) None self;
            Some (SMCP_STATUS_FAILURE, x, self)
          }
          else do {
            packet \<leftarrow> in_packet (inbound self);
            bs \<leftarrow> mem_read_n packet 0 (nat len);
            req \<leftarrow> mem_write_n (request a) 0 bs;
            ok \<leftarrow> coap_verify_packet req (word_of_int len);
            if \<not> ok then None
            else do {
            tt \<leftarrow> packet_tt packet;
            let x = Some (a\<lparr>request_len := word_of_int len, request := req,
                            remote_saddr := in_saddr (inbound self), async_pktinfo := pktinfo (inbound self)\<rparr>);
            if \<not> dont_ack \<and> tt = COAP_TRANS_TYPE_CONFIRMABLE then
              if is_fake (inbound self) then Some (SMCP_STATUS_NOT_IMPLEMENTED, x, self)
              else do {
                (ret, self) \<leftarrow> smcp_outbound_begin_response 0 self;
                if ret \<noteq> SMCP_STATUS_OK then Some (ret, x, self)
                else do {
                  (ret, self) \<leftarrow> smcp_outbound_send env self;
                  Some (if ret = SMCP_STATUS_OK \<and> is_dupe (inbound self) then SMCP_STATUS_DUPE else ret, x, self)
                }
              }
            else Some (if is_dupe (inbound self) then SMCP_STATUS_DUPE else SMCP_STATUS_OK, x, self)
            }
          }
        })"

definition smcp_finish_async_response :: "smcp_async_response_s \<Rightarrow> smcp_status_t \<times> smcp_async_response_s" where
  "smcp_finish_async_response x = (SMCP_STATUS_OK, x\<lparr>request_len := 0\<rparr>)"

definition smcp_inbound_is_related_to_async_response :: "smcp_async_response_s \<Rightarrow> smcp_s \<Rightarrow> bool" where
  "smcp_inbound_is_related_to_async_response x self \<longleftrightarrow> remote_saddr x = in_saddr (inbound self)"

section \<open>Processing and release\<close>

text \<open>\<^verbatim>\<open>smcp_handle_timers\<close> with the callbacks that it calls.\<close>

definition run_timers :: "smcp_env \<Rightarrow> smcp_s \<Rightarrow> smcp_s option" where
  "run_timers env self =
     (let (ts, cancel, call) = smcp_handle_timers (env_now env) (timer_state self);
          self = self\<lparr>timer_state := ts\<rparr>
      in do {
        self \<leftarrow> (case cancel of None \<Rightarrow> Some self | Some (f, context) \<Rightarrow> env_cancel env f context self);
        case call of
          None \<Rightarrow> Some self
        | Some (Transaction_timeout, Some handler) \<Rightarrow> smcp_internal_transaction_timeout env handler self
        | Some (Transaction_timeout, None) \<Rightarrow> None
        | Some (Timer_fn f, context) \<Rightarrow> env_timer env f context self
      })"

text \<open>
  A datagram: the receive buffer, the length that \<^verbatim>\<open>recvmsg\<close> returned, the source address, and the
  packet infos among its control messages.
\<close>

record datagram =
  dg_buffer :: "u8 list"
  dg_len :: int
  dg_from :: sockaddr
  dg_infos :: "u8 list list"

fun set_packet_infos :: "smcp_env \<Rightarrow> sockaddr \<Rightarrow> u8 list list \<Rightarrow> smcp_s \<Rightarrow> smcp_status_t \<times> smcp_s" where
  "set_packet_infos env saddr [] self = (SMCP_STATUS_OK, self)"
| "set_packet_infos env saddr (pi # pis) self =
     (let saddr = take 2 saddr @ htons_bytes (env_port env) @ take 4 (drop 4 saddr) @ take 16 pi @ drop 24 saddr;
          (ret, self) = smcp_inbound_set_destaddr saddr self
      in if ret \<noteq> SMCP_STATUS_OK then (ret, self)
         else set_packet_infos env saddr pis (set_inbound (\<lambda>i. i\<lparr>pktinfo := pi\<rparr>) self))"

text \<open>\<^verbatim>\<open>smcp_process\<close>, after \<^verbatim>\<open>poll\<close> told whether there is a datagram.\<close>

definition smcp_process :: "smcp_env \<Rightarrow> datagram option \<Rightarrow> smcp_s \<Rightarrow> (smcp_status_t \<times> smcp_s) option" where
  "smcp_process env dg self = do {
     (ret, self) \<leftarrow>
       (case dg of
          None \<Rightarrow> Some (SMCP_STATUS_OK, self)
        | Some d \<Rightarrow>
            if dg_len d \<le> 0 then Some (SMCP_STATUS_ERRNO, self)
            else do {
              buffer \<leftarrow> mem_write (dg_buffer d) (nat (dg_len d)) 0;
              (ret, self) \<leftarrow> smcp_inbound_start_packet buffer (word_of_int (dg_len d)) self;
              if ret \<noteq> SMCP_STATUS_OK then Some (ret, self)
              else do {
                let (ret, self) = smcp_inbound_set_srcaddr (dg_from d) self;
                if ret \<noteq> SMCP_STATUS_OK then Some (ret, self)
                else do {
                  let (ret, self) = set_packet_infos env (dg_from d) (dg_infos d) self;
                  if ret \<noteq> SMCP_STATUS_OK then Some (ret, self) else smcp_inbound_finish_packet env self
                }
              }
            });
     self \<leftarrow> (if ret = SMCP_STATUS_OK then run_timers env self else Some self);
     Some (ret, self\<lparr>is_responding := False\<rparr>)
   }"

text \<open>The two loops of \<^verbatim>\<open>smcp_release\<close>.\<close>

partial_function (option) end_transactions :: "smcp_env \<Rightarrow> smcp_s \<Rightarrow> smcp_s option" where
  "end_transactions env self =
     (case bt_root (transactions self) of
        None \<Rightarrow> Some self
      | Some t \<Rightarrow> Option.bind (smcp_transaction_end env t self) (\<lambda>r. end_transactions env (snd r)))"

partial_function (option) cancel_timers :: "smcp_env \<Rightarrow> smcp_s \<Rightarrow> smcp_s option" where
  "cancel_timers env self =
     (case timers (timer_state self) of
        None \<Rightarrow> Some self
      | Some t \<Rightarrow>
          Option.bind (case t_cancel (timer_state self) t of
                         None \<Rightarrow> Some self
                       | Some f \<Rightarrow> env_cancel env f (t_context (timer_state self) t) self) (\<lambda>self'.
          Option.bind (invalidate_timer env t self') (\<lambda>self''. cancel_timers env self'')))"

definition smcp_release :: "smcp_env \<Rightarrow> smcp_s \<Rightarrow> smcp_s option" where
  "smcp_release env self = do {
     self \<leftarrow> end_transactions env self;
     cancel_timers env self
   }"

end
