(* ===== verification/Inbound_Scan.thy ===== *)
theory Inbound_Scan
  imports Outbound_Packet Instance
begin

text \<open>
  Reading a packet: on a packet that is laid out as \<open>Outbound_Packet\<close> sends it, the scanner of the
  inbound side returns the options that were added, and the content is what was appended.
\<close>

section \<open>The scanner on a run of options\<close>

text \<open>The scanner stands in front of the options \<open>opts\<close>, behind the bytes \<open>xs\<close> and the option \<open>prev\<close>.\<close>

definition scanning :: "smcp_s \<Rightarrow> u8 list \<Rightarrow> nat \<Rightarrow> (nat \<times> u8 list) list \<Rightarrow> u8 list \<Rightarrow> bool" where
  "scanning self xs prev opts payload \<longleftrightarrow>
     (\<exists>zs. in_packet (inbound self) = Some (xs @ encode_options prev opts @ payload @ 0 # zs)) \<and>
     this_option (inbound self) = Some (length xs) \<and> in_last_option_key (inbound self) = word_of_nat prev \<and>
     packet_len (inbound self) = word_of_nat (length xs + length (encode_options prev opts) + length payload) \<and>
     length xs + length (encode_options prev opts) + length payload < 65536 \<and>
     wf_opts prev opts \<and> (payload = [] \<or> hd payload = 0xFF)"

lemma u16_of_nat: "n < 65536 \<Longrightarrow> unat (word_of_nat n :: u16) = n"
  by (simp add: unsigned_of_nat take_bit_nat_eq_self)

lemma next_option_end:
  assumes "scanning self xs prev [] payload"
  shows "smcp_inbound_next_option self =
    Some ((COAP_OPTION_INVALID, None), set_inbound (\<lambda>i. i\<lparr>in_last_option_key := COAP_OPTION_INVALID\<rparr>) self)"
proof -
  have "more_options self = Some False"
    using assms u16_of_nat [of "length xs + length payload"]
    by (cases payload) (auto simp: scanning_def more_options_def mem_read_def nth_append simp del: of_nat_add)
  then show ?thesis by (simp add: smcp_inbound_next_option_def)
qed

lemma next_option_more:
  assumes "scanning self xs prev ((k, v) # opts) payload"
  shows "\<exists>self' p. smcp_inbound_next_option self =
      Some ((word_of_nat k, Some (Some p, word_of_nat (length v))), self') \<and>
    self' = set_inbound (\<lambda>i. i\<lparr>this_option := Some (length xs + length (option_bytes prev k v)), in_last_option_key := word_of_nat k\<rparr>) self \<and>
    scanning self' (xs @ option_bytes prev k v) k opts payload \<and>
    (\<exists>zs. Option.bind (in_packet (inbound self')) (\<lambda>m. if p \<le> length m then Some (drop p m) else None) = Some (v @ zs))"
proof -
  obtain zs where p: "in_packet (inbound self) =
      Some (xs @ option_bytes prev k v @ encode_options k opts @ payload @ 0 # zs)"
    and wf: "prev \<le> k" "k < 65536" "length v \<le> 1034" "wf_opts k opts"
    using assms by (auto simp: scanning_def)
  let ?n = "length xs + (length (option_bytes prev k v) + length (encode_options k opts)) + length payload"
  let ?q = "length xs + length (opt_header (k - prev) (length v))"
  have n: "unat (packet_len (inbound self)) = ?n" "this_option (inbound self) = Some (length xs)"
      "in_last_option_key (inbound self) = word_of_nat prev"
    using assms u16_of_nat [of ?n] by (auto simp: scanning_def simp del: of_nat_add)
  obtain h hs where h: "opt_header (k - prev) (length v) = h # hs" "h \<noteq> 0xFF"
    using opt_header_hd [of "k - prev" "length v"] by (cases "opt_header (k - prev) (length v)") (auto simp: opt_header_def)
  then have ob: "option_bytes prev k v = h # hs @ v" by (simp add: option_bytes_def)
  have "more_options self = Some True"
    using n h by (simp add: more_options_def p ob mem_read_def nth_append)
  moreover have "coap_decode_option (xs @ option_bytes prev k v @ encode_options k opts @ payload @ 0 # zs) (length xs)
      (Some (word_of_nat prev)) = Some (Decode_At (length xs + length (option_bytes prev k v)) (Some (word_of_nat k)) ?q (word_of_nat (length v)))"
    using wf by (intro coap_decode_option_bytes) auto
  ultimately have "smcp_inbound_next_option self =
      Some ((word_of_nat k, Some (Some ?q, word_of_nat (length v))),
        set_inbound (\<lambda>i. i\<lparr>this_option := Some (length xs + length (option_bytes prev k v)), in_last_option_key := word_of_nat k\<rparr>) self)"
    by (simp add: smcp_inbound_next_option_def p n decoded_key_def decoded_value_def decoded_next_def)
  moreover have "drop ?q (xs @ option_bytes prev k v @ ys) = v @ ys" for ys
    by (simp add: option_bytes_def)
  ultimately show ?thesis
    using assms p by (auto simp: scanning_def add.assoc ob h(1))
qed

text \<open>The value that is returned lies in the packet.\<close>

lemma next_option_value:
  assumes "scanning self xs prev ((k, v) # opts) payload"
  shows "\<exists>self' p packet. smcp_inbound_next_option self = Some ((word_of_nat k, Some (Some p, word_of_nat (length v))), self') \<and>
    self' = set_inbound (\<lambda>i. i\<lparr>this_option := Some (length xs + length (option_bytes prev k v)), in_last_option_key := word_of_nat k\<rparr>) self \<and>
    scanning self' (xs @ option_bytes prev k v) k opts payload \<and>
    in_packet (inbound self') = Some packet \<and> mem_read_n packet p (unat (word_of_nat (length v) :: u16)) = Some v"
proof -
  obtain self' p zs packet where n: "smcp_inbound_next_option self = Some ((word_of_nat k, Some (Some p, word_of_nat (length v))), self')"
      "self' = set_inbound (\<lambda>i. i\<lparr>this_option := Some (length xs + length (option_bytes prev k v)), in_last_option_key := word_of_nat k\<rparr>) self"
      "scanning self' (xs @ option_bytes prev k v) k opts payload"
      "in_packet (inbound self') = Some packet" "p \<le> length packet" "drop p packet = v @ zs"
    using next_option_more [OF assms] by (auto simp: bind_eq_Some_conv split: if_splits)
  have "length packet = p + length v + length zs"
    using n(5) arg_cong [OF n(6), of length] by simp
  moreover have "length v \<le> 1034" using assms by (auto simp: scanning_def)
  ultimately have "mem_read_n packet p (unat (word_of_nat (length v) :: u16)) = Some v"
    using n(6) by (simp add: mem_read_n_def u16_of_nat)
  then show ?thesis using n(1-4) by blast
qed

section \<open>Scanning all options\<close>

text \<open>The options that repeated calls of \<^verbatim>\<open>smcp_inbound_next_option\<close> return, with the bytes of their values.\<close>

function scanned_options :: "smcp_s \<Rightarrow> (nat \<times> u8 list) list option" where
  "scanned_options self =
     (case smcp_inbound_next_option self of
        Some ((key, v), self') \<Rightarrow>
          if key = COAP_OPTION_INVALID then Some []
          else (case (in_packet (inbound self'), v) of
                  (Some packet, Some (Some p, l)) \<Rightarrow>
                    (case (mem_read_n packet p (unat l), scanned_options self') of
                       (Some bs, Some os) \<Rightarrow> Some ((unat key, bs) # os)
                     | _ \<Rightarrow> None)
                | _ \<Rightarrow> None)
      | None \<Rightarrow> None)"
  by pat_completeness auto
termination
  by (relation "measure scan_left") (auto dest: next_option_progress)

declare scanned_options.simps [simp del]

text \<open>The option number 65535 ends the scan, like the end of the packet.\<close>

definition plain_keys :: "(nat \<times> u8 list) list \<Rightarrow> bool" where
  "plain_keys opts \<longleftrightarrow> (\<forall>(k, v) \<in> set opts. k < 65535)"

lemma plain_keys_simps [simp]:
  "plain_keys []" "plain_keys ((k, v) # opts) \<longleftrightarrow> k < 65535 \<and> plain_keys opts"
  by (auto simp: plain_keys_def)

lemma plain_key: "k < 65535 \<Longrightarrow> (word_of_nat k :: u32) \<noteq> COAP_OPTION_INVALID" "k < 65535 \<Longrightarrow> unat (word_of_nat k :: u32) = k"
proof -
  assume "k < 65535"
  then show "unat (word_of_nat k :: u32) = k" by (simp add: unsigned_of_nat take_bit_nat_eq_self)
  then show "(word_of_nat k :: u32) \<noteq> COAP_OPTION_INVALID"
    using \<open>k < 65535\<close> by (auto simp: COAP_OPTION_INVALID_def word_unat_eq_iff)
qed

lemma scanned_options_run:
  "scanning self xs prev opts payload \<Longrightarrow> plain_keys opts \<Longrightarrow> scanned_options self = Some opts"
proof (induction opts arbitrary: self xs prev)
  case Nil
  then show ?case by (simp add: scanned_options.simps next_option_end)
next
  case (Cons o1 opts)
  obtain k v where kv: "o1 = (k, v)" by (cases o1)
  obtain self' p packet where n: "smcp_inbound_next_option self = Some ((word_of_nat k, Some (Some p, word_of_nat (length v))), self')"
      "scanning self' (xs @ option_bytes prev k v) k opts payload" "in_packet (inbound self') = Some packet"
      "mem_read_n packet p (unat (word_of_nat (length v) :: u16)) = Some v"
    using next_option_value [of self xs prev k v opts payload] Cons.prems(1) unfolding kv by blast
  then show ?case
    using Cons.IH [OF n(2)] Cons.prems(2) plain_key [of k]
    by (subst scanned_options.simps) (simp add: kv)
qed

section \<open>The initial scan\<close>

definition bytes_uint :: "u8 list \<Rightarrow> u32" where
  "bytes_uint v = foldl (\<lambda>r b. push_bit 8 r + ucast b) 0 v"

text \<open>The length of a value is cut to a byte before the value is decoded.\<close>

definition option_uint :: "u8 list \<Rightarrow> u32" where
  "option_uint v = bytes_uint (take (length v mod 256) v)"

lemma decode_uint32_loop_bytes:
  "n \<le> length v \<Longrightarrow> coap_decode_uint32_loop r (v @ zs) n = Some (foldl (\<lambda>r b. push_bit 8 r + ucast b) r (take n v))"
proof (induction v arbitrary: r n)
  case (Cons b v)
  then show ?case by (cases n) auto
qed simp

lemma coap_decode_uint32_bytes:
  assumes "length v < 65536"
  shows "coap_decode_uint32 (v @ zs) (ucast (word_of_nat (length v) :: u16)) = Some (option_uint v)"
proof -
  have "unat (ucast (word_of_nat (length v) :: u16) :: u8) = length v mod 256"
    using assms by (simp add: unsigned_ucast_eq unsigned_of_nat take_bit_nat_def)
  then show ?thesis
    using decode_uint32_loop_bytes [of "length v mod 256" v 0 zs]
    by (simp add: coap_decode_uint32_def option_uint_def bytes_uint_def)
qed

definition noted_options :: "(nat \<times> u8 list) list \<Rightarrow> smcp_inbound_s \<Rightarrow> smcp_inbound_s" where
  "noted_options opts i = fold (\<lambda>(k, v). note_option (word_of_nat k) (option_uint v)) opts i"

lemma note_option_scan [simp]:
  "note_option key n (i\<lparr>this_option := t\<rparr>) = note_option key n i\<lparr>this_option := t\<rparr>"
  "note_option key n (i\<lparr>in_last_option_key := k\<rparr>) = note_option key n i\<lparr>in_last_option_key := k\<rparr>"
  by (auto simp: note_option_def)

lemma noted_options_scan [simp]:
  "noted_options opts (i\<lparr>this_option := t\<rparr>) = noted_options opts i\<lparr>this_option := t\<rparr>"
  "noted_options opts (i\<lparr>in_last_option_key := k\<rparr>) = noted_options opts i\<lparr>in_last_option_key := k\<rparr>"
  by (induction opts arbitrary: i) (auto simp: noted_options_def)

lemma noted_options_simps [simp]:
  "noted_options [] i = i"
  "noted_options ((k, v) # opts) i = noted_options opts (note_option (word_of_nat k) (option_uint v) i)"
  by (simp_all add: noted_options_def)

lemma note_option_other: "key \<notin> noted_keys \<Longrightarrow> note_option key n i = i"
  by (simp add: note_option_def noted_keys_def)

lemma initial_scan_run:
  "scanning self xs prev opts payload \<Longrightarrow> plain_keys opts \<Longrightarrow>
   initial_scan self = Some (set_inbound (\<lambda>i. noted_options opts i\<lparr>
     this_option := Some (length xs + length (encode_options prev opts)), in_last_option_key := COAP_OPTION_INVALID\<rparr>) self)"
proof (induction opts arbitrary: self xs prev)
  case Nil
  then have "this_option (inbound self) = Some (length xs)" by (simp add: scanning_def)
  then show ?case using Nil by (simp add: initial_scan.simps next_option_end)
next
  case (Cons o1 opts)
  obtain k v where kv: "o1 = (k, v)" by (cases o1)
  let ?upd = "\<lambda>i. i\<lparr>this_option := Some (length xs + length (option_bytes prev k v)), in_last_option_key := word_of_nat k\<rparr>"
  obtain self' p zs packet where n: "smcp_inbound_next_option self = Some ((word_of_nat k, Some (Some p, word_of_nat (length v))), self')"
      "scanning self' (xs @ option_bytes prev k v) k opts payload" "self' = set_inbound ?upd self"
      "in_packet (inbound self') = Some packet" "drop p packet = v @ zs"
    using next_option_more [of self xs prev k v opts payload] Cons.prems(1) unfolding kv
    by (auto simp: bind_eq_Some_conv split: if_splits)
  let ?s = "set_inbound (note_option (word_of_nat k) (option_uint v)) self'"
  have "length v < 65536" using Cons.prems(1) by (auto simp: scanning_def kv)
  then have dec: "coap_decode_uint32 (drop p packet) (ucast (word_of_nat (length v) :: u16)) = Some (option_uint v)"
    unfolding n(5) by (rule coap_decode_uint32_bytes)
  have "scanning ?s (xs @ option_bytes prev k v) k opts payload" using n(2) by (simp add: scanning_def)
  from Cons.IH [OF this] have "initial_scan ?s = Some (set_inbound (\<lambda>i. noted_options (o1 # opts) i\<lparr>
     this_option := Some (length xs + length (encode_options prev (o1 # opts))), in_last_option_key := COAP_OPTION_INVALID\<rparr>) self)"
    using Cons.prems(2) by (simp add: kv n(3) add.assoc)
  moreover have "initial_scan self = initial_scan ?s"
    using Cons.prems(2) n(1,4) dec plain_key(1) [of k] note_option_other [of "word_of_nat k" "option_uint v" "inbound self'"]
    by (subst initial_scan.simps) (simp add: kv)
  ultimately show ?case by simp
qed

section \<open>A received packet\<close>

definition packet_payload :: "packet \<Rightarrow> u8 list" where
  "packet_payload p = (if p_content p = [] then [] else 0xFF # p_content p)"

lemma packet_wire_payload: "packet_wire p = packet_head p @ encode_options 0 (p_options p) @ packet_payload p"
  by (simp add: packet_wire_def packet_payload_def packet_front_def)

definition inbound_holds :: "smcp_s \<Rightarrow> packet \<Rightarrow> bool" where
  "inbound_holds self p \<longleftrightarrow> packet_ok p \<and> plain_keys (p_options p) \<and> length (packet_wire p) \<le> 1240 \<and>
     (\<exists>zs. in_packet (inbound self) = Some (packet_wire p @ 0 # zs)) \<and>
     packet_len (inbound self) = word_of_nat (length (packet_wire p))"

text \<open>An empty message consists of its header.\<close>

definition empty_ok :: "packet \<Rightarrow> bool" where
  "empty_ok p \<longleftrightarrow> (p_code p = COAP_CODE_EMPTY \<longrightarrow> p_token p = [] \<and> p_options p = [] \<and> p_content p = [])"

lemma start_packet_holds:
  assumes "packet_ok p" "empty_ok p" "plain_keys (p_options p)" "length (packet_wire p) \<le> 1240"
  shows "\<exists>i. smcp_inbound_start_packet (packet_wire p @ z # zs) (word_of_nat (length (packet_wire p))) self =
      Some (SMCP_STATUS_OK, self\<lparr>inbound := i, is_processing_message := True, did_respond := False\<rparr>) \<and>
    inbound_holds (self\<lparr>inbound := i\<rparr>) p \<and> \<not> is_fake i \<and> \<not> was_sent_to_multicast i"
proof -
  have "coap_verify_packet (packet_wire p @ z # zs) (word_of_nat (length (packet_wire p))) = Some True"
    using assms by (intro coap_verify_packet_accepts packet_wire_layout) (auto simp: empty_ok_def)
  moreover have "mem_write (packet_wire p @ z # zs) (length (packet_wire p)) 0 = Some (packet_wire p @ 0 # zs)"
    by (rule mem_write_split)
  ultimately show ?thesis
    using assms
    by (intro exI [of _ "zero_inbound\<lparr>in_packet := Some (packet_wire p @ 0 # zs),
          packet_len := word_of_nat (length (packet_wire p)), content_type := COAP_CONTENT_TYPE_UNKNOWN\<rparr>"])
      (simp add: smcp_inbound_start_packet_def u16_of_nat inbound_holds_def zero_inbound_def)
qed

lemma u16_bytes_join: "(ucast (ucast (m :: u16) :: u8) :: u16) + push_bit 8 (ucast (ucast (drop_bit 8 m) :: u8)) = m"
proof -
  have "(ucast (ucast m :: u8) :: u16) + push_bit 8 (ucast (ucast (drop_bit 8 m) :: u8)) =
      (ucast (ucast m :: u8) :: u16) OR push_bit 8 (ucast (ucast (drop_bit 8 m) :: u8))"
    by (rule disjunctive_add) (auto simp: bit_simps)
  also have "\<dots> = m" by (rule bit_word_eqI) (auto simp: bit_simps)
  finally show ?thesis .
qed

lemma packet_wire_fields:
  assumes "packet_ok p"
  shows "packet_tt (packet_wire p @ zs) = Some (header_tt (p_first p))"
    and "packet_code (packet_wire p @ zs) = Some (ucast (p_code p))"
    and "packet_msg_id (packet_wire p @ zs) = Some (p_msg_id p)"
    and "packet_token_len (packet_wire p @ zs) = Some (length (p_token p))"
    and "mem_read_n (packet_wire p @ zs) 4 (length (p_token p)) = Some (p_token p)"
proof -
  obtain ys where w: "packet_wire p @ zs =
      [p_first p, p_code p, ucast (p_msg_id p), ucast (drop_bit 8 (p_msg_id p))] @ p_token p @ ys"
    by (simp add: packet_wire_payload packet_head_def msg_id_bytes_def)
  show "packet_tt (packet_wire p @ zs) = Some (header_tt (p_first p))"
    "packet_code (packet_wire p @ zs) = Some (ucast (p_code p))"
    "packet_msg_id (packet_wire p @ zs) = Some (p_msg_id p)"
    "packet_token_len (packet_wire p @ zs) = Some (length (p_token p))"
    "mem_read_n (packet_wire p @ zs) 4 (length (p_token p)) = Some (p_token p)"
    using assms
    by (simp_all add: w packet_tt_def packet_code_def packet_msg_id_def packet_token_len_def mem_read_def
        mem_read_n_def u16_bytes_join packet_ok_def)
qed

lemma inbound_holds_fields:
  assumes "inbound_holds self p"
  shows "\<exists>m. in_packet (inbound self) = Some m \<and> packet_tt m = Some (header_tt (p_first p)) \<and>
    packet_code m = Some (ucast (p_code p)) \<and> packet_msg_id m = Some (p_msg_id p) \<and>
    packet_token_len m = Some (length (p_token p)) \<and> mem_read_n m 4 (length (p_token p)) = Some (p_token p)"
  using assms packet_wire_fields [of p] by (auto simp: inbound_holds_def)

lemma inbound_holds_reset:
  assumes "inbound_holds self p"
  shows "\<exists>i. smcp_inbound_reset_next_option self = Some (self\<lparr>inbound := i\<rparr>) \<and>
    i = (inbound self)\<lparr>in_last_option_key := 0, this_option := Some (4 + length (p_token p))\<rparr> \<and>
    scanning (self\<lparr>inbound := i\<rparr>) (packet_head p) 0 (p_options p) (packet_payload p)"
proof -
  obtain m where "in_packet (inbound self) = Some m" "packet_token_len m = Some (length (p_token p))"
    using inbound_holds_fields [OF assms] by blast
  then show ?thesis
    using assms by (auto simp: inbound_holds_def smcp_inbound_reset_next_option_def scanning_def packet_wire_payload
        packet_head_length packet_ok_def packet_payload_def)
qed

text \<open>After the initial scan the content pointer and the content length are those of the content.\<close>

lemma find_content_run:
  assumes "inbound_holds self p"
    and "this_option (inbound self) = Some (length (packet_front p))"
  shows "\<exists>q n. find_content self = Some (set_inbound (\<lambda>i. i\<lparr>in_content_ptr := Some q, in_content_len := n\<rparr>) self) \<and>
    (\<forall>m. in_packet (inbound self) = Some m \<longrightarrow> mem_read_n m q (unat n) = Some (p_content p))"
proof -
  define a c where "a = length (packet_front p)" and "c = length (packet_payload p)"
  obtain zs where zs: "in_packet (inbound self) = Some (packet_front p @ packet_payload p @ 0 # zs)"
      and len: "packet_len (inbound self) = word_of_nat (a + c)" "a + c \<le> 1240"
    using assms(1) by (auto simp: inbound_holds_def packet_wire_payload packet_front_def a_def c_def)
  have diff: "word_of_nat (a + c) - word_of_nat a = (word_of_nat c :: u16)" by simp
  show ?thesis
  proof (cases "p_content p = []")
    case True
    then have "c = 0" by (simp add: c_def packet_payload_def)
    with True show ?thesis
      using assms(2) zs len by (force simp: find_content_def a_def [symmetric] mem_read_n_def Let_def)
  next
    case False
    then have c: "c = length (p_content p) + 1" by (simp add: c_def packet_payload_def)
    have "unat (word_of_nat c :: u16) = c" using len(2) by (intro u16_of_nat) simp
    then have ne: "(word_of_nat c :: u16) \<noteq> 0" using c by auto
    have "unat (word_of_nat c - 1 :: u16) = length (p_content p)"
      using c len(2) u16_of_nat [of "length (p_content p)"] by simp
    moreover have "mem_read_n (packet_front p @ (0xFF # p_content p) @ 0 # zs) (a + 1) (length (p_content p)) = Some (p_content p)"
      by (simp add: mem_read_n_def a_def)
    ultimately show ?thesis
      using assms(2) zs len(1) ne False
      by (intro exI [of _ "a + 1"] exI [of _ "word_of_nat c - 1"])
        (simp add: find_content_def a_def [symmetric] Let_def diff packet_payload_def)
  qed
qed

lemma noted_options_fields [simp]:
  "in_packet (noted_options opts i) = in_packet i" "packet_len (noted_options opts i) = packet_len i"
  by (induction opts arbitrary: i) auto

lemma inbound_holds_cong:
  "in_packet j = in_packet (inbound self) \<Longrightarrow> packet_len j = packet_len (inbound self) \<Longrightarrow>
   inbound_holds (self\<lparr>inbound := j\<rparr>) p \<longleftrightarrow> inbound_holds self p"
  by (simp add: inbound_holds_def)

text \<open>The scan, the content and the second reset of \<^verbatim>\<open>smcp_inbound_finish_packet\<close>.\<close>

definition read_options :: "smcp_s \<Rightarrow> smcp_s option" where
  "read_options self = do {
     self \<leftarrow> smcp_inbound_reset_next_option self;
     self \<leftarrow> initial_scan self;
     self \<leftarrow> find_content self;
     smcp_inbound_reset_next_option self
   }"

lemma read_options_holds:
  assumes "inbound_holds self p"
  shows "\<exists>q n m. read_options self = Some (set_inbound (\<lambda>i. noted_options (p_options p) i\<lparr>
      this_option := Some (4 + length (p_token p)), in_last_option_key := 0,
      in_content_ptr := Some q, in_content_len := n\<rparr>) self) \<and>
    in_packet (inbound self) = Some m \<and> mem_read_n m q (unat n) = Some (p_content p)"
proof -
  obtain i where r: "smcp_inbound_reset_next_option self = Some (self\<lparr>inbound := i\<rparr>)"
      "i = (inbound self)\<lparr>in_last_option_key := 0, this_option := Some (4 + length (p_token p))\<rparr>"
      "scanning (self\<lparr>inbound := i\<rparr>) (packet_head p) 0 (p_options p) (packet_payload p)"
    using inbound_holds_reset [OF assms] by blast
  let ?j = "noted_options (p_options p) (inbound self)\<lparr>this_option := Some (length (packet_front p)),
      in_last_option_key := COAP_OPTION_INVALID\<rparr>"
  have plain: "plain_keys (p_options p)" using assms by (simp add: inbound_holds_def)
  have scan: "initial_scan (self\<lparr>inbound := i\<rparr>) = Some (self\<lparr>inbound := ?j\<rparr>)"
    using initial_scan_run [OF r(3) plain] by (simp add: r(2) packet_front_def)
  have "inbound_holds (self\<lparr>inbound := ?j\<rparr>) p" using assms by (simp add: inbound_holds_cong)
  then obtain q n where c: "find_content (self\<lparr>inbound := ?j\<rparr>) =
        Some (self\<lparr>inbound := ?j\<lparr>in_content_ptr := Some q, in_content_len := n\<rparr>\<rparr>)"
      "\<forall>m. in_packet (inbound self) = Some m \<longrightarrow> mem_read_n m q (unat n) = Some (p_content p)"
    using find_content_run [of "self\<lparr>inbound := ?j\<rparr>" p] by auto
  have "inbound_holds (self\<lparr>inbound := ?j\<lparr>in_content_ptr := Some q, in_content_len := n\<rparr>\<rparr>) p"
    using assms by (simp add: inbound_holds_cong)
  from inbound_holds_reset [OF this] have "read_options self = Some (set_inbound (\<lambda>i. noted_options (p_options p) i\<lparr>
      this_option := Some (4 + length (p_token p)), in_last_option_key := 0,
      in_content_ptr := Some q, in_content_len := n\<rparr>) self)"
    by (auto simp: read_options_def r(1) scan c(1))
  moreover obtain m where "in_packet (inbound self) = Some m" using inbound_holds_fields [OF assms] by blast
  ultimately show ?thesis using c(2) by blast
qed

text \<open>What the readers return of a packet that was received.\<close>

definition reads_packet :: "smcp_s \<Rightarrow> packet \<Rightarrow> bool" where
  "reads_packet self p \<longleftrightarrow>
     smcp_inbound_get_code self = Some (ucast (p_code p)) \<and> smcp_inbound_get_msg_id self = Some (p_msg_id p) \<and>
     (\<exists>m. smcp_inbound_get_packet self = Some m \<and> packet_tt m = Some (header_tt (p_first p)) \<and>
       mem_read_n m 4 (length (p_token p)) = Some (p_token p) \<and>
       (\<exists>self2. smcp_inbound_reset_next_option self = Some self2 \<and> scanned_options self2 = Some (p_options p)) \<and>
       (\<exists>self3 q. read_options self = Some self3 \<and> scanned_options self3 = Some (p_options p) \<and>
         smcp_inbound_get_content_ptr self3 = Some q \<and>
         mem_read_n m q (unat (smcp_inbound_get_content_len self3)) = Some (p_content p)))"

lemma inbound_holds_reads:
  assumes "inbound_holds self p"
  shows "reads_packet self p"
proof -
  have plain: "plain_keys (p_options p)" using assms by (simp add: inbound_holds_def)
  obtain m where m: "in_packet (inbound self) = Some m" "packet_tt m = Some (header_tt (p_first p))"
      "packet_code m = Some (ucast (p_code p))" "packet_msg_id m = Some (p_msg_id p)"
      "mem_read_n m 4 (length (p_token p)) = Some (p_token p)"
    using inbound_holds_fields [OF assms] by blast
  obtain j where r: "smcp_inbound_reset_next_option self = Some (self\<lparr>inbound := j\<rparr>)"
      "scanning (self\<lparr>inbound := j\<rparr>) (packet_head p) 0 (p_options p) (packet_payload p)"
    using inbound_holds_reset [OF assms] by blast
  obtain q n where c: "read_options self = Some (set_inbound (\<lambda>i. noted_options (p_options p) i\<lparr>
      this_option := Some (4 + length (p_token p)), in_last_option_key := 0,
      in_content_ptr := Some q, in_content_len := n\<rparr>) self)" "mem_read_n m q (unat n) = Some (p_content p)"
    using read_options_holds [OF assms] m(1) by auto
  let ?self3 = "set_inbound (\<lambda>i. noted_options (p_options p) i\<lparr>
      this_option := Some (4 + length (p_token p)), in_last_option_key := 0,
      in_content_ptr := Some q, in_content_len := n\<rparr>) self"
  have "scanning ?self3 (packet_head p) 0 (p_options p) (packet_payload p)"
    using r(2) inbound_holds_reset [OF assms] r(1) by (auto simp: scanning_def)
  then have "scanned_options ?self3 = Some (p_options p)" using plain by (rule scanned_options_run)
  moreover have "scanned_options (self\<lparr>inbound := j\<rparr>) = Some (p_options p)"
    using r(2) plain by (rule scanned_options_run)
  ultimately show ?thesis
    using m r(1) c
    by (auto simp: reads_packet_def smcp_inbound_get_code_def smcp_inbound_get_msg_id_def smcp_inbound_get_packet_def
        smcp_inbound_get_content_ptr_def smcp_inbound_get_content_len_def)
qed

text \<open>
  C16: a packet that is laid out as this library sends packets is read back as it was built: it is
  accepted, its code, message identifier, type and token are those of the packet, calling
  \<^verbatim>\<open>smcp_inbound_next_option\<close> until it returns the invalid key gives the options in order with their
  values, and the content pointer and length, set after the first scan, delimit the content.
\<close>

theorem received_packet_read:
  assumes "packet_ok p" "empty_ok p" "plain_keys (p_options p)" "length (packet_wire p) \<le> 1240"
  shows "\<exists>self'. smcp_inbound_start_packet (packet_wire p @ z # zs) (word_of_nat (length (packet_wire p))) self =
      Some (SMCP_STATUS_OK, self') \<and> reads_packet self' p"
proof -
  obtain i where "smcp_inbound_start_packet (packet_wire p @ z # zs) (word_of_nat (length (packet_wire p))) self =
      Some (SMCP_STATUS_OK, self\<lparr>inbound := i, is_processing_message := True, did_respond := False\<rparr>)"
      "inbound_holds (self\<lparr>inbound := i, is_processing_message := True, did_respond := False\<rparr>) p"
    using start_packet_holds [OF assms] by (force simp: inbound_holds_def)
  then show ?thesis using inbound_holds_reads by blast
qed

text \<open>A GET request with a path of two segments and a payload of two bytes.\<close>

definition sample_packet :: packet where
  "sample_packet = \<lparr>p_first = 0x41, p_code = 1, p_msg_id = 0x1234, p_token = [7],
     p_options = [(11, [97]), (11, [98, 99])], p_content = [1, 2]\<rparr>"

lemma sample_packet_ok:
  "packet_ok sample_packet" "empty_ok sample_packet" "plain_keys (p_options sample_packet)"
  "length (packet_wire sample_packet) \<le> 1240"
  by (simp_all add: sample_packet_def packet_ok_def empty_ok_def COAP_VERSION_def header_version_def header_token_len_def
      packet_wire_payload packet_payload_def packet_head_length option_bytes_def length_opt_header length_opt_ext
      COAP_CODE_EMPTY_def drop_bit_eq_div word_unat_eq_iff)

theorem received_packet_read_witness:
  "\<exists>self1 self2. smcp_inbound_start_packet (packet_wire sample_packet @ 9 # [])
       (word_of_nat (length (packet_wire sample_packet))) zero_state = Some (SMCP_STATUS_OK, self1) \<and>
     smcp_inbound_get_msg_id self1 = Some 0x1234 \<and>
     smcp_inbound_reset_next_option self1 = Some self2 \<and> scanned_options self2 = Some [(11, [97]), (11, [98, 99])]"
proof -
  have "p_msg_id sample_packet = 0x1234" "p_options sample_packet = [(11, [97]), (11, [98, 99])]"
    by (simp_all add: sample_packet_def)
  then show ?thesis
    using received_packet_read [OF sample_packet_ok, of 9 "[]" zero_state] by (auto simp: reads_packet_def)
qed

section \<open>The origin of a packet\<close>

text \<open>
  The port of the instance is converted as a 32-bit number before it is compared with the 16-bit
  port of the sender, so that no sender is ever found to be local.
\<close>

lemma origin_never_local:
  assumes "port \<noteq> 0"
  shows "\<not> smcp_inbound_origin_is_local port self"
proof
  assume "smcp_inbound_origin_is_local port self"
  then have eq: "htonl (ucast port) = (ucast (port_word (smcp_inbound_get_srcaddr self)) :: u32)"
    by (simp add: smcp_inbound_origin_is_local_def Let_def split: if_splits)
  have high: "\<not> bit (htonl (ucast port)) n" if "16 \<le> n" for n
    using that unfolding eq by (auto simp: bit_simps dest: bit_imp_le_length)
  have "\<not> bit port n" for n
  proof (cases "n < 8")
    case True
    then show ?thesis using high [of "n + 24"] by (auto simp: htonl_def bit_simps)
  next
    case False
    have ff: "(0xFF0000 :: u32) = push_bit 16 (mask 8)" by (simp add: push_bit_eq_mult mask_eq_exp_minus_1)
    have "bit (0xFF0000 :: u32) (n + 8)" if "n < 16" unfolding ff using that False by (auto simp: bit_simps)
    with False show ?thesis
      using high [of "n + 8"] by (cases "n < 16") (auto simp: htonl_def bit_simps dest: bit_imp_le_length)
  qed
  then show False using assms by (simp add: bit_eq_iff)
qed

end
