(* ===== verification/Default_Response.thy ===== *)
theory Default_Response
  imports Inbound_Scan
begin

text \<open>
  The response to a request: what \<^verbatim>\<open>smcp_outbound_begin_response\<close> starts, that there is at most one
  response to a message, and that a confirmable request always gets one.
\<close>

section \<open>Starting a response\<close>

lemma holds_packet_cong:
  "packet_bytes out = packet_bytes (outbound self) \<Longrightarrow> out_packet out = out_packet (outbound self) \<Longrightarrow>
   max_packet_len out = max_packet_len (outbound self) \<Longrightarrow> out_content_ptr out = out_content_ptr (outbound self) \<Longrightarrow>
   out_content_len out = out_content_len (outbound self) \<Longrightarrow>
   holds_packet (self\<lparr>outbound := out\<rparr>) p \<longleftrightarrow> holds_packet self p"
  by (simp add: holds_packet_def)

lemma set_msg_id_holds:
  assumes "holds_packet self p"
  shows "\<exists>mem. smcp_outbound_set_msg_id tid self = Some (SMCP_STATUS_OK, set_outbound (\<lambda>out. out\<lparr>packet_bytes := mem\<rparr>) self) \<and>
    holds_packet (set_outbound (\<lambda>out. out\<lparr>packet_bytes := mem\<rparr>) self) (p\<lparr>p_msg_id := tid\<rparr>)"
proof -
  obtain zs where zs: "packet_bytes (outbound self) = [p_first p, p_code p] @ msg_id_bytes (p_msg_id p) @
      p_token p @ encode_options 0 (p_options p) @ 0xFF # p_content p @ zs"
    using assms by (auto simp: holds_packet_def packet_front_def packet_head_def)
  let ?mem = "[p_first p, p_code p] @ msg_id_bytes tid @
      p_token p @ encode_options 0 (p_options p) @ 0xFF # p_content p @ zs"
  have "out_write 2 (msg_id_bytes tid) self = Some (set_outbound (\<lambda>out. out\<lparr>packet_bytes := ?mem\<rparr>) self)"
    using assms by (intro out_write_split [OF _ zs]) (simp_all add: holds_packet_def)
  moreover have "length ?mem = 1033" using assms zs by (simp add: holds_packet_def)
  then have "holds_packet (set_outbound (\<lambda>out. out\<lparr>packet_bytes := ?mem\<rparr>) self) (p\<lparr>p_msg_id := tid\<rparr>)"
    using assms by (simp add: holds_packet_def packet_front_def packet_head_def packet_ok_def)
  ultimately show ?thesis unfolding smcp_outbound_set_msg_id_def by auto
qed

text \<open>The token of a response is that of the request.\<close>

lemma response_token:
  assumes "inbound_holds self p" "is_processing_message self" "\<not> code < COAP_RESULT_100"
  shows "outbound_token code self = Some (p_token p)"
proof -
  obtain m where "in_packet (inbound self) = Some m" "packet_token_len m = Some (length (p_token p))"
      "mem_read_n m 4 (length (p_token p)) = Some (p_token p)"
    using inbound_holds_fields [OF assms(1)] by blast
  moreover have "code \<noteq> 0" using assms(3) by auto
  ultimately show ?thesis using assms(2,3) by (simp add: outbound_token_def)
qed

definition response_to :: "packet \<Rightarrow> u16 \<Rightarrow> packet \<Rightarrow> bool" where
  "response_to p code q \<longleftrightarrow> p_code q = ucast code \<and> p_msg_id q = p_msg_id p \<and> p_token q = p_token p \<and>
     header_tt (p_first q) = (if header_tt (p_first p) = COAP_TRANS_TYPE_NONCONFIRMABLE
       then COAP_TRANS_TYPE_NONCONFIRMABLE else COAP_TRANS_TYPE_ACK)"

lemma begin_response_holds:
  assumes "\<not> did_respond self" "\<not> is_responding self" "is_processing_message self" "inbound_holds self p"
    and "length (packet_bytes (outbound self)) = 1033" "current_transaction self = None" "\<not> code < COAP_RESULT_100"
  shows "\<exists>out q. smcp_outbound_begin_response code self =
      Some (SMCP_STATUS_OK, self\<lparr>outbound := out, force_current_outbound_code := False, is_responding := True\<rparr>) \<and>
    holds_packet (self\<lparr>outbound := out\<rparr>) q \<and> out_saddr out = in_saddr (inbound self) \<and>
    response_to p code q \<and> p_options q = [] \<and> p_content q = []"
proof -
  obtain m where m: "in_packet (inbound self) = Some m" "packet_tt m = Some (header_tt (p_first p))"
      "packet_msg_id m = Some (p_msg_id p)"
    using inbound_holds_fields [OF assms(4)] by blast
  let ?tt = "if header_tt (p_first p) = COAP_TRANS_TYPE_NONCONFIRMABLE then COAP_TRANS_TYPE_NONCONFIRMABLE else COAP_TRANS_TYPE_ACK"
  let ?s0 = "set_outbound (\<lambda>out. out\<lparr>next_tid := p_msg_id p\<rparr>) self"
  let ?p0 = "begun_packet code ?tt (p_token p) ?s0"
  have "length (p_token p) \<le> 8" using assms(4) by (simp add: inbound_holds_def packet_ok_def)
  then obtain self1 where b: "smcp_outbound_begin code ?tt ?s0 = Some (SMCP_STATUS_OK, self1)" "holds_packet self1 ?p0"
      "self1 = ?s0\<lparr>outbound := outbound self1, force_current_outbound_code := False, is_responding := False\<rparr>"
    using outbound_begin_holds [of ?s0 code "p_token p" ?tt] response_token [OF assms(4,3,7)] assms(5) by auto
  define out1 where "out1 = outbound self1"
  have s1: "self1 = self\<lparr>outbound := out1, force_current_outbound_code := False, is_responding := False\<rparr>"
    unfolding out1_def by (subst b(3)) simp
  let ?s2 = "self1\<lparr>is_responding := True\<rparr>"
  have "holds_packet ?s2 ?p0" using b(2) by (simp add: holds_packet_def)
  from set_msg_id_holds [OF this, of "p_msg_id p"] obtain mem
    where t: "smcp_outbound_set_msg_id (p_msg_id p) ?s2 = Some (SMCP_STATUS_OK, set_outbound (\<lambda>out. out\<lparr>packet_bytes := mem\<rparr>) ?s2)"
      "holds_packet (set_outbound (\<lambda>out. out\<lparr>packet_bytes := mem\<rparr>) ?s2) (?p0\<lparr>p_msg_id := p_msg_id p\<rparr>)"
    by blast
  let ?out = "out1\<lparr>packet_bytes := mem, out_saddr := in_saddr (inbound self)\<rparr>"
  have "smcp_outbound_begin_response code self =
      Some (SMCP_STATUS_OK, self\<lparr>outbound := ?out, force_current_outbound_code := False, is_responding := True\<rparr>)"
    using assms(1-3,6) m b(1) t(1)
    by (simp add: smcp_outbound_begin_response_def smcp_inbound_get_msg_id_def smcp_inbound_get_packet_def
        s1 smcp_outbound_set_destaddr_def Let_def)
  moreover have "holds_packet (self\<lparr>outbound := ?out\<rparr>) (?p0\<lparr>p_msg_id := p_msg_id p\<rparr>)"
    using t(2) by (simp add: holds_packet_def s1)
  moreover have "response_to p code (?p0\<lparr>p_msg_id := p_msg_id p\<rparr>)"
    by (simp add: response_to_def begun_packet_def COAP_VERSION_def COAP_TRANS_TYPE_NONCONFIRMABLE_def COAP_TRANS_TYPE_ACK_def)
  moreover have "p_options (?p0\<lparr>p_msg_id := p_msg_id p\<rparr>) = []" "p_content (?p0\<lparr>p_msg_id := p_msg_id p\<rparr>) = []"
    by (simp_all add: begun_packet_def)
  ultimately show ?thesis by (intro exI [of _ ?out] exI [of _ "?p0\<lparr>p_msg_id := p_msg_id p\<rparr>"]) simp
qed

section \<open>Answering by default\<close>

text \<open>Handlers that look at the options of a request and return a status, without answering it.\<close>

definition moved :: "smcp_s \<Rightarrow> smcp_s \<Rightarrow> bool" where
  "moved s s' \<longleftrightarrow> (\<exists>t k. s' = set_inbound (\<lambda>i. i\<lparr>this_option := t, in_last_option_key := k\<rparr>) s)"

definition scans_only :: "smcp_env \<Rightarrow> fn option \<Rightarrow> addr option \<Rightarrow> smcp_status_t \<Rightarrow> bool" where
  "scans_only env handler context ret \<longleftrightarrow>
     (case handler of
        None \<Rightarrow> ret = SMCP_STATUS_NOT_IMPLEMENTED
      | Some f \<Rightarrow> \<forall>s. \<exists>s'. env_request env f context s = Some (ret, s') \<and> moved s s')"

lemma movedI:
  "s' = s\<lparr>inbound := (inbound s)\<lparr>this_option := this_option (inbound s'), in_last_option_key := in_last_option_key (inbound s')\<rparr>\<rparr>
   \<Longrightarrow> moved s s'"
  unfolding moved_def by blast

lemma moved_trans: "moved s s' \<Longrightarrow> moved s' s'' \<Longrightarrow> moved s s''"
  unfolding moved_def by (elim exE, hypsubst) (rule movedI [unfolded moved_def], simp)

lemma scan_to_end_run:
  "scanning self xs prev opts payload \<Longrightarrow> plain_keys opts \<Longrightarrow> \<exists>self'. scan_to_end self = Some self' \<and> moved self self'"
proof (induction opts arbitrary: self xs prev)
  case Nil
  then show ?case
    by (simp add: scan_to_end.simps next_option_end movedI)
next
  case (Cons o1 opts)
  obtain k v where kv: "o1 = (k, v)" by (cases o1)
  obtain self' p where n: "smcp_inbound_next_option self = Some ((word_of_nat k, Some (Some p, word_of_nat (length v))), self')"
      "scanning self' (xs @ option_bytes prev k v) k opts payload"
      "self' = set_inbound (\<lambda>i. i\<lparr>this_option := Some (length xs + length (option_bytes prev k v)), in_last_option_key := word_of_nat k\<rparr>) self"
    using next_option_more [of self xs prev k v opts payload] Cons.prems(1) unfolding kv by blast
  have "moved self self'" unfolding moved_def n(3) by blast
  moreover obtain self'' where "scan_to_end self' = Some self''" "moved self' self''"
    using Cons.IH [OF n(2)] Cons.prems(2) by (auto simp: kv)
  ultimately show ?case
    using n(1) Cons.prems(2) plain_key(1) [of k] moved_trans by (subst scan_to_end.simps) (auto simp: kv)
qed

lemma moved_inbound_holds: "moved s s' \<Longrightarrow> inbound_holds s' p = inbound_holds s p"
  by (auto simp: moved_def inbound_holds_def)

lemma reset_moved:
  assumes "inbound_holds self p"
  shows "\<exists>self'. smcp_inbound_reset_next_option self = Some self' \<and> moved self self' \<and>
    scanning self' (packet_head p) 0 (p_options p) (packet_payload p)"
  using inbound_holds_reset [OF assms] by (auto intro: movedI)

lemma code_u8 [simp]: "(ucast (ucast (b :: u8) :: u16) :: u8) = b"
  by (rule bit_word_eqI) (simp add: bit_simps)

lemma handle_request_scans:
  assumes "inbound_holds self p" "COAP_CODE_IS_REQUEST (p_code p)" "vhost_count self = 0" "scans_only env (request_handler self) (request_handler_context self) ret"
  shows "\<exists>self'. smcp_handle_request env self = Some (ret, self') \<and> moved self self'"
proof -
  obtain m where m: "in_packet (inbound self) = Some m" "packet_code m = Some (ucast (p_code p))"
    using inbound_holds_fields [OF assms(1)] by blast
  obtain s1 s2 where s: "smcp_inbound_reset_next_option self = Some s1" "moved self s1" "scan_to_end s1 = Some s2" "moved s1 s2"
    using reset_moved [OF assms(1)] scan_to_end_run assms(1) by (metis inbound_holds_def)
  have m2: "moved self s2" using s moved_trans by blast
  then have h: "inbound_holds s2 p" "vhost_count s2 = 0"
    using assms(1,3) moved_inbound_holds by (auto simp: moved_def)
  have auth: "smcp_auth_inbound_init self = Some (SMCP_STATUS_OK, s2)"
    using s m assms(2) by (simp add: smcp_auth_inbound_init_def smcp_inbound_get_code_def smcp_inbound_get_packet_def)
  show ?thesis
  proof (cases "request_handler self")
    case None
    then show ?thesis using auth h(2) m2 assms(4)
      by (simp add: smcp_handle_request_def smcp_vhost_route_def scans_only_def)
  next
    case (Some f)
    obtain s3 where s3: "smcp_inbound_reset_next_option s2 = Some s3" "moved s2 s3"
      using reset_moved [OF h(1)] by blast
    obtain s4 where "env_request env f (request_handler_context self) s3 = Some (ret, s4)" "moved s3 s4"
      using assms(4) Some by (auto simp: scans_only_def)
    moreover from this(2) have "moved self s4" using m2 s3(2) moved_trans by blast
    ultimately show ?thesis using auth h(2) s3(1) Some
      by (simp add: smcp_handle_request_def smcp_vhost_route_def)
  qed
qed

lemma default_result_code_class:
  "\<not> default_result_code code ret (smcp_convert_status_to_result_code st) < COAP_RESULT_100"
  "smcp_convert_status_to_result_code st \<noteq> 160 \<Longrightarrow>
   default_result_code code ret (smcp_convert_status_to_result_code st) \<noteq> 160"
  by (simp_all add: default_result_code_def smcp_convert_status_to_result_code_def)

lemma respond_by_default_request:
  assumes "inbound_holds self p" "is_processing_message self" "current_transaction self = None"
    and "COAP_CODE_IS_REQUEST (p_code p)" "smcp_convert_status_to_result_code ret \<noteq> 160"
    and "take 2 (in_saddr (inbound self)) \<noteq> [0, 0]"
    and code: "code = default_result_code (ucast (p_code p)) (if is_dupe (inbound self) then SMCP_STATUS_OK else ret)
                 (smcp_convert_status_to_result_code ret)"
  shows "\<exists>st self' q. respond_by_default env (ucast (p_code p)) ret self = Some (st, self') \<and>
    sent_packets self' = (packet_wire q, in_saddr (inbound self)) # sent_packets self \<and> packet_ok q \<and>
    response_to p code q \<and> p_options q = [] \<and> p_content q = []"
proof -
  let ?s0 = "smcp_outbound_reset self"
  have s0: "\<not> did_respond ?s0" "\<not> is_responding ?s0" "is_processing_message ?s0" "inbound_holds ?s0 p"
      "length (packet_bytes (outbound ?s0)) = 1033" "current_transaction ?s0 = None"
    using assms by (simp_all add: smcp_outbound_reset_def inbound_holds_def zero_outbound_def SMCP_MAX_PACKET_LENGTH_def)
  have c: "\<not> code < COAP_RESULT_100" "code \<noteq> 160"
    unfolding code using default_result_code_class assms(5) by blast+
  obtain out q where o: "smcp_outbound_begin_response code ?s0 =
      Some (SMCP_STATUS_OK, ?s0\<lparr>outbound := out, force_current_outbound_code := False, is_responding := True\<rparr>)"
      "holds_packet (?s0\<lparr>outbound := out\<rparr>) q" "out_saddr out = in_saddr (inbound ?s0)"
      "response_to p code q" "p_options q = []" "p_content q = []"
    using begin_response_holds [OF s0 c(1)] by blast
  let ?s1 = "?s0\<lparr>outbound := out, force_current_outbound_code := False, is_responding := True\<rparr>"
  have r: "inbound ?s0 = inbound self" "sent_packets ?s0 = sent_packets self" by (simp_all add: smcp_outbound_reset_def)
  have "holds_packet ?s1 q" using o(2) by (simp add: holds_packet_def)
  from outbound_send_holds [OF this _ _ refl, of env]
  obtain st self' where send: "smcp_outbound_send env ?s1 = Some (st, self')"
      "sent_packets self' = (packet_wire q, in_saddr (inbound self)) # sent_packets self"
    using assms(6) s0(6) by (auto simp: o(3) r)
  have "respond_by_default env (ucast (p_code p)) ret self = Some (st, self')"
    using assms(4) o(1) send(1) c(2) by (simp add: respond_by_default_def code r Let_def)
  moreover have "packet_ok q" using o(2) by (simp add: holds_packet_def)
  ultimately show ?thesis using send(2) o(4-6) by blast
qed

lemma noted_options_kept [simp]:
  "is_dupe (noted_options opts i) = is_dupe i" "in_saddr (noted_options opts i) = in_saddr i"
proof -
  have "is_dupe (note_option k n j) = is_dupe j" "in_saddr (note_option k n j) = in_saddr j" for k n j
    by (auto simp: note_option_def)
  then show "is_dupe (noted_options opts i) = is_dupe i" "in_saddr (noted_options opts i) = in_saddr i"
    by (induction opts arbitrary: i) (auto simp: noted_options_def)
qed

text \<open>The parts of the state that the scans of an inbound packet leave alone.\<close>

definition same_message :: "smcp_s \<Rightarrow> smcp_s \<Rightarrow> bool" where
  "same_message s s' \<longleftrightarrow> (\<exists>i. s' = s\<lparr>inbound := i\<rparr> \<and> in_packet i = in_packet (inbound s) \<and>
     packet_len i = packet_len (inbound s) \<and> is_dupe i = is_dupe (inbound s) \<and> in_saddr i = in_saddr (inbound s))"

lemma same_messageI:
  "in_packet i = in_packet (inbound s) \<Longrightarrow> packet_len i = packet_len (inbound s) \<Longrightarrow>
   is_dupe i = is_dupe (inbound s) \<Longrightarrow> in_saddr i = in_saddr (inbound s) \<Longrightarrow> same_message s (s\<lparr>inbound := i\<rparr>)"
  unfolding same_message_def by blast

lemma same_message_fields:
  assumes "same_message s s'"
  shows "inbound_holds s' p = inbound_holds s p" "vhost_count s' = vhost_count s" "request_handler s' = request_handler s"
    "request_handler_context s' = request_handler_context s"
    "is_processing_message s' = is_processing_message s" "current_transaction s' = current_transaction s"
    "did_respond s' = did_respond s" "is_dupe (inbound s') = is_dupe (inbound s)"
    "in_saddr (inbound s') = in_saddr (inbound s)" "sent_packets s' = sent_packets s"
  using assms by (auto simp: same_message_def inbound_holds_def)

lemma read_options_same: "inbound_holds self p \<Longrightarrow> \<exists>self'. read_options self = Some self' \<and> same_message self self'"
  using read_options_holds [of self p] by (auto intro!: same_messageI)

lemma moved_same: "moved s s' \<Longrightarrow> same_message s s'"
  by (auto simp: moved_def intro!: same_messageI)

lemma same_message_trans:
  assumes "same_message s s'" "same_message s' s''"
  shows "same_message s s''"
proof -
  obtain i where "s' = s\<lparr>inbound := i\<rparr>" "in_packet i = in_packet (inbound s)" "packet_len i = packet_len (inbound s)"
      "is_dupe i = is_dupe (inbound s)" "in_saddr i = in_saddr (inbound s)"
    using assms(1) unfolding same_message_def by blast
  moreover obtain j where "s'' = s'\<lparr>inbound := j\<rparr>" "in_packet j = in_packet (inbound s')" "packet_len j = packet_len (inbound s')"
      "is_dupe j = is_dupe (inbound s')" "in_saddr j = in_saddr (inbound s')"
    using assms(2) unfolding same_message_def by blast
  ultimately show ?thesis using same_messageI [of j s] by simp
qed

lemma finish_packet_read_options:
  "smcp_inbound_finish_packet env self =
     (if \<not> is_processing_message self then Some (SMCP_STATUS_FAILURE, finish_inbound self)
      else do {
        packet \<leftarrow> in_packet (inbound self);
        tt \<leftarrow> packet_tt packet;
        code \<leftarrow> packet_code packet;
        if was_sent_to_multicast (inbound self) \<and> tt = COAP_TRANS_TYPE_CONFIRMABLE
        then Some (SMCP_STATUS_FAILURE, finish_inbound self)
        else do {
          self \<leftarrow> check_dupe self;
          self \<leftarrow> read_options self;
          (ret, self) \<leftarrow>
            (if COAP_CODE_IS_REQUEST (ucast code) then smcp_handle_request env self
             else if COAP_CODE_IS_RESULT (ucast code) then smcp_handle_response env self
             else Some (SMCP_STATUS_OK, self));
          (ret, self) \<leftarrow>
            (if \<not> did_respond self \<and> tt = COAP_TRANS_TYPE_CONFIRMABLE
             then respond_by_default env code ret self else Some (ret, self));
          Some (ret, finish_inbound self)
        }
      })"
  unfolding smcp_inbound_finish_packet_def read_options_def Option.bind_assoc by (rule refl)

text \<open>
  C2: a confirmable request always gets an answer: when it was received and neither the handler nor a
  virtual host answers it, \<^verbatim>\<open>smcp_inbound_finish_packet\<close> hands exactly one packet for its sender to the
  socket, an acknowledgement with its message identifier and its token, whose code follows from the
  status of the handler (from success for a duplicate), and the instance is ready for the next
  message. (For a status of result code 5.00, which also gets content, the answer is not described
  here.)
\<close>

theorem unanswered_request_acknowledged:
  assumes "inbound_holds self p" "is_processing_message self" "\<not> did_respond self" "current_transaction self = None"
    and "COAP_CODE_IS_REQUEST (p_code p)" "header_tt (p_first p) = COAP_TRANS_TYPE_CONFIRMABLE"
    and "\<not> was_sent_to_multicast (inbound self)" "\<not> is_fake (inbound self)" "vhost_count self = 0"
    and "take 2 (in_saddr (inbound self)) \<noteq> [0, 0]"
    and "scans_only env (request_handler self) (request_handler_context self) ret" "smcp_convert_status_to_result_code ret \<noteq> word_of_nat (HTTP_TO_COAP_CODE 500)"
    and "smcp_inbound_dupe_check (dupe_info self) (in_saddr (inbound self)) (p_msg_id p) = Some (duplicate, info)"
  shows "\<exists>st self' q. smcp_inbound_finish_packet env self = Some (st, self') \<and>
    sent_packets self' = (packet_wire q, in_saddr (inbound self)) # sent_packets self \<and>
    packet_ok q \<and> header_tt (p_first q) = COAP_TRANS_TYPE_ACK \<and> p_msg_id q = p_msg_id p \<and> p_token q = p_token p \<and>
    p_code q = ucast (default_result_code (ucast (p_code p)) (if duplicate then SMCP_STATUS_OK else ret)
                 (smcp_convert_status_to_result_code ret)) \<and>
    p_options q = [] \<and> p_content q = [] \<and> \<not> is_processing_message self' \<and> in_packet (inbound self') = None"
proof -
  obtain m where m: "in_packet (inbound self) = Some m" "packet_tt m = Some COAP_TRANS_TYPE_CONFIRMABLE"
      "packet_code m = Some (ucast (p_code p))" "packet_msg_id m = Some (p_msg_id p)"
    using inbound_holds_fields [OF assms(1)] assms(6) by auto
  let ?s1 = "set_inbound (\<lambda>i. i\<lparr>is_dupe := duplicate\<rparr>) (self\<lparr>dupe_info := info\<rparr>)"
  have s1: "check_dupe self = Some ?s1"
    using assms(8,13) m(1,4) by (simp add: check_dupe_def smcp_inbound_get_msg_id_def smcp_inbound_get_packet_def)
  have h1: "inbound_holds ?s1 p" using assms(1) by (simp add: inbound_holds_def)
  obtain s2 where s2: "read_options ?s1 = Some s2" "same_message ?s1 s2" using read_options_same [OF h1] by blast
  have "inbound_holds s2 p" "vhost_count s2 = 0" "scans_only env (request_handler s2) (request_handler_context s2) ret"
    using h1 assms(9,11) by (simp_all add: same_message_fields [OF s2(2)])
  from handle_request_scans [OF this(1) assms(5) this(2,3)]
  obtain s3 where s3: "smcp_handle_request env s2 = Some (ret, s3)" "same_message ?s1 s3"
    using s2(2) moved_same same_message_trans by blast
  then have t: "inbound_holds s3 p" "is_processing_message s3" "current_transaction s3 = None" "\<not> did_respond s3"
      "is_dupe (inbound s3) = duplicate" "in_saddr (inbound s3) = in_saddr (inbound self)" "sent_packets s3 = sent_packets self"
    using h1 assms(2-4) by (simp_all add: same_message_fields [OF s3(2)])
  let ?code = "default_result_code (ucast (p_code p)) (if duplicate then SMCP_STATUS_OK else ret) (smcp_convert_status_to_result_code ret)"
  obtain st self' q where r: "respond_by_default env (ucast (p_code p)) ret s3 = Some (st, self')"
      "sent_packets self' = (packet_wire q, in_saddr (inbound self)) # sent_packets self" "packet_ok q"
      "response_to p ?code q" "p_options q = []" "p_content q = []"
    using respond_by_default_request [OF t(1-3) assms(5) _ _ refl, of ret env] assms(10,12) unfolding t by auto
  have "smcp_inbound_finish_packet env self = Some (st, finish_inbound self')"
    using assms(2,5,7) m s1 s2(1) s3(1) t(4) r(1)
    by (simp add: finish_packet_read_options)
  then show ?thesis
    using r(2-6) assms(6)
    by (intro exI [of _ st] exI [of _ "finish_inbound self'"] exI [of _ q])
      (auto simp: finish_inbound_def response_to_def COAP_TRANS_TYPE_CONFIRMABLE_def COAP_TRANS_TYPE_NONCONFIRMABLE_def)
qed

text \<open>The sample request, received by an instance without a handler.\<close>

lemma sample_received:
  "\<exists>self. inbound_holds self sample_packet \<and> is_processing_message self \<and> \<not> did_respond self \<and> \<not> is_responding self \<and>
     current_transaction self = None \<and> \<not> was_sent_to_multicast (inbound self) \<and> \<not> is_fake (inbound self) \<and>
     vhost_count self = 0 \<and> in_saddr (inbound self) = replicate 28 1 \<and> request_handler self = None \<and>
     dupe_info self = empty_dupe_info \<and> length (packet_bytes (outbound self)) = 1033"
proof -
  obtain i where i: "inbound_holds (zero_state\<lparr>inbound := i\<rparr>) sample_packet" "\<not> is_fake i" "\<not> was_sent_to_multicast i"
    using start_packet_holds [OF sample_packet_ok] by blast
  let ?s = "zero_state\<lparr>inbound := i\<lparr>in_saddr := replicate 28 1\<rparr>, is_processing_message := True\<rparr>"
  have "inbound_holds ?s sample_packet" using i(1) by (simp add: inbound_holds_def)
  then show ?thesis
    using i(2,3) zero_state_begin(1) by (intro exI [of _ ?s]) (simp add: zero_smcp_def)
qed

lemma sample_fields:
  "COAP_CODE_IS_REQUEST (p_code sample_packet)" "header_tt (p_first sample_packet) = COAP_TRANS_TYPE_CONFIRMABLE"
  "p_msg_id sample_packet = 0x1234" "p_token sample_packet = [7]"
  by (simp_all add: sample_packet_def COAP_CODE_IS_REQUEST_def header_tt_def COAP_TRANS_TYPE_CONFIRMABLE_def
      drop_bit_eq_div word_unat_eq_iff)

theorem unanswered_request_acknowledged_witness:
  "\<exists>self st self' q. smcp_inbound_finish_packet accepting_env self = Some (st, self') \<and>
     sent_packets self' = (packet_wire q, replicate 28 1) # sent_packets self \<and>
     header_tt (p_first q) = COAP_TRANS_TYPE_ACK \<and> p_msg_id q = 0x1234 \<and> p_token q = [7]"
proof -
  obtain self where s: "inbound_holds self sample_packet" "is_processing_message self" "\<not> did_respond self"
      "current_transaction self = None" "\<not> was_sent_to_multicast (inbound self)" "\<not> is_fake (inbound self)"
      "vhost_count self = 0" "in_saddr (inbound self) = replicate 28 1" "request_handler self = None"
      "dupe_info self = empty_dupe_info"
    using sample_received by blast
  obtain d info where "smcp_inbound_dupe_check empty_dupe_info (replicate 28 1) (p_msg_id sample_packet) = Some (d, info)"
    using ring.check_total [of empty_dupe_info "(replicate 28 1, p_msg_id sample_packet)"] empty_dupe_inv
    by (auto simp: dupe_msg_def sizeof_sockaddr_def)
  then show ?thesis
    using unanswered_request_acknowledged [OF s(1-4) sample_fields(1,2) s(5-7), where env = accepting_env
        and ret = SMCP_STATUS_NOT_IMPLEMENTED and duplicate = d and info = info] s sample_fields(3,4)
    by (auto simp: numeral_2_eq_2 scans_only_def smcp_convert_status_to_result_code_def)
qed

lemma begin_response_again:
  "\<not> did_respond s \<Longrightarrow> is_responding s \<Longrightarrow> smcp_outbound_begin_response code s = Some (SMCP_STATUS_OK, s)"
  by (simp add: smcp_outbound_begin_response_def)

lemma begin_response_refused:
  "did_respond s \<Longrightarrow> smcp_outbound_begin_response code s =
     Some (SMCP_STATUS_RESPONSE_NOT_ALLOWED, s\<lparr>is_responding := False\<rparr>)"
  by (simp add: smcp_outbound_begin_response_def)

lemma send_status_positive: "n > 0 \<Longrightarrow> send_status n = SMCP_STATUS_OK"
  by (simp add: send_status_def)

lemma sample_family: "take 2 (replicate 28 1 :: u8 list) \<noteq> [0, 0]"
  by (simp add: numeral_2_eq_2)

text \<open>
  C19: a message gets at most one response: once the response that was begun has been sent, another
  \<^verbatim>\<open>smcp_outbound_begin_response\<close> fails with RESPONSE_NOT_ALLOWED and starts no packet; before it has been
  sent, beginning it again changes nothing.
\<close>

theorem response_only_once:
  assumes "\<not> did_respond self" "\<not> is_responding self" "is_processing_message self" "inbound_holds self p"
    and "length (packet_bytes (outbound self)) = 1033" "current_transaction self = None" "\<not> code < COAP_RESULT_100"
    and "take 2 (in_saddr (inbound self)) \<noteq> [0, 0]" "\<And>bs a. env_send env bs a > 0"
  shows "\<exists>self1 self2. smcp_outbound_begin_response code self = Some (SMCP_STATUS_OK, self1) \<and>
    smcp_outbound_begin_response code' self1 = Some (SMCP_STATUS_OK, self1) \<and>
    smcp_outbound_send env self1 = Some (SMCP_STATUS_OK, self2) \<and> length (sent_packets self2) = length (sent_packets self) + 1 \<and>
    smcp_outbound_begin_response code' self2 = Some (SMCP_STATUS_RESPONSE_NOT_ALLOWED, self2)"
proof -
  obtain out q where o: "smcp_outbound_begin_response code self =
      Some (SMCP_STATUS_OK, self\<lparr>outbound := out, force_current_outbound_code := False, is_responding := True\<rparr>)"
      "holds_packet (self\<lparr>outbound := out\<rparr>) q" "out_saddr out = in_saddr (inbound self)"
    using begin_response_holds [OF assms(1-7)] by blast
  let ?s1 = "self\<lparr>outbound := out, force_current_outbound_code := False, is_responding := True\<rparr>"
  have "holds_packet ?s1 q" using o(2) by (simp add: holds_packet_def)
  from outbound_send_holds [OF this _ _ refl, of env]
  have "smcp_outbound_send env ?s1 = Some (SMCP_STATUS_OK, ?s1\<lparr>did_respond := True, is_responding := False,
      sent_packets := (packet_wire q, in_saddr (inbound self)) # sent_packets self\<rparr>)"
    using assms(6,8,9) o(3) by (simp add: send_status_positive)
  then show ?thesis using o(1) assms(1) by (simp add: begin_response_again begin_response_refused)
qed

theorem response_only_once_witness:
  "\<exists>self self1 self2. smcp_outbound_begin_response 69 self = Some (SMCP_STATUS_OK, self1) \<and>
     smcp_outbound_send (accepting_env\<lparr>env_send := \<lambda>_ _. 1\<rparr>) self1 = Some (SMCP_STATUS_OK, self2) \<and>
     smcp_outbound_begin_response 69 self2 = Some (SMCP_STATUS_RESPONSE_NOT_ALLOWED, self2)"
proof -
  obtain self where s: "inbound_holds self sample_packet" "is_processing_message self" "\<not> did_respond self" "\<not> is_responding self"
      "current_transaction self = None" "in_saddr (inbound self) = replicate 28 1" "length (packet_bytes (outbound self)) = 1033"
    using sample_received by blast
  show ?thesis
    using response_only_once [OF s(3,4,2,1,7,5), of 69 "accepting_env\<lparr>env_send := \<lambda>_ _. 1\<rparr>" 69] s(6) sample_family
    by auto
qed

end
