(* ===== verification/Transaction_Order.thy ===== *)
theory Transaction_Order
  imports Transaction Outbound_Packet
begin

text \<open>
  The transactions in flight: the tree is ordered by message identifier, so that it is a map from
  identifiers to transactions, and every operation keeps it and the list of timers in order.
\<close>

section \<open>The tree as a map\<close>

interpretation trans_order: bt_order "\<lambda>a. msg_id (tr a)" "\<lambda>k x. smcp_transaction_compare_msg_id tr x k" UNIV for tr
  by unfold_locales (auto simp: smcp_transaction_compare_msg_id_def)

lemma compare_by_id: "smcp_transaction_compare tr lhs rhs = smcp_transaction_compare_msg_id tr lhs (msg_id (tr rhs))"
  by (simp add: smcp_transaction_compare_def smcp_transaction_compare_msg_id_def)

definition trans_inv :: "smcp_s \<Rightarrow> addr tree \<Rightarrow> addr list \<Rightarrow> bool" where
  "trans_inv self t ts \<longleftrightarrow> holds_tree (transactions self) t \<and> trans_order.ordered (trans self) t \<and>
     timers_inv (timer_state self) ts"

definition ids :: "smcp_s \<Rightarrow> addr tree \<Rightarrow> u16 set" where
  "ids self t = (\<lambda>a. msg_id (trans self a)) ` set_tree t"

lemma ordered_trans_cong:
  assumes "\<And>x. x \<in> set_tree t \<Longrightarrow> msg_id (tr x) = msg_id (tr' x)"
  shows "trans_order.ordered tr t = trans_order.ordered tr' t"
proof -
  have "map (\<lambda>x. msg_id (tr x)) (inorder t) = map (\<lambda>x. msg_id (tr' x)) (inorder t)"
    using assms by (intro map_cong) auto
  then show ?thesis by (simp only: trans_order.ordered_def subset_UNIV)
qed

lemma find_via_msg_id_tree:
  "holds_tree (transactions self) t \<Longrightarrow>
   smcp_transaction_find_via_msg_id self mid = Some (tree_find (\<lambda>x. smcp_transaction_compare_msg_id (trans self) x mid) t)"
  by (simp add: smcp_transaction_find_via_msg_id_def holds_tree_find)

lemma insert_transaction_new:
  assumes "holds_tree (transactions self) t" "trans_order.ordered (trans self) t" "handler \<notin> set_tree t"
    and "bt_lhs (transactions self) handler = None" "bt_rhs (transactions self) handler = None"
      "bt_parent (transactions self) handler = None"
    and "msg_id (trans self handler) \<notin> ids self t"
  shows "\<exists>h t'. insert_transaction env handler self = Some (self\<lparr>transactions := h\<rparr>) \<and> holds_tree h t' \<and>
    t' = tree_insert (\<lambda>x. smcp_transaction_compare_msg_id (trans self) x (msg_id (trans self handler))) handler t"
proof -
  let ?cmp = "\<lambda>x. smcp_transaction_compare_msg_id (trans self) x (msg_id (trans self handler))"
  have none: "tree_find ?cmp t = None"
    using trans_order.tree_find_None [OF assms(2) UNIV_I] assms(7) by (simp add: ids_def)
  then show ?thesis
    using holds_tree_insert [OF assms(1,3-6), of ?cmp] by (auto simp: insert_transaction_def compare_by_id)
qed

text \<open>
  Removal goes by the identifier: of a transaction that is not in the tree it takes out the one that
  has its identifier, if any.
\<close>

lemma tree_remove_absent: "tree_find cmp t = None \<Longrightarrow> tree_remove cmp t = t"
  by (induction t) (auto split: if_splits)

lemma remove_transaction_by_id:
  assumes "holds_tree (transactions self) t" "handler \<notin> set_tree t"
  shows "\<exists>h. remove_transaction env False handler self = Some (self\<lparr>transactions := h\<rparr>) \<and>
    holds_tree h (tree_remove (\<lambda>x. smcp_transaction_compare_msg_id (trans self) x (msg_id (trans self handler))) t) \<and>
    bt_lhs h handler = bt_lhs (transactions self) handler \<and> bt_rhs h handler = bt_rhs (transactions self) handler \<and>
    bt_parent h handler = bt_parent (transactions self) handler"
proof -
  let ?cmp = "\<lambda>x. smcp_transaction_compare_msg_id (trans self) x (msg_id (trans self handler))"
  show ?thesis
  proof (cases "tree_find ?cmp t")
    case None
    then have "bt_find ?cmp (transactions self) = Some None" using holds_tree_find [OF assms(1)] by simp
    then show ?thesis
      using assms(1) by (intro exI [of _ "transactions self"])
        (simp add: remove_transaction_def compare_by_id bt_remove_def tree_remove_absent [OF None])
  next
    case (Some x)
    from holds_tree_remove [OF assms(1) this] show ?thesis
      using assms(2) by (auto simp: remove_transaction_def compare_by_id same_outside_def)
  qed
qed

lemma remove_transaction_present:
  assumes "holds_tree (transactions self) t" "trans_order.ordered (trans self) t" "handler \<in> set_tree t"
  shows "\<exists>h. remove_transaction env del handler self =
      (if del then smcp_internal_delete_transaction env handler (self\<lparr>transactions := h\<rparr>) else Some (self\<lparr>transactions := h\<rparr>)) \<and>
    holds_tree h (tree_remove (\<lambda>x. smcp_transaction_compare_msg_id (trans self) x (msg_id (trans self handler))) t)"
proof -
  let ?cmp = "\<lambda>x. smcp_transaction_compare_msg_id (trans self) x (msg_id (trans self handler))"
  have found: "tree_find ?cmp t = Some handler"
    using trans_order.tree_find_iff [OF assms(2) UNIV_I] assms(3) by blast
  then show ?thesis
    using holds_tree_remove [OF assms(1) found] by (auto simp: remove_transaction_def compare_by_id)
qed

section \<open>Beginning\<close>

lemma next_msg_id_fields:
  assumes "smcp_get_next_msg_id self = (mid, self')"
  shows "transactions self' = transactions self" "trans self' = trans self" "timer_state self' = timer_state self"
    "current_transaction self' = current_transaction self"
  using assms by (auto simp: smcp_get_next_msg_id_def draw_random_def Let_def split: if_splits)

text \<open>
  The flag \<^verbatim>\<open>SMCP_TRANSACTION_DELAY_START\<close> is the ninth bit of a field of eight: it is lost when the
  flags are stored, and no transaction is ever delayed.
\<close>

lemma delay_start_lost: "\<not> has_flag f SMCP_TRANSACTION_DELAY_START"
proof -
  have "uint f AND 256 = (0 :: int)"
    by (rule bit_eqI) (auto simp: bit_simps bit_exp_iff [where ?'a = int and m = 8, simplified] dest: bit_imp_le_length)
  then show ?thesis by (simp add: has_flag_def SMCP_TRANSACTION_DELAY_START_def)
qed

text \<open>Initialising the timer of a transaction that is not scheduled leaves the list of timers alone.\<close>

lemma timer_init_inv:
  assumes "timers_inv ts xs" "t \<notin> set xs"
  shows "timers_inv (smcp_timer_init t cb cancel context ts) xs"
proof -
  have "ll_next (t_ll ts) t = None" "ll_prev (t_ll ts) t = None" using assms by (auto simp: timers_inv_def)
  then have "set_prev t None (set_next t None (t_ll ts)) = t_ll ts"
    by (simp add: fun_upd_idem)
  moreover have "sorted_wrt (\<lambda>a b. tv_le (((t_fire_date ts)(t := d)) a) (((t_fire_date ts)(t := d)) b)) xs" for d
    using assms by (auto simp: timers_inv_def intro: sorted_wrt_mono_rel [rotated])
  ultimately show ?thesis using assms by (auto simp: timers_inv_def smcp_timer_init_def)
qed

lemma schedule_timer_new:
  assumes "timers_inv (timer_state self) xs" "t \<notin> set xs"
  shows "\<exists>ts'. schedule_timer env t cms self = Some (SMCP_STATUS_OK, self\<lparr>timer_state := ts'\<rparr>) \<and>
    timers_inv ts' (insert_place (smcp_timer_compare_func (t_fire_date ts')) t xs) \<and>
    t_callback ts' = t_callback (timer_state self) \<and> t_context ts' = t_context (timer_state self) \<and>
    t_cancel ts' = t_cancel (timer_state self) \<and>
    t_fire_date ts' = (t_fire_date (timer_state self))(t := convert_cms_to_timeval (env_now env) (max 0 cms))"
  using schedule_new [OF assms, of "env_now env" cms] by (auto simp: schedule_timer_def)

text \<open>Everything that \<^verbatim>\<open>smcp_transaction_begin\<close> does before it inserts the transaction.\<close>

lemma begin_prepares:
  assumes "timers_inv (timer_state self) ts" "handler \<notin> set ts"
    and "remove_transaction env False handler self = Some (self\<lparr>transactions := h\<rparr>)" "fst (smcp_get_next_msg_id self) = mid"
  shows "\<exists>s5 ts'. smcp_transaction_begin env (Some handler) expiry self =
      map_option (Pair SMCP_STATUS_OK) (insert_transaction env handler s5) \<and>
    transactions s5 = h \<and> (\<forall>x. x \<noteq> handler \<longrightarrow> trans s5 x = trans self x) \<and>
    msg_id (trans s5 handler) = mid \<and> token (trans s5 handler) = mid \<and> active (trans s5 handler) \<and>
    timers_inv (timer_state s5) ts' \<and> set ts' = insert handler (set ts) \<and>
    t_callback (timer_state s5) handler = Some Transaction_timeout \<and> t_context (timer_state s5) handler = Some handler"
proof -
  have "fst (smcp_get_next_msg_id (self\<lparr>transactions := h\<rparr>)) = mid"
    using assms(4) by (simp add: smcp_get_next_msg_id_def draw_random_def Let_def split: if_splits)
  then obtain s1 where s1: "smcp_get_next_msg_id (self\<lparr>transactions := h\<rparr>) = (mid, s1)"
    by (cases "smcp_get_next_msg_id (self\<lparr>transactions := h\<rparr>)") simp
  note same = next_msg_id_fields [OF s1]
  define exp where "exp = (if expiry < 0 then COAP_EXCHANGE_LIFETIME_cms else expiry)"
  define s3 where "s3 = set_trans handler (\<lambda>tr. tr\<lparr>token := mid, msg_id := mid, waiting_for_async_response := False,
      attemptCount := 0, last_observe := 0, next_block2 := 0, active := True,
      expiration := convert_cms_to_timeval (env_now env) exp\<rparr>) s1"
  define cms where "cms = keepalive_cap (flags (trans s3 handler)) (if resendCallback (trans s3 handler) \<noteq> None then 0 else exp)"
  have s3: "transactions s3 = h" "\<forall>x. x \<noteq> handler \<longrightarrow> trans s3 x = trans self x" "timer_state s3 = timer_state self"
      "msg_id (trans s3 handler) = mid" "token (trans s3 handler) = mid" "active (trans s3 handler)"
    using same by (auto simp: s3_def)
  let ?s4 = "s3\<lparr>timer_state := smcp_timer_init handler (Some Transaction_timeout) None (Some handler) (timer_state s3)\<rparr>"
  have "timers_inv (timer_state ?s4) ts" using timer_init_inv [OF assms(1,2)] s3(3) by simp
  from schedule_timer_new [OF this assms(2), of env cms]
  obtain tm where tm: "schedule_timer env handler cms ?s4 = Some (SMCP_STATUS_OK, s3\<lparr>timer_state := tm\<rparr>)"
      "timers_inv tm (insert_place (smcp_timer_compare_func (t_fire_date tm)) handler ts)"
      "t_callback tm handler = Some Transaction_timeout" "t_context tm handler = Some handler"
    by (auto simp: smcp_timer_init_def)
  have "smcp_transaction_begin env (Some handler) expiry self =
      map_option (Pair SMCP_STATUS_OK) (insert_transaction env handler (s3\<lparr>timer_state := tm\<rparr>))"
    using tm(1)
    by (cases "resendCallback (trans s1 handler)")
      (simp_all add: smcp_transaction_begin_def assms(3) s1 Let_def exp_def [symmetric] s3_def cms_def
        delay_start_lost map_conv_bind_option comp_def)
  then show ?thesis
    using tm(2-4) s3
    by (intro exI [of _ "s3\<lparr>timer_state := tm\<rparr>"]
        exI [of _ "insert_place (smcp_timer_compare_func (t_fire_date tm)) handler ts"]) (simp add: set_insert_place)
qed

text \<open>What a lookup finds after the removal of the old identifier and the insertion under the new one.\<close>

lemma find_after_begin:
  fixes old :: u16
  defines "cmp \<equiv> \<lambda>tr k x. smcp_transaction_compare_msg_id tr x k"
  assumes "trans_order.ordered tr t" "trans_order.ordered tr' (tree_remove (cmp tr old) t)" "\<forall>x \<in> set_tree t. tr' x = tr x"
  shows "tree_find (cmp tr' k) (tree_insert (cmp tr' (msg_id (tr' handler))) handler (tree_remove (cmp tr old) t)) =
    (if k = msg_id (tr' handler) then Some handler else if k = old then None else tree_find (cmp tr k) t)"
proof -
  have "set_tree (tree_remove (cmp tr old) t) \<subseteq> set_tree t"
    using trans_order.set_tree_remove [OF assms(2) UNIV_I, of old] by (auto simp: cmp_def)
  then have "tree_find (cmp tr' k) (tree_remove (cmp tr old) t) = tree_find (cmp tr k) (tree_remove (cmp tr old) t)"
    using assms(4) by (intro tree_cmp_cong(1)) (auto simp: cmp_def smcp_transaction_compare_msg_id_def)
  then show ?thesis
    using trans_order.find_insert [OF assms(3) UNIV_I UNIV_I, of k handler] trans_order.find_remove [OF assms(2) UNIV_I UNIV_I, of k old]
    by (simp add: cmp_def)
qed

text \<open>
  C20: a transaction that is begun can be found: when a transaction that is not pending is begun under
  a fresh message identifier, the call succeeds, the transaction is active with this identifier
  as its token, a lookup of the identifier finds it, its timer is scheduled besides the timers that
  were, and both structures are in order. Before that, \<^verbatim>\<open>smcp_transaction_begin\<close> removes whatever has
  the identifier that the transaction had so far: if another pending transaction has this
  identifier, it is taken out of the tree, with its timer left scheduled, and can not be found any
  more. All other transactions stay, and all other lookups give what they gave.
\<close>

theorem transaction_begin_found:
  assumes "trans_inv self t ts" "handler \<notin> set_tree t" "handler \<notin> set ts"
    and "bt_lhs (transactions self) handler = None" "bt_rhs (transactions self) handler = None"
      "bt_parent (transactions self) handler = None"
    and "fst (smcp_get_next_msg_id self) = mid" "mid \<notin> ids self t"
  shows "\<exists>self' t' ts'. smcp_transaction_begin env (Some handler) expiry self = Some (SMCP_STATUS_OK, self') \<and>
    trans_inv self' t' ts' \<and> set ts' = insert handler (set ts) \<and>
    set_tree t' = insert handler {x \<in> set_tree t. msg_id (trans self x) \<noteq> msg_id (trans self handler)} \<and>
    active (trans self' handler) \<and> msg_id (trans self' handler) = mid \<and> token (trans self' handler) = mid \<and>
    (\<forall>k. smcp_transaction_find_via_msg_id self' k =
       (if k = mid then Some (Some handler) else if k = msg_id (trans self handler) then Some None
        else smcp_transaction_find_via_msg_id self k)) \<and>
    t_callback (timer_state self') handler = Some Transaction_timeout \<and> t_context (timer_state self') handler = Some handler"
proof -
  have inv: "holds_tree (transactions self) t" "trans_order.ordered (trans self) t" "timers_inv (timer_state self) ts"
    using assms(1) by (simp_all add: trans_inv_def)
  let ?old = "msg_id (trans self handler)"
  define t1 where "t1 = tree_remove (\<lambda>x. smcp_transaction_compare_msg_id (trans self) x ?old) t"
  obtain h1 where h1: "remove_transaction env False handler self = Some (self\<lparr>transactions := h1\<rparr>)" "holds_tree h1 t1"
      "bt_lhs h1 handler = None" "bt_rhs h1 handler = None" "bt_parent h1 handler = None"
    using remove_transaction_by_id [OF inv(1) assms(2), of env] assms(4-6) by (auto simp: t1_def)
  have t1: "set_tree t1 = {x \<in> set_tree t. msg_id (trans self x) \<noteq> ?old}" "trans_order.ordered (trans self) t1"
    using trans_order.set_tree_remove [OF inv(2) UNIV_I] trans_order.ordered_remove [OF inv(2) UNIV_I] by (simp_all add: t1_def)
  obtain s5 ts' where s5: "smcp_transaction_begin env (Some handler) expiry self =
        map_option (Pair SMCP_STATUS_OK) (insert_transaction env handler s5)" "transactions s5 = h1"
      "\<forall>x. x \<noteq> handler \<longrightarrow> trans s5 x = trans self x" "msg_id (trans s5 handler) = mid"
      and rest: "token (trans s5 handler) = mid" "active (trans s5 handler)"
      "timers_inv (timer_state s5) ts'" "set ts' = insert handler (set ts)"
      "t_callback (timer_state s5) handler = Some Transaction_timeout" "t_context (timer_state s5) handler = Some handler"
    using begin_prepares [OF inv(3) assms(3) h1(1) assms(7), of expiry] by blast
  have tr: "trans s5 x = trans self x" if "x \<in> set_tree t" for x using that assms(2) s5(3) by metis
  have other: "msg_id (trans s5 x) \<noteq> mid" if "x \<in> set_tree t1" for x
    using assms(8) that tr t1(1) by (force simp: ids_def)
  then have fresh: "mid \<notin> ids s5 t1" by (auto simp: ids_def)
  have ord: "trans_order.ordered (trans s5) t1"
    using t1 ordered_trans_cong [of t1 "trans s5" "trans self"] tr by simp
  let ?cmp = "\<lambda>k x. smcp_transaction_compare_msg_id (trans s5) x k"
  obtain h where h: "insert_transaction env handler s5 = Some (s5\<lparr>transactions := h\<rparr>)"
      "holds_tree h (tree_insert (?cmp mid) handler t1)"
    using insert_transaction_new [of s5 t1 handler env] ord fresh h1(2-5) s5(2,4) t1(1) assms(2) by auto
  have "tree_find (?cmp k) (tree_insert (?cmp mid) handler t1) = (if k = mid then Some handler else if k = ?old then None
      else tree_find (\<lambda>x. smcp_transaction_compare_msg_id (trans self) x k) t)" for k
    using find_after_begin [where tr = "trans self" and t = t and tr' = "trans s5" and old = ?old and handler = handler and k = k] inv(2) ord tr s5(4) by (simp add: t1_def)
  moreover have "set_tree (tree_insert (?cmp mid) handler t1) = insert handler (set_tree t1)"
    using trans_order.set_tree_insert [OF ord UNIV_I, of handler] s5(4) other by auto
  moreover have "trans_inv (s5\<lparr>transactions := h\<rparr>) (tree_insert (?cmp mid) handler t1) ts'"
    using h(2) rest(3) trans_order.ordered_insert [OF ord UNIV_I, of handler] s5(4) by (simp add: trans_inv_def)
  ultimately show ?thesis
    using s5(1,4) h rest t1(1) find_via_msg_id_tree [OF inv(1)] find_via_msg_id_tree [of "s5\<lparr>transactions := h\<rparr>"]
    by (intro exI [of _ "s5\<lparr>transactions := h\<rparr>"] exI [of _ "tree_insert (?cmp mid) handler t1"] exI [of _ ts']) simp
qed

text \<open>An instance with one transaction in flight.\<close>

definition one_trans :: smcp_s where
  "one_trans = (zero_smcp (\<lambda>_. 7))\<lparr>
     transactions := \<lparr>bt_root = Some 1, bt_lhs = \<lambda>_. None, bt_rhs = \<lambda>_. None, bt_parent = \<lambda>_. None\<rparr>,
     trans := (\<lambda>_. zero_transaction)(1 := zero_transaction\<lparr>active := True, msg_id := 9, callback := Some 5\<rparr>),
     timer_state := (timer_state (zero_smcp (\<lambda>_. 7)))\<lparr>timers := Some 1\<rparr>\<rparr>"

lemma one_trans_inv: "trans_inv one_trans (Node Leaf 1 Leaf) [1]"
  by (simp add: trans_inv_def holds_tree_def timers_inv_def one_trans_def zero_smcp_def is_list_def)

text \<open>The same with a second transaction, which had the identifier of the first before it ended.\<close>

definition ended_trans :: smcp_s where
  "ended_trans = one_trans\<lparr>trans := (trans one_trans)(2 := zero_transaction\<lparr>msg_id := 9, callback := Some 5\<rparr>)\<rparr>"

lemma ended_trans_inv: "trans_inv ended_trans (Node Leaf 1 Leaf) [1]"
  by (simp add: trans_inv_def holds_tree_def timers_inv_def ended_trans_def one_trans_def zero_smcp_def is_list_def)

theorem transaction_begin_found_witness:
  "\<exists>self'. smcp_transaction_begin accepting_env (Some 2) (- 1) ended_trans = Some (SMCP_STATUS_OK, self') \<and>
     smcp_transaction_find_via_msg_id self' (fst (smcp_get_next_msg_id ended_trans)) = Some (Some 2) \<and>
     smcp_transaction_find_via_msg_id ended_trans 9 = Some (Some 1) \<and> smcp_transaction_find_via_msg_id self' 9 = Some None"
proof -
  have id: "fst (smcp_get_next_msg_id ended_trans) = 36080" by code_simp
  have links: "bt_lhs (transactions ended_trans) 2 = None" "bt_rhs (transactions ended_trans) 2 = None" "bt_parent (transactions ended_trans) 2 = None"
      "msg_id (trans ended_trans 2) = 9" "msg_id (trans ended_trans 1) = 9"
    by (simp_all add: ended_trans_def one_trans_def)
  moreover have "smcp_transaction_find_via_msg_id ended_trans 9 = Some (Some 1)"
    using find_via_msg_id_tree [of ended_trans "Node Leaf 1 Leaf" 9] ended_trans_inv links(5)
    by (simp add: trans_inv_def smcp_transaction_compare_msg_id_def)
  ultimately show ?thesis
    using transaction_begin_found [OF ended_trans_inv, of 2, OF _ _ links(1-3) id, of accepting_env "- 1"]
    by (auto simp: ids_def id)
qed

section \<open>Ending\<close>

lemma invalidate_timer_inv:
  assumes "timers_inv (timer_state self) ts" "t \<in> set ts" "t_cancel (timer_state self) t = None"
  shows "\<exists>tm. invalidate_timer env t self = Some (self\<lparr>timer_state := tm\<rparr>) \<and> timers_inv tm (remove1 t ts)"
proof -
  obtain tm call where c: "smcp_invalidate_timer (timer_state self) t = (tm, call)" by fastforce
  then have "call = None"
    using assms(3) by (auto simp: smcp_invalidate_timer_def split: prod.splits)
  with c show ?thesis
    using invalidate_list [OF assms(1,2)] by (intro exI [of _ tm]) (simp add: invalidate_timer_def)
qed

text \<open>
  C21: a transaction that is ended is gone: ending an active transaction, which has its timer, unlinks
  it from the tree and its timer from the list, clears it from being the current one, and then
  calls its callback, once, with TRANSACTION_INVALIDATED. In the state in which the callback runs
  no identifier leads to the transaction, all other lookups are as before, and both structures
  are in order.
\<close>

theorem transaction_end_removes:
  assumes "trans_inv self t ts" "handler \<in> set_tree t" "handler \<in> set ts" "active (trans self handler)"
    and "t_cancel (timer_state self) handler = None"
  shows "\<exists>s t'. smcp_transaction_end env handler self =
      (case callback (trans self handler) of
         None \<Rightarrow> Some (SMCP_STATUS_OK, s)
       | Some f \<Rightarrow> map_option (\<lambda>r. (SMCP_STATUS_OK, snd r))
           (env_response env f SMCP_STATUS_TRANSACTION_INVALIDATED (tr_context (trans self handler)) s)) \<and>
    trans_inv s t' (remove1 handler ts) \<and> set_tree t' = set_tree t - {handler} \<and>
    (\<forall>k. smcp_transaction_find_via_msg_id s k =
       (if k = msg_id (trans self handler) then Some None else smcp_transaction_find_via_msg_id self k)) \<and>
    \<not> active (trans s handler) \<and> current_transaction s \<noteq> Some handler"
proof -
  let ?s0 = "if current_transaction self = Some handler then self\<lparr>current_transaction := None\<rparr> else self"
  define s1 where "s1 = set_trans handler (\<lambda>tr. tr\<lparr>active := False\<rparr>) ?s0"
  have s1: "transactions s1 = transactions self" "timer_state s1 = timer_state self" "msg_id (trans s1 x) = msg_id (trans self x)"
      "callback (trans s1 handler) = callback (trans self handler)" "tr_context (trans s1 handler) = tr_context (trans self handler)"
      "current_transaction s1 \<noteq> Some handler" "trans s1 handler = (trans self handler)\<lparr>active := False\<rparr>" for x
    by (auto simp: s1_def)
  have inv: "holds_tree (transactions s1) t" "trans_order.ordered (trans s1) t" "timers_inv (timer_state s1) ts"
    using assms(1) ordered_trans_cong [of t "trans s1" "trans self"] by (simp_all add: trans_inv_def s1)
  let ?cmp = "\<lambda>k x. smcp_transaction_compare_msg_id (trans s1) x k"
  let ?t' = "tree_remove (?cmp (msg_id (trans s1 handler))) t"
  obtain h where h: "remove_transaction env True handler s1 = smcp_internal_delete_transaction env handler (s1\<lparr>transactions := h\<rparr>)"
      "holds_tree h ?t'"
    using remove_transaction_present [OF inv(1,2) assms(2), of env True] by auto
  obtain tm where tm: "invalidate_timer env handler (s1\<lparr>transactions := h\<rparr>) = Some (s1\<lparr>transactions := h, timer_state := tm\<rparr>)"
      "timers_inv tm (remove1 handler ts)"
    using invalidate_timer_inv [of "s1\<lparr>transactions := h\<rparr>" ts handler env] inv(3) assms(3,5) s1(2) by auto
  let ?s = "set_trans handler (\<lambda>tr. tr\<lparr>active := False\<rparr>) (s1\<lparr>transactions := h, timer_state := tm\<rparr>)"
  have tr: "trans ?s = trans s1" by (auto simp: s1(7))
  have "smcp_transaction_end env handler self = map_option (Pair SMCP_STATUS_OK) (remove_transaction env True handler s1)"
    using assms(4) by (auto simp: smcp_transaction_end_def s1_def Let_def map_conv_bind_option comp_def)
  then have run: "smcp_transaction_end env handler self =
      (case callback (trans self handler) of
         None \<Rightarrow> Some (SMCP_STATUS_OK, ?s)
       | Some f \<Rightarrow> map_option (\<lambda>r. (SMCP_STATUS_OK, snd r))
           (env_response env f SMCP_STATUS_TRANSACTION_INVALIDATED (tr_context (trans self handler)) ?s))"
    by (simp add: h(1) smcp_internal_delete_transaction_def tm(1) s1 option.map_comp comp_def split: option.splits)
  have find: "smcp_transaction_find_via_msg_id ?s k = (if k = msg_id (trans self handler) then Some None
      else smcp_transaction_find_via_msg_id self k)" for k
    using find_via_msg_id_tree [of ?s ?t' k] find_via_msg_id_tree [of self t k] h(2) inv(1) s1(1)
      trans_order.find_remove [OF inv(2) UNIV_I UNIV_I, of k "msg_id (trans s1 handler)"]
      tree_cmp_cong(1) [of t "?cmp k" "\<lambda>x. smcp_transaction_compare_msg_id (trans self) x k"] unfolding tr
    by (simp add: s1(3) smcp_transaction_compare_msg_id_def)
  have "trans_inv ?s ?t' (remove1 handler ts)"
    using h(2) tm(2) trans_order.ordered_remove [OF inv(2) UNIV_I] unfolding trans_inv_def tr by simp
  moreover have "set_tree ?t' = set_tree t - {handler}"
    using trans_order.set_tree_remove [OF inv(2) UNIV_I] trans_order.keys_unique [OF inv(2) _ assms(2)] by auto
  ultimately show ?thesis
    using run find s1(6) by (intro exI [of _ ?s] exI [of _ ?t']) simp
qed

theorem transaction_end_removes_witness:
  "\<exists>s. smcp_transaction_end accepting_env 1 one_trans = Some (SMCP_STATUS_OK, s) \<and>
     smcp_transaction_find_via_msg_id s 9 = Some None \<and> trans_inv s Leaf []"
proof -
  have "active (trans one_trans 1)" "t_cancel (timer_state one_trans) 1 = None" "msg_id (trans one_trans 1) = 9"
      "callback (trans one_trans 1) = Some 5"
    by (simp_all add: one_trans_def zero_smcp_def)
  then show ?thesis
    using transaction_end_removes [OF one_trans_inv, of 1 accepting_env] by (auto simp: accepting_env_def)
qed

section \<open>Retransmission\<close>

lemma u32_of_nat: "n < 2 ^ 32 \<Longrightarrow> unat (word_of_nat n :: u32) = n"
  by (simp add: unsigned_of_nat take_bit_nat_eq_self)

lemma retransmit_product:
  fixes r :: u32
  assumes "retries \<le> 10"
  shows "sint (push_bit retries 1500 * (512 + r mod 256)) = 1500 * 2 ^ retries * (512 + int (unat r mod 256))"
proof -
  define a b :: nat where "a = 1500 * 2 ^ retries" and "b = 512 + unat r mod 256"
  have "(2 :: nat) ^ retries \<le> 2 ^ 10" using assms by (intro power_increasing) simp_all
  then have ab: "a \<le> 1536000" "b \<le> 767" by (simp_all add: a_def b_def)
  then have le: "a * b \<le> 1178112000" using mult_le_mono [OF ab] by simp
  have "push_bit retries (1500 :: u32) = word_of_nat a" by (simp add: a_def push_bit_eq_mult)
  moreover have "512 + r mod 256 = word_of_nat b"
    by (simp add: b_def word_unat_eq_iff unat_mod unat_word_ariths u32_of_nat)
  ultimately have p: "push_bit retries 1500 * (512 + r mod 256) = (word_of_nat (a * b) :: u32)" by simp
  have "sint (word_of_nat (a * b) :: u32) = int (a * b)"
    using le by (simp add: signed_of_nat signed_take_bit_int_eq_self del: of_nat_mult)
  with p show ?thesis by (simp add: a_def b_def)
qed

text \<open>
  C22: up to the tenth retransmission the delay before the next one doubles with every attempt, up to a
  random factor between 1 and 1.5, and never exceeds fourteen seconds.
\<close>

theorem retransmit_bounds:
  assumes "retries \<le> 10" "calc_retransmit_timeout retries self = (t, self')"
  shows "min 14000 (1500 * 2 ^ retries) \<le> t \<and> t \<le> min 14000 (2250 * 2 ^ retries) \<and>
    self' = self\<lparr>random_numbers := \<lambda>n. random_numbers self (n + 1)\<rparr>"
proof -
  define x where "x = int (unat (random_numbers self 0) mod 256)"
  define a where "a = (2 :: int) ^ retries"
  have x: "0 \<le> x" "x < 256" by (simp_all add: x_def)
  have a: "0 < a" by (simp add: a_def)
  have t: "t = min 14000 (1500 * a * (512 + x) div 512)" "self' = self\<lparr>random_numbers := \<lambda>n. random_numbers self (n + 1)\<rparr>"
    using assms(2) a x
    by (auto simp: calc_retransmit_timeout_def draw_random_def retransmit_product [OF assms(1)] x_def [symmetric]
        a_def [symmetric] sdiv_nonneg COAP_MAX_ACK_RETRANSMIT_DURATION_def time_units Let_def)
  have "1500 * a * 512 \<le> 1500 * a * (512 + x)" using a x by simp
  then have lo: "1500 * a \<le> 1500 * a * (512 + x) div 512" by simp
  have "1500 * a * (512 + x) \<le> 1500 * a * 768" using a x by (intro mult_left_mono) simp_all
  then have "1500 * a * (512 + x) \<le> (2250 * a) * 512" by simp
  then have "1500 * a * (512 + x) div 512 \<le> 2250 * a * 512 div 512" by (intro zdiv_mono1) simp_all
  then have "1500 * a * (512 + x) div 512 \<le> 2250 * a" by simp
  with lo t show ?thesis by (auto simp: a_def)
qed

theorem retransmit_bounds_witness:
  "fst (calc_retransmit_timeout 2 (zero_smcp (\<lambda>_. 100))) \<in> {6000..9000}"
proof -
  let ?r = "calc_retransmit_timeout 2 (zero_smcp (\<lambda>_. 100))"
  show ?thesis using retransmit_bounds [of 2 "zero_smcp (\<lambda>_. 100)" "fst ?r" "snd ?r"] by simp
qed

text \<open>From the eleventh on the product overflows, and the delay can be negative.\<close>

lemma retransmit_overflow: "fst (calc_retransmit_timeout 11 (zero_smcp (\<lambda>_. 255))) < 0"
  by (simp add: calc_retransmit_timeout_def draw_random_def zero_smcp_def push_bit_eq_mult signed_divide_int_def
      COAP_MAX_ACK_RETRANSMIT_DURATION_def time_units Let_def)

text \<open>
  Of the delays that \<^verbatim>\<open>MIN\<close> draws, the first is compared with the time that is left, and the second is
  taken: it can be longer.
\<close>

lemma min_retransmit_exceeds: "fst (min_retransmit_timeout 1600 0 (zero_smcp (\<lambda>n. if n = 0 then 0 else 255))) = 2247"
  by (simp add: min_retransmit_timeout_def calc_retransmit_timeout_def draw_random_def zero_smcp_def signed_divide_int_def
      COAP_MAX_ACK_RETRANSMIT_DURATION_def time_units Let_def)

end
