(* ===== verification/Missing.thy ===== *)
theory Missing
  imports String_Utils
begin

text \<open>
  Replacements for functions of the C library (\<^verbatim>\<open>src/smcp/smcp-missing.c\<close>). A block of memory is a list
  of characters; a source string is given without its terminator. A size is a \<^verbatim>\<open>size_t\<close>. An access
  outside of the block is \<open>None\<close>.
\<close>

section \<open>The functions\<close>

type_synonym u64 = "64 word"  \<comment> \<open>\<^verbatim>\<open>size_t\<close>\<close>

definition strlen_mem :: "string \<Rightarrow> nat \<Rightarrow> nat option" where
  "strlen_mem mem p =
     (if NUL \<in> set (drop p mem) then Some (length (takeWhile (\<lambda>c. c \<noteq> NUL) (drop p mem))) else None)"

text \<open>The new block of \<^verbatim>\<open>strdup\<close> and of \<^verbatim>\<open>strndup\<close>.\<close>

definition strdup :: "string \<Rightarrow> string" where
  "strdup cstr = cstr @ [NUL]"

definition strndup :: "string \<Rightarrow> nat \<Rightarrow> string" where
  "strndup cstr maxlen = (let len = length cstr; len = (if maxlen < len then maxlen else len) in take len cstr @ [NUL])"

text \<open>\<open>stpncpy\<close> returns the memory and the position behind what it has written.\<close>

definition stpncpy :: "string \<Rightarrow> nat \<Rightarrow> string \<Rightarrow> nat \<Rightarrow> (string \<times> nat) option" where
  "stpncpy mem dest src len = do {
     let len = (if length src < len then length src else len);
     mem \<leftarrow> mem_write_n mem dest (take len src);
     Some (mem, dest + len)
   }"

definition strlcpy :: "string \<Rightarrow> nat \<Rightarrow> string \<Rightarrow> u64 \<Rightarrow> (string \<times> nat) option" where
  "strlcpy mem dst src siz = do {
     let slen = length src;
     if siz \<noteq> 0 then do {
       let n = min slen (unat (siz - 1));
       mem \<leftarrow> mem_write_n mem dst (take n src);
       mem \<leftarrow> mem_write mem (dst + n) NUL;
       Some (mem, slen)
     } else Some (mem, slen)
   }"

definition strlcat :: "string \<Rightarrow> nat \<Rightarrow> string \<Rightarrow> u64 \<Rightarrow> (string \<times> nat) option" where
  "strlcat mem dst src siz = do {
     dlen \<leftarrow> strlen_mem mem dst;
     if word_of_nat dlen < siz - 1 then do {
       (mem, n) \<leftarrow> strlcpy mem (dst + dlen) src (siz - word_of_nat dlen);
       Some (mem, dlen + n)
     } else Some (mem, dlen + length src)
   }"

section \<open>Properties\<close>

lemma strlen_mem_at:
  "NUL \<notin> set s \<Longrightarrow> strlen_mem (xs @ s @ NUL # zs) (length xs) = Some (length s)"
  by (simp add: strlen_mem_def takeWhile_append)

lemma strlcpy_at:
  assumes "siz \<noteq> 0" "length ys = min (length src) (unat (siz - 1)) + 1"
  shows "strlcpy (xs @ ys @ zs) (length xs) src siz = Some (xs @ take (unat (siz - 1)) src @ NUL # zs, length src)"
proof -
  let ?n = "min (length src) (unat (siz - 1))"
  obtain as b where ys: "ys = as @ [b]" "length as = ?n" using assms(2) by (cases ys rule: rev_cases) auto
  have t: "take ?n src = take (unat (siz - 1)) src" "length (take ?n src) = ?n" by (simp_all add: min_def)
  have "mem_write_n (xs @ ys @ zs) (length xs) (take ?n src) = Some (xs @ take ?n src @ [b] @ zs)"
    using mem_write_n_split [of "length xs" xs as "take ?n src" "[b] @ zs"] ys t(2) by simp
  moreover have "mem_write (xs @ take ?n src @ [b] @ zs) (length xs + ?n) NUL = Some (xs @ take ?n src @ NUL # zs)"
    using mem_write_split [of "xs @ take ?n src" b zs NUL] t(2) by simp
  ultimately show ?thesis using assms(1) t(1) by (simp add: strlcpy_def Let_def)
qed

lemma u64_size: "n < 2 ^ 64 \<Longrightarrow> unat (word_of_nat n :: u64) = n"
  by (simp add: unsigned_of_nat take_bit_nat_eq_self)

text \<open>The room that is left decides whether anything is copied.\<close>

lemma strlcat_room:
  assumes "NUL \<notin> set s" "length s < siz" "siz < 2 ^ 64"
  shows "strlcat (xs @ s @ NUL # zs) (length xs) src (word_of_nat siz) =
      (if length s < siz - 1
       then map_option (\<lambda>(m, n). (m, length s + n)) (strlcpy (xs @ s @ NUL # zs) (length xs + length s) src (word_of_nat (siz - length s)))
       else Some (xs @ s @ NUL # zs, length s + length src))"
proof -
  let ?siz = "word_of_nat siz :: u64"
  have sub: "?siz - word_of_nat k = word_of_nat (siz - k)" if "k \<le> siz" for k using that by (simp add: of_nat_diff)
  have "word_of_nat (length s) < ?siz - 1 \<longleftrightarrow> length s < siz - 1"
    using sub [of 1] assms(2,3) u64_size [of "length s"] u64_size [of "siz - 1"] by (simp add: word_less_nat_alt)
  then show ?thesis
    unfolding strlcat_def strlen_mem_at [OF assms(1)] bind.bind_lunit sub [OF less_imp_le [OF assms(2)]]
    by (auto simp: map_option_case split: option.splits)
qed

lemma size_left:
  assumes "n < siz - 1" "siz < 2 ^ 64"
  shows "(word_of_nat (siz - n) :: u64) \<noteq> 0" "unat (word_of_nat (siz - n) - 1 :: u64) = siz - 1 - n"
proof -
  let ?m = "word_of_nat (siz - n) :: u64"
  have "unat ?m = siz - n" using assms(2) by (intro u64_size) simp
  then show "?m \<noteq> 0" using assms(1) by auto
  have "?m - 1 = word_of_nat (siz - 1 - n)" using assms(1) by (simp add: of_nat_diff)
  then show "unat (?m - 1) = siz - 1 - n" using assms(2) by (simp only:) (intro u64_size, simp)
qed

lemma strlcat_fits:
  assumes "NUL \<notin> set s" "length s + length src < siz" "siz < 2 ^ 64" "length ys = length src"
  shows "strlcat (xs @ s @ NUL # ys @ zs) (length xs) src (word_of_nat siz) =
    Some (xs @ s @ src @ NUL # zs, length s + length src)"
proof (cases "length s < siz - 1")
  case True
  have "strlcpy ((xs @ s) @ (NUL # ys) @ zs) (length (xs @ s)) src (word_of_nat (siz - length s)) =
      Some ((xs @ s) @ src @ NUL # zs, length src)"
    using strlcpy_at [OF size_left(1) [OF True assms(3)], of "NUL # ys" src "xs @ s" zs] size_left(2) [OF True assms(3)] assms(2,4)
    by simp
  then show ?thesis using strlcat_room [OF assms(1) _ assms(3), of xs "ys @ zs" src] True assms(2) by simp
next
  case False
  then have "src = []" "ys = []" using assms(2,4) by (cases src; simp)+
  then show ?thesis using strlcat_room [OF assms(1) _ assms(3), of xs zs src] False assms(2) by simp
qed

text \<open>
  \<^verbatim>\<open>strlcat\<close> appends as much of the source as fits: on a buffer of at least \<open>siz\<close> characters, \<open>siz > 0\<close>,
  that holds a string, the buffer afterwards holds the string followed by what fits of the source, it
  is terminated within the first \<open>siz\<close> characters, nothing at or behind \<open>siz\<close> is written, and the
  length that was wanted is returned.
\<close>

theorem strlcat_bounded:
  assumes "NUL \<notin> set s" "siz < 2 ^ 64" "length (s @ NUL # zs) = siz"
  shows "\<exists>ys. strlcat (xs @ s @ NUL # zs @ rest) (length xs) src (word_of_nat siz) =
      Some (xs @ s @ take (siz - 1 - length s) src @ NUL # ys @ rest, length s + length src) \<and>
    length (s @ take (siz - 1 - length s) src @ NUL # ys) = siz"
proof -
  have l: "length s < siz" using assms(3) by simp
  note room = strlcat_room [OF assms(1) l assms(2), of xs "zs @ rest" src]
  show ?thesis
  proof (cases "length s < siz - 1")
    case False
    then show ?thesis using room l assms(3) by (intro exI [of _ zs]) simp
  next
    case True
    let ?k = "min (length src) (siz - 1 - length s) + 1"
    have "strlcpy ((xs @ s) @ take ?k (NUL # zs) @ (drop ?k (NUL # zs) @ rest)) (length (xs @ s)) src (word_of_nat (siz - length s)) =
        Some ((xs @ s) @ take (siz - 1 - length s) src @ NUL # drop ?k (NUL # zs) @ rest, length src)"
      using strlcpy_at [OF size_left(1) [OF True assms(2)], of "take ?k (NUL # zs)" src "xs @ s"] size_left(2) [OF True assms(2)]
        True assms(3) by simp
    moreover have "(xs @ s) @ take ?k (NUL # zs) @ (drop ?k (NUL # zs) @ rest) = xs @ s @ NUL # zs @ rest"
      using append_take_drop_id [of ?k "NUL # zs"] by (metis append.assoc append_Cons)
    ultimately have "strlcpy (xs @ s @ NUL # zs @ rest) (length xs + length s) src (word_of_nat (siz - length s)) =
        Some (xs @ s @ take (siz - 1 - length s) src @ NUL # drop ?k (NUL # zs) @ rest, length src)"
      by (simp only: append_assoc length_append)
    moreover have "length (s @ take (siz - 1 - length s) src @ NUL # drop ?k (NUL # zs)) = siz" using True assms(3) by simp
    ultimately show ?thesis using room True by (simp only: if_True option.map prod.case) blast
  qed
qed

theorem strlcat_bounded_witness:
  "\<exists>ys. strlcat (''ab'' @ NUL # ''xy'' @ ''z'') 0 ''cdef'' 5 = Some (''ab'' @ ''cd'' @ NUL # ys @ ''z'', 6)"
  using strlcat_bounded [of "''ab''" 5 "''xy''" "[]" "''z''" "''cdef''"] by simp

text \<open>A size of 0 wraps around: if there is anything in the buffer, all of the source is copied behind it.\<close>

lemma strlcat_size_0:
  assumes "NUL \<notin> set s" "s \<noteq> []" "length s + length src < 2 ^ 64 - 1" "length ys = length src"
  shows "strlcat (s @ NUL # ys @ zs) 0 src 0 = Some (s @ src @ NUL # zs, length s + length src)"
proof -
  let ?n = "length s"
  let ?m = "word_of_nat (2 ^ 64 - ?n) :: u64"
  have n: "0 < ?n" "?n < 2 ^ 64" using assms(2,3) by auto
  have zero: "(word_of_nat (2 ^ 64) :: u64) = 0" by (simp add: word_unat_eq_iff unsigned_of_nat)
  have m: "0 - word_of_nat ?n = ?m" using n zero of_nat_diff [of ?n "2 ^ 64", where 'a = u64] by simp
  have "?m \<noteq> 0" using n u64_size [of "2 ^ 64 - ?n"] by (metis diff_less less_numeral_extra(3) unat_0 zero_less_diff zero_less_numeral zero_less_power)
  moreover have "?m - 1 = word_of_nat (2 ^ 64 - ?n - 1)" using n by (subst of_nat_diff) simp_all
  then have "unat (?m - 1) = 2 ^ 64 - ?n - 1" using n by (simp only:) (intro u64_size, simp)
  ultimately have c: "strlcpy (s @ (NUL # ys) @ zs) ?n src ?m = Some (s @ src @ NUL # zs, length src)"
    using strlcpy_at [of ?m "NUL # ys" src s zs] assms(3,4) by simp
  have "(word_of_nat ?n :: u64) < 0 - 1"
    using assms(3) u64_size [OF n(2)] by (simp add: word_less_nat_alt unsigned_minus_1_eq_mask mask_eq_exp_minus_1)
  then show ?thesis
    using strlen_mem_at [OF assms(1), of "[]" "ys @ zs"] c m by (simp add: strlcat_def)
qed

end
