(* ===== verification/Url_Reference.thy ===== *)
theory Url_Reference
  imports Outbound_Uri Missing
begin

text \<open>
  References to URLs (\<^verbatim>\<open>src/smcp/url-helpers.c\<close>): \<^verbatim>\<open>url_change\<close> replaces a URL by what a reference leads to
  from it, and \<^verbatim>\<open>url_shorten_reference\<close> tries to make a reference shorter. A block of memory is a list of
  characters; a constant string is given without its terminator.
\<close>

section \<open>Strings\<close>

text \<open>The array of \<open>n\<close> characters that \<^verbatim>\<open>strncpy\<close> has filled.\<close>

definition strncpy_mem :: "string \<Rightarrow> nat \<Rightarrow> string option" where
  "strncpy_mem mem n =
     (if n \<le> length mem \<or> NUL \<in> set mem
      then let s = takeWhile (\<lambda>c. c \<noteq> NUL) (take n mem) in Some (s @ replicate (n - length s) NUL)
      else None)"

definition strcat :: "string \<Rightarrow> string \<Rightarrow> string option" where
  "strcat mem s = do {
     n \<leftarrow> strlen_mem mem 0;
     mem_write_n mem n (s @ [NUL])
   }"

text \<open>\<^verbatim>\<open>strsep\<close> with the separator \<open>/\<close>: the token, where the next one starts, and the memory.\<close>

definition strsep_x :: "string \<Rightarrow> nat option \<Rightarrow> (nat option \<times> nat option \<times> string) option" where
  "strsep_x mem stringp =
     (case stringp of
        None \<Rightarrow> Some (None, None, mem)
      | Some tok \<Rightarrow> do {
          s \<leftarrow> skip_while (\<lambda>c. c \<noteq> CHR ''/'' \<and> c \<noteq> NUL) mem tok;
          c \<leftarrow> mem_read mem s;
          if c = NUL then Some (Some tok, None, mem)
          else do { mem \<leftarrow> mem_write mem s NUL; Some (Some tok, Some (s + 1), mem) }
        })"

section \<open>Changing a URL\<close>

definition URL_HELPERS_MAX_URL_COMPONENTS :: nat where "URL_HELPERS_MAX_URL_COMPONENTS = 15"
definition MAX_URL_SIZE :: nat where "MAX_URL_SIZE = 256"

text \<open>
  The stack of path components. A token is not written to after it was cut off, so that the stack holds
  the texts and not the pointers. Each token is stored into the array before it is looked at, and so is
  the null pointer at the end.
\<close>

definition push_item :: "string list \<Rightarrow> string \<Rightarrow> string list" where
  "push_item items s =
     (if s = ''..'' then butlast items else if s = ''.'' then items else if s \<noteq> [] then items @ [s] else items)"

lemma skip_while_mono: "skip_while P mem p = Some q \<Longrightarrow> p \<le> q \<and> q < length mem"
proof (induction P mem p rule: skip_while.induct)
  case (1 P mem p)
  then show ?case
    by (subst (asm) (2) skip_while.simps) (fastforce simp: bind_eq_Some_conv mem_read_Some split: if_splits)
qed

function path_loop :: "string \<Rightarrow> nat option \<Rightarrow> string list \<Rightarrow> (string \<times> string list) option" where
  "path_loop mem path items =
     (if URL_HELPERS_MAX_URL_COMPONENTS \<le> length items then None
      else case strsep_x mem path of
        None \<Rightarrow> None
      | Some (None, path', mem') \<Rightarrow> Some (mem', items)
      | Some (Some tok, path', mem') \<Rightarrow>
          (case cstr_at mem' tok of
             None \<Rightarrow> None
           | Some s \<Rightarrow> path_loop mem' path' (push_item items s)))"
  by pat_completeness auto
termination
  by (relation "measure (\<lambda>(mem, path, items). case path of None \<Rightarrow> 0 | Some p \<Rightarrow> Suc (length mem) - p)")
    (auto simp: strsep_x_def bind_eq_Some_conv mem_write_def dest!: skip_while_mono split: if_splits option.splits)

declare path_loop.simps [simp del]

definition cat_component :: "string \<Rightarrow> nat \<Rightarrow> string \<Rightarrow> string option" where
  "cat_component mem p url = do {
     s \<leftarrow> cstr_at mem p;
     strcat url s
   }"

definition cat_authority :: "string \<Rightarrow> url_components_s \<Rightarrow> string \<Rightarrow> string option" where
  "cat_authority mem components url =
     (case (uc_protocol components, uc_host components) of
        (Some proto, Some host) \<Rightarrow> do {
          url \<leftarrow> cat_component mem proto url;
          url \<leftarrow> strcat url ''://'';
          url \<leftarrow> (case uc_username components of
                   None \<Rightarrow> Some url
                 | Some user \<Rightarrow> do {
                     url \<leftarrow> cat_component mem user url;
                     url \<leftarrow> (case uc_password components of
                              None \<Rightarrow> Some url
                            | Some pass \<Rightarrow> do { url \<leftarrow> strcat url '':''; cat_component mem pass url });
                     strcat url ''@''
                   });
          colons \<leftarrow> string_contains_colons mem (Some host);
          url \<leftarrow> (if colons
                  then do { url \<leftarrow> strcat url ''[''; url \<leftarrow> cat_component mem host url; strcat url '']'' }
                  else cat_component mem host url);
          (case uc_port components of
             None \<Rightarrow> Some url
           | Some port \<Rightarrow> do { url \<leftarrow> strcat url '':''; cat_component mem port url })
        }
      | _ \<Rightarrow> Some url)"

fun cat_items :: "string list \<Rightarrow> string \<Rightarrow> string option" where
  "cat_items [] url = Some url"
| "cat_items (s # items) url = do {
     url \<leftarrow> strcat url ''/'';
     url \<leftarrow> strcat url s;
     cat_items items url
   }"

text \<open>
  \<open>url\<close> is the block with the URL, which is overwritten. The loop that looks for the last slash of the
  path does not use what it finds: all that is left of it is that the path is read.
\<close>

definition url_change :: "string \<Rightarrow> string \<Rightarrow> (bool \<times> string) option" where
  "url_change url new_url = do {
     absolute \<leftarrow> url_is_absolute (new_url @ [NUL]) 0;
     if absolute then do {
       url \<leftarrow> mem_write_n url 0 (new_url @ [NUL]);
       Some (True, url)
     }
     else do {
       let has_trailing_slash = (new_url \<noteq> [] \<and> last new_url = CHR ''/'');
       current_path \<leftarrow> strncpy_mem url MAX_URL_SIZE;
       (current_path, _, components) \<leftarrow> url_parse current_path 0 no_components;
       url \<leftarrow> mem_write url 0 NUL;
       url \<leftarrow> cat_authority current_path components url;
       first \<leftarrow> mem_read (new_url @ [NUL]) 0;
       _ \<leftarrow> (if first \<noteq> CHR ''?'' \<and> first \<noteq> CHR ''#'' then Option.bind (uc_path components) (cstr_at current_path) else Some []);
       (_, items) \<leftarrow> (if first \<noteq> CHR ''/'' then path_loop current_path (uc_path components) [] else Some (current_path, []));
       (_, items) \<leftarrow> path_loop (new_url @ [NUL]) (Some 0) items;
       url \<leftarrow> cat_items items url;
       url \<leftarrow> (if has_trailing_slash then strcat url ''/'' else Some url);
       Some (True, url)
     }
   }"

section \<open>Shortening a reference\<close>

text \<open>
  The arrays \<open>temp\<close> and \<open>temp2\<close> hold the new and the current URL, cut into parts in place, and are then
  overwritten while the parts are still used. \<open>new_url\<close> is the block of the caller.
\<close>

lemma strlcat_length: "strlcat mem dst src siz = Some (mem', n) \<Longrightarrow> length mem' = length mem"
  by (auto simp: strlcat_def strlcpy_def Let_def bind_eq_Some_conv dest!: mem_write_n_length mem_write_length split: if_splits)

abbreviation left_of :: "string \<Rightarrow> nat option \<Rightarrow> nat" where
  "left_of mem path \<equiv> (case path of None \<Rightarrow> 0 | Some p \<Rightarrow> Suc (length mem) - p)"

lemma strsep_left: "strsep_x mem path = Some (Some tok, path', mem') \<Longrightarrow> left_of mem' path' < left_of mem path"
  by (auto simp: strsep_x_def bind_eq_Some_conv mem_write_def dest!: skip_while_mono split: if_splits option.splits)

function parents_inplace :: "string \<Rightarrow> nat option \<Rightarrow> string option" where
  "parents_inplace temp2 curr_path =
     (case strsep_x temp2 curr_path of
        None \<Rightarrow> None
      | Some (None, _, temp2') \<Rightarrow> Some temp2'
      | Some (Some tok, curr_path', temp2') \<Rightarrow>
          (case strlcat temp2' 0 ''/..'' 256 of
             None \<Rightarrow> None
           | Some (temp2'', _) \<Rightarrow> parents_inplace temp2'' curr_path'))"
  by pat_completeness auto
termination
  by (relation "measure (\<lambda>(temp2, path). left_of temp2 path)") (auto dest!: strsep_left strlcat_length cong: option.case_cong)

declare parents_inplace.simps [simp del]

function parents :: "string \<Rightarrow> string \<Rightarrow> nat option \<Rightarrow> string option" where
  "parents temp temp2 curr_path =
     (case strsep_x temp2 curr_path of
        None \<Rightarrow> None
      | Some (None, _, temp2') \<Rightarrow> Some temp
      | Some (Some tok, curr_path', temp2') \<Rightarrow>
          (case strcat temp ''/..'' of
             None \<Rightarrow> None
           | Some temp' \<Rightarrow> parents temp' temp2' curr_path'))"
  by pat_completeness auto
termination
  by (relation "measure (\<lambda>(temp, temp2, path). left_of temp2 path)") (auto dest!: strsep_left)

declare parents.simps [simp del]

definition query_at :: "string \<Rightarrow> nat option \<Rightarrow> string option option" where
  "query_at temp new_query = (case new_query of None \<Rightarrow> Some None | Some q \<Rightarrow> map_option Some (cstr_at temp q))"

definition take_if_shorter :: "string \<Rightarrow> string \<Rightarrow> string option \<Rightarrow> string option" where
  "take_if_shorter new_url text query = do {
     n \<leftarrow> strlen_mem new_url 0;
     if length text + (case query of None \<Rightarrow> 0 | Some q \<Rightarrow> 1 + length q) < n then do {
       new_url \<leftarrow> mem_write_n new_url 0 (text @ [NUL]);
       (case query of
          None \<Rightarrow> Some new_url
        | Some q \<Rightarrow> do {
            (new_url, _) \<leftarrow> strlcat new_url 0 ''?'' 256;
            (new_url, _) \<leftarrow> strlcat new_url 0 q 256;
            Some new_url
          })
     }
     else Some new_url
   }"

definition move_to_end :: "string \<Rightarrow> nat \<Rightarrow> string option" where
  "move_to_end temp p = do {
     n \<leftarrow> strlen_mem temp 0;
     s \<leftarrow> cstr_at temp p;
     mem_write_n temp n (s @ [NUL])
   }"

definition relative_path :: "string \<Rightarrow> string \<Rightarrow> nat option \<Rightarrow> nat \<Rightarrow> nat option \<Rightarrow> string option" where
  "relative_path temp temp2 curr_path new_item new_path = do {
     temp \<leftarrow> mem_write_n temp 0 (''..'' @ [NUL]);
     temp \<leftarrow> parents temp temp2 curr_path;
     (temp, _) \<leftarrow> strlcat temp 0 ''/'' 256;
     temp \<leftarrow> move_to_end temp new_item;
     (case new_path of
        None \<Rightarrow> Some temp
      | Some p \<Rightarrow> do { (temp, _) \<leftarrow> strlcat temp 0 ''/'' 256; move_to_end temp p })
   }"

text \<open>A token that is missing or empty.\<close>

definition no_item :: "string \<Rightarrow> nat option \<Rightarrow> bool option" where
  "no_item mem item = (case item of None \<Rightarrow> Some True | Some p \<Rightarrow> map_option (\<lambda>c. c = NUL) (mem_read mem p))"

lemma strsep_item_left:
  "strsep_x mem path = Some (item, path', mem') \<Longrightarrow> no_item mem' item = Some False \<Longrightarrow> left_of mem' path' < left_of mem path"
  by (cases item) (auto simp: no_item_def dest: strsep_left)

definition parent_reference :: "string \<Rightarrow> string \<Rightarrow> string \<Rightarrow> nat option \<Rightarrow> nat option \<Rightarrow> string option" where
  "parent_reference temp temp2 new_url curr_path new_query = do {
     temp2 \<leftarrow> mem_write_n temp2 0 (''..'' @ [NUL]);
     temp2 \<leftarrow> parents_inplace temp2 curr_path;
     text \<leftarrow> cstr_at temp2 0;
     query \<leftarrow> query_at temp new_query;
     take_if_shorter new_url text query
   }"

definition sibling_reference ::
    "string \<Rightarrow> string \<Rightarrow> string \<Rightarrow> nat option \<Rightarrow> nat \<Rightarrow> nat option \<Rightarrow> nat option \<Rightarrow> string option" where
  "sibling_reference temp temp2 new_url curr_path new_item new_path new_query = do {
     temp \<leftarrow> relative_path temp temp2 curr_path new_item new_path;
     text \<leftarrow> cstr_at temp 0;
     query \<leftarrow> query_at temp new_query;
     take_if_shorter new_url text query
   }"

definition child_reference :: "string \<Rightarrow> string \<Rightarrow> nat option \<Rightarrow> nat option \<Rightarrow> string option" where
  "child_reference temp new_url new_path new_query =
     (case new_path of
        None \<Rightarrow> mem_write_n new_url 0 (''.'' @ [NUL])
      | Some p \<Rightarrow> do {
          text \<leftarrow> cstr_at temp p;
          query \<leftarrow> query_at temp new_query;
          take_if_shorter new_url text query
        })"

function shorten_loop :: "string \<Rightarrow> string \<Rightarrow> string \<Rightarrow> nat option \<Rightarrow> nat option \<Rightarrow> nat option \<Rightarrow> string option" where
  "shorten_loop temp temp2 new_url curr_path new_path new_query =
     (case strsep_x temp2 curr_path of
        None \<Rightarrow> None
      | Some (curr_item, curr_path', temp2') \<Rightarrow>
          (case no_item temp2' curr_item of
             None \<Rightarrow> None
           | Some True \<Rightarrow> child_reference temp new_url new_path new_query
           | Some False \<Rightarrow>
               (case strsep_x temp new_path of
                  None \<Rightarrow> None
                | Some (new_item, new_path', temp') \<Rightarrow>
                    (case no_item temp' new_item of
                       None \<Rightarrow> None
                     | Some True \<Rightarrow> parent_reference temp' temp2' new_url curr_path' new_query
                     | Some False \<Rightarrow>
                         (case (Option.bind curr_item (cstr_at temp2'), Option.bind new_item (cstr_at temp')) of
                            (Some a, Some b) \<Rightarrow>
                              if a = b then shorten_loop temp' temp2' new_url curr_path' new_path' new_query
                              else sibling_reference temp' temp2' new_url curr_path' (the new_item) new_path' new_query
                          | _ \<Rightarrow> None)))))"
  by pat_completeness auto
termination
  by (relation "measure (\<lambda>(temp, temp2, new_url, curr_path, new_path, new_query). left_of temp2 curr_path)")
    (auto dest: strsep_item_left)

declare shorten_loop.simps [simp del]

definition make_relative :: "string \<Rightarrow> string \<Rightarrow> string option" where
  "make_relative current_url new_url = do {
     temp \<leftarrow> strncpy_mem (current_url @ [NUL]) 256;
     new \<leftarrow> cstr_at new_url 0;
     (_, temp) \<leftarrow> url_change temp new;
     (temp, _, components) \<leftarrow> url_parse temp 0 no_components;
     (temp2, _, components2) \<leftarrow> url_parse (current_url @ [NUL]) 0 (components\<lparr>uc_path := None\<rparr>);
     shorten_loop temp temp2 new_url (uc_path components2) (uc_path components) (uc_query components)
   }"

text \<open>How many characters of the authority agree.\<close>

fun same_chars :: "string \<Rightarrow> string \<Rightarrow> nat" where
  "same_chars (c # cs) (d # ds) = (if c = d \<and> c \<noteq> CHR ''/'' \<and> c \<noteq> NUL then Suc (same_chars cs ds) else 0)"
| "same_chars _ _ = 0"

definition url_shorten_reference :: "string \<Rightarrow> string \<Rightarrow> string option" where
  "url_shorten_reference current_url new_url = do {
     absolute \<leftarrow> url_is_absolute new_url 0;
     new \<leftarrow> cstr_at new_url 0;
     if \<not> absolute then make_relative current_url new_url
     else if take 7 current_url \<noteq> take 7 new then Some new_url
     else if length current_url < 4 then None
     else if take 3 (drop 4 current_url) \<noteq> ''://'' then Some new_url
     else do {
       let i = 7 + same_chars (drop 7 (current_url @ [NUL])) (drop 7 (new @ [NUL]));
       c \<leftarrow> mem_read (current_url @ [NUL]) i;
       d \<leftarrow> mem_read (new @ [NUL]) i;
       if c \<noteq> d then Some new_url
       else if c = NUL then mem_write_n new_url 0 (''/'' @ [NUL])
       else if c = CHR ''/'' then do {
         new_url \<leftarrow> mem_write_n new_url 0 (drop i new @ [NUL]);
         make_relative current_url new_url
       }
       else Some new_url
     }
   }"

section \<open>Text in a block\<close>

text \<open>The block holds the string \<open>s\<close> and has room for \<open>n\<close> characters in all.\<close>

definition text_in :: "string \<Rightarrow> nat \<Rightarrow> string \<Rightarrow> bool" where
  "text_in mem n s \<longleftrightarrow> length mem = n \<and> NUL \<notin> set s \<and> (\<exists>zs. mem = s @ NUL # zs)"

lemma text_in_cstr: "text_in mem n s \<Longrightarrow> cstr_at mem 0 = Some s"
  by (auto simp: text_in_def cstr_at_def takeWhile_append)

lemma strcat_text:
  assumes "text_in mem n s" "NUL \<notin> set t" "length s + length t < n"
  shows "\<exists>mem'. strcat mem t = Some mem' \<and> text_in mem' n (s @ t)"
proof -
  obtain zs where zs: "mem = s @ NUL # zs" "NUL \<notin> set s" "length mem = n" using assms(1) by (auto simp: text_in_def)
  have len: "length (take (length t + 1) (NUL # zs)) = length (t @ [NUL])" using assms(3) zs by simp
  have "mem_write_n mem (length s) (t @ [NUL]) = Some (s @ (t @ [NUL]) @ drop (length t + 1) (NUL # zs))"
    using mem_write_n_split [OF refl len, of s "drop (length t + 1) (NUL # zs)"] zs(1) by (metis append_take_drop_id)
  moreover have "strlen_mem mem 0 = Some (length s)" using strlen_mem_at [OF zs(2), of "[]" zs] zs(1) by simp
  ultimately show ?thesis
    using zs assms(2,3) by (auto simp: strcat_def text_in_def)
qed

text \<open>Appending one string after the other.\<close>

fun strcats :: "string list \<Rightarrow> string \<Rightarrow> string option" where
  "strcats [] mem = Some mem"
| "strcats (t # ts) mem = Option.bind (strcat mem t) (strcats ts)"

lemma strcats_append: "strcats (ts @ us) mem = Option.bind (strcats ts mem) (strcats us)"
  by (induction ts arbitrary: mem) (auto split: Option.bind_split)

lemma strcats_text:
  assumes "text_in mem n s" "NUL \<notin> set (concat ts)" "length s + length (concat ts) < n"
  shows "\<exists>mem'. strcats ts mem = Some mem' \<and> text_in mem' n (s @ concat ts)"
  using assms
proof (induction ts arbitrary: mem s)
  case (Cons t ts)
  obtain mem' where m: "strcat mem t = Some mem'" "text_in mem' n (s @ t)"
    using strcat_text [OF Cons.prems(1), of t] Cons.prems(2,3) by auto
  show ?case using Cons.IH [OF m(2)] Cons.prems(2,3) m(1) by auto
qed auto

lemma cat_items_strcats: "cat_items items mem = strcats (concat (map (\<lambda>s. [''/'', s]) items)) mem"
  by (induction items arbitrary: mem) (auto split: Option.bind_split)

section \<open>Segments\<close>

text \<open>The segments of a path, and what a reference leads to.\<close>

function segments :: "string \<Rightarrow> string list" where
  "segments xs = takeWhile (\<lambda>c. c \<noteq> CHR ''/'') xs #
     (case dropWhile (\<lambda>c. c \<noteq> CHR ''/'') xs of [] \<Rightarrow> [] | c # ys \<Rightarrow> segments ys)"
  by pat_completeness auto
termination
proof (relation "measure length", simp)
  fix xs c ys
  assume "dropWhile (\<lambda>c. c \<noteq> CHR ''/'') xs = c # ys"
  then have "length (c # ys) \<le> length xs" by (metis length_dropWhile_le)
  then show "(ys, xs) \<in> measure length" by simp
qed

declare segments.simps [simp del]

fun resolve :: "string list \<Rightarrow> string list \<Rightarrow> string list" where
  "resolve base [] = base"
| "resolve base (s # ref) =
     (if s \<in> {[], ''.''} then resolve base ref
      else if s = ''..'' then resolve (butlast base) ref
      else resolve (base @ [s]) ref)"

declare resolve.simps [simp del]

lemma resolve_push: "resolve base ref = foldl push_item base ref"
  by (induction base ref rule: resolve.induct) (auto simp: resolve.simps push_item_def)

definition url_path :: "string list \<Rightarrow> string" where
  "url_path items = concat (map (\<lambda>s. CHR ''/'' # s) items)"

lemma cstr_at_holds: "mem_holds mem p (s @ [NUL]) \<Longrightarrow> NUL \<notin> set s \<Longrightarrow> cstr_at mem p = Some s"
proof -
  assume h: "mem_holds mem p (s @ [NUL])" "NUL \<notin> set s"
  have "\<exists>zs. drop p mem = s @ NUL # zs" using h(1)
  proof (induction s arbitrary: p)
    case Nil
    then have "p < length mem" "mem ! p = NUL" by (auto simp: mem_read_Some)
    then show ?case by (auto simp flip: Cons_nth_drop_Suc)
  next
    case (Cons c s)
    then have "p < length mem" "mem ! p = c" by (auto simp: mem_read_Some)
    then show ?case using Cons by (auto simp flip: Cons_nth_drop_Suc)
  qed
  then show ?thesis using h(2) by (auto simp: cstr_at_def takeWhile_append)
qed

lemma strsep_token:
  assumes "mem_holds mem p (s @ [c])" "CHR ''/'' \<notin> set s" "NUL \<notin> set s"
  shows "c = NUL \<Longrightarrow> strsep_x mem (Some p) = Some (Some p, None, mem)"
    "c = CHR ''/'' \<Longrightarrow> strsep_x mem (Some p) = Some (Some p, Some (p + length s + 1), mem[p + length s := NUL])"
proof -
  have rd: "mem_read mem (p + length s) = Some c" using assms(1) by (simp add: mem_holds_append)
  then have lt: "p + length s < length mem" by (simp add: mem_read_Some)
  have "skip_while (\<lambda>c. c \<noteq> CHR ''/'' \<and> c \<noteq> NUL) mem p = Some (p + length s)" if "c = NUL \<or> c = CHR ''/''"
    using skip_while_spec [OF assms(1), of "\<lambda>c. c \<noteq> CHR ''/'' \<and> c \<noteq> NUL"] assms(2,3) that by auto
  then show "c = NUL \<Longrightarrow> strsep_x mem (Some p) = Some (Some p, None, mem)"
    "c = CHR ''/'' \<Longrightarrow> strsep_x mem (Some p) = Some (Some p, Some (p + length s + 1), mem[p + length s := NUL])"
    using rd lt by (simp_all add: strsep_x_def mem_write_def)
qed

lemma cut_token:
  assumes "mem_holds mem p (s @ CHR ''/'' # ys)" "CHR ''/'' \<notin> set s" "NUL \<notin> set s"
  shows "strsep_x mem (Some p) = Some (Some p, Some (p + length s + 1), mem[p + length s := NUL])"
    "cstr_at (mem[p + length s := NUL]) p = Some s" "mem_holds (mem[p + length s := NUL]) (p + length s + 1) ys"
proof -
  let ?m = "mem[p + length s := NUL]"
  have h: "mem_holds mem p (s @ [CHR ''/''])" "mem_holds mem (p + length s + 1) ys"
    using assms(1) by (simp_all add: mem_holds_append)
  show "strsep_x mem (Some p) = Some (Some p, Some (p + length s + 1), ?m)" using strsep_token(2) [OF h(1) assms(2,3)] by simp
  have "mem_holds ?m p (s @ [NUL])" using h(1) by (auto simp: mem_holds_append mem_holds_write mem_read_update mem_read_Some)
  then show "cstr_at ?m p = Some s" using assms(3) by (rule cstr_at_holds)
  show "mem_holds ?m (p + length s + 1) ys" using h(2) by (subst mem_holds_write) auto
qed

lemma path_loop_segments:
  assumes "mem_holds mem p (xs @ [NUL])" "NUL \<notin> set xs" "length items + length (segments xs) < URL_HELPERS_MAX_URL_COMPONENTS"
  shows "\<exists>mem'. path_loop mem (Some p) items = Some (mem', resolve items (segments xs))"
  using assms
proof (induction xs arbitrary: mem p items rule: segments.induct)
  case (1 xs)
  let ?s = "takeWhile (\<lambda>c. c \<noteq> CHR ''/'') xs"
  have s: "CHR ''/'' \<notin> set ?s" "NUL \<notin> set ?s" using "1.prems"(2) by (auto dest: set_takeWhileD)
  have "length (push_item items t) \<le> length items + 1" for t by (auto simp: push_item_def)
  note P = this [of ?s]
  show ?case
  proof (cases "dropWhile (\<lambda>c. c \<noteq> CHR ''/'') xs")
    case Nil
    then have x: "?s = xs" "segments xs = [xs]" by (metis append_Nil2 takeWhile_dropWhile_id, subst segments.simps, metis (no_types, lifting) append_Nil2 list.simps(4) takeWhile_dropWhile_id)
    have "strsep_x mem (Some p) = Some (Some p, None, mem)" using strsep_token(1) [of mem p xs NUL] "1.prems"(1) s unfolding x by simp
    moreover have "path_loop mem None (push_item items xs) = Some (mem, push_item items xs)"
      using P "1.prems"(3) unfolding x by (subst path_loop.simps) (simp add: strsep_x_def)
    ultimately show ?thesis
      using "1.prems" cstr_at_holds [OF "1.prems"(1,2)] x(2) by (subst path_loop.simps) (simp add: resolve_push)
  next
    case (Cons c ys)
    have c: "c = CHR ''/''" using Cons by (metis (mono_tags, lifting) hd_dropWhile list.distinct(1) list.sel(1))
    have x: "xs = ?s @ CHR ''/'' # ys" using Cons c by (metis takeWhile_dropWhile_id)
    have seg: "segments xs = ?s # segments ys" by (subst segments.simps) (simp add: Cons)
    have "mem_holds mem p (?s @ CHR ''/'' # (ys @ [NUL]))" using "1.prems"(1) x by (metis append_Cons append_assoc)
    note T = cut_token [OF this s]
    let ?m = "mem[p + length ?s := NUL]"
    note T(3)
    moreover have "NUL \<notin> set ys" using "1.prems"(2) x by (metis Un_iff list.set_intros(2) set_append)
    moreover have "length (push_item items ?s) + length (segments ys) < URL_HELPERS_MAX_URL_COMPONENTS"
      using P "1.prems"(3) seg by simp
    ultimately obtain m' where "path_loop ?m (Some (p + length ?s + 1)) (push_item items ?s) = Some (m', resolve (push_item items ?s) (segments ys))"
      using "1.IH" [OF Cons] by blast
    then show ?thesis
      using T(1,2) "1.prems"(3) seg by (subst path_loop.simps) (simp add: resolve_push)
  qed
qed

section \<open>Resolving a reference\<close>

lemma parts_terminated:
  assumes "url_parts_ok scheme bracket host port path query"
  shows "NUL \<notin> set scheme" "NUL \<notin> set host" "\<And>n. port = Some n \<Longrightarrow> NUL \<notin> set n" "NUL \<notin> set path"
    "\<And>q. query = Some q \<Longrightarrow> NUL \<notin> set q"
proof -
  have "\<not> isalpha NUL" "\<not> isaddrchar NUL"
    by (simp_all add: isaddrchar_def isurlchar_def isalnum_def isalpha_def isupper_def islower_def isdigit_def char_code_def)
  then show "NUL \<notin> set scheme" "NUL \<notin> set host" "\<And>n. port = Some n \<Longrightarrow> NUL \<notin> set n" "NUL \<notin> set path"
    "\<And>q. query = Some q \<Longrightarrow> NUL \<notin> set q"
    using assms pathchar_delims by (auto simp: url_parts_ok_def host_ok_def)
qed

lemma contains_colons:
  assumes "mem_holds mem p (s @ [NUL])" "NUL \<notin> set s"
  shows "string_contains_colons mem (Some p) = Some (CHR '':'' \<in> set s)"
proof -
  let ?P = "\<lambda>c. c \<noteq> CHR '':'' \<and> c \<noteq> NUL"
  have "\<exists>q c. skip_while ?P mem p = Some q \<and> mem_read mem q = Some c \<and> (c = CHR '':'' \<longleftrightarrow> CHR '':'' \<in> set s)"
    using assms by (induction s arbitrary: p) (auto simp: skip_while.simps)
  then show ?thesis by (auto simp: string_contains_colons_def)
qed

lemma cat_authority_text:
  assumes "mem_holds mem p (scheme @ [NUL])" "mem_holds mem h (host @ [NUL])" "\<And>n. port = Some n \<Longrightarrow> mem_holds mem k (n @ [NUL])"
    and "NUL \<notin> set scheme" "NUL \<notin> set host" "\<And>n. port = Some n \<Longrightarrow> NUL \<notin> set n" "bracket \<longleftrightarrow> CHR '':'' \<in> set host"
    and "uc_protocol components = Some p" "uc_host components = Some h" "uc_port components = map_option (\<lambda>_. k) port" "uc_username components = None"
  shows "cat_authority mem components url =
    strcats ([scheme, ''://''] @ (if bracket then [''['', host, '']''] else [host]) @ (case port of None \<Rightarrow> [] | Some n \<Rightarrow> ['':'', n])) url"
  using cstr_at_holds [OF assms(1,4)] cstr_at_holds [OF assms(2,5)] cstr_at_holds [OF assms(3,6)] contains_colons [OF assms(2,5)] assms(7-)
  by (cases bracket; cases port) (simp_all add: cat_authority_def cat_component_def fun_eq_iff split: Option.bind_split)

lemma strncpy_text:
  assumes "NUL \<notin> set t" "length t < n"
  shows "\<exists>ys. strncpy_mem (t @ NUL # zs) n = Some (t @ NUL # ys) \<and> length (t @ NUL # ys) = n"
proof -
  have "takeWhile (\<lambda>c. c \<noteq> NUL) (take n (t @ NUL # zs)) = t"
    using assms by (cases "n - length t") (auto simp: takeWhile_append)
  moreover obtain k where "n - length t = Suc k" using assms(2) by (metis Suc_diff_Suc)
  ultimately show ?thesis using assms(2) by (intro exI [of _ "replicate k NUL"]) (simp add: strncpy_mem_def)
qed

lemma holds_front: "mem_holds (s @ NUL # zs) 0 (s @ [NUL])"
  using mem_holds_self [of "[]" "s @ [NUL]" zs] by simp

text \<open>The URL that a relative reference leads to. The query of the old URL is dropped.\<close>

definition base_items :: "string \<Rightarrow> string \<Rightarrow> string list" where
  "base_items path r = (if take 1 r = ''/'' then [] else resolve [] (segments path))"

definition changed_url :: "string \<Rightarrow> bool \<Rightarrow> string \<Rightarrow> string option \<Rightarrow> string \<Rightarrow> string \<Rightarrow> string" where
  "changed_url scheme bracket host port path r =
     scheme @ ''://'' @ authority_text bracket host port @ url_path (resolve (base_items path r) (segments r)) @
     (if r \<noteq> [] \<and> last r = CHR ''/'' then ''/'' else [])"

lemma resolve_segments:
  assumes "\<forall>s \<in> set items. s \<notin> {[], ''.'', ''..''} \<and> set s \<subseteq> A"  "\<forall>s \<in> set ref. set s \<subseteq> A"
  shows "\<forall>s \<in> set (resolve items ref). s \<notin> {[], ''.'', ''..''} \<and> set s \<subseteq> A"
  using assms unfolding resolve_push
proof (induction ref arbitrary: items)
  case (Cons t ref)
  have "\<forall>s \<in> set (push_item items t). s \<notin> {[], ''.'', ''..''} \<and> set s \<subseteq> A"
    using Cons.prems in_set_butlastD [of _ items] unfolding push_item_def by (simp only: split: if_split) fastforce
  then show ?case using Cons.IH [of "push_item items t"] Cons.prems(2) by simp
qed simp

lemma segments_chars: "s \<in> set (segments xs) \<Longrightarrow> set s \<subseteq> set xs - {CHR ''/''}"
proof (induction xs rule: segments.induct)
  case (1 xs)
  show ?case
  proof (cases "dropWhile (\<lambda>c. c \<noteq> CHR ''/'') xs")
    case Nil
    then have "segments xs = [takeWhile (\<lambda>c. c \<noteq> CHR ''/'') xs]" by (subst segments.simps) (simp only: list.case)
    then show ?thesis using "1.prems" by (auto dest: set_takeWhileD)
  next
    case (Cons c ys)
    have "set (c # ys) \<subseteq> set xs" by (metis Cons set_dropWhileD subsetI)
    moreover have "segments xs = takeWhile (\<lambda>c. c \<noteq> CHR ''/'') xs # segments ys" by (subst segments.simps) (simp add: Cons)
    then consider "s = takeWhile (\<lambda>c. c \<noteq> CHR ''/'') xs" | "s \<in> set (segments ys)" using "1.prems" by auto
    then have "set s \<subseteq> set xs - {CHR ''/''} \<or> set s \<subseteq> set ys - {CHR ''/''}"
      using "1.IH" [OF Cons] by cases (auto dest: set_takeWhileD)
    ultimately show ?thesis by auto
  qed
qed

lemma changed_items:
  "\<forall>s \<in> set (resolve (base_items path r) (segments r)). s \<notin> {[], ''.'', ''..''} \<and> set s \<subseteq> set path \<union> set r - {CHR ''/''}"
proof -
  have "\<forall>s \<in> set (base_items path r). s \<notin> {[], ''.'', ''..''} \<and> set s \<subseteq> set path \<union> set r - {CHR ''/''}"
    using resolve_segments [of "[]" "set path \<union> set r - {CHR ''/''}" "segments path"] segments_chars [of _ path]
    unfolding base_items_def by (auto split del: if_split split: if_splits)
  then show ?thesis using segments_chars [of _ r] by (intro resolve_segments) blast+
qed

lemma resolve_length: "length (resolve items ref) \<le> length items + length ref"
proof (induction ref arbitrary: items)
  case (Cons t ref)
  have "length (push_item items t) \<le> length items + 1" by (auto simp: push_item_def)
  then show ?case using Cons [of "push_item items t"] by (simp add: resolve_push)
qed (simp add: resolve_push)

lemma url_parse_fields:
  assumes "mem_holds m 0 (url_text scheme bracket host port path query @ [NUL])" "url_parts_ok scheme bracket host port path query"
  obtains m' k comps h k' u where "url_parse m 0 no_components = Some (m', k, comps)"
    "uc_protocol comps = Some 0" "uc_username comps = None" "uc_host comps = Some h" "uc_port comps = map_option (\<lambda>_. k') port" "uc_path comps = Some u"
    "mem_holds m' 0 (scheme @ [NUL])" "mem_holds m' h (host @ [NUL])" "\<forall>n. port = Some n \<longrightarrow> mem_holds m' k' (n @ [NUL])" "mem_holds m' u (path @ [NUL])"
proof -
  from url_parse_parts [OF assms, of no_components] show ?thesis
    by (elim exE conjE) (rule that, assumption, simp_all add: no_components_def split: option.splits)
qed

lemma url_parse_path_field:
  assumes "mem_holds m 0 (url_text scheme bracket host port path None @ [NUL])" "url_parts_ok scheme bracket host port path None"
  obtains m' k comps' u where "url_parse m 0 comps = Some (m', k, comps')" "uc_path comps' = Some u" "uc_query comps' = uc_query comps"
    "mem_holds m' u (path @ [NUL])"
proof -
  from url_parse_parts [OF assms, of comps] show ?thesis
    by (elim exE conjE) (rule that, assumption, simp_all)
qed

lemma url_change_text:
  assumes ok: "url_parts_ok scheme bracket host port path query" "bracket \<Longrightarrow> CHR '':'' \<in> set host"
    and url: "url = url_text scheme bracket host port path query @ NUL # zs" "length (url_text scheme bracket host port path query) < MAX_URL_SIZE"
    and r: "NUL \<notin> set r" "url_is_absolute (r @ [NUL]) 0 = Some False"
    and small: "length (if take 1 r = ''/'' then [] else segments path) + length (segments r) < URL_HELPERS_MAX_URL_COMPONENTS"
    and room: "length (changed_url scheme bracket host port path r) < length url"
  shows "\<exists>url'. url_change url r = Some (True, url') \<and> text_in url' (length url) (changed_url scheme bracket host port path r)"
proof -
  let ?t = "url_text scheme bracket host port path query"
  let ?items = "resolve (base_items path r) (segments r)"
  note nul = parts_terminated [OF ok(1)]
  have nt: "NUL \<notin> set ?t" using nul by (cases port; cases query) (simp_all add: url_text_def authority_text_def)
  have "host_ok bracket host" using ok(1) by (simp add: url_parts_ok_def)
  then have br: "bracket \<longleftrightarrow> CHR '':'' \<in> set host" using ok(2) unfolding host_ok_def by blast
  obtain m where m: "strncpy_mem url MAX_URL_SIZE = Some m" "mem_holds m 0 (?t @ [NUL])"
    using strncpy_text [OF nt url(2), of zs] holds_front url(1) by blast
  obtain m' k comps h k' u where p: "url_parse m 0 no_components = Some (m', k, comps)"
      "uc_protocol comps = Some 0" "uc_username comps = None" "uc_host comps = Some h" "uc_port comps = map_option (\<lambda>_. k') port" "uc_path comps = Some u"
      "mem_holds m' 0 (scheme @ [NUL])" "mem_holds m' h (host @ [NUL])" "\<forall>n. port = Some n \<longrightarrow> mem_holds m' k' (n @ [NUL])" "mem_holds m' u (path @ [NUL])"
    by (rule url_parse_fields [OF m(2) ok(1)])
  let ?a = "[scheme, ''://''] @ (if bracket then [''['', host, '']''] else [host]) @ (case port of None \<Rightarrow> [] | Some n \<Rightarrow> ['':'', n])"
  let ?b = "concat (map (\<lambda>s. [''/'', s]) ?items) @ (if r \<noteq> [] \<and> last r = CHR ''/'' then [''/''] else [])"
  have auth: "cat_authority m' comps = strcats ?a"
    using cat_authority_text [OF p(7,8) p(9) [rule_format] nul(1-3) br p(2,4,5,3)] by blast
  have "concat (concat (map (\<lambda>s. [''/'', s]) xs)) = url_path xs" for xs by (induction xs) (simp_all add: url_path_def)
  then have txt_eq: "concat (?a @ ?b) = changed_url scheme bracket host port path r"
    by (simp add: changed_url_def authority_text_def split: option.splits)
  have "NUL \<notin> set (url_path ?items)" using changed_items [of path r] nul(4) r(1) by (auto simp: url_path_def)
  then have nc: "NUL \<notin> set (changed_url scheme bracket host port path r)"
    using nul(1-3) by (cases port) (simp_all add: changed_url_def authority_text_def)
  let ?u = "url[0 := NUL]"
  have w: "mem_write url 0 NUL = Some ?u" using url(1) by (simp add: mem_write_def)
  have "text_in ?u (length url) []" using url(1) by (cases ?t) (auto simp: text_in_def)
  from strcats_text [OF this, of "?a @ ?b"] obtain u' where u': "strcats (?a @ ?b) ?u = Some u'"
      "text_in u' (length url) (changed_url scheme bracket host port path r)"
    unfolding txt_eq using nc room by auto
  have base: "\<exists>x. (if c \<noteq> CHR ''/'' then path_loop m' (uc_path comps) [] else Some (m', [])) = Some (x, base_items path r)" 
    if "mem_read (r @ [NUL]) 0 = Some c" for c
    using path_loop_segments [OF p(10) nul(4), of "[]"] small that p(6) by (cases r) (auto simp: base_items_def mem_read_Some)
  have len: "length (base_items path r) + length (segments r) < URL_HELPERS_MAX_URL_COMPONENTS"
    using resolve_length [of "[]" "segments path"] small by (simp add: base_items_def split: if_splits)
  have "mem_holds (r @ [NUL]) 0 (r @ [NUL])" using mem_holds_self [of "[]" "r @ [NUL]" "[]"] by simp
  from path_loop_segments [OF this r(1) len] obtain y where y: "path_loop (r @ [NUL]) (Some 0) (base_items path r) = Some (y, ?items)" by blast
  obtain c where c: "mem_read (r @ [NUL]) 0 = Some c" by (cases r) (simp_all add: mem_read_def)
  obtain x where x: "(if c \<noteq> CHR ''/'' then path_loop m' (uc_path comps) [] else Some (m', [])) = Some (x, base_items path r)" using base [OF c] by blast
  obtain z where z: "(if c \<noteq> CHR ''?'' \<and> c \<noteq> CHR ''#'' then Option.bind (uc_path comps) (cstr_at m') else Some []) = Some z"
    by (rule that [of "if c \<noteq> CHR ''?'' \<and> c \<noteq> CHR ''#'' then path else []"]) (simp add: cstr_at_holds [OF p(10) nul(4)] p(6))
  obtain u1 u2 where u: "strcats ?a ?u = Some u1" "cat_items ?items u1 = Some u2"
      "(if r \<noteq> [] \<and> last r = CHR ''/'' then strcat u2 ''/'' else Some u2) = Some u'"
    using u'(1) unfolding strcats_append [of ?a ?b] strcats_append [of "concat (map (\<lambda>s. [''/'', s]) ?items)"] cat_items_strcats [symmetric]
    by (auto simp: bind_eq_Some_conv split: if_splits)
  have "url_change url r = Some (True, u')"
    unfolding url_change_def Let_def r(2) bind.bind_lunit m(1) if_False p(1) split_conv w auth u(1) c z x y u(2,3) ..
  then show ?thesis using u'(2) by blast
qed

text \<open>
  What a reference is meant to lead to: the last segment of the path, its basename, does not count. It
  is empty when the path ends with a slash, and then this is what \<^verbatim>\<open>url_change\<close> does.
\<close>

definition merged_items :: "string \<Rightarrow> string \<Rightarrow> string list" where
  "merged_items path r = (if take 1 r = ''/'' then [] else resolve [] (butlast (segments path)))"

definition resolved_url :: "string \<Rightarrow> bool \<Rightarrow> string \<Rightarrow> string option \<Rightarrow> string \<Rightarrow> string \<Rightarrow> string" where
  "resolved_url scheme bracket host port path r =
     scheme @ ''://'' @ authority_text bracket host port @ url_path (resolve (merged_items path r) (segments r)) @
     (if r \<noteq> [] \<and> last r = CHR ''/'' then ''/'' else [])"

lemma segments_last: "xs = [] \<or> last xs = CHR ''/'' \<Longrightarrow> segments xs \<noteq> [] \<and> last (segments xs) = []"
proof (induction xs rule: segments.induct)
  case (1 xs)
  show ?case
  proof (cases "dropWhile (\<lambda>c. c \<noteq> CHR ''/'') xs")
    case Nil
    then have "\<forall>c \<in> set xs. c \<noteq> CHR ''/''" by (simp add: dropWhile_eq_Nil_conv)
    then have "xs = []" using "1.prems" last_in_set by blast
    then show ?thesis by (subst (1 2) segments.simps) simp
  next
    case (Cons c ys)
    have "xs \<noteq> []" using Cons by auto
    moreover have "last xs = last (c # ys)" using Cons by (metis last_appendR list.distinct(1) takeWhile_dropWhile_id)
    ultimately have "ys = [] \<or> last ys = CHR ''/''" using "1.prems" by (auto split: if_splits)
    moreover have "segments xs = takeWhile (\<lambda>c. c \<noteq> CHR ''/'') xs # segments ys" by (subst segments.simps) (simp add: Cons)
    ultimately show ?thesis using "1.IH" [OF Cons] by simp
  qed
qed

lemma base_merged:
  assumes "take 1 r = ''/'' \<or> path = [] \<or> last path = CHR ''/''"
  shows "base_items path r = merged_items path r"
    and "changed_url scheme bracket host port path r = resolved_url scheme bracket host port path r"
proof -
  show base: "base_items path r = merged_items path r"
  proof (cases "take 1 r = ''/''")
    case False
    then have "segments path = butlast (segments path) @ [[]]"
      using segments_last [of path] assms append_butlast_last_id [of "segments path"] by auto
    then have "resolve [] (segments path) = resolve [] (butlast (segments path) @ [[]])" by simp
    then have "resolve [] (segments path) = resolve [] (butlast (segments path))" by (simp add: resolve_push push_item_def)
    with False show ?thesis by (simp add: base_items_def merged_items_def)
  qed (simp add: base_items_def merged_items_def)
  show "changed_url scheme bracket host port path r = resolved_url scheme bracket host port path r"
    by (simp add: changed_url_def resolved_url_def base)
qed

section \<open>References to what is below\<close>

text \<open>Names of segments, and paths made of them.\<close>

definition proper :: "string \<Rightarrow> bool" where
  "proper s \<longleftrightarrow> s \<notin> {[], ''.'', ''..''} \<and> (\<forall>c \<in> set s. ispathchar c \<and> c \<noteq> CHR ''/'')"

lemma proper_chars: "proper s \<Longrightarrow> NUL \<notin> set s \<and> CHR ''/'' \<notin> set s \<and> s \<noteq> []"
  using pathchar_delims(1) by (auto simp: proper_def)

lemma segments_one: "CHR ''/'' \<notin> set s \<Longrightarrow> segments s = [s]"
proof -
  assume "CHR ''/'' \<notin> set s"
  then have "takeWhile (\<lambda>c. c \<noteq> CHR ''/'') s = s" "dropWhile (\<lambda>c. c \<noteq> CHR ''/'') s = []" by auto
  then show ?thesis by (subst segments.simps) (simp only: list.case)
qed

lemma segments_slash: "CHR ''/'' \<notin> set s \<Longrightarrow> segments (s @ CHR ''/'' # ys) = s # segments ys"
proof -
  assume "CHR ''/'' \<notin> set s"
  then have "takeWhile (\<lambda>c. c \<noteq> CHR ''/'') (s @ CHR ''/'' # ys) = s" "dropWhile (\<lambda>c. c \<noteq> CHR ''/'') (s @ CHR ''/'' # ys) = CHR ''/'' # ys"
    by (auto simp: takeWhile_append dropWhile_append)
  then show ?thesis by (subst segments.simps) (simp only: list.case)
qed

lemma segments_path: "CHR ''/'' \<notin> set s \<Longrightarrow> \<forall>t \<in> set ss. CHR ''/'' \<notin> set t \<Longrightarrow> segments (s @ url_path ss) = s # ss"
  by (induction ss arbitrary: s) (auto simp: url_path_def segments_one segments_slash)

lemma resolve_proper: "\<forall>s \<in> set ss. proper s \<Longrightarrow> resolve items ss = items @ ss"
  by (induction ss arbitrary: items) (auto simp: resolve_push push_item_def proper_def)

lemma url_path_append: "url_path (xs @ ys) = url_path xs @ url_path ys"
  by (simp add: url_path_def)

lemma strcpy_text:
  assumes "text_in mem n s" "NUL \<notin> set t" "length t \<le> length s"
  shows "\<exists>m. mem_write_n mem 0 (t @ [NUL]) = Some m \<and> text_in m n t"
proof -
  obtain zs where zs: "mem = s @ NUL # zs" "length mem = n" using assms(1) by (auto simp: text_in_def)
  let ?k = "length t + 1"
  have "length (take ?k mem) = length (t @ [NUL])" using zs assms(3) by simp
  from mem_write_n_split [OF _ this, of 0 "[]" "drop ?k mem"]
  have "mem_write_n mem 0 (t @ [NUL]) = Some (t @ NUL # drop ?k mem)" by simp
  then show ?thesis using assms(2,3) zs by (auto simp: text_in_def)
qed

lemma take_if_shorter_text:
  assumes "text_in new_url n s" "NUL \<notin> set t" "length t < length s"
  shows "\<exists>m. take_if_shorter new_url t None = Some m \<and> text_in m n t"
proof -
  have "strlen_mem new_url 0 = Some (length s)"
    using assms(1) strlen_mem_at [of s "[]"] by (auto simp: text_in_def)
  then show ?thesis using strcpy_text [OF assms(1,2)] assms(3) by (auto simp: take_if_shorter_def)
qed

lemma cstr_at_item: "cstr_at mem p = Some s \<Longrightarrow> s \<noteq> [] \<Longrightarrow> no_item mem (Some p) = Some False"
  by (cases "p < length mem") (auto simp: cstr_at_def no_item_def mem_read_def simp flip: Cons_nth_drop_Suc split: if_splits)

lemma shorten_step:
  assumes "strsep_x temp2 (Some p) = Some (Some p, curr', temp2')" "cstr_at temp2' p = Some c"
    and "strsep_x temp (Some q) = Some (Some q, new', temp')" "cstr_at temp' q = Some c" "c \<noteq> []"
  shows "shorten_loop temp temp2 new_url (Some p) (Some q) query = shorten_loop temp' temp2' new_url curr' new' query"
  using assms cstr_at_item [OF assms(2,5)] cstr_at_item [OF assms(4,5)] by (subst shorten_loop.simps) simp

text \<open>The path of a current URL that ends with a slash.\<close>

fun dir_path :: "string list \<Rightarrow> string" where
  "dir_path [] = []"
| "dir_path (s # ss) = s @ ''/'' @ dir_path ss"

lemma dir_path_slash: "url_path ss @ ''/'' = CHR ''/'' # dir_path ss"
  by (induction ss) (simp_all add: url_path_def)

lemma dir_path_below: "url_path (ss @ d # ds) = CHR ''/'' # dir_path ss @ d @ url_path ds"
  by (induction ss) (simp_all add: url_path_def)

lemma segments_dir: "\<forall>s \<in> set ss. CHR ''/'' \<notin> set s \<Longrightarrow> segments (dir_path ss) = ss @ [[]]"
  by (induction ss) (simp_all add: segments_one segments_slash)

text \<open>The loop leaves what follows behind the segments that the two paths share.\<close>

lemma shorten_loop_below:
  assumes "mem_holds temp2 p (dir_path ss @ [NUL])" "mem_holds temp q (dir_path ss @ rest @ [NUL])"
    and "\<forall>s \<in> set ss. proper s" "NUL \<notin> set rest"
  shows "shorten_loop temp temp2 new_url (Some p) (Some q) None = take_if_shorter new_url rest None"
  using assms
proof (induction ss arbitrary: p q temp temp2)
  case Nil
  have h: "mem_holds temp2 p ([] @ [NUL])" "mem_holds temp q (rest @ [NUL])" using Nil.prems(1,2) by simp_all
  have "no_item temp2 (Some p) = Some True" using h(1) by (auto simp: no_item_def mem_read_Some)
  then show ?case
    using strsep_token(1) [OF h(1) _ _ refl] cstr_at_holds [OF h(2) Nil.prems(4)]
    by (subst shorten_loop.simps) (simp add: child_reference_def query_at_def)
next
  case (Cons c ss)
  have c: "CHR ''/'' \<notin> set c" "NUL \<notin> set c" "c \<noteq> []" using Cons.prems(3) proper_chars by auto
  have h: "mem_holds temp2 p (c @ CHR ''/'' # (dir_path ss @ [NUL]))" "mem_holds temp q (c @ CHR ''/'' # (dir_path ss @ rest @ [NUL]))"
    using Cons.prems(1,2) by simp_all
  note T2 = cut_token [OF h(1) c(1,2)] and T = cut_token [OF h(2) c(1,2)]
  show ?case
    using shorten_step [OF T2(1,2) T(1,2) c(3)] Cons.IH [OF T2(3) T(3)] Cons.prems(3,4) by simp
qed

lemma same_chars_run:
  "\<forall>x \<in> set a. x \<noteq> CHR ''/'' \<and> x \<noteq> NUL \<Longrightarrow> same_chars (a @ CHR ''/'' # u) (a @ CHR ''/'' # v) = length a"
  by (induction a) auto

lemma absolute_scheme:
  assumes "mem_holds mem 0 (scheme @ [CHR '':''])" "scheme \<noteq> []" "\<forall>c \<in> set scheme. isalpha c \<or> c = CHR ''-''"
  shows "url_is_absolute mem 0 = Some True"
proof -
  have "mem_read mem (length scheme) = Some (CHR '':'')" using assms(1) by (simp add: mem_holds_append)
  then show ?thesis
    using skip_while_spec [OF assms(1), of "\<lambda>c. c \<noteq> NUL \<and> (isalpha c \<or> c = CHR ''-'') \<and> c \<noteq> CHR '':''"] assms(2,3) scheme_char
    by (auto simp: url_is_absolute_def)
qed

lemma not_absolute:
  assumes "mem_holds mem 0 (s @ [x])" "x = NUL \<or> x = CHR ''/''" "CHR '':'' \<notin> set s"
  shows "url_is_absolute mem 0 = Some False"
proof -
  have "\<not> isalpha (CHR ''/'')" by (simp add: isalpha_def isupper_def islower_def char_code_def)
  then have "\<exists>q c. skip_while (\<lambda>c. c \<noteq> NUL \<and> (isalpha c \<or> c = CHR ''-'') \<and> c \<noteq> CHR '':'') mem p = Some q \<and> mem_read mem q = Some c \<and> c \<noteq> CHR '':''"
    if "mem_holds mem p (s @ [x])" for p
    using that assms(2,3) by (induction s arbitrary: p) (auto simp: skip_while.simps)
  from this [OF assms(1)] show ?thesis by (auto simp: url_is_absolute_def)
qed

lemma last_path: "ss \<noteq> [] \<Longrightarrow> \<forall>s \<in> set ss. proper s \<Longrightarrow> last (url_path ss) \<noteq> CHR ''/''"
proof (induction ss rule: rev_induct)
  case (snoc s ss)
  then have "s \<noteq> []" "CHR ''/'' \<notin> set s" using proper_chars by auto
  moreover from this have "last s \<noteq> CHR ''/''" by (metis last_in_set)
  ultimately show ?case by (simp add: url_path_def)
qed simp

text \<open>What a reference made of proper segments leads to.\<close>

abbreviation path_url :: "string \<Rightarrow> bool \<Rightarrow> string \<Rightarrow> string option \<Rightarrow> string list \<Rightarrow> string" where
  "path_url scheme bracket host port ss \<equiv> scheme @ ''://'' @ authority_text bracket host port @ url_path ss"

lemma path_url_text: "path_url scheme bracket host port (c # cs) = url_text scheme bracket host port (c @ url_path cs) None"
  by (simp add: url_text_def url_path_def)

lemma dir_url_text: "path_url scheme bracket host port ss @ ''/'' = url_text scheme bracket host port (dir_path ss) None"
  using dir_path_slash [of ss] by (simp add: url_text_def)

lemma below_url_text:
  "path_url scheme bracket host port (ss @ d # ds) = url_text scheme bracket host port (dir_path ss @ d @ url_path ds) None"
  by (simp add: url_text_def dir_path_below)

lemma changed_proper:
  assumes "\<forall>s \<in> set (ss @ d # ds). proper s"
  shows "segments (url_path (ss @ d # ds)) = [] # ss @ d # ds" "segments (d @ url_path ds) = d # ds"
    "changed_url scheme bracket host port path (url_path (ss @ d # ds)) = path_url scheme bracket host port (ss @ d # ds)"
    "base_items path (d @ url_path ds) = ss \<Longrightarrow>
      changed_url scheme bracket host port path (d @ url_path ds) = path_url scheme bracket host port (ss @ d # ds)"
    "merged_items path (d @ url_path ds) = ss \<Longrightarrow>
      resolved_url scheme bracket host port path (d @ url_path ds) = path_url scheme bracket host port (ss @ d # ds)"
    "take 1 (d @ url_path ds) \<noteq> ''/''"
proof -
  have ns: "\<forall>s \<in> set (ss @ d # ds). CHR ''/'' \<notin> set s" using assms proper_chars by blast
  show seg: "segments (url_path (ss @ d # ds)) = [] # ss @ d # ds" "segments (d @ url_path ds) = d # ds"
    using segments_path [of "[]" "ss @ d # ds"] segments_path [of d ds] ns by simp_all
  have "resolve [] ([] # ss @ d # ds) = resolve [] (ss @ d # ds)" by (simp add: resolve_push push_item_def)
  then have r1: "resolve [] ([] # ss @ d # ds) = ss @ d # ds" using resolve_proper [OF assms, of "[]"] by simp
  have "last (url_path (ss @ d # ds)) \<noteq> CHR ''/''" using last_path [OF _ assms] by simp
  moreover have "take 1 (url_path (ss @ d # ds)) = ''/''" by (simp add: dir_path_below)
  ultimately show "changed_url scheme bracket host port path (url_path (ss @ d # ds)) = path_url scheme bracket host port (ss @ d # ds)"
    unfolding changed_url_def base_items_def seg by (simp add: r1)
  have d: "d \<noteq> []" "CHR ''/'' \<notin> set d" using assms ns proper_chars by auto
  then show "take 1 (d @ url_path ds) \<noteq> ''/''" by (cases d) auto
  have res: "resolve ss (d # ds) = ss @ d # ds" using resolve_proper [of "d # ds" ss] assms by simp
  have "last (d @ url_path ds) = last (url_path (d # ds))" using d(1) by (simp add: url_path_def)
  then have l2: "last (d @ url_path ds) \<noteq> CHR ''/''" using last_path [of "d # ds"] assms by simp
  show "changed_url scheme bracket host port path (d @ url_path ds) = path_url scheme bracket host port (ss @ d # ds)"
    if "base_items path (d @ url_path ds) = ss" using that l2 by (simp add: changed_url_def seg res)
  show "resolved_url scheme bracket host port path (d @ url_path ds) = path_url scheme bracket host port (ss @ d # ds)"
    if "merged_items path (d @ url_path ds) = ss" using that l2 by (simp add: resolved_url_def seg res)
qed

lemma resolve_dir: "\<forall>s \<in> set ss. proper s \<Longrightarrow> resolve [] (segments (dir_path ss)) = ss"
  using segments_dir [of ss] resolve_proper [of ss "[]"] proper_chars by (simp add: resolve_push push_item_def)

lemma proper_relative:
  assumes "\<forall>s \<in> set (d # ds). proper s" "CHR '':'' \<notin> set d"
  shows "NUL \<notin> set (d @ url_path ds)" "url_is_absolute ((d @ url_path ds) @ [NUL]) 0 = Some False"
proof -
  let ?r = "d @ url_path ds"
  show "NUL \<notin> set ?r" using assms(1) proper_chars by (auto simp: url_path_def)
  have "mem_holds (?r @ [NUL]) 0 (d @ [case ds of [] \<Rightarrow> NUL | _ \<Rightarrow> CHR ''/''])"
    using mem_holds_self [of "[]" "d @ [case ds of [] \<Rightarrow> NUL | _ \<Rightarrow> CHR ''/'']" "tl (url_path ds @ [NUL])"] by (cases ds) (simp_all add: url_path_def)
  then show "url_is_absolute (?r @ [NUL]) 0 = Some False" by (rule not_absolute [OF _ _ assms(2)]) (cases ds; simp)
qed

text \<open>The current URL, and one below it.\<close>

definition below_ok :: "string \<Rightarrow> bool \<Rightarrow> string \<Rightarrow> string option \<Rightarrow> string list \<Rightarrow> bool" where
  "below_ok scheme bracket host port ss \<longleftrightarrow> url_parts_ok scheme bracket host port [] None \<and> (bracket \<longrightarrow> CHR '':'' \<in> set host) \<and>
     (\<forall>s \<in> set ss. proper s) \<and> length ss + 1 < URL_HELPERS_MAX_URL_COMPONENTS"

lemma parts_path:
  "url_parts_ok scheme bracket host port [] None \<Longrightarrow> \<forall>x \<in> set path. ispathchar x \<Longrightarrow> url_parts_ok scheme bracket host port path None"
  by (simp add: url_parts_ok_def)

lemma proper_pathchars:
  assumes "\<forall>s \<in> set ss. proper s"
  shows "\<forall>x \<in> set (url_path ss). ispathchar x" "\<forall>x \<in> set (dir_path ss). ispathchar x"
proof -
  have "ispathchar (CHR ''/'')" by (simp add: ispathchar_def)
  with assms show "\<forall>x \<in> set (url_path ss). ispathchar x" "\<forall>x \<in> set (dir_path ss). ispathchar x"
    by (induction ss) (auto simp: url_path_def proper_def)
qed

lemma below_parts:
  assumes "below_ok scheme bracket host port (ss @ d # ds)"
  shows "url_parts_ok scheme bracket host port (dir_path ss) None" "url_parts_ok scheme bracket host port (dir_path ss @ d @ url_path ds) None"
proof -
  have "url_parts_ok scheme bracket host port [] None" "\<forall>x \<in> set (dir_path ss). ispathchar x"
      "\<forall>x \<in> set (url_path (ss @ d # ds)). ispathchar x"
    using assms proper_pathchars(2) [of ss] proper_pathchars(1) [of "ss @ d # ds"] by (simp_all add: below_ok_def)
  then show "url_parts_ok scheme bracket host port (dir_path ss) None" "url_parts_ok scheme bracket host port (dir_path ss @ d @ url_path ds) None"
    by (auto intro!: parts_path simp: dir_path_below)
qed

lemma make_relative_below:
  fixes scheme bracket host port ss d ds
  defines "cur \<equiv> path_url scheme bracket host port ss @ ''/''" and "new \<equiv> path_url scheme bracket host port (ss @ d # ds)"
    and "r \<equiv> url_path (ss @ d # ds)"
  assumes ok: "below_ok scheme bracket host port (ss @ d # ds)" "length new < MAX_URL_SIZE" and new_url: "text_in new_url n r"
  shows "\<exists>m. make_relative cur new_url = Some m \<and> text_in m n (d @ url_path ds)"
proof -
  have P: "\<forall>s \<in> set (ss @ d # ds). proper s" using ok(1) by (simp add: below_ok_def)
  note parts = below_parts [OF ok(1)]
  have cur: "cur = url_text scheme bracket host port (dir_path ss) None" unfolding cur_def by (rule dir_url_text)
  have new: "new = url_text scheme bracket host port (dir_path ss @ d @ url_path ds) None" unfolding new_def by (rule below_url_text)
  have "length cur \<le> length new" by (simp add: cur new url_text_def)
  then have len: "length cur < MAX_URL_SIZE" using ok(2) by simp
  have nul: "NUL \<notin> set cur" "NUL \<notin> set r" "NUL \<notin> set (d @ url_path ds)"
    using parts_terminated [OF parts(1)] parts_terminated(4) [OF parts(2)] unfolding cur r_def dir_path_below
    by (cases port; simp add: url_text_def authority_text_def)+
  obtain ys where ys: "strncpy_mem (cur @ NUL # []) MAX_URL_SIZE = Some (cur @ NUL # ys)" "length (cur @ NUL # ys) = MAX_URL_SIZE"
    using strncpy_text [OF nul(1) len] by blast
  have "\<exists>temp. url_change (cur @ NUL # ys) r = Some (True, temp) \<and> text_in temp MAX_URL_SIZE new"
  proof -
    have "mem_holds (r @ [NUL]) 0 ([] @ [CHR ''/''])" by (simp add: r_def dir_path_below mem_read_def)
    then have "url_is_absolute (r @ [NUL]) 0 = Some False" by (rule not_absolute) simp_all
    moreover have "take 1 r = ''/''" by (simp add: r_def dir_path_below)
    ultimately show ?thesis
      using url_change_text [OF parts(1) _ _ _ nul(2), of "cur @ NUL # ys" ys] ys(2) len ok
        changed_proper(3) [OF P, of scheme bracket host port "dir_path ss", folded new_def r_def] changed_proper(1) [OF P, folded r_def]
      unfolding cur [symmetric] by (simp add: below_ok_def)
  qed
  then obtain temp zs where temp: "url_change (cur @ NUL # ys) r = Some (True, temp)" "temp = new @ NUL # zs"
    by (auto simp: text_in_def)
  obtain t1 k1 c1 u1 where p1: "url_parse temp 0 no_components = Some (t1, k1, c1)" "uc_path c1 = Some u1" "uc_query c1 = uc_query no_components"
      "mem_holds t1 u1 ((dir_path ss @ d @ url_path ds) @ [NUL])"
    by (rule url_parse_path_field [OF holds_front [of new zs, unfolded new] parts(2), of no_components]) (simp add: temp(2) new)
  obtain t2 k2 c2 u2 where p2: "url_parse (cur @ [NUL]) 0 (c1\<lparr>uc_path := None\<rparr>) = Some (t2, k2, c2)" "uc_path c2 = Some u2"
      "mem_holds t2 u2 (dir_path ss @ [NUL])"
    by (rule url_parse_path_field [OF holds_front [of cur "[]", unfolded cur] parts(1), of "c1\<lparr>uc_path := None\<rparr>"]) (simp add: cur)
  have "shorten_loop t1 t2 new_url (Some u2) (Some u1) None = take_if_shorter new_url (d @ url_path ds) None"
    using p1(4) p2(3) nul(3) P by (intro shorten_loop_below [of t2 u2 ss]) simp_all
  moreover have "\<exists>m. take_if_shorter new_url (d @ url_path ds) None = Some m \<and> text_in m n (d @ url_path ds)"
    using take_if_shorter_text [OF new_url nul(3)] by (simp add: r_def dir_path_below)
  moreover have "make_relative cur new_url = shorten_loop t1 t2 new_url (Some u2) (Some u1) None"
    using ys(1) text_in_cstr [OF new_url] temp(1) p1(1-3) p2(1,2) by (simp add: make_relative_def MAX_URL_SIZE_def no_components_def)
  ultimately show ?thesis by simp
qed

text \<open>The absolute URL is first cut down to its path.\<close>

lemma shorten_absolute:
  fixes scheme bracket host port u v
  defines "cur \<equiv> scheme @ ''://'' @ authority_text bracket host port @ CHR ''/'' # u"
    and "new \<equiv> scheme @ ''://'' @ authority_text bracket host port @ CHR ''/'' # v"
  assumes ok: "url_parts_ok scheme bracket host port [] None" "length scheme = 4" and new_url: "text_in new_url n new"
  shows "\<exists>m. url_shorten_reference cur new_url = make_relative cur m \<and> text_in m n (CHR ''/'' # v)"
proof -
  let ?a = "authority_text bracket host port"
  note new = new_def and cur = cur_def
  obtain zs where zs: "new_url = new @ NUL # zs" "NUL \<notin> set new" using new_url by (auto simp: text_in_def)
  have "mem_holds new_url 0 (scheme @ [CHR '':''])"
    using mem_holds_self [of "[]" "scheme @ [CHR '':'']" "''//'' @ ?a @ CHR ''/'' # v @ NUL # zs"] by (simp add: zs(1) new)
  then have abs: "url_is_absolute new_url 0 = Some True" using ok(1,2) by (intro absolute_scheme) (auto simp: url_parts_ok_def)
  have "host_ok bracket host" "\<And>k. port = Some k \<Longrightarrow> host_ok False k" using ok(1) by (auto simp: url_parts_ok_def)
  then have "\<forall>x \<in> set ?a. isaddrchar x"
    using host_ok_addr by (cases port) (auto simp: authority_text_def isaddrchar_delims)
  moreover have "\<not> isaddrchar NUL"
    by (simp add: isaddrchar_def isurlchar_def isalnum_def isalpha_def isupper_def islower_def isdigit_def char_code_def)
  ultimately have run: "same_chars (?a @ CHR ''/'' # u @ [NUL]) (?a @ CHR ''/'' # v @ [NUL]) = length ?a"
    using isaddrchar_delims(4) by (intro same_chars_run) metis
  have rd: "mem_read (x @ ''://'' @ ?a @ CHR ''/'' # y @ [NUL]) (7 + length ?a) = Some (CHR ''/'')" if "length x = 4" for x y
    using that by (simp add: mem_read_def nth_append)
  obtain m where m: "mem_write_n new_url 0 ((CHR ''/'' # v) @ [NUL]) = Some m" "text_in m n (CHR ''/'' # v)"
    using strcpy_text [OF new_url, of "CHR ''/'' # v"] zs(2) by (auto simp: new)
  have "url_shorten_reference cur new_url = make_relative cur m"
    using m(1) rd [OF ok(2)] run ok(2)
    by (simp add: url_shorten_reference_def abs text_in_cstr [OF new_url] Let_def) (simp add: cur new numeral_3_eq_3)
  then show ?thesis using m(2) by blast
qed

section \<open>Properties\<close>

text \<open>
  C31: \<^verbatim>\<open>url_change\<close> resolves a relative reference: in a buffer with a URL whose path is empty or ends
  with a slash, or for a reference that starts with a slash, it leaves the scheme and the authority of
  the URL, followed by the path that the segments of the reference lead to, from the root when the
  reference starts with a slash and otherwise from the path of the URL without its basename, as the
  comment in the code demands. No empty segment and no dot segment is left, and the result ends with
  a slash when the reference does. The reference has neither a query nor a fragment, and the path and
  the reference have less than \<^verbatim>\<open>URL_HELPERS_MAX_URL_COMPONENTS\<close> segments together. For other URLs the
  comment does not hold: the basename is kept.
\<close>

theorem url_change_resolves:
  assumes "url_parts_ok scheme bracket host port path query" "bracket \<longrightarrow> CHR '':'' \<in> set host"
    and "url = url_text scheme bracket host port path query @ NUL # zs" "length (url_text scheme bracket host port path query) < MAX_URL_SIZE"
    and "NUL \<notin> set r" "CHR ''?'' \<notin> set r" "CHR ''#'' \<notin> set r" "url_is_absolute (r @ [NUL]) 0 = Some False"
    and "take 1 r = ''/'' \<or> path = [] \<or> last path = CHR ''/''"
    and "length (if take 1 r = ''/'' then [] else segments path) + length (segments r) < URL_HELPERS_MAX_URL_COMPONENTS"
    and "length (resolved_url scheme bracket host port path r) < length url"
  shows "\<exists>url'. url_change url r = Some (True, url') \<and> text_in url' (length url) (resolved_url scheme bracket host port path r) \<and>
    (\<forall>s \<in> set (resolve (merged_items path r) (segments r)). s \<notin> {[], ''.'', ''..''} \<and> CHR ''/'' \<notin> set s)"
proof -
  note base = base_merged [OF assms(9)]
  have "\<exists>url'. url_change url r = Some (True, url') \<and> text_in url' (length url) (changed_url scheme bracket host port path r)"
    using assms base by (intro url_change_text) simp_all
  moreover have "\<forall>s \<in> set (resolve (base_items path r) (segments r)). s \<notin> {[], ''.'', ''..''} \<and> CHR ''/'' \<notin> set s"
    using changed_items by blast
  ultimately show ?thesis unfolding base by blast
qed

theorem url_change_resolves_witness:
  "\<exists>url'. url_change (''coap://h/a/b/?q'' @ NUL # replicate 9 NUL) ''../x/./y/'' = Some (True, url') \<and> text_in url' 25 ''coap://h/a/x/y/''"
proof -
  have u: "url_text ''coap'' False ''h'' None ''a/b/'' (Some ''q'') = ''coap://h/a/b/?q''" by (simp add: url_text_def authority_text_def)
  have c: "resolved_url ''coap'' False ''h'' None ''a/b/'' ''../x/./y/'' = ''coap://h/a/x/y/''" by code_simp
  have "url_parts_ok ''coap'' False ''h'' None ''a/b/'' (Some ''q'')"
    by (simp add: url_parts_ok_def host_ok_def isaddrchar_def ispathchar_def isquerychar_def isurlchar_def isalnum_def isalpha_def
      isdigit_def isupper_def islower_def char_code_def)
  moreover have "url_is_absolute (''../x/./y/'' @ [NUL]) 0 = Some False" by code_simp
  moreover have "length (if take 1 ''../x/./y/'' = ''/'' then [] else segments ''a/b/'') + length (segments ''../x/./y/'') < URL_HELPERS_MAX_URL_COMPONENTS"
    by code_simp
  ultimately show ?thesis
    using url_change_resolves [of "''coap''" False "''h''" None "''a/b/''" "Some ''q''" "''coap://h/a/b/?q'' @ NUL # replicate 9 NUL" "replicate 9 NUL" "''../x/./y/''"]
    unfolding u c by (simp add: MAX_URL_SIZE_def) blast
qed

text \<open>
  C40: \<^verbatim>\<open>url_change\<close> does not remove the basename: for a URL that does not end with a slash and a relative
  reference made of proper segments it leaves the URL with the whole reference behind the whole path,
  and not the URL in which the basename is replaced by the reference, which the comment in the code
  announces. The loop under the comment computes the length of the path without the basename, and
  nothing uses it.
\<close>

theorem url_change_keeps_basename:
  assumes ok: "below_ok scheme bracket host port (c # cs @ d # ds)" "CHR '':'' \<notin> set d"
      "length (path_url scheme bracket host port (c # cs)) < MAX_URL_SIZE"
    and url: "text_in url k (path_url scheme bracket host port (c # cs))" "length (path_url scheme bracket host port (c # cs @ d # ds)) < k"
  shows "\<exists>url'. url_change url (d @ url_path ds) = Some (True, url') \<and> text_in url' k (path_url scheme bracket host port (c # cs @ d # ds)) \<and>
    resolved_url scheme bracket host port (c @ url_path cs) (d @ url_path ds) = path_url scheme bracket host port (butlast (c # cs) @ d # ds) \<and>
    path_url scheme bracket host port (c # cs @ d # ds) \<noteq> path_url scheme bracket host port (butlast (c # cs) @ d # ds)"
proof -
  let ?r = "d @ url_path ds"
  have P: "\<forall>s \<in> set (c # cs @ d # ds). proper s" and ok0: "url_parts_ok scheme bracket host port [] None" "bracket \<longrightarrow> CHR '':'' \<in> set host"
    using ok(1) by (simp_all add: below_ok_def)
  have parts: "url_parts_ok scheme bracket host port (c @ url_path cs) None"
    using parts_path [OF ok0(1)] proper_pathchars(1) [of "c # cs"] P by (simp add: url_path_def)
  have rel: "NUL \<notin> set ?r" "url_is_absolute (?r @ [NUL]) 0 = Some False" using proper_relative [of d ds] P ok(2) by simp_all
  have seg: "segments (c @ url_path cs) = c # cs" using segments_path [of c cs] P proper_chars by simp
  have Pb: "\<forall>s \<in> set (butlast (c # cs) @ d # ds). proper s" using P in_set_butlastD [of _ cs] by auto
  have items: "base_items (c @ url_path cs) ?r = c # cs" "merged_items (c @ url_path cs) ?r = butlast (c # cs)"
    using changed_proper(6) [of "c # cs" d ds] P Pb resolve_proper [of "c # cs" "[]"] resolve_proper [of "butlast (c # cs)" "[]"] seg
    by (simp_all only: base_items_def merged_items_def if_False append_Nil append_Cons) auto
  obtain zs where zs: "url = path_url scheme bracket host port (c # cs) @ NUL # zs" "length url = k" using url(1) by (auto simp: text_in_def)
  have "\<exists>url'. url_change url ?r = Some (True, url') \<and> text_in url' k (path_url scheme bracket host port (c # cs @ d # ds))"
    using url_change_text [OF parts _ zs(1) [unfolded path_url_text] ok(3) [unfolded path_url_text] rel] ok(1) ok0(2) zs(2) url(2) seg
      changed_proper(2,4,6) [of "c # cs" d ds] items(1) P
    by (auto simp: below_ok_def)
  moreover have "resolved_url scheme bracket host port (c @ url_path cs) ?r = path_url scheme bracket host port (butlast (c # cs) @ d # ds)"
    using changed_proper(5) [OF Pb items(2)] by simp
  moreover have "length (url_path (butlast (c # cs))) < length (url_path (c # cs))"
    using arg_cong [OF append_butlast_last_id [of "c # cs"], of "\<lambda>ss. length (url_path ss)"] unfolding url_path_append
    by (simp add: url_path_def split del: if_split)
  then have "url_path (c # cs @ d # ds) \<noteq> url_path (butlast (c # cs) @ d # ds)"
    using url_path_append [of "c # cs" "d # ds"] url_path_append [of "butlast (c # cs)" "d # ds"] by auto
  ultimately show ?thesis by simp
qed

theorem url_change_keeps_basename_witness:
  "\<exists>url'. url_change (''coap://h/a/b'' @ replicate 10 NUL) ''c'' = Some (True, url') \<and> text_in url' 22 ''coap://h/a/b/c'' \<and>
    resolved_url ''coap'' False ''h'' None ''a/b'' ''c'' = ''coap://h/a/c''"
proof -
  have eq: "path_url ''coap'' False ''h'' None [''a'', ''b''] = ''coap://h/a/b''" "path_url ''coap'' False ''h'' None (''a'' # [''b''] @ ''c'' # []) = ''coap://h/a/b/c''"
      "path_url ''coap'' False ''h'' None (butlast [''a'', ''b''] @ ''c'' # []) = ''coap://h/a/c''" "''c'' @ url_path [] = ''c''" "''a'' @ url_path [''b''] = ''a/b''"
    by (simp_all add: authority_text_def url_path_def)
  have "below_ok ''coap'' False ''h'' None (''a'' # [''b''] @ ''c'' # [])"
    by (simp add: below_ok_def proper_def url_parts_ok_def host_ok_def isaddrchar_def ispathchar_def isurlchar_def isalnum_def isalpha_def
      isdigit_def isupper_def islower_def char_code_def URL_HELPERS_MAX_URL_COMPONENTS_def)
  moreover have "text_in (''coap://h/a/b'' @ replicate 10 NUL) 22 ''coap://h/a/b''" by (auto simp: text_in_def numeral_eq_Suc)
  ultimately show ?thesis
    using url_change_keeps_basename [of "''coap''" False "''h''" None "''a''" "[''b'']" "''c''" "[]" "''coap://h/a/b'' @ replicate 10 NUL" 22]
    unfolding eq by (simp add: MAX_URL_SIZE_def)
qed

text \<open>
  C32: a shortened reference leads back: when the current URL ends with a slash, then for a URL below it,
  of the same authority and with a scheme of four letters, \<^verbatim>\<open>url_shorten_reference\<close> leaves the rest of its
  path, and \<^verbatim>\<open>url_change\<close> with this reference turns the current URL into the URL again. The segments are
  neither empty nor dots, and there is no colon in the first one of the rest.
\<close>

theorem shortened_leads_back:
  assumes ok: "below_ok scheme bracket host port (ss @ d # ds)" "length scheme = 4" "CHR '':'' \<notin> set d"
      "length (path_url scheme bracket host port (ss @ d # ds)) < MAX_URL_SIZE"
    and new_url: "text_in new_url n (path_url scheme bracket host port (ss @ d # ds))"
    and url: "text_in url k (path_url scheme bracket host port ss @ ''/'')" "length (path_url scheme bracket host port (ss @ d # ds)) < k"
  shows "\<exists>m url'. url_shorten_reference (path_url scheme bracket host port ss @ ''/'') new_url = Some m \<and> text_in m n (d @ url_path ds) \<and>
    url_change url (d @ url_path ds) = Some (True, url') \<and> text_in url' k (path_url scheme bracket host port (ss @ d # ds))"
proof -
  let ?r = "d @ url_path ds" and ?cur = "path_url scheme bracket host port ss @ ''/''"
  have P: "\<forall>s \<in> set (ss @ d # ds). proper s" and ok0: "url_parts_ok scheme bracket host port [] None" "bracket \<longrightarrow> CHR '':'' \<in> set host"
    using ok(1) by (simp_all add: below_ok_def)
  obtain m where m: "url_shorten_reference ?cur new_url = Some m" "text_in m n ?r"
    using shorten_absolute [OF ok0(1) ok(2) new_url [unfolded dir_path_below], of "dir_path ss"] make_relative_below [OF ok(1,4)]
    unfolding dir_path_below by (fastforce simp: dir_path_slash)
  have rel: "NUL \<notin> set ?r" "url_is_absolute (?r @ [NUL]) 0 = Some False" using proper_relative [of d ds] P ok(3) by simp_all
  have seg: "segments (dir_path ss) = ss @ [[]]" "base_items (dir_path ss) ?r = ss"
    using segments_dir [of ss] resolve_dir [of ss] changed_proper(6) [OF P] P proper_chars by (simp_all add: base_items_def)
  obtain zs where zs: "url = ?cur @ NUL # zs" "length url = k" using url(1) by (auto simp: text_in_def)
  have len: "length ?cur < MAX_URL_SIZE" using ok(4) by (simp add: dir_path_slash dir_path_below)
  obtain url' where "url_change url ?r = Some (True, url')" "text_in url' k (path_url scheme bracket host port (ss @ d # ds))"
    using url_change_text [OF below_parts(1) [OF ok(1)] _ zs(1) [unfolded dir_url_text] len [unfolded dir_url_text] rel] ok(1) ok0(2) zs(2) url(2) seg
      changed_proper(2,4,6) [OF P]
    by (auto simp: below_ok_def)
  then show ?thesis using m by blast
qed

theorem shortened_leads_back_witness:
  "\<exists>m url'. url_shorten_reference ''coap://h/a/'' (''coap://h/a/b/c'' @ [NUL]) = Some m \<and> text_in m 15 ''b/c'' \<and>
    url_change (''coap://h/a/'' @ replicate 9 NUL) ''b/c'' = Some (True, url') \<and> text_in url' 20 ''coap://h/a/b/c''"
proof -
  have eq: "path_url ''coap'' False ''h'' None [''a''] @ ''/'' = ''coap://h/a/''" "path_url ''coap'' False ''h'' None ([''a''] @ ''b'' # [''c'']) = ''coap://h/a/b/c''"
      "''b'' @ url_path [''c''] = ''b/c''"
    by (simp_all add: authority_text_def url_path_def)
  have "below_ok ''coap'' False ''h'' None ([''a''] @ ''b'' # [''c''])"
    by (simp add: below_ok_def proper_def url_parts_ok_def host_ok_def isaddrchar_def ispathchar_def isurlchar_def isalnum_def isalpha_def
      isdigit_def isupper_def islower_def char_code_def URL_HELPERS_MAX_URL_COMPONENTS_def)
  moreover have "text_in (''coap://h/a/b/c'' @ [NUL]) 15 ''coap://h/a/b/c''" "text_in (''coap://h/a/'' @ replicate 9 NUL) 20 ''coap://h/a/''"
    by (auto simp: text_in_def numeral_eq_Suc)
  ultimately show ?thesis
    using shortened_leads_back [of "''coap''" False "''h''" None "[''a'']" "''b''" "[''c'']" "''coap://h/a/b/c'' @ [NUL]" 15 "''coap://h/a/'' @ replicate 9 NUL" 20]
    unfolding eq by (simp add: MAX_URL_SIZE_def)
qed

text \<open>
  Elsewhere it may lead astray. A slash at the end of the current URL counts as one more segment to go up
  from; and the new path is still read from the array into which the \<open>..\<close> are written: four of them reach
  it.
\<close>

lemma shorten_slash_astray:
  "map_option (\<lambda>m. cstr_at m 0) (url_shorten_reference ''coap://h/abcdefg/b/'' (''coap://h/abcdefg/xx/'' @ [NUL])) = Some (Some ''../../xx/'')"
  "map_option (\<lambda>(ok, m). cstr_at m 0) (url_change (''coap://h/abcdefg/b/'' @ replicate 20 NUL) ''../../xx/'') = Some (Some ''coap://h/xx/'')"
  by code_simp+

lemma shorten_overwritten:
  "map_option (\<lambda>m. cstr_at m 0) (url_shorten_reference ''coap://h/a/b/c/d'' (''coap://h/temperature-of-the-room'' @ [NUL])) = Some (Some ''../../../../../'')"
  by code_simp

end
