(* ===== verification/Node_Router.thy ===== *)
theory Node_Router
  imports Instance Missing "HOL-Library.List_Lexorder"
begin

text \<open>
  The node router (\<^verbatim>\<open>src/smcp/smcp-node-router.c\<close>): nodes with named children, and the routing of a
  request along the segments of its path. The children of a node are a tree ordered by name.

  A name is the bytes of a C string before its terminator. Two name pointers that are equal have
  equal names, so that the test of the pointers before the comparison of the names is part of the
  latter. The links of all nodes are in one heap; the root of the tree of its children is a field
  of each node. Calls of finalizers are recorded, the last one first.
\<close>

section \<open>Nodes\<close>

datatype finalizer = Smcp_node_dealloc | Finalizer fn

datatype node_fn = Smcp_default_request_handler | Node_fn fn

record smcp_node_s =
  node_name :: "u8 list option"
  node_parent :: "addr option"
  children :: "addr option"
  has_link_content :: bool
  is_observable :: bool
  should_free_name :: bool
  finalize :: "finalizer option"
  node_request_handler :: "node_fn option"
  node_context :: "addr option"

record node_heap =
  nodes :: "addr \<Rightarrow> smcp_node_s"
  node_links :: bt_heap
  finalized :: "(finalizer \<times> addr) list"

definition zero_node :: smcp_node_s where
  "zero_node = \<lparr>node_name = None, node_parent = None, children = None, has_link_content = False, is_observable = False,
     should_free_name = False, finalize = None, node_request_handler = None, node_context = None\<rparr>"

abbreviation set_node :: "addr \<Rightarrow> (smcp_node_s \<Rightarrow> smcp_node_s) \<Rightarrow> node_heap \<Rightarrow> node_heap" where
  "set_node n f ns \<equiv> ns\<lparr>nodes := (nodes ns)(n := f (nodes ns n))\<rparr>"

text \<open>The tree of the children of a node, as the tree operations see it.\<close>

definition child_tree :: "node_heap \<Rightarrow> addr \<Rightarrow> bt_heap" where
  "child_tree ns n = (node_links ns)\<lparr>bt_root := children (nodes ns n)\<rparr>"

definition set_child_tree :: "addr \<Rightarrow> bt_heap \<Rightarrow> node_heap \<Rightarrow> node_heap" where
  "set_child_tree n h ns = (set_node n (\<lambda>x. x\<lparr>children := bt_root h\<rparr>) ns)\<lparr>node_links := h\<rparr>"

section \<open>The order of names\<close>

text \<open>
  \<^verbatim>\<open>strcmp\<close> and \<^verbatim>\<open>strncmp\<close> return the difference of the first bytes that differ, which the callers
  convert to \<^verbatim>\<open>signed char\<close>.
\<close>

fun strncmp_bytes :: "nat \<Rightarrow> u8 list \<Rightarrow> u8 list \<Rightarrow> int" where
  "strncmp_bytes 0 a b = 0"
| "strncmp_bytes (Suc n) [] [] = 0"
| "strncmp_bytes (Suc n) [] (y # b) = - uint y"
| "strncmp_bytes (Suc n) (x # a) [] = uint x"
| "strncmp_bytes (Suc n) (x # a) (y # b) =
     (if x \<noteq> y then uint x - uint y else if x = 0 then 0 else strncmp_bytes n a b)"

definition strcmp_bytes :: "u8 list \<Rightarrow> u8 list \<Rightarrow> int" where
  "strcmp_bytes a b = strncmp_bytes (length a + 1) a b"

definition bt_compare_result :: "int \<Rightarrow> int" where
  "bt_compare_result d = sint (word_of_int d :: u8)"

definition smcp_node_compare :: "node_heap \<Rightarrow> addr \<Rightarrow> addr \<Rightarrow> int" where
  "smcp_node_compare ns lhs rhs =
     (case (node_name (nodes ns lhs), node_name (nodes ns rhs)) of
        (None, None) \<Rightarrow> 0
      | (None, Some _) \<Rightarrow> 1
      | (Some _, None) \<Rightarrow> - 1
      | (Some a, Some b) \<Rightarrow> bt_compare_result (strcmp_bytes a b))"

text \<open>
  The second string is given by its first \<open>len\<close> bytes. The code returns 0 at once when it is the name of
  the node itself, by address: no caller passes a part of a node's own name, and for the whole of it
  the comparison of the bytes gives 0 as well.
\<close>

definition smcp_node_ncompare_cstr :: "node_heap \<Rightarrow> addr \<Rightarrow> u8 list \<Rightarrow> int" where
  "smcp_node_ncompare_cstr ns lhs rhs =
     (case node_name (nodes ns lhs) of
        None \<Rightarrow> 1
      | Some a \<Rightarrow>
          let len = length rhs;
              ret = bt_compare_result (strncmp_bytes len a rhs)
          in if ret = 0 then if length a > len then 1 else if length a < len then - 1 else ret else ret)"

definition smcp_node_find :: "node_heap \<Rightarrow> addr \<Rightarrow> u8 list \<Rightarrow> addr option option" where
  "smcp_node_find ns node name = bt_find (\<lambda>lhs. smcp_node_ncompare_cstr ns lhs name) (child_tree ns node)"

section \<open>Creating and deleting nodes\<close>

definition smcp_node_alloc :: "addr \<Rightarrow> node_heap \<Rightarrow> node_heap" where
  "smcp_node_alloc n ns =
     (let h = node_links ns;
          h = bt_set_parent n None (bt_put (Rhs n) None (bt_put (Lhs n) None h))
      in ns\<lparr>nodes := (nodes ns)(n := zero_node\<lparr>finalize := Some Smcp_node_dealloc\<rparr>), node_links := h\<rparr>)"

text \<open>
  \<^verbatim>\<open>smcp_node_delete\<close>: while there are children, the root of their tree is deleted; then the node is
  removed from the children of its parent. The finalizer of the node is called on the node that
  the removal finds.
\<close>

definition unlink_node :: "addr \<Rightarrow> node_heap \<Rightarrow> node_heap option" where
  "unlink_node n ns =
     (case node_parent (nodes ns n) of
        None \<Rightarrow> Some ns
      | Some p \<Rightarrow> do {
          (_, h, removed) \<leftarrow> bt_remove (\<lambda>lhs. smcp_node_compare ns lhs n) (child_tree ns p);
          let ns = set_child_tree p h ns;
          Some (case (removed, finalize (nodes ns n)) of
                  (Some x, Some f) \<Rightarrow> ns\<lparr>finalized := (f, x) # finalized ns\<rparr>
                | _ \<Rightarrow> ns)
        })"

partial_function (option) smcp_node_delete :: "addr \<Rightarrow> node_heap \<Rightarrow> node_heap option" where
  "smcp_node_delete n ns =
     (case children (nodes ns n) of
        Some c \<Rightarrow> Option.bind (smcp_node_delete c ns) (\<lambda>ns'. smcp_node_delete n ns')
      | None \<Rightarrow> unlink_node n ns)"

text \<open>\<open>allocated\<close> tells that the memory was allocated by the call, at the address given.\<close>

definition smcp_node_init :: "addr \<Rightarrow> bool \<Rightarrow> addr option \<Rightarrow> u8 list option \<Rightarrow> node_heap \<Rightarrow> node_heap option" where
  "smcp_node_init self allocated node name ns = do {
     let ns = (if allocated then smcp_node_alloc self ns else ns);
     let ns = set_node self (\<lambda>x. x\<lparr>node_request_handler := Some Smcp_default_request_handler\<rparr>) ns;
     case (node, name) of
       (Some p, Some s) \<Rightarrow> do {
         let ns = set_node self (\<lambda>x. x\<lparr>node_name := Some s\<rparr>) ns;
         (_, h, replaced) \<leftarrow> bt_insert (\<lambda>lhs. smcp_node_compare ns lhs self) self (child_tree ns p);
         let ns = set_child_tree p h ns;
         ns \<leftarrow> (case replaced of None \<Rightarrow> Some ns | Some old \<Rightarrow> smcp_node_delete old ns);
         Some (set_node self (\<lambda>x. x\<lparr>node_parent := Some p\<rparr>) ns)
       }
     | _ \<Rightarrow> Some ns
   }"

section \<open>Routing\<close>

text \<open>
  The loop of \<^verbatim>\<open>smcp_node_route\<close>. \<open>prev\<close> is the position of the scanner before the option that is
  looked at; the scanner is put back there when the option does not belong to the router.
\<close>

definition put_back :: "nat option \<times> u32 \<Rightarrow> smcp_s \<Rightarrow> smcp_s" where
  "put_back prev self = set_inbound (\<lambda>i. i\<lparr>this_option := fst prev, in_last_option_key := snd prev\<rparr>) self"

definition scan_position :: "smcp_s \<Rightarrow> nat option \<times> u32" where
  "scan_position self = (this_option (inbound self), in_last_option_key (inbound self))"

function route_loop ::
    "node_heap \<Rightarrow> nat option \<times> u32 \<Rightarrow> addr \<Rightarrow> smcp_s \<Rightarrow> (smcp_status_t \<times> addr \<times> smcp_s) option" where
  "route_loop ns prev node self =
     (case smcp_inbound_next_option self of
        None \<Rightarrow> None
      | Some ((key, v), self') \<Rightarrow>
          if key = COAP_OPTION_INVALID then Some (SMCP_STATUS_OK, node, self')
          else if key > COAP_OPTION_URI_PATH then Some (SMCP_STATUS_OK, node, put_back prev self')
          else if key = COAP_OPTION_URI_PATH then
            (case (in_packet (inbound self'), v) of
               (Some packet, Some (Some p, l)) \<Rightarrow>
                 (case mem_read_n packet p (unat l) of
                    None \<Rightarrow> None
                  | Some name \<Rightarrow>
                      (case smcp_node_find ns node name of
                         None \<Rightarrow> None
                       | Some None \<Rightarrow> Some (SMCP_STATUS_OK, node, put_back prev self')
                       | Some (Some next) \<Rightarrow> route_loop ns (scan_position self') next self'))
             | _ \<Rightarrow> None)
          else if key \<notin> {COAP_OPTION_URI_HOST, COAP_OPTION_URI_PORT, COAP_OPTION_PROXY_URI, COAP_OPTION_CONTENT_TYPE} \<and>
                  COAP_OPTION_IS_CRITICAL key
          then Some (SMCP_STATUS_BAD_OPTION, node, self')
          else route_loop ns (scan_position self') node self')"
  by pat_completeness auto
termination
  by (relation "measure (\<lambda>(_, _, _, self). scan_left self)") (auto dest: next_option_progress)

declare route_loop.simps [simp del]

text \<open>The handler and its context are written only if the route was found.\<close>

definition smcp_node_route ::
    "node_heap \<Rightarrow> addr \<Rightarrow> (node_fn option \<times> addr) \<Rightarrow> smcp_s \<Rightarrow> (smcp_status_t \<times> (node_fn option \<times> addr) \<times> smcp_s) option" where
  "smcp_node_route ns node target self = do {
     self \<leftarrow> smcp_inbound_reset_next_option self;
     (ret, node, self) \<leftarrow> route_loop ns (this_option (inbound self), 0) node self;
     if ret \<noteq> SMCP_STATUS_OK then Some (ret, target, self)
     else Some (ret, (node_request_handler (nodes ns node),
                      case node_context (nodes ns node) of Some c \<Rightarrow> c | None \<Rightarrow> node), self)
   }"

text \<open>The handler that is called, with its context, or the status that is returned without a call.\<close>

definition smcp_node_router_handler ::
    "node_heap \<Rightarrow> addr \<Rightarrow> smcp_s \<Rightarrow> ((smcp_status_t + node_fn \<times> addr) \<times> smcp_s) option" where
  "smcp_node_router_handler ns context self = do {
     (_, (handler, context), self) \<leftarrow> smcp_node_route ns context (None, context) self;
     Some (case handler of None \<Rightarrow> Inl SMCP_STATUS_NOT_IMPLEMENTED | Some f \<Rightarrow> Inr (f, context), self)
   }"

section \<open>Paths\<close>

partial_function (option) smcp_node_get_root :: "node_heap \<Rightarrow> addr \<Rightarrow> addr option" where
  "smcp_node_get_root ns node =
     (case node_parent (nodes ns node) of Some p \<Rightarrow> smcp_node_get_root ns p | None \<Rightarrow> Some node)"

partial_function (option) smcp_node_get_path :: "node_heap \<Rightarrow> addr \<Rightarrow> string \<Rightarrow> u16 \<Rightarrow> string option" where
  "smcp_node_get_path ns node path max_path_len =
     Option.bind (case node_parent (nodes ns node) of
                    Some p \<Rightarrow> smcp_node_get_path ns p path max_path_len
                  | None \<Rightarrow> mem_write path 0 NUL) (\<lambda>path.
     case node_name (nodes ns node) of
       None \<Rightarrow> Some path
     | Some name \<Rightarrow>
         Option.bind (strlcat path 0 ''/'' (ucast max_path_len)) (\<lambda>(path, _).
         let len = length (takeWhile (\<lambda>c. c \<noteq> NUL) path);
             src = byte_chars name @ [NUL]
         in if unat max_path_len > len
            then map_option (\<lambda>r. drop (length src) (fst r))
                   (url_encode_cstr (src @ path) (length src + len) 0 (unat max_path_len - len))
            else Some path))"

text \<open>
  \<^verbatim>\<open>smcp_node_find_next_with_path\<close> on the rest of a path, a string without its terminator. It returns
  the number of characters it has passed and the node, or NULL, that it has written to \<^verbatim>\<open>next\<close>.
\<close>

definition path_end :: "char \<Rightarrow> bool" where
  "path_end c \<longleftrightarrow> c = CHR ''/'' \<or> c = CHR ''?'' \<or> c = CHR ''!''"

definition unescape_name :: "string \<Rightarrow> u8 list option" where
  "unescape_name esc = do {
     let n = length esc;
     (mem, len) \<leftarrow> url_decode_str (replicate (n + 1) NUL @ esc @ [NUL]) 0 (n + 1) (n + 1) n;
     name \<leftarrow> mem_read_n mem 0 len;
     Some (map (\<lambda>c. word_of_nat (char_code c)) name)
   }"

definition smcp_node_find_next_with_path :: "node_heap \<Rightarrow> addr \<Rightarrow> string \<Rightarrow> (nat \<times> addr option) option" where
  "smcp_node_find_next_with_path ns node orig_path = do {
     let path = dropWhile (\<lambda>c. c = CHR ''/'') orig_path;
     next \<leftarrow> (if path = [] then Some (Some node)
              else Option.bind (unescape_name (takeWhile (\<lambda>c. \<not> path_end c) path)) (smcp_node_find ns node));
     let path = (if next = None then path
                 else dropWhile (\<lambda>c. c = CHR ''/'') (dropWhile (\<lambda>c. \<not> path_end c) path));
     Some (length orig_path - length path, next)
   }"

partial_function (option) smcp_node_find_with_path :: "node_heap \<Rightarrow> addr \<Rightarrow> string \<Rightarrow> addr option option" where
  "smcp_node_find_with_path ns node path =
     Option.bind (smcp_node_find_next_with_path ns node path) (\<lambda>r.
     case r of
       (n, None) \<Rightarrow> Some None
     | (n, Some next) \<Rightarrow> if drop n path = [] then Some (Some next) else smcp_node_find_with_path ns next (drop n path))"

partial_function (option) smcp_node_find_closest_with_path :: "node_heap \<Rightarrow> addr \<Rightarrow> string \<Rightarrow> nat \<Rightarrow> (nat \<times> addr) option" where
  "smcp_node_find_closest_with_path ns closest path ret =
     Option.bind (smcp_node_find_next_with_path ns closest (drop ret path)) (\<lambda>r.
     case r of
       (n, None) \<Rightarrow> Some (ret + n, closest)
     | (n, Some node) \<Rightarrow>
         if drop (ret + n) path = [] then Some (ret + n, node)
         else smcp_node_find_closest_with_path ns node path (ret + n))"

end
