(* ===== verification/Node_Tree.thy ===== *)
theory Node_Tree
  imports Node_Router
begin

text \<open>
  The nodes of the router (\<^verbatim>\<open>src/smcp/smcp-node-router.c\<close>): among siblings with ASCII names the tree of
  children is a map from names to nodes. Nodes that are created are found, nodes that are deleted are
  gone with all that is below them, and a router that is used as intended never reaches a freed node.
\<close>

section \<open>Names\<close>

definition ascii_names :: "u8 list set" where
  "ascii_names = {n. \<forall>b \<in> set n. 0 < b \<and> b < 128}"

text \<open>The key of a node is its name; a node without a name has a key that is no name.\<close>

definition node_key :: "node_heap \<Rightarrow> addr \<Rightarrow> u8 list" where
  "node_key ns x = (case node_name (nodes ns x) of Some a \<Rightarrow> a | None \<Rightarrow> [0])"

lemma ascii_names_Cons [simp]: "[] \<in> ascii_names" "b # n \<in> ascii_names \<longleftrightarrow> 0 < b \<and> b < 128 \<and> n \<in> ascii_names"
  by (auto simp: ascii_names_def)

lemma no_name_key: "node_key ns x \<in> ascii_names \<Longrightarrow> node_name (nodes ns x) = Some (node_key ns x)"
  by (auto simp: node_key_def split: option.splits)

lemma bt_compare_small: "- 128 \<le> d \<Longrightarrow> d < 128 \<Longrightarrow> bt_compare_result d = d"
  by (simp add: bt_compare_result_def signed_of_int signed_take_bit_int_eq_self)

lemma ascii_uint:
  assumes "0 < (b :: u8)" "b < 128"
  shows "0 < uint b" "uint b < 128"
  using assms by (simp_all add: word_less_def)

text \<open>Both comparisons have the sign of the lexicographic order.\<close>

definition name_order :: "u8 list \<Rightarrow> u8 list \<Rightarrow> int" where
  "name_order a b = (if a < b then - 1 else if a = b then 0 else 1)"

lemma name_order_simps [simp]:
  "name_order [] [] = 0" "name_order [] (y # b) = - 1" "name_order (x # a) [] = 1"
  "name_order (x # a) (y # b) = (if x < y then - 1 else if x = y then name_order a b else 1)"
  by (auto simp: name_order_def)

lemma byte_difference:
  assumes "0 < (x :: u8)" "x < 128" "0 < (y :: u8)" "y < 128" "x \<noteq> y"
  shows "sgn (bt_compare_result (uint x - uint y)) = (if x < y then - 1 else 1)" "bt_compare_result (uint x - uint y) \<noteq> 0"
proof -
  have "uint x \<noteq> uint y" using assms(5) by (simp add: word_uint_eq_iff)
  moreover have "bt_compare_result (uint x - uint y) = uint x - uint y"
    using ascii_uint [OF assms(1,2)] ascii_uint [OF assms(3,4)] by (intro bt_compare_small) auto
  ultimately show "sgn (bt_compare_result (uint x - uint y)) = (if x < y then - 1 else 1)"
      "bt_compare_result (uint x - uint y) \<noteq> 0"
    by (auto simp: word_less_def sgn_if)
qed

lemma ncompare_sign:
  assumes "a \<in> ascii_names" "b \<in> ascii_names"
  shows "sgn (let r = bt_compare_result (strncmp_bytes (length b) a b)
    in if r = 0 then if length a > length b then 1 else if length a < length b then - 1 else r else r) = name_order a b"
  using assms
proof (induction a b rule: list_induct2')
  case (3 y b)
  then show ?case using ascii_uint [of y] by (auto simp: bt_compare_small Let_def)
next
  case (4 x a y b)
  then show ?case using byte_difference [of x y] by (cases "x = y") (auto simp: Let_def)
qed (simp_all add: bt_compare_small)

lemma compare_sign:
  assumes "a \<in> ascii_names" "b \<in> ascii_names"
  shows "sgn (bt_compare_result (strcmp_bytes a b)) = name_order a b"
  using assms
proof (induction a b rule: list_induct2')
  case (4 x a y b)
  then show ?case using byte_difference [of x y] by (cases "x = y") (auto simp: strcmp_bytes_def)
next
  case (2 x a)
  then show ?case using ascii_uint [of x] by (auto simp: strcmp_bytes_def bt_compare_small)
next
  case (3 y b)
  then show ?case using ascii_uint [of y] by (auto simp: strcmp_bytes_def bt_compare_small)
qed (simp add: strcmp_bytes_def bt_compare_small)

interpretation node_order: bt_order "node_key ns" "\<lambda>k x. smcp_node_ncompare_cstr ns x k" ascii_names for ns
proof
  fix k x
  assume k: "k \<in> ascii_names" "node_key ns x \<in> ascii_names"
  have "sgn (smcp_node_ncompare_cstr ns x k) = name_order (node_key ns x) k"
    using ncompare_sign [OF k(2,1)] no_name_key [OF k(2)] by (simp add: smcp_node_ncompare_cstr_def Let_def)
  then show "smcp_node_ncompare_cstr ns x k < 0 \<longleftrightarrow> node_key ns x < k"
      "smcp_node_ncompare_cstr ns x k = 0 \<longleftrightarrow> node_key ns x = k"
    by (auto simp: sgn_if name_order_def split: if_splits)
qed

lemma compare_ncompare:
  assumes "node_key ns x \<in> ascii_names" "node_key ns y \<in> ascii_names"
  shows "sgn (smcp_node_compare ns x y) = sgn (smcp_node_ncompare_cstr ns x (node_key ns y))"
  using ncompare_sign [OF assms] compare_sign [OF assms] no_name_key [OF assms(1)] no_name_key [OF assms(2)]
  by (simp add: smcp_node_compare_def smcp_node_ncompare_cstr_def Let_def)

section \<open>Adding a node\<close>

text \<open>The children of a node: a tree of named nodes, in the order of their names.\<close>

definition children_inv :: "node_heap \<Rightarrow> addr \<Rightarrow> addr tree \<Rightarrow> bool" where
  "children_inv ns p t \<longleftrightarrow> holds_tree (child_tree ns p) t \<and> node_order.ordered ns t"

lemma node_find_tree:
  "holds_tree (child_tree ns p) t \<Longrightarrow>
   smcp_node_find ns p name = Some (tree_find (\<lambda>x. smcp_node_ncompare_cstr ns x name) t)"
  by (simp add: smcp_node_find_def holds_tree_find)

lemma ordered_nodes_cong:
  assumes "\<And>x. x \<in> set_tree t \<Longrightarrow> node_name (nodes ns x) = node_name (nodes ns' x)"
  shows "node_order.ordered ns t = node_order.ordered ns' t"
proof -
  have k: "node_key ns x = node_key ns' x" if "x \<in> set_tree t" for x using assms that by (simp add: node_key_def)
  then have "map (node_key ns) (inorder t) = map (node_key ns') (inorder t)" by (intro map_cong) auto
  moreover have "node_key ns ` set_tree t = node_key ns' ` set_tree t" using k by (intro image_cong) auto
  ultimately show ?thesis by (simp only: node_order.ordered_def)
qed

lemma ncompare_cong:
  "node_name (nodes ns x) = node_name (nodes ns' x) \<Longrightarrow> smcp_node_ncompare_cstr ns x k = smcp_node_ncompare_cstr ns' x k"
  by (simp add: smcp_node_ncompare_cstr_def)

lemma alloc_links:
  "bt_lhs (node_links (smcp_node_alloc n ns)) = (bt_lhs (node_links ns))(n := None)"
  "bt_rhs (node_links (smcp_node_alloc n ns)) = (bt_rhs (node_links ns))(n := None)"
  "bt_parent (node_links (smcp_node_alloc n ns)) = (bt_parent (node_links ns))(n := None)"
  "nodes (smcp_node_alloc n ns) = (nodes ns)(n := zero_node\<lparr>finalize := Some Smcp_node_dealloc\<rparr>)"
  "finalized (smcp_node_alloc n ns) = finalized ns"
  by (simp_all add: smcp_node_alloc_def Let_def bt_put_fields)

section \<open>The invariant of the router\<close>

text \<open>
  \<open>T p\<close> is the tree of the children of \<open>p\<close>. Every child knows its parent, and the rank of a node is
  above those of its children.
\<close>

definition router_inv :: "node_heap \<Rightarrow> (addr \<Rightarrow> addr tree) \<Rightarrow> (addr \<Rightarrow> nat) \<Rightarrow> bool" where
  "router_inv ns T rank \<longleftrightarrow>
     (\<forall>p. children_inv ns p (T p)) \<and>
     (\<forall>p. \<forall>x \<in> set_tree (T p). node_parent (nodes ns x) = Some p \<and> rank x < rank p)"

lemma router_invD:
  assumes "router_inv ns T rank"
  shows "holds_tree (child_tree ns p) (T p)" "node_order.ordered ns (T p)"
    "x \<in> set_tree (T p) \<Longrightarrow> node_parent (nodes ns x) = Some p" "x \<in> set_tree (T p) \<Longrightarrow> rank x < rank p"
  using assms by (simp_all add: router_inv_def children_inv_def)

lemma router_disjoint: "router_inv ns T rank \<Longrightarrow> x \<in> set_tree (T p) \<Longrightarrow> x \<in> set_tree (T q) \<Longrightarrow> p = q"
  using router_invD(3) [of ns T rank x p] router_invD(3) [of ns T rank x q] by simp

lemma holds_tree_cong:
  assumes "holds_tree h t" "bt_root h' = bt_root h"
    and "\<And>x. x \<in> set_tree t \<Longrightarrow> bt_lhs h' x = bt_lhs h x \<and> bt_rhs h' x = bt_rhs h x \<and> bt_parent h' x = bt_parent h x"
  shows "holds_tree h' t"
  using assms is_tree_cong [of t h' h None "bt_root h"] by (simp add: holds_tree_def)

lemma child_tree_fields [simp]:
  "bt_root (child_tree ns p) = children (nodes ns p)" "bt_lhs (child_tree ns p) = bt_lhs (node_links ns)"
  "bt_rhs (child_tree ns p) = bt_rhs (node_links ns)" "bt_parent (child_tree ns p) = bt_parent (node_links ns)"
  by (simp_all add: child_tree_def)

lemma child_tree_set [simp]: "child_tree (set_child_tree p h ns) p = h"
  by (simp add: child_tree_def set_child_tree_def)

text \<open>A change to the tree of one node, within its items, leaves the trees of the others alone.\<close>

lemma other_trees:
  assumes "router_inv ns T rank" "same_outside (insert n (set_tree (T p))) Root (child_tree ns p) h"
    and "q \<noteq> p" "n \<notin> set_tree (T q)" "children (nodes ns' q) = children (nodes ns q)" "node_links ns' = h"
  shows "holds_tree (child_tree ns' q) (T q)"
proof (rule holds_tree_cong [OF router_invD(1) [OF assms(1)]])
  fix x
  assume x: "x \<in> set_tree (T q)"
  then have "x \<notin> insert n (set_tree (T p))" using router_disjoint [OF assms(1) x, of p] assms(3,4) by (metis insertE)
  then show "bt_lhs (child_tree ns' q) x = bt_lhs (child_tree ns q) x \<and>
      bt_rhs (child_tree ns' q) x = bt_rhs (child_tree ns q) x \<and> bt_parent (child_tree ns' q) x = bt_parent (child_tree ns q) x"
    using same_outside_links [OF assms(2), of x] assms(6) by simp
qed (simp add: assms(5))

text \<open>A new node, not yet linked: the trees of all nodes are as they were.\<close>

definition new_node :: "addr \<Rightarrow> u8 list \<Rightarrow> node_heap \<Rightarrow> node_heap" where
  "new_node n name ns = set_node n (\<lambda>x. x\<lparr>node_name := Some name\<rparr>)
     (set_node n (\<lambda>x. x\<lparr>node_request_handler := Some Smcp_default_request_handler\<rparr>) (smcp_node_alloc n ns))"

lemma new_node_fields [simp]:
  "x \<noteq> n \<Longrightarrow> nodes (new_node n name ns) x = nodes ns x"
  "node_name (nodes (new_node n name ns) n) = Some name" "children (nodes (new_node n name ns) n) = None"
  "finalized (new_node n name ns) = finalized ns" "node_key (new_node n name ns) n = name"
  "bt_lhs (node_links (new_node n name ns)) = (bt_lhs (node_links ns))(n := None)"
  "bt_rhs (node_links (new_node n name ns)) = (bt_rhs (node_links ns))(n := None)"
  "bt_parent (node_links (new_node n name ns)) = (bt_parent (node_links ns))(n := None)"
  by (simp_all add: new_node_def alloc_links zero_node_def node_key_def)

lemma node_init_new:
  "smcp_node_init n True (Some p) (Some name) ns =
     Option.bind (bt_insert (\<lambda>x. smcp_node_compare (new_node n name ns) x n) n (child_tree (new_node n name ns) p))
       (\<lambda>(_, h, replaced). Option.bind (case replaced of None \<Rightarrow> Some (set_child_tree p h (new_node n name ns))
           | Some old \<Rightarrow> smcp_node_delete old (set_child_tree p h (new_node n name ns)))
         (\<lambda>ns. Some (set_node n (\<lambda>x. x\<lparr>node_parent := Some p\<rparr>) ns)))"
  by (simp only: smcp_node_init_def new_node_def Let_def if_True option.case prod.case)

lemma new_node_inv:
  assumes "router_inv ns T rank" "T n = Leaf" "\<forall>q. n \<notin> set_tree (T q)"
  shows "router_inv (new_node n name ns) T rank" (is "router_inv ?ns _ _")
proof -
  have mem: "x \<noteq> n" if "x \<in> set_tree (T q)" for x q using that assms(3) by auto
  have "holds_tree (child_tree ?ns q) (T q)" for q
  proof (rule holds_tree_cong [OF router_invD(1) [OF assms(1), of q]])
    show "bt_root (child_tree ?ns q) = bt_root (child_tree ns q)"
      using router_invD(1) [OF assms(1), of n] assms(2) by (cases "q = n") (auto simp: holds_tree_def)
  qed (use mem in auto)
  moreover have "node_order.ordered ?ns (T q)" for q
    using router_invD(2) [OF assms(1), of q] ordered_nodes_cong [of "T q" ?ns ns] mem by auto
  moreover have "node_parent (nodes ?ns x) = Some q \<and> rank x < rank q" if "x \<in> set_tree (T q)" for x q
    using router_invD(3,4) [OF assms(1) that] mem [OF that] by simp
  ultimately show ?thesis by (simp add: router_inv_def children_inv_def)
qed

text \<open>Among ASCII names the two comparisons select the same place.\<close>

lemma compare_tree:
  assumes "node_order.ordered ns t" "node_key ns n \<in> ascii_names"
  shows "tree_find (\<lambda>x. smcp_node_compare ns x n) t = tree_find (\<lambda>x. smcp_node_ncompare_cstr ns x (node_key ns n)) t"
    "tree_insert (\<lambda>x. smcp_node_compare ns x n) n t = tree_insert (\<lambda>x. smcp_node_ncompare_cstr ns x (node_key ns n)) n t"
    "tree_remove (\<lambda>x. smcp_node_compare ns x n) t = tree_remove (\<lambda>x. smcp_node_ncompare_cstr ns x (node_key ns n)) t"
  using assms compare_ncompare [of ns _ n] by (auto simp: node_order.ordered_def intro!: tree_cmp_cong)

text \<open>What a lookup finds depends on the names of the children only.\<close>

lemma tree_find_names:
  assumes "\<And>x. x \<in> set_tree t \<Longrightarrow> node_name (nodes ns x) = node_name (nodes ns' x)"
  shows "tree_find (\<lambda>x. smcp_node_ncompare_cstr ns x k) t = tree_find (\<lambda>x. smcp_node_ncompare_cstr ns' x k) t"
  using assms by (intro tree_cmp_cong(1)) (metis ncompare_cong)

text \<open>A heap that holds the given trees, with names as before, is in order.\<close>

lemma router_invI:
  assumes "\<And>p. holds_tree (child_tree ns p) (T p)" "\<And>p. node_order.ordered ns (T p)"
    and "\<And>p x. x \<in> set_tree (T p) \<Longrightarrow> node_parent (nodes ns x) = Some p \<and> rank x < rank p"
  shows "router_inv ns T rank"
  using assms by (simp add: router_inv_def children_inv_def)

lemma link_inv:
  assumes "router_inv ns T rank" "n \<noteq> p" "T n = Leaf" "\<forall>q. n \<notin> set_tree (T q)"
    and "holds_tree h t" "same_outside (insert n (set_tree (T p))) Root (child_tree ns p) h"
    and "set_tree t = insert n (set_tree (T p))" "node_order.ordered ns t"
  shows "router_inv (set_node n (\<lambda>x. x\<lparr>node_parent := Some p\<rparr>) (set_child_tree p h ns)) (T(p := t))
    (\<lambda>x. if x = n then 0 else rank x + 1)" (is "router_inv ?ns _ _")
proof (rule router_invI)
  fix q
  have fields: "node_name (nodes ?ns x) = node_name (nodes ns x)" "node_links ?ns = h"
    "children (nodes ?ns p) = bt_root h" "x \<noteq> n \<Longrightarrow> node_parent (nodes ?ns x) = node_parent (nodes ns x)"
    "x \<noteq> p \<Longrightarrow> children (nodes ?ns x) = children (nodes ns x)" for x
    using assms(2) by (simp_all add: set_child_tree_def)
  show "holds_tree (child_tree ?ns q) ((T(p := t)) q)"
  proof (cases "q = p")
    case True
    have "child_tree ?ns p = h" using fields by (simp add: child_tree_def)
    then show ?thesis using True assms(5) by simp
  next
    case False
    then show ?thesis using other_trees [OF assms(1,6) False, of ?ns] assms(4) fields by auto
  qed
  show "node_order.ordered ?ns ((T(p := t)) q)"
    using assms(8) router_invD(2) [OF assms(1), of q] ordered_nodes_cong [of _ ?ns ns] fields(1) by (cases "q = p") auto
  fix x
  assume "x \<in> set_tree ((T(p := t)) q)"
  then consider "x = n" "q = p" | "x \<noteq> n" "x \<in> set_tree (T q)" using assms(4,7) by (auto split: if_splits)
  then show "node_parent (nodes ?ns x) = Some q \<and> (if x = n then 0 else rank x + 1) < (if q = n then 0 else rank q + 1)"
  proof cases
    case 2
    then have "q \<noteq> n" using assms(3) by auto
    then show ?thesis using router_invD(3,4) [OF assms(1) 2(2)] 2 fields(4) by simp
  qed (use assms(2) in simp)
qed

lemma node_init_fresh:
  assumes "router_inv ns T rank" "n \<noteq> p" "T n = Leaf" "\<forall>q. n \<notin> set_tree (T q)"
    and "name \<in> ascii_names" "smcp_node_find ns p name = Some None"
  shows "\<exists>ns' t rank'. smcp_node_init n True (Some p) (Some name) ns = Some ns' \<and> router_inv ns' (T(p := t)) rank' \<and>
    set_tree t = insert n (set_tree (T p)) \<and>
    (\<forall>q. \<forall>k \<in> ascii_names. smcp_node_find ns' q k =
       (if q = p \<and> k = name then Some (Some n) else smcp_node_find ns q k)) \<and>
    node_name (nodes ns' n) = Some name \<and> node_parent (nodes ns' n) = Some p \<and> finalized ns' = finalized ns \<and>
    finalize (nodes ns' n) = Some Smcp_node_dealloc \<and> (\<forall>x. x \<noteq> n \<longrightarrow> finalize (nodes ns' x) = finalize (nodes ns x))"
proof -
  let ?ns1 = "new_node n name ns"
  let ?cmp = "\<lambda>ns k x. smcp_node_ncompare_cstr ns x k"
  let ?t = "tree_insert (?cmp ?ns1 name) n (T p)"
  have inv: "router_inv ?ns1 T rank" using new_node_inv assms by blast
  note I = router_invD(1) [OF inv, of p] router_invD(2) [OF inv, of p]
  have key: "node_key ?ns1 n \<in> ascii_names" "node_key ?ns1 n = name" using assms(5) by simp_all
  have mem: "x \<noteq> n" if "x \<in> set_tree (T q)" for x q using that assms(4) by auto
  then have names: "tree_find (?cmp ?ns1 k) (T q) = tree_find (?cmp ns k) (T q)" for k q
    by (intro tree_find_names) simp
  have none: "tree_find (?cmp ?ns1 name) (T p) = None"
    using assms(6) node_find_tree [OF router_invD(1) [OF assms(1)], of p name] names by simp
  obtain d h where h: "bt_insert (\<lambda>x. smcp_node_compare ?ns1 x n) n (child_tree ?ns1 p) = Some (d, h, None)"
      "holds_tree h ?t" "same_outside (insert n (set_tree (T p))) Root (child_tree ?ns1 p) h"
    using holds_tree_insert [OF I(1), of n "\<lambda>x. smcp_node_compare ?ns1 x n"] assms(4) none
      compare_tree [OF I(2) key(1)] by auto
  let ?ns' = "set_node n (\<lambda>x. x\<lparr>node_parent := Some p\<rparr>) (set_child_tree p h ?ns1)"
  have set: "set_tree ?t = insert n (set_tree (T p))"
    using node_order.set_tree_insert [OF I(2) key(1)] node_order.tree_find_None [OF I(2) key(1)] none by (auto simp: image_iff)
  have inv': "router_inv ?ns' (T(p := ?t)) (\<lambda>x. if x = n then 0 else rank x + 1)"
    using link_inv [OF inv assms(2-4) h(2,3) set] node_order.ordered_insert [OF I(2) key(1)] by simp
  have "smcp_node_init n True (Some p) (Some name) ns = Some ?ns'"
    using h(1) by (simp add: node_init_new)
  moreover have "smcp_node_find ?ns' q k = (if q = p \<and> k = name then Some (Some n) else smcp_node_find ns q k)"
    if "k \<in> ascii_names" for q k
  proof -
    have "smcp_node_find ?ns' q k = Some (tree_find (?cmp ?ns1 k) ((T(p := ?t)) q))"
      using node_find_tree [OF router_invD(1) [OF inv'], of q k] tree_find_names [of _ ?ns1 ?ns' k]
      by (simp add: set_child_tree_def)
    then show ?thesis
      using node_find_tree [OF router_invD(1) [OF assms(1)], of q k] names [of k q]
        node_order.find_insert [OF I(2) key(1) that] key(2) by auto
  qed
  moreover have "node_name (nodes ?ns' n) = Some name" "node_parent (nodes ?ns' n) = Some p" "finalized ?ns' = finalized ns"
      "finalize (nodes ?ns' n) = Some Smcp_node_dealloc" "\<forall>x. x \<noteq> n \<longrightarrow> finalize (nodes ?ns' x) = finalize (nodes ns x)"
    using assms(2) by (simp_all add: set_child_tree_def new_node_def alloc_links)
  ultimately show ?thesis using inv' set by blast
qed

text \<open>A root with the child \<open>a\<close>, which has a handler of its own; the packet asks for \<open>/a/bc\<close>.\<close>

definition sample_router :: node_heap where
  "sample_router = \<lparr>nodes = (\<lambda>_. zero_node)(1 := zero_node\<lparr>children := Some 2\<rparr>,
       2 := zero_node\<lparr>node_name := Some [97], node_parent := Some 1, finalize := Some Smcp_node_dealloc,
         node_request_handler := Some (Node_fn 5)\<rparr>),
     node_links = \<lparr>bt_root = None, bt_lhs = \<lambda>_. None, bt_rhs = \<lambda>_. None, bt_parent = \<lambda>_. None\<rparr>, finalized = []\<rparr>"

abbreviation sample_trees :: "addr \<Rightarrow> addr tree" where
  "sample_trees \<equiv> (\<lambda>_. Leaf)(1 := Node Leaf 2 Leaf)"

lemma sample_router_inv: "router_inv sample_router sample_trees ((\<lambda>_. 0)(1 := 1))"
  by (rule router_invI)
    (auto simp: sample_router_def zero_node_def child_tree_def holds_tree_def node_key_def node_order.ordered_simps split: if_splits)

text \<open>
  C13: a node that is added can be found: when a new node is created under a parent, with an ASCII name
  that no sibling has, a lookup of the name in the parent finds the node, every other lookup of an
  ASCII name in any node gives what it gave before, no node is finalized, and the router is in order.
\<close>

theorem node_init_found:
  assumes "router_inv ns T rank" "n \<noteq> p" "T n = Leaf" "\<forall>q. n \<notin> set_tree (T q)"
    and "name \<in> ascii_names" "smcp_node_find ns p name = Some None"
  shows "\<exists>ns' t rank'. smcp_node_init n True (Some p) (Some name) ns = Some ns' \<and> router_inv ns' (T(p := t)) rank' \<and>
    set_tree t = insert n (set_tree (T p)) \<and>
    (\<forall>q. \<forall>k \<in> ascii_names. smcp_node_find ns' q k =
       (if q = p \<and> k = name then Some (Some n) else smcp_node_find ns q k)) \<and>
    node_name (nodes ns' n) = Some name \<and> node_parent (nodes ns' n) = Some p \<and> finalized ns' = finalized ns"
  using node_init_fresh [OF assms] by blast

lemma sample_find:
  assumes "k \<in> ascii_names"
  shows "smcp_node_find sample_router q k = Some (if q = 1 \<and> k = [97] then Some 2 else None)"
proof -
  have "node_key sample_router 2 = [97]" by (simp add: sample_router_def node_key_def)
  then show ?thesis
    using node_find_tree [OF router_invD(1) [OF sample_router_inv], of q k]
      node_order.tree_find_iff [OF router_invD(2) [OF sample_router_inv] assms, of q 2] by auto
qed

theorem node_init_found_witness:
  "\<exists>ns'. smcp_node_init 3 True (Some 2) (Some [98, 99]) sample_router = Some ns' \<and>
     smcp_node_find ns' 2 [98, 99] = Some (Some 3) \<and> smcp_node_find ns' 1 [97] = Some (Some 2)"
proof -
  have f: "smcp_node_find sample_router 2 [98, 99] = Some None" "smcp_node_find sample_router 1 [97] = Some (Some 2)"
    by (simp_all add: sample_find)
  have hyps: "(3 :: addr) \<noteq> 2" "sample_trees 3 = Leaf" "\<forall>q. 3 \<notin> set_tree (sample_trees q)"
    "[98, 99] \<in> ascii_names" "[97] \<in> ascii_names" by simp_all
  obtain ns' where "smcp_node_init 3 True (Some 2) (Some [98, 99]) sample_router = Some ns'"
      "\<forall>q. \<forall>k \<in> ascii_names. smcp_node_find ns' q k =
        (if q = 2 \<and> k = [98, 99] then Some (Some 3) else smcp_node_find sample_router q k)"
    using node_init_found [OF sample_router_inv hyps(1-4) f(1)] by blast
  then show ?thesis using f(2) hyps(4,5) by auto
qed

text \<open>The reference for a lookup: the child with a name is looked for among all children.\<close>

definition named_child :: "node_heap \<Rightarrow> (addr \<Rightarrow> addr tree) \<Rightarrow> addr \<Rightarrow> u8 list \<Rightarrow> addr option" where
  "named_child ns T n s = List.find (\<lambda>x. node_name (nodes ns x) = Some s) (inorder (T n))"

lemma find_named_child:
  assumes "router_inv ns T rank" "s \<in> ascii_names"
  shows "smcp_node_find ns n s = Some (named_child ns T n s)"
proof -
  note o = router_invD(2) [OF assms(1), of n]
  have key: "node_key ns x = s \<longleftrightarrow> node_name (nodes ns x) = Some s" for x
    using no_name_key [of ns x] assms(2) by (auto simp: node_key_def)
  have "tree_find (\<lambda>x. smcp_node_ncompare_cstr ns x s) (T n) = named_child ns T n s"
  proof (cases "named_child ns T n s")
    case None
    then show ?thesis
      using node_order.tree_find_None [OF o assms(2)] key by (auto simp: named_child_def find_None_iff find_None_iff2 image_iff)
  next
    case (Some x)
    then have "x \<in> set (inorder (T n))" "node_name (nodes ns x) = Some s" unfolding named_child_def find_Some_iff
      by (auto simp del: set_inorder length_inorder)
    then show ?thesis using Some node_order.tree_find_iff [OF o assms(2), of x] key by simp
  qed
  then show ?thesis using node_find_tree [OF router_invD(1) [OF assms(1)]] by simp
qed

section \<open>Deleting a node\<close>

text \<open>A node and what is below it.\<close>

inductive below :: "(addr \<Rightarrow> addr tree) \<Rightarrow> addr \<Rightarrow> addr \<Rightarrow> bool" for T n where
  here: "below T n n"
| child: "below T n y \<Longrightarrow> x \<in> set_tree (T y) \<Longrightarrow> below T n x"

lemma below_rank: "below T c x \<Longrightarrow> router_inv ns T rank \<Longrightarrow> rank x \<le> rank c"
  by (induction rule: below.induct) (auto dest: router_invD(4))

lemma below_Leaf:
  assumes "T n = Leaf"
  shows "{x. below T n x} = {n}"
proof -
  have "below T n x \<Longrightarrow> x = n" for x by (induction rule: below.induct) (auto simp: assms)
  then show ?thesis by (auto intro: below.here)
qed

text \<open>What is below a node, without what is below one of its children.\<close>

lemma below_split:
  assumes "c \<in> set_tree (T n)" "\<And>q. set_tree (T1 q) = set_tree (T q) - {x. below T c x}"
  shows "below T n x \<longleftrightarrow> below T c x \<or> below T1 n x"
proof
  show "below T n x \<Longrightarrow> below T c x \<or> below T1 n x"
  proof (induction rule: below.induct)
    case (child y x)
    then show ?case using assms(2) [of y] by (auto intro: below.intros)
  qed (simp add: below.here)
  have "below T c x \<Longrightarrow> below T n x" by (induction rule: below.induct) (auto intro: below.intros assms(1))
  moreover have "below T1 n x \<Longrightarrow> below T n x" by (induction rule: below.induct) (auto intro: below.intros simp: assms(2))
  ultimately show "below T c x \<or> below T1 n x \<Longrightarrow> below T n x" by blast
qed

text \<open>
  The outcome of a deletion: the nodes below are in no tree any more, each that has a parent is given
  to its finalizer once, and no field but \<open>children\<close> is written.
\<close>

definition same_nodes :: "node_heap \<Rightarrow> node_heap \<Rightarrow> bool" where
  "same_nodes ns ns' \<longleftrightarrow> (\<forall>x. (nodes ns' x)\<lparr>children := None\<rparr> = (nodes ns x)\<lparr>children := None\<rparr>)"

definition to_finalize :: "node_heap \<Rightarrow> addr set \<Rightarrow> (finalizer \<times> addr) set" where
  "to_finalize ns X = {(f, x). x \<in> X \<and> node_parent (nodes ns x) \<noteq> None \<and> finalize (nodes ns x) = Some f}"

definition deletes :: "addr \<Rightarrow> node_heap \<Rightarrow> (addr \<Rightarrow> addr tree) \<Rightarrow> (addr \<Rightarrow> nat) \<Rightarrow> node_heap \<Rightarrow> (addr \<Rightarrow> addr tree) \<Rightarrow> bool" where
  "deletes n ns T rank ns' T' \<longleftrightarrow>
     router_inv ns' T' rank \<and> (\<forall>q. set_tree (T' q) = set_tree (T q) - {x. below T n x}) \<and> same_nodes ns ns' \<and>
     (\<exists>fin. finalized ns' = fin @ finalized ns \<and> distinct fin \<and> set fin = to_finalize ns {x. below T n x})"

lemma same_nodes_fields:
  assumes "same_nodes ns ns'"
  shows "node_name (nodes ns' x) = node_name (nodes ns x)" "node_parent (nodes ns' x) = node_parent (nodes ns x)"
    "finalize (nodes ns' x) = finalize (nodes ns x)"
proof -
  have "(nodes ns' x)\<lparr>children := None\<rparr> = (nodes ns x)\<lparr>children := None\<rparr>" using assms by (simp add: same_nodes_def)
  then show "node_name (nodes ns' x) = node_name (nodes ns x)" "node_parent (nodes ns' x) = node_parent (nodes ns x)"
      "finalize (nodes ns' x) = finalize (nodes ns x)"
    by (cases "nodes ns x"; cases "nodes ns' x"; simp)+
qed

lemma same_nodes_trans: "same_nodes a b \<Longrightarrow> same_nodes b c \<Longrightarrow> same_nodes a c"
  by (simp add: same_nodes_def)

text \<open>Deleting a child and then the node deletes the node.\<close>

lemma deletes_trans:
  assumes "deletes c ns T rank ns1 T1" "deletes n ns1 T1 rank ns2 T2" "c \<in> set_tree (T n)" "router_inv ns T rank"
  shows "deletes n ns T rank ns2 T2"
proof -
  have T1: "set_tree (T1 q) = set_tree (T q) - {x. below T c x}" for q using assms(1) by (simp add: deletes_def)
  note split = below_split [OF assms(3) T1]
  have disj: "\<not> below T c x" if "below T1 n x" for x
    using that
  proof cases
    case here
    then show ?thesis using below_rank [OF _ assms(4), of c n] router_invD(4) [OF assms(4,3)] by auto
  qed (simp add: T1)
  obtain fin1 where f1: "finalized ns1 = fin1 @ finalized ns" "distinct fin1" "set fin1 = to_finalize ns {x. below T c x}"
    using assms(1) by (auto simp: deletes_def)
  obtain fin2 where f2: "finalized ns2 = fin2 @ finalized ns1" "distinct fin2" "set fin2 = to_finalize ns1 {x. below T1 n x}"
    using assms(2) by (auto simp: deletes_def)
  have same: "same_nodes ns ns1" "same_nodes ns1 ns2" using assms(1,2) by (simp_all add: deletes_def)
  have "set (fin2 @ fin1) = to_finalize ns {x. below T n x}"
    using f1(3) f2(3) split by (auto simp: to_finalize_def same_nodes_fields [OF same(1)])
  moreover have "distinct (fin2 @ fin1)" using f1(2,3) f2(2,3) disj by (auto simp: to_finalize_def)
  moreover have "finalized ns2 = (fin2 @ fin1) @ finalized ns" using f1 f2 by simp
  moreover have "set_tree (T2 q) = set_tree (T q) - {x. below T n x}" for q
    using assms(2) T1 split by (auto simp: deletes_def)
  ultimately show ?thesis using assms(2) same_nodes_trans [OF same] unfolding deletes_def by blast
qed

text \<open>A node is looked for by its name among the children of its parent, and what is found is removed and finalized.\<close>

lemma unlink_found:
  assumes "node_parent (nodes ns n) = Some p" "holds_tree (child_tree ns p) t" "node_order.ordered ns t"
    and "node_key ns n \<in> ascii_names" "x \<in> set_tree t" "node_key ns x = node_key ns n"
  shows "\<exists>h. unlink_node n ns = Some ((set_child_tree p h ns)\<lparr>finalized :=
        (case finalize (nodes ns n) of Some f \<Rightarrow> [(f, x)] | None \<Rightarrow> []) @ finalized ns\<rparr>) \<and>
      holds_tree h (tree_remove (\<lambda>y. smcp_node_ncompare_cstr ns y (node_key ns n)) t) \<and>
      same_outside (set_tree t) Root (child_tree ns p) h"
proof -
  have "tree_find (\<lambda>y. smcp_node_compare ns y n) t = Some x"
    using compare_tree(1) [OF assms(3,4)] node_order.tree_find_iff [OF assms(3,4)] assms(5,6) by simp
  from holds_tree_remove [OF assms(2) this] obtain h where
    h: "bt_remove (\<lambda>y. smcp_node_compare ns y n) (child_tree ns p) = Some (True, h, Some x)"
      "holds_tree h (tree_remove (\<lambda>y. smcp_node_compare ns y n) t)" "same_outside (set_tree t) Root (child_tree ns p) h" by blast
  have "unlink_node n ns = Some ((set_child_tree p h ns)\<lparr>finalized :=
      (case finalize (nodes ns n) of Some f \<Rightarrow> [(f, x)] | None \<Rightarrow> []) @ finalized ns\<rparr>)"
    using h(1) assms(1) by (auto simp: unlink_node_def set_child_tree_def split: option.splits)
  then show ?thesis using h(2,3) compare_tree(3) [OF assms(3,4)] by auto
qed

text \<open>A node without children is removed from the children of its parent.\<close>

lemma unlink_inv:
  assumes "router_inv ns T rank" "n \<in> set_tree (T p)" "same_nodes ns ns'" "child_tree ns' p = h"
    and "holds_tree h t" "same_outside (set_tree (T p)) Root (child_tree ns p) h"
    and "\<And>q. q \<noteq> p \<Longrightarrow> children (nodes ns' q) = children (nodes ns q)" "node_links ns' = h"
    and "node_order.ordered ns t" "set_tree t = set_tree (T p) - {n}"
  shows "router_inv ns' (T(p := t)) rank"
proof (rule router_invI)
  fix q
  have out: "same_outside (insert n (set_tree (T p))) Root (child_tree ns p) h" using assms(2,6) by (simp add: insert_absorb)
  have "holds_tree (child_tree ns' q) (T q)" if "q \<noteq> p"
    using that other_trees [OF assms(1) out that, of ns'] router_disjoint [OF assms(1,2), of q] assms(7,8) by blast
  then show "holds_tree (child_tree ns' q) ((T(p := t)) q)" using assms(4,5) by simp
  show "node_order.ordered ns' ((T(p := t)) q)"
    using assms(9) router_invD(2) [OF assms(1), of q] ordered_nodes_cong [of _ ns' ns] same_nodes_fields(1) [OF assms(3)] by auto
  show "node_parent (nodes ns' x) = Some q \<and> rank x < rank q" if "x \<in> set_tree ((T(p := t)) q)" for x
    using that assms(10) router_invD(3,4) [OF assms(1), of x q] same_nodes_fields(2) [OF assms(3)] by (auto split: if_splits)
qed

lemma unlink_deletes:
  assumes "router_inv ns T rank" "T n = Leaf" "\<And>p. node_parent (nodes ns n) = Some p \<Longrightarrow> n \<in> set_tree (T p)"
  shows "\<exists>ns' T'. unlink_node n ns = Some ns' \<and> deletes n ns T rank ns' T' \<and> T' n = Leaf"
proof (cases "node_parent (nodes ns n)")
  case None
  then have "n \<notin> set_tree (T q)" for q using router_invD(3) [OF assms(1)] by force
  then have "deletes n ns T rank ns T"
    using assms(1) None below_Leaf [of T n, OF assms(2)] by (simp add: deletes_def same_nodes_def to_finalize_def)
  then show ?thesis using None assms(2) by (auto simp: unlink_node_def)
next
  case (Some p)
  have n: "n \<in> set_tree (T p)" "n \<noteq> p" using assms(2) assms(3) [OF Some] by auto
  note I = router_invD(1,2) [OF assms(1), of p]
  have key: "node_key ns n \<in> ascii_names" using I(2) n(1) by (auto simp: node_order.ordered_def)
  let ?t = "tree_remove (\<lambda>y. smcp_node_ncompare_cstr ns y (node_key ns n)) (T p)"
  have t: "node_order.ordered ns ?t" "set_tree ?t = set_tree (T p) - {n}"
    using node_order.ordered_remove [OF I(2) key] node_order.set_tree_remove [OF I(2) key]
      node_order.keys_unique [OF I(2) _ n(1)] by auto
  obtain h ns' where h: "unlink_node n ns = Some ns'" "holds_tree h ?t" "same_outside (set_tree (T p)) Root (child_tree ns p) h"
      "ns' = (set_child_tree p h ns)\<lparr>finalized := (case finalize (nodes ns n) of Some f \<Rightarrow> [(f, n)] | None \<Rightarrow> []) @ finalized ns\<rparr>"
    using unlink_found [OF Some I key n(1) refl] by blast
  have ns': "same_nodes ns ns'" "child_tree ns' p = h" "node_links ns' = h" "\<And>q. q \<noteq> p \<Longrightarrow> children (nodes ns' q) = children (nodes ns q)"
    by (simp_all add: same_nodes_def h(4) set_child_tree_def child_tree_def)
  have "router_inv ns' (T(p := ?t)) rank" by (rule unlink_inv [OF assms(1) n(1) ns'(1,2) h(2,3) ns'(4,3) t])
  moreover have "n \<notin> set_tree (T q)" if "q \<noteq> p" for q using that router_disjoint [OF assms(1) n(1)] by blast
  ultimately have "deletes n ns T rank ns' (T(p := ?t))"
    using ns'(1) t(2) Some below_Leaf [of T n, OF assms(2)]
    by (auto simp: deletes_def to_finalize_def h(4) set_child_tree_def split: option.splits)
  then show ?thesis using h(1) assms(2) n(2) by auto
qed

lemma delete_deletes:
  assumes "router_inv ns T rank" "\<And>p. node_parent (nodes ns n) = Some p \<Longrightarrow> n \<in> set_tree (T p)"
  shows "\<exists>ns' T'. smcp_node_delete n ns = Some ns' \<and> deletes n ns T rank ns' T' \<and> T' n = Leaf"
  using assms
proof (induction "rank n" arbitrary: n ns T rule: less_induct)
  case less
  note outer = less(1)
  show ?case using less(2,3)
  proof (induction "card (set_tree (T n))" arbitrary: ns T rule: less_induct)
    case less
    note I = router_invD(1) [OF less(2), of n] router_invD(3,4) [OF less(2), of _ n]
    show ?case
    proof (cases "T n")
      case Leaf
      then have "children (nodes ns n) = None" using I(1) by (simp add: holds_tree_def)
      then show ?thesis using unlink_deletes [OF less(2) Leaf less(3)] by (simp add: smcp_node_delete.simps)
    next
      case (Node l c r)
      then have c: "children (nodes ns n) = Some c" "c \<in> set_tree (T n)"
        using I(1) is_tree_root by (auto simp: holds_tree_def)
      obtain ns1 T1 where 1: "smcp_node_delete c ns = Some ns1" "deletes c ns T rank ns1 T1"
        using outer [OF I(3) [OF c(2)] less(2)] I(2) [OF c(2)] c(2) by auto
      have sub: "set_tree (T1 q) = set_tree (T q) - {x. below T c x}" for q using 1(2) by (simp add: deletes_def)
      have "card (set_tree (T1 n)) < card (set_tree (T n))"
        using sub [of n] c(2) below.here [of T c] by (intro psubset_card_mono) auto
      moreover have "\<not> below T c n" using below_rank [OF _ less(2), of c n] I(3) [OF c(2)] by auto
      moreover have "router_inv ns1 T1 rank" "same_nodes ns ns1" using 1(2) by (simp_all add: deletes_def)
      ultimately obtain ns2 T2 where 2: "smcp_node_delete n ns1 = Some ns2" "deletes n ns1 T1 rank ns2 T2" "T2 n = Leaf"
        using less(1) [of T1 ns1] less(3) sub same_nodes_fields(2) by (metis (no_types, lifting) DiffI mem_Collect_eq)
      then show ?thesis
        using deletes_trans [OF 1(2) 2(2) c(2) less(2)] c(1) 1(1) by (auto simp: smcp_node_delete.simps [of n ns])
    qed
  qed
qed

section \<open>Lookups after a deletion\<close>

lemma find_total:
  assumes "router_inv ns T rank" "k \<in> ascii_names"
  shows "\<exists>r. smcp_node_find ns q k = Some r \<and> (\<forall>x. r = Some x \<longleftrightarrow> x \<in> set_tree (T q) \<and> node_name (nodes ns x) = Some k)"
proof -
  have "node_key ns x = k \<longleftrightarrow> node_name (nodes ns x) = Some k" for x
    using no_name_key [of ns x] assms(2) by (auto simp: node_key_def)
  then show ?thesis
    using node_find_tree [OF router_invD(1) [OF assms(1), of q], of k]
      node_order.tree_find_iff [OF router_invD(2) [OF assms(1), of q] assms(2)] by simp
qed

lemma names_unique:
  assumes "router_inv ns T rank" "x \<in> set_tree (T q)" "y \<in> set_tree (T q)" "node_name (nodes ns x) = node_name (nodes ns y)"
  shows "x = y"
  using assms node_order.keys_unique [OF router_invD(2) [OF assms(1), of q] assms(2,3)] by (simp add: node_key_def)

lemma option_eqI: "(\<And>x. a = Some x \<longleftrightarrow> b = Some x) \<Longrightarrow> a = b"
  by (cases a; cases b) auto

lemma below_child:
  assumes "router_inv ns T rank" "n \<in> set_tree (T p)" "x \<in> set_tree (T q)"
  shows "below T n x \<longleftrightarrow> x = n \<or> below T n q"
proof
  assume "below T n x"
  then show "x = n \<or> below T n q" using router_disjoint [OF assms(1,3)] by cases auto
qed (use assms(3) in \<open>auto intro: below.intros\<close>)

text \<open>
  C14: a node that is deleted is gone, with all that is below it: the deletion ends, a lookup of its
  name in its parent finds nothing, lookups in other nodes of the router give what they gave before,
  every node of the subtree is given to its finalizer, once and no other node, and the router is in
  order.
\<close>

theorem node_delete_subtree:
  assumes "router_inv ns T rank" "n \<in> set_tree (T p)"
  shows "\<exists>ns' T' fin. smcp_node_delete n ns = Some ns' \<and> router_inv ns' T' rank \<and>
    (\<forall>q. \<forall>k \<in> ascii_names. smcp_node_find ns' q k =
      (if below T n q \<or> q = p \<and> node_name (nodes ns n) = Some k then Some None else smcp_node_find ns q k)) \<and>
    finalized ns' = fin @ finalized ns \<and> distinct fin \<and>
    set fin = {(f, x). below T n x \<and> finalize (nodes ns x) = Some f}"
proof -
  obtain ns' T' where d: "smcp_node_delete n ns = Some ns'" "deletes n ns T rank ns' T'"
    using delete_deletes [OF assms(1), of n] assms router_invD(3) [OF assms] by auto
  then have inv: "router_inv ns' T' rank" and T': "\<And>q. set_tree (T' q) = set_tree (T q) - {x. below T n x}"
      and same: "same_nodes ns ns'" by (simp_all add: deletes_def)
  have "smcp_node_find ns' q k = (if below T n q \<or> q = p \<and> node_name (nodes ns n) = Some k then Some None else smcp_node_find ns q k)"
    if k: "k \<in> ascii_names" for q k
  proof -
    obtain r r' where r: "smcp_node_find ns q k = Some r" "\<And>x. r = Some x \<longleftrightarrow> x \<in> set_tree (T q) \<and> node_name (nodes ns x) = Some k"
        "smcp_node_find ns' q k = Some r'" "\<And>x. r' = Some x \<longleftrightarrow> x \<in> set_tree (T q) \<and> \<not> below T n x \<and> node_name (nodes ns x) = Some k"
      using find_total [OF assms(1) k, of q] find_total [OF inv k, of q] T' same_nodes_fields(1) [OF same] by auto
    have "r' = (if below T n q \<or> q = p \<and> node_name (nodes ns n) = Some k then None else r)"
      using below_child [OF assms, of _ q] names_unique [OF assms(1) _ assms(2)] router_disjoint [OF assms(1,2), of q] r(2,4)
      by (intro option_eqI) (auto split: if_splits)
    then show ?thesis using r by simp
  qed
  moreover have "node_parent (nodes ns x) \<noteq> None" if "below T n x" for x
    using that router_invD(3) [OF assms(1)] assms(2) by cases auto
  ultimately show ?thesis using d inv unfolding deletes_def to_finalize_def by force
qed

theorem node_delete_subtree_witness:
  "\<exists>ns'. smcp_node_delete 2 sample_router = Some ns' \<and> smcp_node_find ns' 1 [97] = Some None \<and>
     set (finalized ns') = {(Smcp_node_dealloc, 2)}"
proof -
  have "{x. below sample_trees 2 x} = {2}" by (rule below_Leaf) simp
  then have "below sample_trees 2 x \<longleftrightarrow> x = 2" for x by blast
  then show ?thesis
    using node_delete_subtree [OF sample_router_inv, of 2 1] by (force simp: sample_router_def zero_node_def)
qed

text \<open>
  C36: a node that is created under the name of a sibling is lost: the sibling is replaced in the tree
  of children, and its deletion looks for its name in the tree and finds the new node. The new node
  is unlinked and given to the finalizer of the sibling, and neither of the two can be found.
\<close>

theorem duplicate_name_lost:
  assumes "router_inv ns T rank" "n \<noteq> p" "T n = Leaf" "\<forall>q. n \<notin> set_tree (T q)" "name \<in> ascii_names"
    and "old \<in> set_tree (T p)" "node_name (nodes ns old) = Some name" "T old = Leaf" "finalize (nodes ns old) = Some f"
  shows "\<exists>ns'. smcp_node_init n True (Some p) (Some name) ns = Some ns' \<and>
    smcp_node_find ns' p name = Some None \<and> finalized ns' = (f, n) # finalized ns"
proof -
  let ?ns1 = "new_node n name ns"
  let ?t = "tree_insert (\<lambda>x. smcp_node_ncompare_cstr ?ns1 x name) n (T p)"
  have inv: "router_inv ?ns1 T rank" using new_node_inv assms by blast
  note I = router_invD(1) [OF inv, of p] router_invD(2) [OF inv, of p]
  have key: "node_key ?ns1 n \<in> ascii_names" "node_key ?ns1 n = name" using assms(5) by simp_all
  have neq: "old \<noteq> n" "old \<noteq> p" using assms(4,6,8) by auto
  have old: "node_key ?ns1 old = name" using assms(7) neq by (simp add: node_key_def)
  have "tree_find (\<lambda>x. smcp_node_ncompare_cstr ?ns1 x name) (T p) = Some old"
    using node_order.tree_find_iff [OF I(2) key(1)] old assms(6) by simp
  then obtain d h where h: "bt_insert (\<lambda>x. smcp_node_compare ?ns1 x n) n (child_tree ?ns1 p) = Some (d, h, Some old)" "holds_tree h ?t"
    using holds_tree_insert [OF I(1), of n "\<lambda>x. smcp_node_compare ?ns1 x n"] assms(4) compare_tree [OF I(2) key(1)] by auto
  have ord: "node_order.ordered ?ns1 ?t" using node_order.ordered_insert [OF I(2) key(1)] by simp
  define ns2 where "ns2 = set_child_tree p h ?ns1"
  have f2: "node_name (nodes ns2 x) = node_name (nodes ?ns1 x)" "node_key ns2 x = node_key ?ns1 x" "child_tree ns2 p = h"
      "finalized ns2 = finalized ns" for x
    by (simp_all add: ns2_def node_key_def set_child_tree_def child_tree_def)
  have old2: "children (nodes ns2 old) = None" "node_parent (nodes ns2 old) = Some p" "finalize (nodes ns2 old) = Some f"
    using router_invD(1) [OF assms(1), of old] router_invD(3) [OF assms(1,6)] assms(8,9) neq
    by (simp_all add: ns2_def set_child_tree_def holds_tree_def)
  have ord: "node_order.ordered ns2 ?t"
    using node_order.ordered_insert [OF I(2) key(1)] ordered_nodes_cong [of ?t ns2 ?ns1] f2(1) by simp
  have k2: "node_key ns2 old \<in> ascii_names" "n \<in> set_tree ?t" "node_key ns2 n = node_key ns2 old"
    using assms(5) old f2(2) node_order.set_tree_insert [OF I(2) key(1)] by auto
  obtain h' where h': "unlink_node old ns2 = Some ((set_child_tree p h' ns2)\<lparr>finalized := (f, n) # finalized ns\<rparr>)"
      "holds_tree h' (tree_remove (\<lambda>y. smcp_node_ncompare_cstr ns2 y name) ?t)"
    using unlink_found [OF old2(2) _ ord k2, unfolded f2] h(2) old old2(3) by auto
  let ?ns' = "set_node n (\<lambda>x. x\<lparr>node_parent := Some p\<rparr>) ((set_child_tree p h' ns2)\<lparr>finalized := (f, n) # finalized ns\<rparr>)"
  have "child_tree ?ns' p = h'" using assms(2) by (simp add: set_child_tree_def child_tree_def)
  then have "smcp_node_find ?ns' p name = Some (tree_find (\<lambda>y. smcp_node_ncompare_cstr ?ns' y name)
      (tree_remove (\<lambda>y. smcp_node_ncompare_cstr ns2 y name) ?t))"
    using node_find_tree h'(2) by simp
  also have "\<dots> = Some None"
    using node_order.find_remove [OF ord assms(5,5)] tree_find_names [of _ ?ns' ns2 name] by (simp add: set_child_tree_def)
  finally show ?thesis
    using h(1) h'(1) old2(1) by (auto simp: node_init_new ns2_def [symmetric] smcp_node_delete.simps [of old])
qed

theorem duplicate_name_lost_witness:
  "\<exists>ns'. smcp_node_init 3 True (Some 1) (Some [97]) sample_router = Some ns' \<and>
     smcp_node_find ns' 1 [97] = Some None \<and> finalized ns' = [(Smcp_node_dealloc, 3)]"
  using duplicate_name_lost [OF sample_router_inv, of 3 1 "[97]" 2 Smcp_node_dealloc]
  by (simp add: sample_router_def zero_node_def)

section \<open>The states of a router\<close>

text \<open>
  A router that is used as intended: it starts as a root without children; nodes are allocated at
  addresses that are not in use, under names that are not taken; and any node but the root may be
  deleted. \<open>L\<close> is the set of nodes in use: those that were allocated and not given to the finalizer,
  which frees them, since.
\<close>

inductive router_reach :: "addr \<Rightarrow> addr set \<Rightarrow> node_heap \<Rightarrow> bool" for r where
  root: "\<forall>q. children (nodes ns q) = None \<Longrightarrow> router_reach r {r} ns"
| create: "router_reach r L ns \<Longrightarrow> p \<in> L \<Longrightarrow> n \<notin> L \<Longrightarrow> name \<in> ascii_names \<Longrightarrow> smcp_node_find ns p name = Some None \<Longrightarrow>
    smcp_node_init n True (Some p) (Some name) ns = Some ns' \<Longrightarrow> router_reach r (insert n L) ns'"
| delete: "router_reach r L ns \<Longrightarrow> n \<in> L \<Longrightarrow> n \<noteq> r \<Longrightarrow> smcp_node_delete n (ns\<lparr>finalized := []\<rparr>) = Some ns' \<Longrightarrow>
    router_reach r (L - snd ` set (finalized ns')) ns'"

definition live_inv :: "addr \<Rightarrow> addr set \<Rightarrow> node_heap \<Rightarrow> (addr \<Rightarrow> addr tree) \<Rightarrow> (addr \<Rightarrow> nat) \<Rightarrow> bool" where
  "live_inv r L ns T rank \<longleftrightarrow> router_inv ns T rank \<and> r \<in> L \<and> (\<forall>q. q \<notin> L \<longrightarrow> T q = Leaf) \<and>
     (\<Union>q. set_tree (T q)) = L - {r} \<and> (\<forall>x \<in> L - {r}. finalize (nodes ns x) = Some Smcp_node_dealloc)"

lemma live_inv_log: "live_inv r L ns T rank \<Longrightarrow> live_inv r L (ns\<lparr>finalized := fs\<rparr>) T rank"
  using ordered_nodes_cong [of _ "ns\<lparr>finalized := fs\<rparr>" ns]
  by (simp add: live_inv_def router_inv_def children_inv_def child_tree_def)

lemma live_create:
  assumes "live_inv r L ns T rank" "p \<in> L" "n \<notin> L" "name \<in> ascii_names" "smcp_node_find ns p name = Some None"
  shows "\<exists>ns' T' rank'. smcp_node_init n True (Some p) (Some name) ns = Some ns' \<and> live_inv r (insert n L) ns' T' rank'"
proof -
  have l: "router_inv ns T rank" "n \<noteq> p" "T n = Leaf" "(\<Union>q. set_tree (T q)) = L - {r}"
      "\<forall>x \<in> L - {r}. finalize (nodes ns x) = Some Smcp_node_dealloc"
    using assms(1-3) by (auto simp: live_inv_def)
  then have "\<forall>q. n \<notin> set_tree (T q)" using assms(3) by auto
  from node_init_fresh [OF l(1-3) this assms(4,5)] obtain ns' t rank' where
    "smcp_node_init n True (Some p) (Some name) ns = Some ns'" "router_inv ns' (T(p := t)) rank'"
    "set_tree t = insert n (set_tree (T p))" "finalize (nodes ns' n) = Some Smcp_node_dealloc"
    "\<forall>x. x \<noteq> n \<longrightarrow> finalize (nodes ns' x) = finalize (nodes ns x)" by blast
  moreover from this(3) have "(\<Union>q. set_tree ((T(p := t)) q)) = insert n (\<Union>q. set_tree (T q))" by (auto split: if_splits)
  moreover from calculation(4,5) have "\<forall>x \<in> insert n L - {r}. finalize (nodes ns' x) = Some Smcp_node_dealloc"
    using l(5) by (metis Diff_iff insertE)
  ultimately show ?thesis using l assms(1-3) by (intro exI [of _ ns'] exI [of _ "T(p := t)"] exI [of _ rank']) (auto simp: live_inv_def)
qed

lemma live_delete:
  assumes "live_inv r L ns T rank" "n \<in> L" "n \<noteq> r"
  shows "\<exists>ns' T'. smcp_node_delete n (ns\<lparr>finalized := []\<rparr>) = Some ns' \<and>
    live_inv r (L - snd ` set (finalized ns')) ns' T' rank"
proof -
  let ?ns = "ns\<lparr>finalized := []\<rparr>"
  have l: "router_inv ?ns T rank" "r \<in> L" "\<And>q. q \<notin> L \<Longrightarrow> T q = Leaf" "(\<Union>q. set_tree (T q)) = L - {r}"
      "\<And>x. x \<in> L \<Longrightarrow> x \<noteq> r \<Longrightarrow> finalize (nodes ns x) = Some Smcp_node_dealloc"
    using live_inv_log [OF assms(1), of "[]"] by (auto simp: live_inv_def)
  obtain p where p: "n \<in> set_tree (T p)" using l(4) assms(2,3) by blast
  obtain ns' T' where d: "smcp_node_delete n ?ns = Some ns'" "deletes n ?ns T rank ns' T'"
    using delete_deletes [OF l(1), of n] router_invD(3) [OF l(1) p] p by auto
  have b: "x \<in> L \<and> x \<noteq> r \<and> node_parent (nodes ns x) \<noteq> None" if "below T n x" for x
    using that l(4) p router_invD(3) [OF l(1)] by cases auto
  have "set (finalized ns') = to_finalize ?ns {x. below T n x}" using d(2) by (auto simp: deletes_def)
  also have "\<dots> = Pair Smcp_node_dealloc ` {x. below T n x}" using b l(5) by (auto simp: to_finalize_def)
  finally have "snd ` set (finalized ns') = {x. below T n x}" by (simp add: image_image)
  moreover have "T' q = Leaf" if "q \<notin> L \<or> below T n q" for q
    using that l(3) [of q] d(2) below.child [of T n q] by (auto simp: deletes_def simp flip: eq_set_tree_empty)
  moreover have "(\<Union>q. set_tree (T' q)) = L - {r} - {x. below T n x}" using d(2) l(4) by (auto simp: deletes_def)
  moreover have "\<not> below T n r" using b by blast
  ultimately show ?thesis
    using d l(2,5) same_nodes_fields(3) [of ?ns ns']
    by (intro exI [of _ ns'] exI [of _ T']) (auto simp: live_inv_def deletes_def)
qed

lemma reach_live: "router_reach r L ns \<Longrightarrow> \<exists>T rank. live_inv r L ns T rank"
proof (induction rule: router_reach.induct)
  case (root ns)
  then have "live_inv r {r} ns (\<lambda>_. Leaf) (\<lambda>_. 0)"
    by (simp add: live_inv_def router_inv_def children_inv_def holds_tree_def node_order.ordered_simps)
  then show ?case by blast
next
  case (create L ns p n name ns')
  then show ?case using live_create by (metis option.inject)
next
  case (delete L ns n ns')
  then show ?case using live_delete by (metis option.inject)
qed

lemma live_found:
  assumes "live_inv r L ns T rank" "n \<in> L - {r}"
  shows "\<exists>p \<in> L. \<exists>k \<in> ascii_names. node_parent (nodes ns n) = Some p \<and> smcp_node_find ns p k = Some (Some n)"
proof -
  have r: "router_inv ns T rank" "(\<Union>q. set_tree (T q)) = L - {r}" "\<And>q. q \<notin> L \<Longrightarrow> T q = Leaf"
    using assms(1) by (simp_all add: live_inv_def)
  then obtain p where p: "n \<in> set_tree (T p)" using assms(2) by blast
  then have key: "node_key ns n \<in> ascii_names" using router_invD(2) [OF r(1), of p] by (auto simp: node_order.ordered_def)
  then have "smcp_node_find ns p (node_key ns n) = Some (Some n)"
    using find_total [OF r(1) key, of p] no_name_key [OF key] p by metis
  moreover have "p \<in> L" using r(3) [of p] p by (cases "p \<in> L") simp_all
  ultimately show ?thesis using router_invD(3) [OF r(1) p] key by blast
qed

lemma live_lookup:
  assumes "live_inv r L ns T rank" "k \<in> ascii_names"
  shows "\<exists>res. smcp_node_find ns q k = Some res \<and> set_option res \<subseteq> L - {r}"
proof -
  have r: "router_inv ns T rank" "(\<Union>q. set_tree (T q)) = L - {r}" using assms(1) by (simp_all add: live_inv_def)
  then have "set_tree (T q) \<subseteq> L - {r}" by blast
  moreover have "\<exists>res. smcp_node_find ns q k = Some res \<and> set_option res \<subseteq> set_tree (T q)"
    using find_total [OF r(1) assms(2), of q] by (metis elem_set subsetI)
  ultimately show ?thesis by blast
qed

text \<open>
  C8: no node that was freed is ever reached again: in every state of a router that is used as
  intended, a lookup of an ASCII name in any node ends and finds only nodes in use, every node in use
  is found under its parent, and every deletion and every creation that is allowed ends.
\<close>

theorem router_memory_safe:
  assumes "router_reach r L ns"
  shows "(\<forall>q. \<forall>k \<in> ascii_names. \<exists>res. smcp_node_find ns q k = Some res \<and> set_option res \<subseteq> L - {r}) \<and>
    (\<forall>n \<in> L - {r}. \<exists>p \<in> L. \<exists>k \<in> ascii_names. node_parent (nodes ns n) = Some p \<and> smcp_node_find ns p k = Some (Some n)) \<and>
    (\<forall>n \<in> L - {r}. \<exists>ns'. smcp_node_delete n (ns\<lparr>finalized := []\<rparr>) = Some ns') \<and>
    (\<forall>p \<in> L. \<forall>n. \<forall>name \<in> ascii_names. n \<notin> L \<and> smcp_node_find ns p name = Some None \<longrightarrow>
      (\<exists>ns'. smcp_node_init n True (Some p) (Some name) ns = Some ns'))"
proof -
  obtain T rank where l: "live_inv r L ns T rank" using reach_live [OF assms] by blast
  show ?thesis using live_lookup [OF l] live_found [OF l] live_delete [OF l] live_create [OF l] by blast
qed

text \<open>A root and one node below it.\<close>

theorem router_memory_safe_witness:
  "\<exists>ns'. router_reach 1 {1, 2} ns' \<and> (\<exists>p \<in> {1, 2}. \<exists>k \<in> ascii_names. smcp_node_find ns' p k = Some (Some 2))"
proof -
  let ?ns = "sample_router\<lparr>nodes := \<lambda>_. zero_node\<rparr>"
  have root: "router_reach 1 {1} ?ns" by (rule router_reach.root) (simp add: zero_node_def)
  have none: "smcp_node_find ?ns 1 [97] = Some None"
    by (simp add: smcp_node_find_def bt_find_def bt_find_loop.simps child_tree_def zero_node_def)
  obtain T rank where l: "live_inv 1 {1} ?ns T rank" using reach_live [OF root] by blast
  obtain ns' where ns': "smcp_node_init 2 True (Some 1) (Some [97]) ?ns = Some ns'"
    using live_create [OF l _ _ _ none, of 2] by auto
  have r: "router_reach 1 (insert 2 {1}) ns'" by (rule router_reach.create [OF root _ _ _ none ns']) simp_all
  have "\<exists>p \<in> {1, 2}. \<exists>k \<in> ascii_names. smcp_node_find ns' p k = Some (Some 2)"
    using router_memory_safe [OF r] by (auto simp: insert_commute)
  then show ?thesis using r by (auto simp: insert_commute)
qed

end
