(* ===== verification/Node_Path.thy ===== *)
theory Node_Path
  imports Node_Tree
begin

text \<open>
  Paths of nodes (\<^verbatim>\<open>smcp_node_get_path\<close>, \<^verbatim>\<open>smcp_node_find_with_path\<close> and
  \<^verbatim>\<open>smcp_node_find_closest_with_path\<close> in \<^verbatim>\<open>src/smcp/smcp-node-router.c\<close>): the path that is written for a
  node leads back to the node.
\<close>

section \<open>Names in paths\<close>

lemma hex_digit_path: "\<not> path_end (int_to_hex_digit n)"
proof -
  have "list_all (\<lambda>c. \<not> path_end c) ''0123456789ABCDEF''" by (simp add: path_end_def)
  then show ?thesis by (simp add: int_to_hex_digit_def list_all_length)
qed

lemma url_encode_Cons [simp]: "url_encode [] = []" "url_encode (c # s) = encode_char c @ url_encode s"
  by (simp_all add: url_encode_def)

lemma url_path_end: "isurlchar c \<Longrightarrow> path_end c \<Longrightarrow> c = CHR ''!''"
  by (auto simp: path_end_def isurlchar_def isalnum_def isalpha_def isupper_def islower_def isdigit_def char_code_def)

lemma url_encode_path_end: "x \<in> set (url_encode s) \<Longrightarrow> path_end x \<Longrightarrow> x = CHR ''!'' \<and> x \<in> set s"
proof (induction s)
  case (Cons c s)
  have "\<not> path_end (CHR ''%'')" by (simp add: path_end_def)
  then have "x = c \<and> isurlchar c" if "x \<in> set (encode_char c)"
    using that Cons.prems(2) hex_digit_path [of "char_code c div 16"] hex_digit_path [of "char_code c mod 16"]
    by (cases "isurlchar c") (auto simp: encode_char_def)
  then show ?case using Cons url_path_end [of c] by auto
qed simp

text \<open>A segment of a path has at least one character, and none that ends it or that is read as a blank.\<close>

definition path_name :: "u8 list \<Rightarrow> bool" where
  "path_name s \<longleftrightarrow> s \<in> ascii_names \<and> s \<noteq> [] \<and> 33 \<notin> set s \<and> 43 \<notin> set s"

lemma decode_str_step:
  assumes "mem_holds mem src (encode_char c)" "c \<noteq> NUL" "c \<noteq> CHR ''+''" "0 < max_size" "dest < length mem"
  shows "url_decode_str_loop mem dest max_size src (length (url_encode (c # s))) ret =
    url_decode_str_loop (mem[dest := c]) (dest + 1) (max_size - 1) (src + length (encode_char c)) (length (url_encode s)) (ret + 1)"
proof (cases "isurlchar c")
  case True
  then have "c \<noteq> CHR ''%''" by (auto simp: isurlchar_def isalnum_def isalpha_def isupper_def islower_def isdigit_def char_code_def)
  then show ?thesis
    using assms True by (subst url_decode_str_loop.simps) (simp add: encode_char_def mem_write_def)
next
  case False
  let ?a = "int_to_hex_digit (char_code c div 16)"
  let ?b = "int_to_hex_digit (char_code c mod 16)"
  have rd: "mem_read mem src = Some (CHR ''%'')" "mem_read mem (src + 1) = Some ?a" "mem_read mem (src + 2) = Some ?b"
    using assms(1) False by (simp_all add: encode_char_def)
  have n: "?a \<noteq> NUL" "?b \<noteq> NUL" "length (url_encode (c # s)) = 3 + length (url_encode s)" "length (encode_char c) = 3"
    using hex_digit_neq(1) False by (simp_all add: length_encode_char)
  have "char_code c div 16 < 16" using code_less [of c] by simp
  then have "char_of (16 * hex_digit_to_int ?a + hex_digit_to_int ?b) = c"
    by (simp add: hex_digit_inverse) (simp add: char_code_def)
  then show ?thesis
    using assms(4,5) rd n by (subst url_decode_str_loop.simps) (simp add: mem_write_def)
qed

lemma url_decode_str_loop_encoded:
  assumes "mem_holds mem src (url_encode s)" "NUL \<notin> set s" "CHR ''+'' \<notin> set s" "length s \<le> max_size"
    and "dest + length s < src" "src + length (url_encode s) \<le> length mem"
  shows "url_decode_str_loop mem dest max_size src (length (url_encode s)) ret =
    Some (take dest mem @ s @ NUL # drop (dest + length s + 1) mem, ret + length s)"
  using assms
proof (induction s arbitrary: mem dest max_size src ret)
  case Nil
  then show ?case by (simp add: url_decode_str_loop.simps mem_write_def upd_conv_take_nth_drop)
next
  case (Cons c s)
  have c: "c \<noteq> NUL" "c \<noteq> CHR ''+''" "0 < max_size" "NUL \<notin> set s" "CHR ''+'' \<notin> set s" using Cons.prems by auto
  let ?m = "mem[dest := c]"
  let ?k = "length (encode_char c)"
  have h: "mem_holds mem src (encode_char c)" "mem_holds mem (src + ?k) (url_encode s)"
    using Cons.prems(1) by (simp_all add: mem_holds_append)
  then have h': "mem_holds ?m (src + ?k) (url_encode s)"
    using Cons.prems(5) by (subst mem_holds_write) auto
  have "url_decode_str_loop mem dest max_size src (length (url_encode (c # s))) ret =
      url_decode_str_loop ?m (dest + 1) (max_size - 1) (src + ?k) (length (url_encode s)) (ret + 1)"
    by (rule decode_str_step [OF h(1) c(1-3)]) (use Cons.prems(5,6) in simp)
  also have "\<dots> = Some (take (dest + 1) ?m @ s @ NUL # drop (dest + 1 + length s + 1) ?m, ret + 1 + length s)"
    using Cons.prems c h' by (intro Cons.IH) (auto simp: length_encode_char)
  also have "\<dots> = Some (take dest mem @ (c # s) @ NUL # drop (dest + length (c # s) + 1) mem, ret + length (c # s))"
    using Cons.prems by (simp add: take_Suc_conv_app_nth)
  finally show ?case .
qed

lemma byte_chars_name:
  assumes "path_name s"
  shows "NUL \<notin> set (byte_chars s)" "CHR ''+'' \<notin> set (byte_chars s)" "CHR ''!'' \<notin> set (byte_chars s)" "byte_chars s \<noteq> []"
    "map (\<lambda>c. word_of_nat (char_code c)) (byte_chars s) = s"
proof -
  have char: "char_code (char_of (unat (b :: u8))) = unat b" for b
    using unsigned_less [where 'a = nat and w = b] by (simp add: char_code_def)
  have "inj (\<lambda>b :: u8. char_of (unat b) :: char)" by (rule injI) (metis char word_unat_eq_iff)
  then have mem: "char_of (unat b) \<in> set (byte_chars s) \<longleftrightarrow> b \<in> set s" for b :: u8
    using inj_image_mem_iff [of "\<lambda>b :: u8. char_of (unat b) :: char" b "set s"] by (simp add: byte_chars_def)
  have "0 \<notin> set s" "33 \<notin> set s" "43 \<notin> set s" "s \<noteq> []" using assms by (auto simp: path_name_def ascii_names_def)
  then show "NUL \<notin> set (byte_chars s)" "CHR ''+'' \<notin> set (byte_chars s)" "CHR ''!'' \<notin> set (byte_chars s)" "byte_chars s \<noteq> []"
    using mem [of 0] mem [of 43] mem [of 33] by (simp_all add: byte_chars_def char_of_def bit_0)
  show "map (\<lambda>c. word_of_nat (char_code c)) (byte_chars s) = s" by (simp add: byte_chars_def char map_idI)
qed

lemma unescape_name_encoded:
  assumes "path_name s"
  shows "unescape_name (url_encode (byte_chars s)) = Some s"
proof -
  let ?e = "url_encode (byte_chars s)"
  let ?m = "replicate (length ?e + 1) NUL @ ?e @ [NUL]"
  have "length (byte_chars s) \<le> length ?e" by (induction s) (auto simp: byte_chars_def length_encode_char)
  then have "url_decode_str ?m 0 (length ?e + 1) (length ?e + 1) (length ?e) =
      Some (take 0 ?m @ byte_chars s @ NUL # drop (0 + length (byte_chars s) + 1) ?m, 0 + length (byte_chars s))"
    unfolding url_decode_str_def using byte_chars_name [OF assms] mem_holds_self [of "replicate (length ?e + 1) NUL" ?e "[NUL]"]
    by (simp del: replicate_Suc) (subst url_decode_str_loop_encoded; simp)
  then show ?thesis using byte_chars_name(5) [OF assms] by (simp add: unescape_name_def mem_read_n_def)
qed

section \<open>Following a path\<close>

definition path_string :: "u8 list list \<Rightarrow> string" where
  "path_string names = concat (map (\<lambda>s. CHR ''/'' # url_encode (byte_chars s)) names)"

text \<open>The reference: a path is followed for as long as there is a child with the name.\<close>

fun walk :: "(addr \<Rightarrow> u8 list \<Rightarrow> addr option) \<Rightarrow> addr \<Rightarrow> u8 list list \<Rightarrow> addr \<times> u8 list list" where
  "walk child n [] = (n, [])"
| "walk child n (s # ss) = (case child n s of None \<Rightarrow> (n, s # ss) | Some m \<Rightarrow> walk child m ss)"

lemma path_string_simps [simp]:
  "path_string [] = []" "path_string (s # names) = CHR ''/'' # url_encode (byte_chars s) @ path_string names"
  "path_string (names @ names') = path_string names @ path_string names'"
  by (simp_all add: path_string_def)

text \<open>The string without the slashes it starts with.\<close>

definition unslashed :: "string \<Rightarrow> string" where
  "unslashed p = dropWhile (\<lambda>c. c = CHR ''/'') p"

lemma encoded_segment:
  assumes "path_name s"
  shows "url_encode (byte_chars s) \<noteq> []" "\<forall>c \<in> set (url_encode (byte_chars s)). \<not> path_end c"
    "unslashed (url_encode (byte_chars s) @ q) = url_encode (byte_chars s) @ q"
proof -
  show ne: "url_encode (byte_chars s) \<noteq> []"
    using byte_chars_name(4) [OF assms] by (cases "byte_chars s") (auto simp: encode_char_def)
  show all: "\<forall>c \<in> set (url_encode (byte_chars s)). \<not> path_end c"
    using url_encode_path_end [of _ "byte_chars s"] byte_chars_name(3) [OF assms] by blast
  then show "unslashed (url_encode (byte_chars s) @ q) = url_encode (byte_chars s) @ q"
    using ne by (cases "url_encode (byte_chars s)") (auto simp: unslashed_def path_end_def)
qed

lemma unslashed_path: "path_name s \<Longrightarrow> unslashed (path_string (s # names)) = url_encode (byte_chars s) @ path_string names"
  using encoded_segment(3) [of s] by (simp add: unslashed_def)

lemma unslashed_again [simp]: "unslashed (unslashed p) = unslashed p"
  by (simp add: unslashed_def)

text \<open>One step along a path.\<close>

lemma find_next_step:
  assumes "path_name s" "unslashed path = unslashed (path_string (s # names))" "smcp_node_find ns node s = Some next"
  shows "\<exists>k. smcp_node_find_next_with_path ns node path = Some (k, next) \<and>
    drop k path = unslashed (path_string (if next = None then s # names else names))"
proof -
  let ?e = "url_encode (byte_chars s)"
  have p: "unslashed path = ?e @ path_string names" using assms(2) unslashed_path [OF assms(1)] by simp
  have q: "path_string names = [] \<or> path_end (hd (path_string names))" by (cases names) (simp_all add: path_end_def)
  note e = encoded_segment [OF assms(1)]
  have tw: "takeWhile (\<lambda>c. \<not> path_end c) (?e @ path_string names) = ?e"
      "dropWhile (\<lambda>c. \<not> path_end c) (?e @ path_string names) = path_string names"
    using e(2) q by (cases "path_string names"; simp add: takeWhile_append dropWhile_append)+
  have "\<exists>a. path = a @ unslashed path" "\<exists>b. path_string names = b @ unslashed (path_string names)"
    unfolding unslashed_def by (metis takeWhile_dropWhile_id)+
  then have "drop (length path - length (unslashed path)) path = unslashed path"
      "drop (length path - length (unslashed (path_string names))) path = unslashed (path_string names)"
    using p by (metis append_eq_conv_conj length_append add_diff_cancel_right' append.assoc)+
  then show ?thesis
    using assms(2,3) e(1) p tw unescape_name_encoded [OF assms(1)]
    by (auto simp: smcp_node_find_next_with_path_def Let_def simp flip: unslashed_def)
qed

text \<open>A path is followed as the reference follows it.\<close>

lemma unslashed_empty: "\<forall>s \<in> set names. path_name s \<Longrightarrow> unslashed (path_string names) = [] \<longleftrightarrow> names = []"
  using unslashed_path encoded_segment(1) by (cases names) (simp_all add: unslashed_def)

lemma find_next_self:
  "unslashed path = [] \<Longrightarrow> smcp_node_find_next_with_path ns node path = Some (length path, Some node)"
  by (simp add: smcp_node_find_next_with_path_def unslashed_def del: dropWhile_eq_Nil_conv)

lemma find_with_path_walk:
  assumes "\<forall>s \<in> set names. path_name s" "\<And>n s. s \<in> set names \<Longrightarrow> smcp_node_find ns n s = Some (child n s)"
    and "unslashed path = unslashed (path_string names)"
  shows "smcp_node_find_with_path ns node path =
    Some (case walk child node names of (m, rest) \<Rightarrow> if rest = [] then Some m else None)"
  using assms
proof (induction names arbitrary: node path)
  case Nil
  then have "unslashed path = []" by (simp add: unslashed_def)
  then show ?case using find_next_self [of path ns node] by (subst smcp_node_find_with_path.simps) simp
next
  case (Cons s names)
  obtain k where k: "smcp_node_find_next_with_path ns node path = Some (k, child node s)"
      "drop k path = unslashed (path_string (if child node s = None then s # names else names))"
    using find_next_step [of s path names ns node "child node s"] Cons.prems by auto
  show ?case
  proof (cases "child node s")
    case None
    then show ?thesis using k(1) by (subst smcp_node_find_with_path.simps) simp
  next
    case (Some m)
    then show ?thesis
      using k unslashed_empty [of names] Cons.prems Cons.IH [of "drop k path" m]
      by (subst smcp_node_find_with_path.simps) (auto simp del: drop_eq_Nil)
  qed
qed

lemma find_closest_walk:
  assumes "\<forall>s \<in> set names. path_name s" "\<And>n s. s \<in> set names \<Longrightarrow> smcp_node_find ns n s = Some (child n s)"
    and "unslashed (drop ret path) = unslashed (path_string names)"
  shows "\<exists>k. smcp_node_find_closest_with_path ns node path ret = Some (k, fst (walk child node names)) \<and>
    unslashed (drop k path) = unslashed (path_string (snd (walk child node names)))"
  using assms
proof (induction names arbitrary: node ret)
  case Nil
  then have "unslashed (drop ret path) = []" by (simp add: unslashed_def)
  moreover have "drop (ret + (length path - ret)) path = []" by simp
  ultimately show ?case using find_next_self [of "drop ret path" ns node]
    by (subst smcp_node_find_closest_with_path.simps) (simp add: unslashed_def del: drop_eq_Nil)
next
  case (Cons s names)
  obtain k where k: "smcp_node_find_next_with_path ns node (drop ret path) = Some (k, child node s)"
      "drop (ret + k) path = unslashed (path_string (if child node s = None then s # names else names))"
    using find_next_step [of s "drop ret path" names ns node "child node s"] Cons.prems by (auto simp: add.commute)
  show ?case
  proof (cases "child node s")
    case None
    then show ?thesis using k by (subst smcp_node_find_closest_with_path.simps) simp
  next
    case (Some m)
    then show ?thesis
      using k unslashed_empty [of names] Cons.prems Cons.IH [of "ret + k" m]
      by (subst smcp_node_find_closest_with_path.simps) (auto simp del: drop_eq_Nil)
  qed
qed

section \<open>Writing a path\<close>

lemma strlcat_slash:
  assumes "NUL \<notin> set s" "length s + 1 < unat (m :: u16)"
  shows "strlcat (s @ NUL # z # zs) 0 ''/'' (ucast m) = Some (s @ CHR ''/'' # NUL # zs, length s + 1)"
proof -
  have "(ucast m :: u64) = word_of_nat (unat m)" by simp
  moreover have "unat m < 65536" using unsigned_less [where 'a = nat and w = m] by simp
  ultimately show ?thesis using strlcat_fits [OF assms(1), of "''/''" "unat m" "[z]" "[]" zs] assms(2) by simp
qed

lemma get_path_append:
  assumes "path_name s" "NUL \<notin> set q" "length q + 1 + length (url_encode (byte_chars s)) < unat m"
    and "length (q @ NUL # zs) \<ge> unat (m :: u16)"
  shows "\<exists>zs'. Option.bind (strlcat (q @ NUL # zs) 0 ''/'' (ucast m)) (\<lambda>(path, _).
         let len = length (takeWhile (\<lambda>c. c \<noteq> NUL) path);
             src = byte_chars s @ [NUL]
         in if unat m > len
            then map_option (\<lambda>r. drop (length src) (fst r))
                   (url_encode_cstr (src @ path) (length src + len) 0 (unat m - len))
            else Some path) = Some (q @ CHR ''/'' # url_encode (byte_chars s) @ NUL # zs') \<and>
    length (q @ CHR ''/'' # url_encode (byte_chars s) @ NUL # zs') = length (q @ NUL # zs)"
proof -
  let ?src = "byte_chars s @ [NUL]"
  let ?e = "url_encode (byte_chars s)"
  obtain z zs1 where zs: "zs = z # zs1" using assms(3,4) by (cases zs) auto
  let ?q = "q @ CHR ''/'' # NUL # zs1"
  let ?len = "length q + 1"
  note b = byte_chars_name [OF assms(1)]
  have fit: "url_encode_fit (unat m - ?len - 1) (byte_chars s) = ?e" using assms(3) by (intro url_encode_fit_all) simp
  have "url_encode_cstr (?src @ ?q) (length ?src + ?len) 0 (unat m - ?len) =
    Some (take (length ?src + ?len) (?src @ ?q) @ (?e @ [NUL]) @ drop (length ?src + ?len + length (?e @ [NUL])) (?src @ ?q),
      length ?e)"
    using assms(3,4) b(1) fit mem_holds_self [of "[]" ?src ?q]
    by (subst url_encode_cstr_spec [where s = "byte_chars s"]) (auto simp: zs)
  then show ?thesis
    using assms(2-4) strlcat_slash [OF assms(2), of m z zs1] by (auto simp: zs Let_def takeWhile_append)
qed

lemma walk_snoc:
  "walk child r (names @ [s]) = (n, []) \<Longrightarrow> \<exists>m. walk child r names = (m, []) \<and> child m s = Some n"
  by (induction names arbitrary: r) (auto split: option.splits)

lemma path_string_no_NUL: "\<forall>s \<in> set names. path_name s \<Longrightarrow> NUL \<notin> set (path_string names)"
  using url_encode_no_NUL [OF byte_chars_name(1)] by (induction names) auto

lemma named_child_fields:
  assumes "router_inv ns T rank" "named_child ns T m s = Some n"
  shows "node_name (nodes ns n) = Some s" "node_parent (nodes ns n) = Some m"
  using assms router_invD(3) [OF assms(1), of n m] nth_mem [of _ "inorder (T m)"]
  by (auto simp: named_child_def find_Some_iff)

lemma get_path_names:
  assumes "router_inv ns T rank" "node_parent (nodes ns r) = None" "node_name (nodes ns r) = None"
    and "walk (named_child ns T) r names = (n, [])" "\<forall>s \<in> set names. path_name s"
    and "length (path_string names) < unat m" "unat m \<le> length path"
  shows "\<exists>zs. smcp_node_get_path ns n path m = Some (path_string names @ NUL # zs) \<and>
    length (path_string names @ NUL # zs) = length path"
  using assms(4-6)
proof (induction names arbitrary: n rule: rev_induct)
  case Nil
  then show ?case using assms(2,3,7)
    by (subst smcp_node_get_path.simps) (cases path; auto simp: mem_write_def)
next
  case (snoc s names)
  obtain p where p: "walk (named_child ns T) r names = (p, [])" "named_child ns T p s = Some n"
    using walk_snoc [OF snoc.prems(1)] by blast
  have s: "path_name s" "\<forall>s \<in> set names. path_name s" using snoc.prems(2) by auto
  have l: "length (path_string names) + 1 + length (url_encode (byte_chars s)) < unat m" using snoc.prems(3) by simp
  obtain zs where zs: "smcp_node_get_path ns p path m = Some (path_string names @ NUL # zs)"
      "length (path_string names @ NUL # zs) = length path"
    using snoc.IH [OF p(1) s(2)] l by auto
  show ?case
    using get_path_append [OF s(1) path_string_no_NUL [OF s(2)] l, of zs] zs assms(7) named_child_fields [OF assms(1) p(2)]
    by (subst smcp_node_get_path.simps) auto
qed

lemma get_root_names:
  assumes "router_inv ns T rank" "node_parent (nodes ns r) = None" "walk (named_child ns T) r names = (n, [])"
  shows "smcp_node_get_root ns n = Some r"
  using assms(3)
proof (induction names arbitrary: n rule: rev_induct)
  case (snoc s names)
  then show ?case
    using walk_snoc [OF snoc.prems] named_child_fields(2) [OF assms(1)] by (auto simp: smcp_node_get_root.simps [of ns n])
qed (simp add: smcp_node_get_root.simps assms(2))

text \<open>
  C12: the path of a node leads back to it: when a buffer is large enough, the path that is written for a
  node is the escaped names of its ancestors and its own, each behind a slash, and following this path
  from the root finds the node. The names are not empty and have neither a plus nor an exclamation
  mark, which are written as they are and read as a blank and as the end of the name.
\<close>

theorem node_path_roundtrip:
  assumes "router_inv ns T rank" "node_parent (nodes ns r) = None" "node_name (nodes ns r) = None"
    and "walk (named_child ns T) r names = (n, [])" "\<forall>s \<in> set names. path_name s"
    and "length (path_string names) < unat m" "unat m \<le> length path"
  shows "\<exists>zs. smcp_node_get_path ns n path m = Some (path_string names @ NUL # zs) \<and>
    smcp_node_find_with_path ns r (path_string names) = Some (Some n) \<and> smcp_node_get_root ns n = Some r"
proof -
  have "smcp_node_find_with_path ns r (path_string names) = Some (Some n)"
    using find_with_path_walk [of names ns "named_child ns T" "path_string names" r] find_named_child [OF assms(1)] assms(4,5)
    by (simp add: path_name_def)
  moreover have "smcp_node_get_root ns n = Some r"
    using get_root_names [OF assms(1,2,4)] .
  ultimately show ?thesis using get_path_names [OF assms] by blast
qed

text \<open>The path of the node \<open>a\<close> of the sample router.\<close>

theorem node_path_roundtrip_witness:
  "\<exists>zs. smcp_node_get_path sample_router 2 (replicate 8 NUL) 8 = Some (''/a'' @ NUL # zs) \<and>
     smcp_node_find_with_path sample_router 1 ''/a'' = Some (Some 2)"
proof -
  have p: "path_string [[97]] = ''/a''" "path_name [97]"
    by (simp_all add: path_string_def byte_chars_def encode_char_def isurlchar_def isalnum_def isalpha_def isupper_def
        islower_def isdigit_def char_code_def char_of_def bit_0 path_name_def)
  have "walk (named_child sample_router sample_trees) 1 [[97]] = (2, [])" by (simp add: named_child_def sample_router_def)
  from node_path_roundtrip [OF sample_router_inv _ _ this, of 8 "replicate 8 NUL", unfolded p(1)] p(2)
  show ?thesis by (auto simp: sample_router_def zero_node_def)
qed

text \<open>
  The closest node: following a path for as long as there are nodes for its names ends at the node
  where the walk along the names ends, and returns how much of the path was followed: what is behind
  this position is the path of the names that are left.
\<close>

lemma find_closest_path:
  assumes "router_inv ns T rank" "\<forall>s \<in> set names. path_name s" "walk (named_child ns T) n names = (m, rest)"
  shows "\<exists>k. smcp_node_find_closest_with_path ns n (path_string names) 0 = Some (k, m) \<and>
    unslashed (drop k (path_string names)) = unslashed (path_string rest)"
  using find_closest_walk [of names ns "named_child ns T" 0 "path_string names" n] find_named_child [OF assms(1)] assms(2,3)
  by (simp add: path_name_def)

end
