(* ===== verification/Node_Routing.thy ===== *)
theory Node_Routing
  imports Node_Path Inbound_Scan
begin

text \<open>
  Routing: the request handler of the router on a received packet
  (\<^verbatim>\<open>smcp_node_route\<close> and \<^verbatim>\<open>smcp_node_router_handler\<close> in \<^verbatim>\<open>src/smcp/smcp-node-router.c\<close>) calls the node
  that a walk along the path of the packet reaches.
\<close>

section \<open>Routing a request\<close>

text \<open>Options that the router passes over: the host, the port, and elective options before the path.\<close>

definition passed_over :: "nat \<times> u8 list \<Rightarrow> bool" where
  "passed_over o1 \<longleftrightarrow> fst o1 < 11 \<and> (fst o1 = 3 \<or> fst o1 = 7 \<or> even (fst o1))"

lemma scan_position_self: "put_back (scan_position self)
    (set_inbound (\<lambda>i. i\<lparr>this_option := a, in_last_option_key := b\<rparr>) self) = self"
  by (cases self; cases "inbound self") (simp add: put_back_def scan_position_def)

lemmas option_numbers = COAP_OPTION_URI_PATH_def COAP_OPTION_URI_HOST_def COAP_OPTION_URI_PORT_def
  COAP_OPTION_PROXY_URI_def COAP_OPTION_CONTENT_TYPE_def

lemma small_key:
  "k < 65535 \<Longrightarrow> (word_of_nat k :: u32) > 11 \<longleftrightarrow> k > 11"
  "k < 65535 \<Longrightarrow> m < 65535 \<Longrightarrow> (word_of_nat k :: u32) = word_of_nat m \<longleftrightarrow> k = m"
  "COAP_OPTION_IS_CRITICAL (word_of_nat k) \<longleftrightarrow> odd k"
proof -
  show "k < 65535 \<Longrightarrow> (word_of_nat k :: u32) > 11 \<longleftrightarrow> k > 11"
    "k < 65535 \<Longrightarrow> m < 65535 \<Longrightarrow> (word_of_nat k :: u32) = word_of_nat m \<longleftrightarrow> k = m"
    using plain_key(2) [of k] plain_key(2) [of m] by (auto simp: word_less_nat_alt word_unat_eq_iff)
  show "COAP_OPTION_IS_CRITICAL (word_of_nat k) \<longleftrightarrow> odd k"
    by (simp add: COAP_OPTION_IS_CRITICAL_def and_one_eq mod_2_eq_odd)
qed

text \<open>The loop passes over options before the path, follows the path, and stops before what is left.\<close>

lemma route_loop_rest:
  assumes "scanning self xs prev opts payload" "plain_keys opts" "\<forall>o1 \<in> set opts. fst o1 > 11"
  shows "\<exists>self'. route_loop ns (scan_position self) n self = Some (SMCP_STATUS_OK, n, self') \<and>
    scanned_options self' = Some opts"
proof (cases opts)
  case Nil
  let ?self = "set_inbound (\<lambda>i. i\<lparr>in_last_option_key := COAP_OPTION_INVALID\<rparr>) self"
  have "scanning ?self xs 65535 [] payload" using assms(1) by (simp add: Nil scanning_def COAP_OPTION_INVALID_def)
  then show ?thesis
    using next_option_end [of self xs prev payload] assms(1) scanned_options_run [of ?self xs 65535 "[]" payload]
    by (auto simp: Nil route_loop.simps)
next
  case (Cons o1 opts')
  obtain k v where kv: "o1 = (k, v)" by (cases o1)
  then show ?thesis
    using next_option_value [of self xs prev k v opts' payload] assms scanned_options_run [OF assms(1,2)]
    by (auto simp: Cons route_loop.simps [of ns _ n self] option_numbers small_key plain_key scan_position_self)
qed

lemma route_loop_path:
  assumes "scanning self xs prev (map (Pair 11) segs @ post) payload" "plain_keys post" "\<forall>o1 \<in> set post. fst o1 > 11"
    and "\<And>n s. s \<in> set segs \<Longrightarrow> smcp_node_find ns n s = Some (child n s)"
  shows "\<exists>self'. route_loop ns (scan_position self) n self = Some (SMCP_STATUS_OK, fst (walk child n segs), self') \<and>
    scanned_options self' = Some (map (Pair 11) (snd (walk child n segs)) @ post)"
  using assms
proof (induction segs arbitrary: self xs prev n)
  case Nil
  then show ?case using route_loop_rest [of self xs prev post payload ns n] by simp
next
  case (Cons s segs)
  have k: "plain_keys (map (Pair 11) (s # segs) @ post)" using Cons.prems(2) by (auto simp: plain_keys_def)
  obtain self' p packet where n: "smcp_inbound_next_option self = Some ((word_of_nat 11, Some (Some p, word_of_nat (length s))), self')"
      "put_back (scan_position self) self' = self" "scanning self' (xs @ option_bytes prev 11 s) 11 (map (Pair 11) segs @ post) payload"
      "in_packet (inbound self') = Some packet" "mem_read_n packet p (unat (word_of_nat (length s) :: u16)) = Some s"
    using next_option_value [of self xs prev 11 s "map (Pair 11) segs @ post" payload] Cons.prems(1) scan_position_self by auto
  note step = route_loop.simps [of ns "scan_position self" n self] option_numbers
  show ?case
  proof (cases "child n s")
    case None
    then show ?thesis
      using n Cons.prems(4) [of s n] scanned_options_run [OF Cons.prems(1) k] by (simp add: step COAP_OPTION_INVALID_def)
  next
    case (Some m)
    then show ?thesis
      using n Cons.prems(4) [of s n] Cons.IH [OF n(3) Cons.prems(2,3), of m] Cons.prems(4) by (simp add: step COAP_OPTION_INVALID_def)
  qed
qed

lemma route_loop_skip:
  assumes "scanning self xs prev (pre @ opts) payload" "\<forall>o1 \<in> set pre. passed_over o1"
  shows "\<exists>self' xs' prev'. route_loop ns (scan_position self) n self = route_loop ns (scan_position self') n self' \<and>
    scanning self' xs' prev' opts payload"
  using assms
proof (induction pre arbitrary: self xs prev)
  case (Cons o1 pre)
  obtain k v where kv: "o1 = (k, v)" by (cases o1)
  obtain self' where n: "\<exists>w. smcp_inbound_next_option self = Some ((word_of_nat k, w), self')"
      "scanning self' (xs @ option_bytes prev k v) k (pre @ opts) payload"
    using next_option_value [of self xs prev k v "pre @ opts" payload] Cons.prems(1) kv by auto
  have "route_loop ns (scan_position self) n self = route_loop ns (scan_position self') n self'"
    using n(1) Cons.prems(2) plain_key [of k] small_key(1,3) [of k] small_key(2) [of k 11] small_key(2) [of k 3] small_key(2) [of k 7]
    by (auto simp: route_loop.simps [of ns "scan_position self" n self] option_numbers kv passed_over_def)
  then show ?case using Cons.IH [OF n(2)] Cons.prems(2) by simp
qed auto

lemma route_start:
  assumes "inbound_holds self p" "p_options p = pre @ opts" "\<forall>o1 \<in> set pre. passed_over o1"
  shows "\<exists>self1 self2 xs prev. smcp_inbound_reset_next_option self = Some self1 \<and>
    route_loop ns (this_option (inbound self1), 0) n self1 = route_loop ns (scan_position self2) n self2 \<and>
    scanning self2 xs prev opts (packet_payload p)"
proof -
  obtain i where i: "smcp_inbound_reset_next_option self = Some (self\<lparr>inbound := i\<rparr>)" "in_last_option_key i = 0"
      "scanning (self\<lparr>inbound := i\<rparr>) (packet_head p) 0 (pre @ opts) (packet_payload p)"
    using inbound_holds_reset [OF assms(1)] assms(2) by force
  then show ?thesis using route_loop_skip [OF i(3) assms(3), of ns n] by (fastforce simp: scan_position_def)
qed

text \<open>
  C3: a request is routed to the node its path leads to: among the nodes of a router in order, the
  handler that is called is the one of the last node on the path that has a child for every segment
  before it, with the node or its own context; and the scanner is left in front of the first segment
  that was not followed, so that the handler reads the rest of the path and the options behind it.
\<close>

theorem request_routed:
  assumes "router_inv ns T rank" "inbound_holds self p" "p_options p = pre @ map (Pair 11) segs @ post"
    and "\<forall>o1 \<in> set pre. passed_over o1" "\<forall>o1 \<in> set post. fst o1 > 11" "set segs \<subseteq> ascii_names"
    and "walk (named_child ns T) n segs = (m, rest)"
  shows "\<exists>self'. smcp_node_router_handler ns n self =
      Some (case node_request_handler (nodes ns m) of None \<Rightarrow> Inl SMCP_STATUS_NOT_IMPLEMENTED
        | Some f \<Rightarrow> Inr (f, case node_context (nodes ns m) of Some c \<Rightarrow> c | None \<Rightarrow> m), self') \<and>
    scanned_options self' = Some (map (Pair 11) rest @ post)"
proof -
  obtain self1 self2 xs prev where 2: "smcp_inbound_reset_next_option self = Some self1"
      "route_loop ns (this_option (inbound self1), 0) n self1 = route_loop ns (scan_position self2) n self2"
      "scanning self2 xs prev (map (Pair 11) segs @ post) (packet_payload p)"
    using route_start [OF assms(2-4)] by blast
  have "plain_keys post" using assms(2,3) by (auto simp: inbound_holds_def plain_keys_def)
  from route_loop_path [OF 2(3) this assms(5), of ns "named_child ns T" n] find_named_child [OF assms(1)] assms(6)
  obtain self' where "route_loop ns (scan_position self2) n self2 = Some (SMCP_STATUS_OK, m, self')"
      "scanned_options self' = Some (map (Pair 11) rest @ post)"
    using assms(7) by (auto simp: subset_iff)
  then show ?thesis
    using 2(1,2) by (simp add: smcp_node_router_handler_def smcp_node_route_def)
qed

text \<open>
  C35: a critical option that the router does not know, in front of the path, ends the routing: the
  status is \<^verbatim>\<open>SMCP_STATUS_BAD_OPTION\<close> and neither the handler nor the context is written. The handler
  of the router does not look at this status and answers \<^verbatim>\<open>SMCP_STATUS_NOT_IMPLEMENTED\<close>.
\<close>

theorem critical_option_not_routed:
  assumes "inbound_holds self p" "p_options p = pre @ (k, v) # opts" "\<forall>o1 \<in> set pre. passed_over o1"
    and "k < 11" "odd k" "k \<noteq> 3" "k \<noteq> 7"
  shows "\<exists>self'. smcp_node_route ns n target self = Some (SMCP_STATUS_BAD_OPTION, target, self') \<and>
    smcp_node_router_handler ns n self = Some (Inl SMCP_STATUS_NOT_IMPLEMENTED, self')"
proof -
  obtain self1 self2 xs prev where 2: "smcp_inbound_reset_next_option self = Some self1"
      "route_loop ns (this_option (inbound self1), 0) n self1 = route_loop ns (scan_position self2) n self2"
      "scanning self2 xs prev ((k, v) # opts) (packet_payload p)"
    using route_start [OF assms(1-3)] by blast
  obtain self' where "\<exists>w. smcp_inbound_next_option self2 = Some ((word_of_nat k, w), self')"
    using next_option_value [OF 2(3)] by blast
  then have "route_loop ns (scan_position self2) n self2 = Some (SMCP_STATUS_BAD_OPTION, n, self')"
    using assms(4-7) plain_key [of k] small_key(1,3) [of k] small_key(2) [of k 11] small_key(2) [of k 3] small_key(2) [of k 7]
      small_key(2) [of k 35] small_key(2) [of k 12]
    by (auto simp: route_loop.simps [of ns "scan_position self2" n self2] option_numbers)
  then show ?thesis
    using 2(1,2) by (simp add: smcp_node_router_handler_def smcp_node_route_def)
qed

theorem request_routed_witness:
  "\<exists>self self'. inbound_holds self sample_packet \<and>
     smcp_node_router_handler sample_router 1 self = Some (Inr (Node_fn 5, 2), self') \<and>
     scanned_options self' = Some [(11, [98, 99])]"
proof -
  obtain self where self: "inbound_holds self sample_packet"
    using start_packet_holds [OF sample_packet_ok, of 0 "[]" zero_state] by blast
  have "walk (named_child sample_router sample_trees) 1 [[97], [98, 99]] = (2, [[98, 99]])"
    by (simp add: named_child_def sample_router_def)
  from request_routed [OF sample_router_inv self, of "[]" "[[97], [98, 99]]" "[]", OF _ _ _ _ this]
  show ?thesis using self by (auto simp: sample_packet_def sample_router_def zero_node_def)
qed

text \<open>A GET request with the critical option If-Match.\<close>

definition if_match_packet :: packet where
  "if_match_packet = sample_packet\<lparr>p_options := [(1, [5]), (11, [97])]\<rparr>"

theorem critical_option_not_routed_witness:
  "\<exists>self self'. inbound_holds self if_match_packet \<and>
     smcp_node_router_handler sample_router 1 self = Some (Inl SMCP_STATUS_NOT_IMPLEMENTED, self')"
proof -
  have "packet_ok if_match_packet" "empty_ok if_match_packet" "plain_keys (p_options if_match_packet)"
    "length (packet_wire if_match_packet) \<le> 1240"
    by (simp_all add: if_match_packet_def sample_packet_def packet_ok_def empty_ok_def COAP_VERSION_def header_version_def
        header_token_len_def packet_wire_payload packet_payload_def packet_head_length option_bytes_def length_opt_header
        length_opt_ext COAP_CODE_EMPTY_def drop_bit_eq_div word_unat_eq_iff)
  then obtain self where self: "inbound_holds self if_match_packet"
    using start_packet_holds [of if_match_packet 0 "[]" zero_state] by blast
  have "p_options if_match_packet = [] @ (1, [5]) # [(11, [97])]" by (simp add: if_match_packet_def)
  from critical_option_not_routed [OF self this, of sample_router 1 "(None, 1)"] show ?thesis using self by auto
qed

end
