(* ===== verification/Node_List.thy ===== *)
theory Node_List
  imports Node_Routing Default_Response
begin

text \<open>
  Resource listings (\<^verbatim>\<open>src/smcp/smcp-list.c\<close>): the default handler of a node answers a GET request with
  the list of its children in the link format. The list is built with \<^verbatim>\<open>strlcat\<close> in the outbound
  buffer; the buffer behind the content pointer is a string here.
\<close>

section \<open>The handler\<close>

definition COAP_CONTENT_TYPE_APPLICATION_LINK_FORMAT :: u32 where "COAP_CONTENT_TYPE_APPLICATION_LINK_FORMAT = 40"

definition cat :: "u16 \<Rightarrow> string \<Rightarrow> string \<Rightarrow> string option" where
  "cat threshold s reply = map_option fst (strlcat reply 0 s (ucast threshold))"

text \<open>The difference with 1 is an int that is converted for the comparison with a \<^verbatim>\<open>size_t\<close>.\<close>

definition cat_encoded :: "u16 \<Rightarrow> string \<Rightarrow> string \<Rightarrow> string option" where
  "cat_encoded threshold s reply = do {
     len \<leftarrow> strlen_mem reply 0;
     let src = s @ [NUL];
     if (ucast threshold :: u64) - 1 > word_of_nat len
     then map_option (\<lambda>r. drop (length src) (fst r))
            (url_encode_cstr (src @ reply) (length src + len) 0 (unat ((ucast threshold :: u64) - word_of_nat len)))
     else Some reply
   }"

definition list_entry :: "u16 \<Rightarrow> u8 list option \<Rightarrow> smcp_node_s \<Rightarrow> u8 list \<Rightarrow> string \<Rightarrow> string option" where
  "list_entry threshold prefix node name reply = do {
     reply \<leftarrow> cat threshold ''<'' reply;
     reply \<leftarrow> (case prefix of
                None \<Rightarrow> Some reply
              | Some p \<Rightarrow> do { reply \<leftarrow> cat_encoded threshold (byte_chars p) reply; cat threshold ''/'' reply });
     reply \<leftarrow> cat_encoded threshold (byte_chars name) reply;
     reply \<leftarrow> (if children node \<noteq> None then cat threshold ''/'' reply else Some reply);
     reply \<leftarrow> cat threshold ''>'' reply;
     reply \<leftarrow> (if children node \<noteq> None \<or> has_link_content node then cat threshold '';ct=40'' reply else Some reply);
     if is_observable node then cat threshold '';obs'' reply else Some reply
   }"

partial_function (option) list_loop :: "node_heap \<Rightarrow> u16 \<Rightarrow> u8 list option \<Rightarrow> addr option \<Rightarrow> string \<Rightarrow> string option" where
  "list_loop ns threshold prefix node reply =
     (case node of
        None \<Rightarrow> Some reply
      | Some n \<Rightarrow>
          (case node_name (nodes ns n) of
             None \<Rightarrow> Some reply
           | Some name \<Rightarrow>
               Option.bind (strlen_mem reply 0) (\<lambda>len.
               if (word_of_nat (length name + 4) :: u64) > ucast threshold - word_of_nat len - 3 then Some reply
               else Option.bind (list_entry threshold prefix (nodes ns n) name reply) (\<lambda>reply.
                    Option.bind (bt_next (node_links ns) (Some n)) (\<lambda>next.
                    Option.bind (cat threshold (if next = None then '''' else '','') reply) (\<lambda>reply.
                    list_loop ns threshold prefix next reply))))))"

text \<open>The prefix of the links, or the status with which the handler returns.\<close>

definition list_well_known :: "node_heap \<Rightarrow> addr \<Rightarrow> smcp_s \<Rightarrow> ((smcp_status_t + u8 list option) \<times> smcp_s) option" where
  "list_well_known ns node self = do {
     let prefix = node_name (nodes ns node);
     wk \<leftarrow> (if node_parent (nodes ns node) = None
            then smcp_inbound_option_strequal self COAP_OPTION_URI_PATH (string_bytes ''.well-known'') else Some False);
     if wk then do {
       (_, self) \<leftarrow> smcp_inbound_next_option self;
       core \<leftarrow> smcp_inbound_option_strequal self COAP_OPTION_URI_PATH (string_bytes ''core'');
       if core then do { (_, self) \<leftarrow> smcp_inbound_next_option self; Some (Inr (Some []), self) }
       else Some (Inl SMCP_STATUS_NOT_ALLOWED, self)
     }
     else Some (Inr prefix, self)
   }"

definition list_trailing_slash :: "u8 list option \<Rightarrow> smcp_s \<Rightarrow> (u8 list option \<times> smcp_s) option" where
  "list_trailing_slash prefix self = do {
     slash \<leftarrow> smcp_inbound_option_strequal self COAP_OPTION_URI_PATH [];
     if slash then do {
       (_, self) \<leftarrow> smcp_inbound_next_option self;
       p \<leftarrow> prefix;
       Some (if p \<noteq> [] then None else prefix, self)
     }
     else Some (prefix, self)
   }"

function list_options :: "smcp_s \<Rightarrow> (smcp_status_t \<times> smcp_s) option" where
  "list_options self =
     (case smcp_inbound_next_option self of
        None \<Rightarrow> None
      | Some ((key, _), self') \<Rightarrow>
          if key = COAP_OPTION_INVALID then Some (SMCP_STATUS_OK, self')
          else if key = COAP_OPTION_URI_PATH then Some (SMCP_STATUS_NOT_FOUND, self')
          else if key \<noteq> COAP_OPTION_URI_QUERY \<and> COAP_OPTION_IS_CRITICAL key then Some (SMCP_STATUS_BAD_OPTION, self')
          else list_options self')"
  by pat_completeness auto
termination
  by (relation "measure scan_left") (auto dest: next_option_progress)

declare list_options.simps [simp del]

definition list_reply :: "smcp_env \<Rightarrow> node_heap \<Rightarrow> addr \<Rightarrow> u8 list option \<Rightarrow> smcp_s \<Rightarrow> (smcp_status_t \<times> smcp_s) option" where
  "list_reply env ns node prefix self = do {
     first \<leftarrow> bt_first (node_links ns) (children (nodes ns node));
     (ret, self) \<leftarrow> smcp_outbound_begin_response (word_of_nat (HTTP_TO_COAP_CODE 205)) self;
     if ret \<noteq> SMCP_STATUS_OK then Some (ret, self)
     else do {
       (ret, self) \<leftarrow> smcp_outbound_add_option_uint COAP_OPTION_CONTENT_TYPE COAP_CONTENT_TYPE_APPLICATION_LINK_FORMAT self;
       if ret \<noteq> SMCP_STATUS_OK then Some (ret, self)
       else do {
         (p, threshold, self) \<leftarrow> smcp_outbound_get_content_ptr self;
         bytes \<leftarrow> out_bytes self;
         reply \<leftarrow> mem_write (byte_chars (drop p bytes)) 0 NUL;
         reply \<leftarrow> list_loop ns threshold prefix first reply;
         self \<leftarrow> out_write p (string_bytes reply) self;
         len \<leftarrow> strlen_mem reply 0;
         let (ret, self) = smcp_outbound_set_content_len (word_of_nat len) self;
         if ret \<noteq> SMCP_STATUS_OK then Some (ret, self) else smcp_outbound_send env self
       }
     }
   }"

definition smcp_handle_list :: "smcp_env \<Rightarrow> node_heap \<Rightarrow> addr \<Rightarrow> smcp_s \<Rightarrow> (smcp_status_t \<times> smcp_s) option" where
  "smcp_handle_list env ns node self = do {
     (r, self) \<leftarrow> list_well_known ns node self;
     case r of
       Inl status \<Rightarrow> Some (status, self)
     | Inr prefix \<Rightarrow> do {
         (prefix, self) \<leftarrow> list_trailing_slash prefix self;
         (ret, self) \<leftarrow> list_options self;
         if ret \<noteq> SMCP_STATUS_OK then Some (ret, self) else list_reply env ns node prefix self
       }
   }"

definition smcp_default_request_handler :: "smcp_env \<Rightarrow> node_heap \<Rightarrow> addr \<Rightarrow> smcp_s \<Rightarrow> (smcp_status_t \<times> smcp_s) option" where
  "smcp_default_request_handler env ns node self = do {
     code \<leftarrow> smcp_inbound_get_code self;
     if code = COAP_METHOD_GET then smcp_handle_list env ns node self else Some (SMCP_STATUS_NOT_ALLOWED, self)
   }"

text \<open>The handler of the router, with the handler that it calls.\<close>

definition router_request :: "smcp_env \<Rightarrow> node_heap \<Rightarrow> addr \<Rightarrow> smcp_s \<Rightarrow> (smcp_status_t \<times> smcp_s) option" where
  "router_request env ns root self = do {
     (r, self) \<leftarrow> smcp_node_router_handler ns root self;
     case r of
       Inl status \<Rightarrow> Some (status, self)
     | Inr (Smcp_default_request_handler, node) \<Rightarrow> smcp_default_request_handler env ns node self
     | Inr (Node_fn f, context) \<Rightarrow> env_request env f (Some context) self
   }"

section \<open>What is listed\<close>

text \<open>The text at the start of a buffer of a given size.\<close>

definition holds_text :: "nat \<Rightarrow> string \<Rightarrow> string \<Rightarrow> bool" where
  "holds_text room reply q \<longleftrightarrow> (\<exists>zs. reply = q @ NUL # zs) \<and> NUL \<notin> set q \<and> length reply = room"

lemma holds_text_strlen: "holds_text room reply q \<Longrightarrow> strlen_mem reply 0 = Some (length q)"
  using strlen_mem_at [of q "[]"] by (auto simp: holds_text_def)

lemma threshold_u64: "(ucast (m :: u16) :: u64) = word_of_nat (unat m)" "unat m < 65536"
  using unsigned_less [where 'a = nat and w = m] by simp_all

lemma cat_text:
  assumes "holds_text room reply q" "length q + length s < unat m" "unat m \<le> room" "NUL \<notin> set s"
  shows "\<exists>reply'. cat m s reply = Some reply' \<and> holds_text room reply' (q @ s)"
proof -
  obtain zs where zs: "reply = q @ NUL # zs" "NUL \<notin> set q" "length reply = room" using assms(1) by (auto simp: holds_text_def)
  let ?ys = "take (length s) zs" and ?zs = "drop (length s) zs"
  have "length ?ys = length s" using assms(2,3) zs by simp
  then have "strlcat ([] @ q @ NUL # ?ys @ ?zs) (length ([] :: string)) s (word_of_nat (unat m)) =
      Some ([] @ q @ s @ NUL # ?zs, length q + length s)"
    using strlcat_fits [OF zs(2) assms(2), of ?ys "[]" ?zs] threshold_u64(2) [of m] by simp
  moreover have "length (q @ s @ NUL # ?zs) = room" using assms(2,3) zs by simp
  ultimately show ?thesis
    using zs assms(4) by (auto simp: cat_def holds_text_def)
qed

lemma cat_encoded_text:
  assumes "holds_text room reply q" "length q + length (url_encode s) < unat m" "unat m \<le> room" "NUL \<notin> set s"
  shows "\<exists>reply'. cat_encoded m s reply = Some reply' \<and> holds_text room reply' (q @ url_encode s)"
proof -
  obtain zs where zs: "reply = q @ NUL # zs" "NUL \<notin> set q" "length reply = room" using assms(1) by (auto simp: holds_text_def)
  have m: "unat m < 65536" "(ucast m :: u64) = word_of_nat (unat m)" using threshold_u64 by simp_all
  have sub: "(ucast m :: u64) - word_of_nat k = word_of_nat (unat m - k)" if "k \<le> unat m" for k
    using that m(2) by (simp add: of_nat_diff)
  have c: "(ucast m :: u64) - 1 > word_of_nat (length q) \<longleftrightarrow> length q < unat m - 1"
    using sub [of 1] assms(2) m(1) u64_size [of "length q"] u64_size [of "unat m - 1"] by (simp add: word_less_nat_alt)
  have n: "unat ((ucast m :: u64) - word_of_nat (length q)) = unat m - length q"
    using assms(2) m(1) by (subst sub) (simp, rule u64_size, simp)
  show ?thesis
  proof (cases "length q < unat m - 1")
    case False
    then have "url_encode s = []" using assms(2) by (cases "url_encode s") auto
    then show ?thesis using False c assms(1) holds_text_strlen [OF assms(1)] by (simp add: cat_encoded_def)
  next
    case True
    let ?src = "s @ [NUL]" and ?e = "url_encode s"
    have fit: "url_encode_fit (unat m - length q - 1) s = ?e" using assms(2) by (intro url_encode_fit_all) simp
    have "url_encode_cstr (?src @ reply) (length ?src + length q) 0 (unat m - length q) =
      Some (take (length ?src + length q) (?src @ reply) @ (?e @ [NUL]) @
          drop (length ?src + length q + length (?e @ [NUL])) (?src @ reply), length ?e)"
      using True assms fit zs mem_holds_self [of "[]" ?src reply] by (subst url_encode_cstr_spec [where s = s]) auto
    then show ?thesis
      using True c n zs assms(2-4) url_encode_no_NUL [OF assms(4)] holds_text_strlen [OF assms(1)]
      by (auto simp: cat_encoded_def holds_text_def Let_def)
  qed
qed

text \<open>The link of one node in the link format.\<close>

definition link_text :: "u8 list option \<Rightarrow> smcp_node_s \<Rightarrow> u8 list \<Rightarrow> string" where
  "link_text prefix node name =
     ''<'' @ (case prefix of None \<Rightarrow> [] | Some p \<Rightarrow> url_encode (byte_chars p) @ ''/'') @ url_encode (byte_chars name) @
     (if children node \<noteq> None then ''/'' else []) @ ''>'' @
     (if children node \<noteq> None \<or> has_link_content node then '';ct=40'' else []) @
     (if is_observable node then '';obs'' else [])"

text \<open>A sequence of steps that append.\<close>

definition appends :: "nat \<Rightarrow> u16 \<Rightarrow> string \<Rightarrow> (string \<Rightarrow> string option) \<Rightarrow> bool" where
  "appends room m s f \<longleftrightarrow> (\<forall>reply q. holds_text room reply q \<and> length q + length s < unat m \<longrightarrow>
     (\<exists>reply'. f reply = Some reply' \<and> holds_text room reply' (q @ s)))"

lemma appends_bind:
  assumes "appends room m s f" "appends room m s' g"
  shows "appends room m (s @ s') (\<lambda>reply. Option.bind (f reply) g)"
  unfolding appends_def
proof (intro allI impI)
  fix reply q
  assume a: "holds_text room reply q \<and> length q + length (s @ s') < unat m"
  then obtain r where r: "f reply = Some r" "holds_text room r (q @ s)" using assms(1) unfolding appends_def by fastforce
  then obtain r' where "g r = Some r'" "holds_text room r' ((q @ s) @ s')" using a assms(2) unfolding appends_def by fastforce
  then show "\<exists>reply'. Option.bind (f reply) g = Some reply' \<and> holds_text room reply' (q @ s @ s')" using r(1) by simp
qed

lemma appends_idle: "appends room m [] Some"
  by (simp add: appends_def)

lemma appends_cat: "unat m \<le> room \<Longrightarrow> NUL \<notin> set s \<Longrightarrow> appends room m s (cat m s)"
  using cat_text by (simp add: appends_def)

lemma appends_encoded: "unat m \<le> room \<Longrightarrow> NUL \<notin> set s \<Longrightarrow> appends room m (url_encode s) (cat_encoded m s)"
  using cat_encoded_text by (simp add: appends_def)

lemma appends_if: "appends room m s f \<Longrightarrow> appends room m (if c then s else []) (\<lambda>reply. if c then f reply else Some reply)"
  using appends_idle by (simp add: appends_def)

lemma list_entry_appends:
  assumes "unat m \<le> room" "NUL \<notin> set (byte_chars name)" "\<And>p. prefix = Some p \<Longrightarrow> NUL \<notin> set (byte_chars p)"
  shows "appends room m (link_text prefix node name) (list_entry m prefix node name)"
proof -
  have p: "appends room m (case prefix of None \<Rightarrow> [] | Some p \<Rightarrow> url_encode (byte_chars p) @ ''/'')
    (\<lambda>reply. case prefix of None \<Rightarrow> Some reply
       | Some p \<Rightarrow> Option.bind (cat_encoded m (byte_chars p) reply) (\<lambda>reply. cat m ''/'' reply))"
    using assms appends_bind [OF appends_encoded appends_cat, of m room _ "''/''"] appends_idle by (cases prefix) simp_all
  show ?thesis
    unfolding link_text_def list_entry_def [abs_def]
    by (intro appends_bind appends_if appends_encoded appends_cat p) (use assms(1,2) in simp_all)
qed

text \<open>The listing of a sequence of nodes.\<close>

fun listing :: "node_heap \<Rightarrow> u8 list option \<Rightarrow> addr list \<Rightarrow> string" where
  "listing ns prefix [] = []"
| "listing ns prefix (x # xs) = link_text prefix (nodes ns x) (node_key ns x) @
     (if xs = [] then [] else '','' @ listing ns prefix xs)"

lemma byte_chars_no_NUL: "a \<in> ascii_names \<Longrightarrow> NUL \<notin> set (byte_chars a)"
proof (induction a)
  case (Cons b a)
  have "char_of (unat b) \<noteq> NUL"
  proof
    assume "char_of (unat b) = NUL"
    then have "char_code (char_of (unat b)) = 0" by (simp add: char_code_def)
    then show False using Cons.prems unsigned_less [where 'a = nat and w = b] by (simp add: char_code_def unat_eq_0)
  qed
  then show ?case using Cons by (auto simp: byte_chars_def)
qed (simp add: byte_chars_def)

lemma link_text_length: "length (byte_chars name) + 2 \<le> length (link_text prefix node name)"
proof -
  have "length s \<le> length (url_encode s)" for s by (induction s) (simp_all add: length_encode_char)
  from this [of "byte_chars name"] show ?thesis by (auto simp: link_text_def)
qed

lemma node_next:
  assumes "holds_tree (child_tree ns p) t" "inorder t = xs @ x # ys"
  shows "bt_next (node_links ns) (Some x) = Some (if ys = [] then None else Some (hd ys))"
proof -
  have t: "is_tree (child_tree ns p) None (children (nodes ns p)) t" "distinct (inorder t)" using assms(1) by (simp_all add: holds_tree_def)
  then have t': "is_tree (node_links ns) None (children (nodes ns p)) t"
    using is_tree_cong [of t "node_links ns" "child_tree ns p"] by simp
  then obtain y where y: "children (nodes ns p) = Some y" "bt_parent (node_links ns) y = None" using assms(2) by (cases t) auto
  then show ?thesis
    using bt_next_subtree [of "node_links ns" None y t xs x ys] t' t(2) assms(2) by (simp add: bt_climb_right.simps [of _ y])
qed

lemma list_room:
  assumes "n + 4 + len + 3 \<le> unat (m :: u16)"
  shows "\<not> (word_of_nat (n + 4) :: u64) > ucast m - word_of_nat len - 3"
proof -
  have u: "(ucast m :: u64) = word_of_nat (unat m)" "unat m < 65536" using threshold_u64 by simp_all
  have "(ucast m :: u64) - word_of_nat len - 3 = word_of_nat (unat m - len - 3)" using assms u(1) by (simp add: of_nat_diff)
  moreover have "unat (word_of_nat (unat m - len - 3) :: u64) = unat m - len - 3" using u(2) by (intro u64_size) simp
  moreover have "unat (word_of_nat (n + 4) :: u64) = n + 4" using assms u(2) by (intro u64_size) simp
  ultimately show ?thesis using assms by (simp only: word_less_nat_alt)
qed

lemma list_loop_listing:
  assumes "holds_tree (child_tree ns p) t" "node_order.ordered ns t" "unat m \<le> room"
    and "\<And>p. prefix = Some p \<Longrightarrow> NUL \<notin> set (byte_chars p)"
    and "inorder t = xs @ ys" "holds_text room reply q" "length q + length (listing ns prefix ys) + 5 \<le> unat m"
  shows "\<exists>reply'. list_loop ns m prefix (if ys = [] then None else Some (hd ys)) reply = Some reply' \<and>
    holds_text room reply' (q @ listing ns prefix ys)"
  using assms(5-7)
proof (induction ys arbitrary: xs reply q)
  case Nil
  then show ?case by (simp add: list_loop.simps)
next
  case (Cons y ys)
  have "y \<in> set_tree t" using Cons.prems(1) by (metis in_set_conv_decomp set_inorder)
  then have key: "node_key ns y \<in> ascii_names" using assms(2) by (auto simp: node_order.ordered_def)
  note name = no_name_key [OF key]
  let ?l = "link_text prefix (nodes ns y) (node_key ns y)"
  let ?sep = "if ys = [] then [] else '',''"
  have app: "appends room m (?l @ ?sep)
      (\<lambda>reply. Option.bind (list_entry m prefix (nodes ns y) (node_key ns y) reply) (cat m ?sep))"
    by (intro appends_bind list_entry_appends appends_cat) (use assms(3,4) byte_chars_no_NUL [OF key] in auto)
  have len: "length q + length (?l @ ?sep) < unat m" using Cons.prems(3) by (auto split: if_splits)
  obtain r where r: "Option.bind (list_entry m prefix (nodes ns y) (node_key ns y) reply) (cat m ?sep) = Some r"
      "holds_text room r (q @ ?l @ ?sep)"
    using app Cons.prems(2) len unfolding appends_def by blast
  have nb: "\<not> (word_of_nat (length (node_key ns y) + 4) :: u64) > ucast m - word_of_nat (length q) - 3"
    using Cons.prems(3) link_text_length [of "node_key ns y" prefix "nodes ns y"] by (intro list_room) (simp add: byte_chars_def)
  obtain r' where r': "list_loop ns m prefix (if ys = [] then None else Some (hd ys)) r = Some r'"
      "holds_text room r' ((q @ ?l @ ?sep) @ listing ns prefix ys)"
    using Cons.IH [of "xs @ [y]" r "q @ ?l @ ?sep"] Cons.prems(1,3) r(2) by (auto split: if_splits)
  have "list_loop ns m prefix (Some y) reply = list_loop ns m prefix (if ys = [] then None else Some (hd ys)) r"
    using r(1) name holds_text_strlen [OF Cons.prems(2)] nb node_next [OF assms(1) Cons.prems(1)]
    by (subst list_loop.simps) (auto simp: bind_eq_Some_conv)
  then show ?case using r' by (auto split: if_splits)
qed

section \<open>The reply\<close>

lemma node_first:
  assumes "router_inv ns T rank"
  shows "bt_first (node_links ns) (children (nodes ns n)) = Some (if inorder (T n) = [] then None else Some (hd (inorder (T n))))"
proof -
  have "is_tree (child_tree ns n) None (children (nodes ns n)) (T n)" using router_invD(1) [OF assms, of n] by (simp add: holds_tree_def)
  then have "is_tree (node_links ns) None (children (nodes ns n)) (T n)"
    using is_tree_cong [of "T n" "node_links ns" "child_tree ns n"] by simp
  then show ?thesis using bt_first_tree by fastforce
qed

lemma string_bytes_length [simp]: "length (string_bytes s) = length s" "string_bytes (s @ s') = string_bytes s @ string_bytes s'"
  by (simp_all add: string_bytes_def)

lemma uint_option_40: "uint_option_value 40 = [40]"
  by (simp add: uint_option_value_def smcp_calc_uint32_option_size_def u32_bytes_def htonl_def push_bit_eq_mult drop_bit_eq_div Let_def)

text \<open>The listing is written into the packet as its content.\<close>

lemma list_content:
  assumes "router_inv ns T rank" "holds_packet self q" "p_content q = []" "current_transaction self = None"
    and "\<And>p. prefix = Some p \<Longrightarrow> p \<in> ascii_names"
    and "length (packet_front q) + 6 + length (listing ns prefix (inorder (T n))) \<le> 1032"
  shows "\<exists>p threshold bytes reply reply' self'. smcp_outbound_get_content_ptr self = Some (p, threshold, self) \<and>
    out_bytes self = Some bytes \<and> mem_write (byte_chars (drop p bytes)) 0 NUL = Some reply \<and>
    list_loop ns threshold prefix (if inorder (T n) = [] then None else Some (hd (inorder (T n)))) reply = Some reply' \<and>
    out_write p (string_bytes reply') self = Some self' \<and>
    strlen_mem reply' 0 = Some (length (listing ns prefix (inorder (T n)))) \<and>
    (\<exists>out. snd (smcp_outbound_set_content_len (word_of_nat (length (listing ns prefix (inorder (T n))))) self') = self\<lparr>outbound := out\<rparr> \<and>
       out_saddr out = out_saddr (outbound self) \<and>
       holds_packet (self\<lparr>outbound := out\<rparr>) (q\<lparr>p_content := string_bytes (listing ns prefix (inorder (T n)))\<rparr>))"
proof -
  let ?l = "listing ns prefix (inorder (T n))"
  let ?p = "length (packet_front q) + 1"
  let ?m = "smcp_outbound_get_space_remaining self"
  obtain zs where zs: "packet_bytes (outbound self) = packet_front q @ 0xFF # zs" "length zs + ?p = 1033"
    using assms(2,3) by (auto simp: holds_packet_def)
  have m: "unat ?m = 1032 - ?p" using holds_packet_space [OF assms(2)] assms(3) by simp
  obtain z zs1 where z: "zs = z # zs1" using zs(2) assms(6) by (cases zs) auto
  let ?r = "NUL # byte_chars zs1"
  have "holds_text (length zs) ?r []" by (simp add: holds_text_def z byte_chars_def)
  moreover have "unat ?m \<le> length zs" "length ([] :: string) + length ?l + 5 \<le> unat ?m" using m zs(2) assms(6) by auto
  ultimately obtain reply' where r:
      "list_loop ns ?m prefix (if inorder (T n) = [] then None else Some (hd (inorder (T n)))) ?r = Some reply'"
      "holds_text (length zs) reply' ?l"
    using list_loop_listing [OF router_invD(1) [OF assms(1), of n] router_invD(2) [OF assms(1), of n], of ?m "length zs" prefix
        "[]" "inorder (T n)" ?r "[]"] assms(5) byte_chars_no_NUL by auto
  then obtain ws where ws: "reply' = ?l @ NUL # ws" "length reply' = length zs" by (auto simp: holds_text_def)
  have "out_write ?p (string_bytes reply') self =
      Some (set_outbound (\<lambda>out. out\<lparr>packet_bytes := packet_front q @ 0xFF # string_bytes reply'\<rparr>) self)"
    using assms(2) zs(1) ws(2) mem_write_n_split [of ?p "packet_front q @ [0xFF]" zs "string_bytes reply'" "[]"]
    by (simp add: out_write_def out_bytes_def holds_packet_def)
  moreover have "smcp_outbound_get_content_ptr self = Some (?p, ?m, self)"
    using content_ptr_idle [OF assms(2,4)] assms(2,3) by (simp add: holds_packet_def)
  moreover have "mem_write (byte_chars (drop ?p (packet_bytes (outbound self)))) 0 NUL = Some ?r"
    by (simp add: zs(1) z byte_chars_def mem_write_def)
  moreover have "packet_front (q\<lparr>p_content := c\<rparr>) = packet_front q" "packet_ok (q\<lparr>p_content := c\<rparr>) = packet_ok q" for c
    by (simp_all add: packet_front_def packet_head_def packet_ok_def)
  ultimately show ?thesis
    using assms(2,6) r(1) holds_text_strlen [OF r(2)] ws zs
    by (auto simp: smcp_outbound_set_content_len_def holds_packet_def out_bytes_def)
qed

lemma list_reply_sends:
  assumes "router_inv ns T rank" "\<And>p. prefix = Some p \<Longrightarrow> p \<in> ascii_names" "length (listing ns prefix (inorder (T n))) \<le> 1000"
    and "\<not> did_respond self" "\<not> is_responding self" "is_processing_message self" "inbound_holds self p"
    and "length (packet_bytes (outbound self)) = 1033" "current_transaction self = None" "take 2 (in_saddr (inbound self)) \<noteq> [0, 0]"
  shows "\<exists>self' q. list_reply env ns n prefix self = Some (send_status (env_send env (packet_wire q) (in_saddr (inbound self))), self') \<and>
    sent_packets self' = (packet_wire q, in_saddr (inbound self)) # sent_packets self \<and>
    response_to p (word_of_nat (HTTP_TO_COAP_CODE 205)) q \<and> p_options q = [(12, [40])] \<and>
    p_content q = string_bytes (listing ns prefix (inorder (T n)))"
proof -
  let ?code = "word_of_nat (HTTP_TO_COAP_CODE 205) :: u16"
  let ?l = "listing ns prefix (inorder (T n))"
  have "\<not> ?code < COAP_RESULT_100" by simp
  then obtain out q where q: "smcp_outbound_begin_response ?code self =
      Some (SMCP_STATUS_OK, self\<lparr>outbound := out, force_current_outbound_code := False, is_responding := True\<rparr>)"
      "holds_packet (self\<lparr>outbound := out\<rparr>) q" "out_saddr out = in_saddr (inbound self)" "response_to p ?code q"
      "p_options q = []" "p_content q = []"
    using begin_response_holds [OF assms(4-9)] by blast
  let ?s1 = "self\<lparr>outbound := out, force_current_outbound_code := False, is_responding := True\<rparr>"
  have "length (p_token q) \<le> 8" using q(2) by (simp add: holds_packet_def packet_ok_def)
  then have front: "length (packet_front q) \<le> 12" using q(5) by (simp add: packet_front_def packet_head_length)
  have h1: "holds_packet ?s1 q" using q(2) by (simp add: holds_packet_def)
  let ?q2 = "q\<lparr>p_options := [(12, [40])]\<rparr>"
  obtain s2 where s2: "smcp_outbound_add_option (word_of_nat 12) [40] (word_of_nat (length [40 :: u8])) ?s1 = Some (SMCP_STATUS_OK, s2)"
      "holds_packet s2 ?q2" "same_but_packet ?s1 s2"
    using add_option_holds [OF h1 q(6) _ _ , of 12 "[40]"] front assms(9) q(5) by (auto simp: insert_opt_def)
  have f2: "current_transaction s2 = None" "out_saddr (outbound s2) = in_saddr (inbound self)" "sent_packets s2 = sent_packets self"
    using s2(3) q(3) assms(9) by (auto simp: same_but_packet_def)
  have "length (packet_front ?q2) \<le> 18"
    using \<open>length (p_token q) \<le> 8\<close> option_bytes_length [of 0 12 "[40]"] by (simp add: packet_front_def packet_head_length packet_head_def)
  then have room: "length (packet_front ?q2) + 6 + length ?l \<le> 1032" "p_content ?q2 = []" using assms(3) q(6) by simp_all
  obtain c threshold bytes reply reply' s3 out3 where
    c: "smcp_outbound_get_content_ptr s2 = Some (c, threshold, s2)" "out_bytes s2 = Some bytes"
      "mem_write (byte_chars (drop c bytes)) 0 NUL = Some reply"
      "list_loop ns threshold prefix (if inorder (T n) = [] then None else Some (hd (inorder (T n)))) reply = Some reply'"
      "out_write c (string_bytes reply') s2 = Some s3" "strlen_mem reply' 0 = Some (length ?l)"
      "snd (smcp_outbound_set_content_len (word_of_nat (length ?l)) s3) = s2\<lparr>outbound := out3\<rparr>"
      "out_saddr out3 = out_saddr (outbound s2)" "holds_packet (s2\<lparr>outbound := out3\<rparr>) (?q2\<lparr>p_content := string_bytes ?l\<rparr>)"
    using list_content [OF assms(1) s2(2) room(2) f2(1) assms(2) room(1)] by blast
  let ?q3 = "?q2\<lparr>p_content := string_bytes ?l\<rparr>"
  have send: "\<exists>s4. smcp_outbound_send env (s2\<lparr>outbound := out3\<rparr>) = Some (send_status (env_send env (packet_wire ?q3) (in_saddr (inbound self))), s4) \<and>
      sent_packets s4 = (packet_wire ?q3, in_saddr (inbound self)) # sent_packets self"
    using outbound_send_holds [OF c(9), of _ env] c(8) f2 assms(10) by auto
  have "list_reply env ns n prefix self = smcp_outbound_send env (s2\<lparr>outbound := out3\<rparr>)"
    using node_first [OF assms(1)] q(1) s2(1) c(1-7)
    by (simp add: list_reply_def smcp_outbound_add_option_uint_def COAP_CONTENT_TYPE_APPLICATION_LINK_FORMAT_def uint_option_40
        COAP_OPTION_CONTENT_TYPE_def smcp_outbound_set_content_len_def)
  then show ?thesis using send q(4) by (auto simp: response_to_def intro!: exI [of _ ?q3])
qed

section \<open>The request\<close>

text \<open>The scanner behind the last option, as the router leaves it when it has used up the path.\<close>

definition scanned_all :: "smcp_s \<Rightarrow> packet \<Rightarrow> bool" where
  "scanned_all self p \<longleftrightarrow> this_option (inbound self) = Some (length (packet_front p)) \<and>
     in_last_option_key (inbound self) = COAP_OPTION_INVALID"

lemma no_option_equal:
  assumes "inbound_holds self p" "scanned_all self p"
  shows "smcp_inbound_option_strequal self COAP_OPTION_URI_PATH s = Some False"
proof -
  obtain zs where zs: "in_packet (inbound self) = Some (packet_front p @ packet_payload p @ 0 # zs)"
    using assms(1) by (auto simp: inbound_holds_def packet_wire_payload packet_front_def)
  obtain b ys where b: "packet_payload p @ 0 # zs = b # ys" "b = 0 \<or> b = 0xFF"
    by (cases "p_content p = []") (auto simp: packet_payload_def)
  have "mem_read (packet_front p @ packet_payload p @ 0 # zs) (length (packet_front p)) = Some b"
    unfolding b(1) by (simp add: mem_read_def)
  then have "\<exists>d. coap_decode_option (packet_front p @ packet_payload p @ 0 # zs) (length (packet_front p)) (Some COAP_OPTION_INVALID) = Some d \<and>
      decoded_key d = COAP_OPTION_INVALID"
    using b(2) by (auto simp: coap_decode_option_def coap_decode_delta_def coap_decode_len_def decoded_key_def drop_bit_eq_div Let_def)
  then show ?thesis
    using assms(2) zs by (auto simp: smcp_inbound_option_strequal_def scanned_all_def COAP_OPTION_INVALID_def COAP_OPTION_URI_PATH_def)
qed

lemma handle_list_reply:
  assumes "inbound_holds self p" "scanned_all self p"
  shows "smcp_handle_list env ns n self = list_reply env ns n (node_name (nodes ns n)) self"
proof -
  have "scanning self (packet_front p) 65535 [] (packet_payload p)"
    using assms by (auto simp: scanning_def inbound_holds_def scanned_all_def packet_wire_payload packet_front_def packet_payload_def
        COAP_OPTION_INVALID_def)
  from next_option_end [OF this] have "smcp_inbound_next_option self = Some ((COAP_OPTION_INVALID, None), self)"
    using assms(2) by (cases self; cases "inbound self") (simp add: scanned_all_def)
  then have "list_options self = Some (SMCP_STATUS_OK, self)" by (simp add: list_options.simps)
  then show ?thesis
    using no_option_equal [OF assms] by (simp add: smcp_handle_list_def list_well_known_def list_trailing_slash_def)
qed

text \<open>
  A node lists its children: a GET request whose path has been used up, handled by the default
  handler of a node, is answered with one packet of the right message identifier and token, whose
  content, in the link format, is the links of all children in the order of their names, when there is
  room for them.
\<close>

lemma children_listed:
  assumes "router_inv ns T rank" "\<forall>a. node_name (nodes ns n) = Some a \<longrightarrow> a \<in> ascii_names"
    and "length (listing ns (node_name (nodes ns n)) (inorder (T n))) \<le> 1000"
    and "inbound_holds self p" "scanned_all self p" "p_code p = 1"
    and "\<not> did_respond self" "\<not> is_responding self" "is_processing_message self"
    and "length (packet_bytes (outbound self)) = 1033" "current_transaction self = None" "take 2 (in_saddr (inbound self)) \<noteq> [0, 0]"
  shows "\<exists>self' q. smcp_default_request_handler env ns n self =
      Some (send_status (env_send env (packet_wire q) (in_saddr (inbound self))), self') \<and>
    sent_packets self' = (packet_wire q, in_saddr (inbound self)) # sent_packets self \<and>
    response_to p (word_of_nat (HTTP_TO_COAP_CODE 205)) q \<and> p_options q = [(12, [40])] \<and>
    p_content q = string_bytes (listing ns (node_name (nodes ns n)) (inorder (T n)))"
proof -
  have "smcp_inbound_get_code self = Some 1"
    using inbound_holds_fields [OF assms(4)] assms(6) by (auto simp: smcp_inbound_get_code_def smcp_inbound_get_packet_def)
  then have "smcp_default_request_handler env ns n self = list_reply env ns n (node_name (nodes ns n)) self"
    using handle_list_reply [OF assms(4,5)] by (simp add: smcp_default_request_handler_def)
  then show ?thesis
    using list_reply_sends [OF assms(1) _ assms(3,7-9,4,10-12), of env] assms(2) by simp
qed

text \<open>The router uses up a path that leads to a node.\<close>

lemma route_loop_all:
  assumes "scanning self xs prev (map (Pair 11) segs) payload" "walk child n segs = (m, [])"
    and "\<And>n s. s \<in> set segs \<Longrightarrow> smcp_node_find ns n s = Some (child n s)"
  shows "route_loop ns (scan_position self) n self = Some (SMCP_STATUS_OK, m,
    set_inbound (\<lambda>i. i\<lparr>this_option := Some (length xs + length (encode_options prev (map (Pair 11) segs))),
      in_last_option_key := COAP_OPTION_INVALID\<rparr>) self)"
  using assms
proof (induction segs arbitrary: self xs prev n)
  case Nil
  then have "this_option (inbound self) = Some (length xs)" by (simp add: scanning_def)
  then have "(inbound self)\<lparr>this_option := Some (length xs)\<rparr> = inbound self" by (cases "inbound self") simp
  then show ?case
    using next_option_end [of self xs prev payload] Nil by (subst route_loop.simps) (simp add: COAP_OPTION_INVALID_def)
next
  case (Cons s segs)
  obtain self' p packet where n: "smcp_inbound_next_option self = Some ((word_of_nat 11, Some (Some p, word_of_nat (length s))), self')"
      "self' = set_inbound (\<lambda>i. i\<lparr>this_option := Some (length xs + length (option_bytes prev 11 s)), in_last_option_key := word_of_nat 11\<rparr>) self"
      "scanning self' (xs @ option_bytes prev 11 s) 11 (map (Pair 11) segs) payload"
      "in_packet (inbound self') = Some packet" "mem_read_n packet p (unat (word_of_nat (length s) :: u16)) = Some s"
    using next_option_value [of self xs prev 11 s "map (Pair 11) segs" payload] Cons.prems(1) by auto
  obtain k where k: "child n s = Some k" "walk child k segs = (m, [])" using Cons.prems(2) by (cases "child n s") auto
  have "route_loop ns (scan_position self) n self = route_loop ns (scan_position self') k self'"
    using n(1,4,5) Cons.prems(3) [of s n] k(1)
    by (simp add: route_loop.simps [of ns "scan_position self" n self] option_numbers COAP_OPTION_INVALID_def)
  also have "\<dots> = Some (SMCP_STATUS_OK, m,
    set_inbound (\<lambda>i. i\<lparr>this_option := Some (length (xs @ option_bytes prev 11 s) + length (encode_options 11 (map (Pair 11) segs))),
      in_last_option_key := COAP_OPTION_INVALID\<rparr>) self')"
    using Cons.prems(3) by (intro Cons.IH [OF n(3) k(2)]) simp
  finally show ?case unfolding n(2) by (simp add: add.assoc)
qed

text \<open>
  C4: a GET request for the path of a node without a handler of its own is answered with the list of its
  children: the router follows the path, the default handler of the node is called, and one packet is
  sent, with the message identifier and the token of the request, whose content, in the link format,
  is the links of all children in the order of their names, when there is room for them.
\<close>

theorem path_listed:
  assumes "router_inv ns T rank" "inbound_holds self p" "p_code p = 1" "p_options p = map (Pair 11) segs" "set segs \<subseteq> ascii_names"
    and "walk (named_child ns T) root segs = (n, [])" "node_request_handler (nodes ns n) = Some Smcp_default_request_handler"
      "node_context (nodes ns n) = None" "\<forall>a. node_name (nodes ns n) = Some a \<longrightarrow> a \<in> ascii_names"
    and "length (listing ns (node_name (nodes ns n)) (inorder (T n))) \<le> 1000"
    and "\<not> did_respond self" "\<not> is_responding self" "is_processing_message self"
    and "length (packet_bytes (outbound self)) = 1033" "current_transaction self = None" "take 2 (in_saddr (inbound self)) \<noteq> [0, 0]"
  shows "\<exists>self' q. router_request env ns root self =
      Some (send_status (env_send env (packet_wire q) (in_saddr (inbound self))), self') \<and>
    sent_packets self' = (packet_wire q, in_saddr (inbound self)) # sent_packets self \<and>
    response_to p (word_of_nat (HTTP_TO_COAP_CODE 205)) q \<and> p_options q = [(12, [40])] \<and>
    p_content q = string_bytes (listing ns (node_name (nodes ns n)) (inorder (T n)))"
proof -
  obtain i where i: "smcp_inbound_reset_next_option self = Some (self\<lparr>inbound := i\<rparr>)" "in_last_option_key i = 0"
      "scanning (self\<lparr>inbound := i\<rparr>) (packet_head p) 0 (map (Pair 11) segs) (packet_payload p)"
      "i = (inbound self)\<lparr>in_last_option_key := 0, this_option := Some (4 + length (p_token p))\<rparr>"
    using inbound_holds_reset [OF assms(2)] assms(4) by force
  define self' where "self' = set_inbound (\<lambda>i. i\<lparr>this_option := Some (length (packet_front p)),
    in_last_option_key := COAP_OPTION_INVALID\<rparr>) self"
  have "smcp_node_find ns k s = Some (named_child ns T k s)" if "s \<in> set segs" for k s
    using find_named_child [OF assms(1)] that assms(5) by blast
  from route_loop_all [OF i(3) assms(6) this]
  have "route_loop ns (this_option i, 0) root (self\<lparr>inbound := i\<rparr>) = Some (SMCP_STATUS_OK, n, self')"
    using i(2,4) assms(4) by (simp add: scan_position_def self'_def packet_front_def)
  then have "router_request env ns root self = smcp_default_request_handler env ns n self'"
    using i(1) assms(7,8) by (simp add: router_request_def smcp_node_router_handler_def smcp_node_route_def)
  moreover have "inbound_holds self' p" "scanned_all self' p"
    using assms(2) by (simp_all add: self'_def inbound_holds_def scanned_all_def)
  ultimately show ?thesis
    using children_listed [OF assms(1,9,10), of self' p env] assms(3,11-16) by (simp add: self'_def)
qed

text \<open>A request for \<open>/\<close>, and the sample router, whose root gets the default handler.\<close>

definition root_router :: node_heap where
  "root_router = set_node 1 (\<lambda>x. x\<lparr>node_request_handler := Some Smcp_default_request_handler\<rparr>) sample_router"

definition root_packet :: packet where
  "root_packet = sample_packet\<lparr>p_options := []\<rparr>"

lemma root_received:
  "\<exists>self. inbound_holds self root_packet \<and> is_processing_message self \<and> \<not> did_respond self \<and> \<not> is_responding self \<and>
     current_transaction self = None \<and> in_saddr (inbound self) = replicate 28 1 \<and> length (packet_bytes (outbound self)) = 1033"
proof -
  have "packet_ok root_packet" "empty_ok root_packet" "plain_keys (p_options root_packet)" "length (packet_wire root_packet) \<le> 1240"
    by (simp_all add: root_packet_def sample_packet_def packet_ok_def empty_ok_def COAP_VERSION_def header_version_def
        header_token_len_def packet_wire_payload packet_payload_def packet_head_length COAP_CODE_EMPTY_def drop_bit_eq_div word_unat_eq_iff)
  from start_packet_holds [OF this] obtain i where i: "inbound_holds (zero_state\<lparr>inbound := i\<rparr>) root_packet" by blast
  let ?s = "zero_state\<lparr>inbound := i\<lparr>in_saddr := replicate 28 1\<rparr>, is_processing_message := True\<rparr>"
  have "inbound_holds ?s root_packet" using i by (simp add: inbound_holds_def)
  then show ?thesis using zero_state_begin(1) by (intro exI [of _ ?s]) (simp add: zero_smcp_def)
qed

lemma root_router_inv: "router_inv root_router sample_trees ((\<lambda>_. 0)(1 := 1))"
  by (rule router_invI)
    (auto simp: root_router_def sample_router_def zero_node_def child_tree_def holds_tree_def node_key_def node_order.ordered_simps split: if_splits)

theorem path_listed_witness:
  "\<exists>self self' q st. router_request accepting_env root_router 1 self = Some (st, self') \<and>
     sent_packets self' = (packet_wire q, replicate 28 1) # sent_packets self \<and> p_content q = string_bytes ''<a>''"
proof -
  obtain self where s: "inbound_holds self root_packet" "\<not> did_respond self" "\<not> is_responding self" "is_processing_message self"
      "length (packet_bytes (outbound self)) = 1033" "current_transaction self = None" "in_saddr (inbound self) = replicate 28 1"
    using root_received by blast
  then have a: "take 2 (in_saddr (inbound self)) \<noteq> [0, 0]" using sample_family by simp
  have l: "listing root_router (node_name (nodes root_router 1)) (inorder (sample_trees 1)) = ''<a>''"
    by (simp add: root_router_def sample_router_def link_text_def zero_node_def node_key_def byte_chars_def encode_char_def
        isurlchar_def isalnum_def isalpha_def isupper_def islower_def isdigit_def char_code_def char_of_def bit_0)
  have h: "p_code root_packet = 1" "p_options root_packet = map (Pair 11) []" "set [] \<subseteq> ascii_names"
      "walk (named_child root_router sample_trees) 1 [] = (1, [])"
      "node_request_handler (nodes root_router 1) = Some Smcp_default_request_handler" "node_context (nodes root_router 1) = None"
      "\<forall>a. node_name (nodes root_router 1) = Some a \<longrightarrow> a \<in> ascii_names"
      "length (listing root_router (node_name (nodes root_router 1)) (inorder (sample_trees 1))) \<le> 1000"
    unfolding l by (simp_all add: root_packet_def sample_packet_def root_router_def sample_router_def zero_node_def)
  show ?thesis
    using path_listed [OF root_router_inv s(1) h s(2-6) a, of accepting_env] unfolding l s(7) by blast
qed

end
