(* ===== verification/Observable.thy ===== *)
theory Observable
  imports Instance Outbound_Packet
begin

text \<open>
  Observable resources (\<^verbatim>\<open>src/smcp/smcp-observable.c\<close>): the table of observers, the lists of observers of
  each observable context that are threaded through it, and the notifications.

  The observers of a context form a list: \<open>first_observer\<close> and \<open>next\<close> hold the index of an entry plus
  one, or 0 at the end. An access outside of the table is \<^const>\<open>None\<close>, and so is a loop that does not
  end. The transaction of an entry is part of the entry in C; here it lies among the transactions of
  the instance, at an address that depends on the index. The pointer to the instance in a context is
  set or null.
\<close>

section \<open>The table\<close>

definition SMCP_MAX_OBSERVERS :: nat where "SMCP_MAX_OBSERVERS = 8"
definition SMCP_OBSERVABLE_BROADCAST_KEY :: u8 where "SMCP_OBSERVABLE_BROADCAST_KEY = 0xFF"
definition SMCP_OBSERVER_CON_EVENT_EXPIRATION :: int where "SMCP_OBSERVER_CON_EVENT_EXPIRATION = 30 * MSEC_PER_SEC"
definition SMCP_OBSERVER_NON_EVENT_EXPIRATION :: int where "SMCP_OBSERVER_NON_EVENT_EXPIRATION = 1 * MSEC_PER_SEC"

record smcp_observer_s =
  observable :: "addr option"
  next_observer :: int
  observer_key :: u8
  observer_seq :: u32
  async_response :: smcp_async_response_s

record smcp_observable_s =
  interface :: bool
  first_observer :: int
  last_observer :: int

record observers =
  observer_table :: "smcp_observer_s list"
  observables :: "addr \<Rightarrow> smcp_observable_s"
  observer_transaction :: "nat \<Rightarrow> addr"

definition SHOULD_CONFIRM_EVENT_FOR_OBSERVER :: "smcp_observer_s \<Rightarrow> bool" where
  "SHOULD_CONFIRM_EVENT_FOR_OBSERVER obs \<longleftrightarrow> observer_seq obs AND 7 = 0"

text \<open>Access to an entry by an index that may be negative.\<close>

definition observer_at :: "observers \<Rightarrow> int \<Rightarrow> smcp_observer_s option" where
  "observer_at os i = (if 0 \<le> i \<and> i < int (length (observer_table os)) then Some (observer_table os ! nat i) else None)"

definition set_observer :: "int \<Rightarrow> (smcp_observer_s \<Rightarrow> smcp_observer_s) \<Rightarrow> observers \<Rightarrow> observers option" where
  "set_observer i f os =
     map_option (\<lambda>x. os\<lparr>observer_table := (observer_table os)[nat i := f x]\<rparr>) (observer_at os i)"

abbreviation set_observable :: "addr \<Rightarrow> (smcp_observable_s \<Rightarrow> smcp_observable_s) \<Rightarrow> observers \<Rightarrow> observers" where
  "set_observable c f os \<equiv> os\<lparr>observables := (observables os)(c := f (observables os c))\<rparr>"

abbreviation transaction_at :: "observers \<Rightarrow> int \<Rightarrow> addr" where
  "transaction_at os i \<equiv> observer_transaction os (nat i)"

definition unused_observer :: "observers \<Rightarrow> smcp_s \<Rightarrow> nat \<Rightarrow> bool" where
  "unused_observer os self i \<longleftrightarrow>
     (let x = observer_table os ! i
      in request_len (async_response x) = 0 \<and> next_observer x = 0 \<and> \<not> active (trans self (observer_transaction os i)))"

definition get_unused_observer_index :: "observers \<Rightarrow> smcp_s \<Rightarrow> int" where
  "get_unused_observer_index os self =
     (case List.find (unused_observer os self) [0..<SMCP_MAX_OBSERVERS] of Some i \<Rightarrow> int i | None \<Rightarrow> - 1)"

section \<open>Removing an observer\<close>

text \<open>The loop that looks for the entry before; it is \<open>i\<close> that it changes, not \<open>prev\<close>.\<close>

partial_function (option) free_observer_loop :: "observers \<Rightarrow> int \<Rightarrow> int \<Rightarrow> int option" where
  "free_observer_loop os prev i =
     (if prev \<ge> 0
      then Option.bind (observer_at os prev) (\<lambda>p.
           if next_observer p = i then Some i
           else Option.bind (observer_at os i) (\<lambda>x. free_observer_loop os prev (next_observer x - 1)))
      else Some i)"

definition free_observer :: "smcp_env \<Rightarrow> int \<Rightarrow> observers \<Rightarrow> smcp_s \<Rightarrow> (observers \<times> smcp_s) option" where
  "free_observer env index os self = do {
     let i = index;
     x \<leftarrow> observer_at os index;
     (os, self) \<leftarrow>
       (case observable x of
          None \<Rightarrow> Some (os, self)
        | Some c \<Rightarrow> do {
            (_, self) \<leftarrow> smcp_transaction_end env (transaction_at os index) self;
            let context = observables os c;
            if first_observer context = i + 1 \<and> last_observer context = i + 1
            then Some (set_observable c (\<lambda>y. y\<lparr>first_observer := 0, last_observer := 0\<rparr>) os, self)
            else if first_observer context = i + 1
            then Some (set_observable c (\<lambda>y. y\<lparr>first_observer := next_observer x\<rparr>) os, self)
            else do {
              let prev = first_observer context - 1;
              i \<leftarrow> free_observer_loop os prev i;
              x \<leftarrow> observer_at os i;
              os \<leftarrow> set_observer prev (\<lambda>p. p\<lparr>next_observer := next_observer x\<rparr>) os;
              Some (if last_observer context = i + 1
                    then set_observable c (\<lambda>y. y\<lparr>last_observer := prev\<rparr>) os else os, self)
            }
          });
     os \<leftarrow> set_observer index (\<lambda>x. x\<lparr>async_response := snd (smcp_finish_async_response (async_response x))\<rparr>) os;
     Some (os, self)
   }"

section \<open>Observing a resource\<close>

text \<open>The observer of a key that the current request comes from, or \<open>- 1\<close>.\<close>

partial_function (option) find_observer :: "observers \<Rightarrow> u8 \<Rightarrow> smcp_s \<Rightarrow> int \<Rightarrow> int option" where
  "find_observer os key self i =
     (if i \<ge> 0
      then Option.bind (observer_at os i) (\<lambda>x.
           if observer_key x = key \<and> smcp_inbound_is_related_to_async_response (async_response x) self then Some i
           else find_observer os key self (next_observer x - 1))
      else Some i)"

text \<open>A new entry at the end of the list of a context; \<open>- 1\<close> when the table is full.\<close>

definition add_observer :: "addr \<Rightarrow> u8 \<Rightarrow> observers \<Rightarrow> smcp_s \<Rightarrow> (int \<times> observers) option" where
  "add_observer c key os self = do {
     let i = get_unused_observer_index os self;
     if i = - 1 then Some (i, os)
     else do {
       let context = observables os c;
       os \<leftarrow> (if last_observer context = 0
              then Some (set_observable c (\<lambda>y. y\<lparr>first_observer := i + 1, last_observer := i + 1\<rparr>) os)
              else do {
                os \<leftarrow> set_observer (last_observer context - 1) (\<lambda>x. x\<lparr>next_observer := i + 1\<rparr>) os;
                Some (set_observable c (\<lambda>y. y\<lparr>last_observer := i + 1\<rparr>) os)
              });
       os \<leftarrow> set_observer i (\<lambda>x. x\<lparr>observer_key := key, observer_seq := 0, observable := Some c\<rparr>) os;
       Some (i, os)
     }
   }"

definition smcp_observable_update ::
    "smcp_env \<Rightarrow> addr \<Rightarrow> u8 \<Rightarrow> observers \<Rightarrow> smcp_s \<Rightarrow> (smcp_status_t \<times> observers \<times> smcp_s) option" where
  "smcp_observable_update env c key os self = do {
     let os = set_observable c (\<lambda>y. y\<lparr>interface := True\<rparr>) os;
     if in_packet (inbound self) = None \<or> is_fake (inbound self) \<or> is_dupe (inbound self)
     then Some (SMCP_STATUS_OK, os, self)
     else do {
       i \<leftarrow> find_observer os key self (first_observer (observables os c) - 1);
       if has_observe_option (inbound self) then do {
         (i, os) \<leftarrow> (if i = - 1 then add_observer c key os self else Some (i, os));
         if i = - 1 then Some (SMCP_STATUS_OK, os, self)
         else do {
           x \<leftarrow> observer_at os i;
           (_, a, self) \<leftarrow> smcp_start_async_response env (Some (async_response x)) True self;
           a \<leftarrow> a;
           os \<leftarrow> set_observer i (\<lambda>x. x\<lparr>async_response := a\<rparr>) os;
           (ret, self) \<leftarrow> smcp_outbound_add_option_uint COAP_OPTION_OBSERVE (observer_seq x) self;
           Some (ret, os, self)
         }
       }
       else if i \<noteq> - 1 then do {
         (os, self) \<leftarrow> free_observer env i os self;
         Some (SMCP_STATUS_OK, os, self)
       }
       else Some (SMCP_STATUS_OK, os, self)
     }
   }"

section \<open>Notifications\<close>

text \<open>The callback of the transaction of an observer.\<close>

definition event_status :: "smcp_status_t \<Rightarrow> smcp_observer_s \<Rightarrow> smcp_status_t" where
  "event_status statuscode x =
     (let statuscode = (if statuscode = SMCP_STATUS_TIMEOUT
                        then if SHOULD_CONFIRM_EVENT_FOR_OBSERVER x then SMCP_STATUS_RESET else SMCP_STATUS_OK
                        else statuscode)
      in if statuscode \<noteq> SMCP_STATUS_TRANSACTION_INVALIDATED \<and> statuscode \<noteq> 0 \<and>
            (statuscode < int (HTTP_TO_COAP_CODE 200) \<or> statuscode \<ge> int (HTTP_TO_COAP_CODE 400))
         then SMCP_STATUS_RESET else statuscode)"

definition event_response_handler ::
    "smcp_env \<Rightarrow> smcp_status_t \<Rightarrow> int \<Rightarrow> observers \<Rightarrow> smcp_s \<Rightarrow> (smcp_status_t \<times> observers \<times> smcp_s) option" where
  "event_response_handler env statuscode i os self = do {
     x \<leftarrow> observer_at os i;
     if event_status statuscode x = SMCP_STATUS_RESET then do {
       (os, self) \<leftarrow> free_observer env i os self;
       Some (SMCP_STATUS_RESET, os, self)
     }
     else Some (SMCP_STATUS_OK, os, self)
   }"

text \<open>
  The resend function of the transaction. The request handler is called on the stored request, which
  is marked as fake: an update of the observers that it makes is one that leaves the lists alone.
\<close>

definition send_event :: "smcp_env \<Rightarrow> smcp_observer_s \<Rightarrow> smcp_s \<Rightarrow> (smcp_status_t \<times> smcp_s) option" where
  "send_event env x self = do {
     (status, self) \<leftarrow> smcp_outbound_begin_async_response (word_of_nat (HTTP_TO_COAP_CODE 205)) (async_response x) self;
     if status \<noteq> SMCP_STATUS_OK then Some (status, self)
     else do {
       (status, self) \<leftarrow> smcp_outbound_add_option_uint COAP_OPTION_OBSERVE (observer_seq x) self;
       if status \<noteq> SMCP_STATUS_OK then Some (status, self)
       else do {
         self \<leftarrow> out_header (with_tt (if SHOULD_CONFIRM_EVENT_FOR_OBSERVER x
                   then COAP_TRANS_TYPE_CONFIRMABLE else COAP_TRANS_TYPE_NONCONFIRMABLE)) self;
         let self = (set_inbound (\<lambda>i. i\<lparr>has_observe_option := True\<rparr>) self)\<lparr>is_responding := True,
                      force_current_outbound_code := True, is_processing_message := True, did_respond := False\<rparr>;
         (status, self) \<leftarrow> smcp_handle_request env self;
         if status = SMCP_STATUS_NOT_FOUND \<or> status = SMCP_STATUS_NOT_ALLOWED then do {
           let (_, self) = smcp_outbound_set_content_len 0 self;
           (_, self) \<leftarrow> smcp_outbound_send env self;
           Some (status, self)
         }
         else Some (status, self)
       }
     }
   }"

definition retry_sending_event :: "smcp_env \<Rightarrow> int \<Rightarrow> observers \<Rightarrow> smcp_s \<Rightarrow> (smcp_status_t \<times> smcp_s) option" where
  "retry_sending_event env i os self = do {
     x \<leftarrow> observer_at os i;
     (status, self) \<leftarrow> send_event env x self;
     Some (status, self\<lparr>is_processing_message := False, did_respond := False\<rparr>)
   }"

definition concerns_key :: "u8 \<Rightarrow> smcp_observer_s \<Rightarrow> bool" where
  "concerns_key key x \<longleftrightarrow> observer_key x = SMCP_OBSERVABLE_BROADCAST_KEY \<or> key = SMCP_OBSERVABLE_BROADCAST_KEY \<or> observer_key x = key"

text \<open>The event of one observer. \<open>retry\<close> and \<open>response\<close> are the two functions above.\<close>

definition trigger_observer ::
    "smcp_env \<Rightarrow> fn \<Rightarrow> fn \<Rightarrow> int \<Rightarrow> observers \<Rightarrow> smcp_s \<Rightarrow> (smcp_status_t option \<times> observers \<times> smcp_s) option" where
  "trigger_observer env retry response i os self = do {
     os \<leftarrow> set_observer i (\<lambda>x. x\<lparr>observer_seq := observer_seq x + 1\<rparr>) os;
     x \<leftarrow> observer_at os i;
     let t = transaction_at os i;
     if active (trans self t) then do {
       let (mid, self) = smcp_get_next_msg_id self;
       self \<leftarrow> smcp_transaction_new_msg_id env t mid self;
       (_, self) \<leftarrow> smcp_transaction_tickle env t self;
       Some (None, os, self)
     }
     else do {
       let self = smcp_transaction_init t False 0 (Some retry) (Some response) (Some (nat i)) self;
       (ret, self) \<leftarrow> smcp_transaction_begin env (Some t)
         (if SHOULD_CONFIRM_EVENT_FOR_OBSERVER x then SMCP_OBSERVER_CON_EVENT_EXPIRATION
          else SMCP_OBSERVER_NON_EVENT_EXPIRATION) self;
       Some (Some ret, os, self)
     }
   }"

partial_function (option) trigger_loop ::
    "smcp_env \<Rightarrow> fn \<Rightarrow> fn \<Rightarrow> u8 \<Rightarrow> smcp_status_t \<Rightarrow> int \<Rightarrow> observers \<Rightarrow> smcp_s \<Rightarrow> (smcp_status_t \<times> observers \<times> smcp_s) option" where
  "trigger_loop env retry response key ret i os self =
     (if i \<ge> 0
      then Option.bind (observer_at os i) (\<lambda>x.
           if \<not> concerns_key key x then trigger_loop env retry response key ret (next_observer x - 1) os self
           else Option.bind (trigger_observer env retry response i os self) (\<lambda>(r, os, self).
             Option.bind (observer_at os i) (\<lambda>x.
             trigger_loop env retry response key (case r of Some r \<Rightarrow> r | None \<Rightarrow> ret) (next_observer x - 1) os self)))
      else Some (ret, os, self))"

definition smcp_observable_trigger ::
    "smcp_env \<Rightarrow> fn \<Rightarrow> fn \<Rightarrow> addr \<Rightarrow> u8 \<Rightarrow> observers \<Rightarrow> smcp_s \<Rightarrow> (smcp_status_t \<times> observers \<times> smcp_s) option" where
  "smcp_observable_trigger env retry response c key os self =
     (if \<not> interface (observables os c) then Some (SMCP_STATUS_OK, os, self)
      else if first_observer (observables os c) = 0 then Some (SMCP_STATUS_OK, os, self)
      else trigger_loop env retry response key SMCP_STATUS_OK (first_observer (observables os c) - 1) os self)"

partial_function (option) count_loop :: "observers \<Rightarrow> u8 \<Rightarrow> int \<Rightarrow> int \<Rightarrow> int option" where
  "count_loop os key i n =
     (if i \<ge> 0
      then Option.bind (observer_at os i) (\<lambda>x.
           count_loop os key (next_observer x - 1) (if concerns_key key x then n + 1 else n))
      else Some n)"

definition smcp_observable_observer_count :: "observers \<Rightarrow> addr \<Rightarrow> u8 \<Rightarrow> int option" where
  "smcp_observable_observer_count os c key =
     (if first_observer (observables os c) = 0 then Some 0
      else count_loop os key (first_observer (observables os c) - 1) 0)"

declare free_observer_loop.simps [code] find_observer.simps [code] trigger_loop.simps [code] count_loop.simps [code]

section \<open>The list of observers of a context\<close>

fun chain :: "smcp_observer_s list \<Rightarrow> int \<Rightarrow> nat list \<Rightarrow> bool" where
  "chain t n [] \<longleftrightarrow> n = 0"
| "chain t n (i # is) \<longleftrightarrow> n = int i + 1 \<and> i < length t \<and> chain t (next_observer (t ! i)) is"

definition observed :: "observers \<Rightarrow> addr \<Rightarrow> nat list \<Rightarrow> bool" where
  "observed os c is \<longleftrightarrow> chain (observer_table os) (first_observer (observables os c)) is \<and> distinct is \<and>
     last_observer (observables os c) = (if is = [] then 0 else int (last is) + 1)"

lemma observer_at_nat: "observer_at os (int i) = (if i < length (observer_table os) then Some (observer_table os ! i) else None)"
  by (simp add: observer_at_def)

lemma set_observer_nat:
  "set_observer (int i) f os = (if i < length (observer_table os)
     then Some (os\<lparr>observer_table := (observer_table os)[i := f (observer_table os ! i)]\<rparr>) else None)"
  by (simp add: set_observer_def observer_at_nat)

lemma chain_bound: "chain t n is \<Longrightarrow> i \<in> set is \<Longrightarrow> i < length t"
  by (induction "is" arbitrary: n) auto

text \<open>A list depends on the links of its own entries only.\<close>

lemma chain_cong:
  assumes "\<forall>i \<in> set is. next_observer (t' ! i) = next_observer (t ! i)" "length t' = length t"
  shows "chain t' n is = chain t n is"
  using assms by (induction "is" arbitrary: n) auto

lemma chain_append:
  assumes "chain t n (is @ [l])" "distinct (is @ [l])" "i < length t" "i \<notin> set (is @ [l])" "next_observer (t ! i) = 0"
  shows "chain (t[l := (t ! l)\<lparr>next_observer := int i + 1\<rparr>]) n (is @ [l, i])"
  using assms
proof (induction "is" arbitrary: n)
  case (Cons j "is")
  then show ?case by auto
qed auto

text \<open>The loops end on a list without a cycle.\<close>

lemma count_loop_chain:
  assumes "chain (observer_table os) n is"
  shows "count_loop os key (n - 1) k = Some (k + int (length (filter (\<lambda>i. concerns_key key (observer_table os ! i)) is)))"
  using assms
proof (induction "is" arbitrary: n k)
  case (Cons i "is")
  then show ?case by (subst count_loop.simps) (simp add: observer_at_nat)
qed (simp add: count_loop.simps)

lemma observer_count_chain:
  assumes "observed os c is"
  shows "smcp_observable_observer_count os c key =
    Some (int (length (filter (\<lambda>i. concerns_key key (observer_table os ! i)) is)))"
proof (cases "is")
  case Nil
  then show ?thesis using assms by (simp add: observed_def smcp_observable_observer_count_def)
next
  case (Cons i js)
  then show ?thesis
    using assms count_loop_chain [of os "first_observer (observables os c)" "is" key 0]
    by (auto simp: observed_def smcp_observable_observer_count_def)
qed

lemma get_unused_Some:
  assumes "get_unused_observer_index os self = int i"
  shows "unused_observer os self i" "i < SMCP_MAX_OBSERVERS"
proof -
  have "List.find (unused_observer os self) [0..<SMCP_MAX_OBSERVERS] = Some i"
    using assms by (auto simp: get_unused_observer_index_def split: option.splits)
  then show "unused_observer os self i" "i < SMCP_MAX_OBSERVERS" by (auto simp: find_Some_iff)
qed

text \<open>What is written when an observer is added.\<close>

lemma add_observer_result:
  assumes "observed os c is" "i < length (observer_table os)" "i \<notin> set is" "next_observer (observer_table os ! i) = 0"
    and "get_unused_observer_index os self = int i"
  shows "\<exists>os'. add_observer c key os self = Some (int i, os') \<and> observed os' c (is @ [i]) \<and>
    length (observer_table os') = length (observer_table os) \<and> observer_key (observer_table os' ! i) = key \<and>
    (\<forall>j. j \<noteq> i \<longrightarrow> observer_key (observer_table os' ! j) = observer_key (observer_table os ! j)) \<and>
    (\<forall>j. j \<notin> insert i (set is) \<longrightarrow> observer_table os' ! j = observer_table os ! j) \<and>
    (\<forall>d. d \<noteq> c \<longrightarrow> observables os' d = observables os d) \<and> observer_transaction os' = observer_transaction os \<and>
    (\<forall>j. async_response (observer_table os' ! j) = async_response (observer_table os ! j)) \<and>
    (\<forall>j. next_observer (observer_table os' ! j) = 0 \<longrightarrow> next_observer (observer_table os ! j) = 0)"
proof (cases "is" rule: rev_cases)
  case Nil
  then show ?thesis
    using assms by (auto simp: add_observer_def Let_def observed_def set_observer_nat nth_list_update)
next
  case (snoc js l)
  have l: "l < length (observer_table os)" "l \<noteq> i" "l \<noteq> i" "i \<notin> set js"
    using assms(1,3) chain_bound [of "observer_table os" _ "is" l] by (auto simp: observed_def snoc)
  define t where "t = (observer_table os)[l := (observer_table os ! l)\<lparr>next_observer := int i + 1\<rparr>]"
  define t' where "t' = t[i := (observer_table os ! i)\<lparr>observer_key := key, observer_seq := 0, observable := Some c\<rparr>]"
  let ?os = "os\<lparr>observables := (observables os)(c := (observables os c)\<lparr>last_observer := int i + 1\<rparr>), observer_table := t'\<rparr>"
  have "chain t (first_observer (observables os c)) (js @ [l, i])"
    unfolding t_def using assms snoc by (intro chain_append) (auto simp: observed_def)
  moreover have "\<forall>j. next_observer (t' ! j) = next_observer (t ! j)"
  proof
    fix j
    show "next_observer (t' ! j) = next_observer (t ! j)"
      using assms(2,4) l by (cases "j = i") (auto simp: t'_def t_def)
  qed
  ultimately have "observed ?os c (is @ [i])"
    using chain_cong [of "js @ [l, i]" t' t] assms(1,3) snoc by (auto simp: observed_def t'_def)
  moreover have "add_observer c key os self = Some (int i, ?os)"
    using assms(1,2,5) snoc l set_observer_nat [of l] by (simp add: add_observer_def Let_def observed_def set_observer_nat t_def t'_def)
  moreover have "observer_key (t' ! j) = (if j = i then key else observer_key (observer_table os ! j))" for j
    using assms(2) l(1) by (cases "j = l") (auto simp: t'_def t_def)
  moreover have "t' ! j = observer_table os ! j" if "j \<notin> insert i (set is)" for j
    using that snoc by (auto simp: t'_def t_def)
  moreover have "length t' = length (observer_table os)" by (simp add: t'_def t_def)
  moreover have "async_response (t' ! j) = async_response (observer_table os ! j)" for j
    using assms(2) l(1) by (cases "j = l"; cases "j = i") (simp_all add: t'_def t_def)
  moreover have "next_observer (t' ! j) = 0 \<longrightarrow> next_observer (observer_table os ! j) = 0" for j
    using assms(2) l(1) by (cases "j = l"; cases "j = i") (simp_all add: t'_def t_def)
  ultimately show ?thesis by (intro exI [of _ ?os]) simp
qed

text \<open>
  C15: a new observer is added at the end of the list of its context, under the first entry that is not
  in use; it is counted, and the lists of other contexts are as they were. Every entry in a list
  holds the request it was made for.
\<close>

theorem observer_added:
  assumes "observed os c is" "length (observer_table os) = SMCP_MAX_OBSERVERS"
    and "\<forall>j \<in> set is. request_len (async_response (observer_table os ! j)) \<noteq> 0"
    and "get_unused_observer_index os self = int i"
  shows "\<exists>os'. add_observer c key os self = Some (int i, os') \<and> observed os' c (is @ [i]) \<and>
    smcp_observable_observer_count os' c key = map_option (\<lambda>n. n + 1) (smcp_observable_observer_count os c key) \<and>
    (\<forall>d js. d \<noteq> c \<and> observed os d js \<and> set js \<inter> insert i (set is) = {} \<longrightarrow> observed os' d js)"
proof -
  have u: "unused_observer os self i" "i < length (observer_table os)" using get_unused_Some [OF assms(4)] assms(2) by simp_all
  then have i: "i \<notin> set is" "next_observer (observer_table os ! i) = 0"
    using assms(3) by (auto simp: unused_observer_def Let_def)
  obtain os' where os': "add_observer c key os self = Some (int i, os')" "observed os' c (is @ [i])"
      "length (observer_table os') = length (observer_table os)" "observer_key (observer_table os' ! i) = key"
      "\<And>j. j \<noteq> i \<Longrightarrow> observer_key (observer_table os' ! j) = observer_key (observer_table os ! j)"
      "\<And>j. j \<notin> insert i (set is) \<Longrightarrow> observer_table os' ! j = observer_table os ! j"
      "\<And>d. d \<noteq> c \<Longrightarrow> observables os' d = observables os d"
    using add_observer_result [OF assms(1) u(2) i assms(4), of key] by (elim exE conjE) blast
  have "observer_key (observer_table os' ! j) = observer_key (observer_table os ! j)" if "j \<in> set is" for j
    using os'(5) [of j] i(1) that by blast
  then have "filter (\<lambda>j. concerns_key key (observer_table os' ! j)) is = filter (\<lambda>j. concerns_key key (observer_table os ! j)) is"
    by (intro filter_cong) (simp_all add: concerns_key_def)
  then have "smcp_observable_observer_count os' c key = map_option (\<lambda>n. n + 1) (smcp_observable_observer_count os c key)"
    using observer_count_chain [OF os'(2), of key] observer_count_chain [OF assms(1), of key] os'(4) by (simp add: concerns_key_def)
  moreover have "observed os' d js" if d: "d \<noteq> c" "observed os d js" "set js \<inter> insert i (set is) = {}" for d js
  proof -
    have "\<forall>j \<in> set js. next_observer (observer_table os' ! j) = next_observer (observer_table os ! j)"
      using d(3) os'(6) by (metis disjoint_iff)
    then show ?thesis using d(1,2) os'(3,7) chain_cong [of js "observer_table os'" "observer_table os"] by (simp add: observed_def)
  qed
  ultimately show ?thesis using os'(1,2) by blast
qed

text \<open>Two entries of an observer table that is not in use, apart from the first.\<close>

definition idle_observer :: smcp_observer_s where
  "idle_observer = \<lparr>observable = None, next_observer = 0, observer_key = 0, observer_seq = 0,
     async_response = \<lparr>remote_saddr = zero_sockaddr, async_pktinfo = [], request_len = 0, request = replicate 80 0\<rparr>\<rparr>"

definition busy_observer :: "int \<Rightarrow> smcp_observer_s" where
  "busy_observer n = idle_observer\<lparr>observable := Some 1, next_observer := n,
     async_response := (async_response idle_observer)\<lparr>request_len := 10\<rparr>\<rparr>"

definition one_observer :: observers where
  "one_observer = \<lparr>observer_table = busy_observer 0 # replicate 7 idle_observer,
     observables = (\<lambda>_. \<lparr>interface = True, first_observer = 1, last_observer = 1\<rparr>), observer_transaction = (\<lambda>i. i + 10)\<rparr>"

theorem observer_added_witness:
  "\<exists>os'. add_observer 1 5 one_observer (zero_smcp (\<lambda>_. 0)) = Some (1, os') \<and> observed os' 1 [0, 1]"
proof -
  have "observed one_observer 1 [0]" "length (observer_table one_observer) = SMCP_MAX_OBSERVERS"
    "\<forall>j \<in> set [0]. request_len (async_response (observer_table one_observer ! j)) \<noteq> 0"
    by (simp_all add: one_observer_def observed_def busy_observer_def idle_observer_def SMCP_MAX_OBSERVERS_def)
  moreover have "get_unused_observer_index one_observer (zero_smcp (\<lambda>_. 0)) = int 1"
    by (simp add: get_unused_observer_index_def SMCP_MAX_OBSERVERS_def upt_rec unused_observer_def one_observer_def
        busy_observer_def idle_observer_def zero_smcp_def zero_transaction_def)
  ultimately show ?thesis using observer_added [of one_observer 1 "[0]" "zero_smcp (\<lambda>_. 0)" 1 5] by auto
qed

text \<open>
  The first observer of a list is removed: the others stay, in their order, its request is given
  up, and other contexts are as they were. When there are others, however, the link of the entry is
  not cleared, and the entry does not count as unused any more, whatever the state of its transaction.
\<close>

theorem first_observer_removed:
  assumes "observed os c (i # is)" "observable (observer_table os ! i) = Some c"
    and "\<not> active (trans self (observer_transaction os i))"
  shows "\<exists>os' self'. free_observer env (int i) os self = Some (os', self') \<and> observed os' c is \<and>
    request_len (async_response (observer_table os' ! i)) = 0 \<and>
    (\<forall>d js. d \<noteq> c \<and> observed os d js \<longrightarrow> observed os' d js) \<and> (is \<noteq> [] \<longrightarrow> (\<forall>self. \<not> unused_observer os' self i))"
proof -
  let ?t = "observer_table os"
  have i: "i < length ?t" "first_observer (observables os c) = int i + 1" "chain ?t (next_observer (?t ! i)) is" "distinct is" "i \<notin> set is"
      "last_observer (observables os c) = int (last (i # is)) + 1"
    using assms(1) by (auto simp: observed_def)
  obtain self' where self': "smcp_transaction_end env (observer_transaction os i) self = Some (SMCP_STATUS_OK, self')"
    using assms(3) by (cases "current_transaction self = Some (observer_transaction os i)")
      (auto simp: smcp_transaction_end_def Let_def)
  define t' where "t' = ?t[i := (?t ! i)\<lparr>async_response := (async_response (?t ! i))\<lparr>request_len := 0\<rparr>\<rparr>]"
  have nxt: "next_observer (t' ! j) = next_observer (?t ! j)" for j using i(1) by (cases "j = i") (simp_all add: t'_def)
  have chain: "chain t' n js = chain ?t n js" for n js using nxt by (intro chain_cong) (simp_all add: t'_def)
  define f where "f = (\<lambda>y :: smcp_observable_s. if is = [] then y\<lparr>first_observer := 0, last_observer := 0\<rparr>
    else y\<lparr>first_observer := next_observer (?t ! i)\<rparr>)"
  let ?os = "(set_observable c f os)\<lparr>observer_table := t'\<rparr>"
  have "last (i # is) = i \<longleftrightarrow> is = []" using i(5) last_in_set [of "is"] by auto
  then have "free_observer env (int i) os self = Some (?os, self')"
    using assms(2) i(1,2,6) self'
    by (auto simp: free_observer_def observer_at_nat set_observer_nat f_def t'_def smcp_finish_async_response_def Let_def)
  moreover have "observed ?os c is" using i(3-6) chain by (auto simp: observed_def f_def)
  moreover have "observed ?os d js" if "d \<noteq> c" "observed os d js" for d js using that chain by (simp add: observed_def)
  moreover have "request_len (async_response (t' ! i)) = 0" using i(1) by (simp add: t'_def)
  moreover have "\<not> unused_observer ?os self i" if "is \<noteq> []" for self
    using that i(3) nxt [of i] by (cases "is") (auto simp: unused_observer_def Let_def)
  ultimately show ?thesis by auto
qed

theorem first_observer_removed_witness:
  "\<forall>env. \<exists>os' self'. free_observer env 0 one_observer (zero_smcp (\<lambda>_. 0)) = Some (os', self') \<and> observed os' 1 []"
proof -
  have "observed one_observer 1 [0]" "observable (observer_table one_observer ! 0) = Some 1"
    "\<not> active (trans (zero_smcp (\<lambda>_. 0)) (observer_transaction one_observer 0))"
    by (simp_all add: one_observer_def observed_def busy_observer_def idle_observer_def zero_smcp_def zero_transaction_def)
  from first_observer_removed [OF this] show ?thesis by simp blast
qed

text \<open>
  C37: removing the second of two observers goes wrong: the loop that looks for the entry before walks
  on from the entry itself, past the end of the list, and reads in front of the table.
\<close>

theorem second_observer_not_removed:
  assumes "observed os c [i, j]" "observable (observer_table os ! j) = Some c"
  shows "free_observer_loop os (int i) (int j) = None \<and> free_observer env (int j) os self = None"
proof -
  have c: "i < length (observer_table os)" "j < length (observer_table os)" "next_observer (observer_table os ! i) = int j + 1"
      "next_observer (observer_table os ! j) = 0" "first_observer (observables os c) = int i + 1" "i \<noteq> j"
    using assms(1) by (auto simp: observed_def)
  have "free_observer_loop os (int i) (- 1) = None"
    using c by (subst free_observer_loop.simps) (simp add: observer_at_nat, simp add: observer_at_def)
  then have loop: "free_observer_loop os (int i) (int j) = None"
    using c by (subst free_observer_loop.simps) (simp add: observer_at_nat)
  then show ?thesis
    using c assms(2) by (auto simp: free_observer_def observer_at_nat Let_def split: Option.bind_splits)
qed

text \<open>An entry that is its own successor is never left.\<close>

lemma count_loop_cycle:
  assumes "i < length (observer_table os)" "next_observer (observer_table os ! i) = int i + 1"
  shows "count_loop os key (int i) n = None"
proof -
  have "k = int i \<Longrightarrow> os' = os \<Longrightarrow> False" if "count_loop os' key' k n = Some r" for os' key' k n r
    by (rule count_loop.raw_induct [of "\<lambda>os' key' k n r. k = int i \<longrightarrow> os' = os \<longrightarrow> False", rule_format, OF _ that])
      (use assms in \<open>auto simp: observer_at_nat\<close>)
  then show ?thesis by (cases "count_loop os key (int i) n") (simp, blast)
qed

lemma count_loop_to_cycle:
  assumes "chain t n (is @ [l])" "distinct (is @ [l])" "observer_table os = t[l := x]" "next_observer x = int l + 1"
  shows "count_loop os key (n - 1) k = None"
  using assms(1,2)
proof (induction "is" arbitrary: n k)
  case Nil
  then show ?case using count_loop_cycle [of l os key k] assms(3,4) by simp
next
  case (Cons j "is")
  then show ?case using assms(3) by (subst count_loop.simps) (auto simp: observer_at_nat)
qed

text \<open>A request that is too long is not stored.\<close>

lemma start_async_too_long:
  assumes "80 < int (unat (packet_len (inbound self))) - int (unat (in_content_len (inbound self)))"
    and "smcp_start_async_response env (Some x) ack self = Some (ret, a, self')"
  shows "a = Some x"
proof -
  let ?n = "int (unat (packet_len (inbound self))) - int (unat (in_content_len (inbound self)))"
  have "unat (packet_len (inbound self)) < 65536" using unsigned_less [of "packet_len (inbound self)", where ?'a = nat] by simp
  then have "?n < 65536" by linarith
  moreover have "80 < n \<Longrightarrow> n < 65536 \<Longrightarrow> 80 < n mod 2 ^ 64" for n :: int by simp
  ultimately have "80 < ?n mod 2 ^ 64" using assms(1) by blast
  then show ?thesis using assms(2) by (auto simp: smcp_start_async_response_def Let_def split: Option.bind_splits)
qed

lemma find_observer_none:
  assumes "chain (observer_table os) n is"
    and "\<forall>j \<in> set is. observer_key (observer_table os ! j) = key \<longrightarrow>
      remote_saddr (async_response (observer_table os ! j)) \<noteq> in_saddr (inbound self)"
  shows "find_observer os key self (n - 1) = Some (- 1)"
  using assms
proof (induction "is" arbitrary: n)
  case (Cons i "is")
  then show ?case
    by (subst find_observer.simps) (auto simp: observer_at_nat smcp_inbound_is_related_to_async_response_def)
qed (simp add: find_observer.simps)

text \<open>The first entry that is not in use stays so as long as nothing but links and keys is written.\<close>

lemma get_unused_kept:
  assumes "get_unused_observer_index os self = int l" "observer_transaction os' = observer_transaction os"
    and "\<forall>j. async_response (observer_table os' ! j) = async_response (observer_table os ! j)"
    and "\<forall>j. next_observer (observer_table os' ! j) = 0 \<longrightarrow> next_observer (observer_table os ! j) = 0"
    and "next_observer (observer_table os' ! l) = 0"
    and "\<forall>j. active (trans self' (observer_transaction os j)) = active (trans self (observer_transaction os j))"
  shows "get_unused_observer_index os' self' = int l"
proof -
  have l: "List.find (unused_observer os self) [0..<SMCP_MAX_OBSERVERS] = Some l"
    using assms(1) by (auto simp: get_unused_observer_index_def split: option.splits)
  have "unused_observer os' self' j \<Longrightarrow> unused_observer os self j" for j
    using assms(2-4,6) by (auto simp: unused_observer_def Let_def)
  moreover have "unused_observer os' self' l"
    using get_unused_Some(1) [OF assms(1)] assms(2,3,5,6) by (simp add: unused_observer_def Let_def)
  ultimately have "List.find (unused_observer os' self') [0..<SMCP_MAX_OBSERVERS] = Some l"
    using l unfolding find_Some_iff by blast
  then show ?thesis by (simp add: get_unused_observer_index_def)
qed

lemma chain_last: "chain t n (is @ [l]) \<Longrightarrow> l < length t \<and> next_observer (t ! l) = 0"
  by (induction "is" arbitrary: n) auto

text \<open>An entry that is the last of a list and unused is taken for the next observer, and is its own successor.\<close>

lemma add_last_again:
  assumes "observed os c (is @ [l])" "get_unused_observer_index os self = int l"
  shows "\<exists>os'. add_observer c key os self = Some (int l, os') \<and> smcp_observable_observer_count os' c key' = None"
proof -
  let ?t = "observer_table os"
  have l: "l < length ?t" "last_observer (observables os c) = int l + 1" "distinct (is @ [l])"
      "chain ?t (first_observer (observables os c)) (is @ [l])"
    using assms(1) chain_bound [of ?t _ "is @ [l]" l] by (auto simp: observed_def)
  let ?x = "(?t ! l)\<lparr>next_observer := int l + 1, observer_key := key, observer_seq := 0, observable := Some c\<rparr>"
  let ?os = "(set_observable c (\<lambda>y. y\<lparr>last_observer := int l + 1\<rparr>) os)\<lparr>observer_table := ?t[l := ?x]\<rparr>"
  have "add_observer c key os self = Some (int l, ?os)"
    using assms(2) l(1,2) by (simp add: add_observer_def Let_def set_observer_nat)
  moreover have "first_observer (observables os c) \<noteq> 0" using l(4) by (cases "is") auto
  then have "smcp_observable_observer_count ?os c key' = None"
    using count_loop_to_cycle [OF l(4,3), of ?os ?x key' 0] by (simp add: smcp_observable_observer_count_def)
  ultimately show ?thesis by blast
qed

text \<open>
  C39: an observer whose request is too long to be stored breaks the list: when a new observer comes
  with a request of more than 80 bytes, apart from its content, \<^verbatim>\<open>smcp_observable_update\<close> puts it at
  the end of the list of the context all the same, under an entry that holds no request and counts
  as unused. The next observer of the context, when no event has been started or ended in
  between, gets the same entry, which becomes its own successor: the observers can not be counted
  any more, the loop over them does not end.
\<close>

theorem unstored_observer_cycle:
  assumes "observed os c is" "length (observer_table os) = SMCP_MAX_OBSERVERS"
    and "\<forall>j \<in> set is. request_len (async_response (observer_table os ! j)) \<noteq> 0"
    and "\<forall>j \<in> set is. observer_key (observer_table os ! j) = key \<longrightarrow>
      remote_saddr (async_response (observer_table os ! j)) \<noteq> in_saddr (inbound self)"
    and "get_unused_observer_index os self = int l"
    and "in_packet (inbound self) \<noteq> None" "\<not> is_fake (inbound self)" "\<not> is_dupe (inbound self)" "has_observe_option (inbound self)"
    and "80 < int (unat (packet_len (inbound self))) - int (unat (in_content_len (inbound self)))"
    and "smcp_observable_update env c key os self = Some (ret, os1, self1)"
    and "\<forall>j. active (trans self2 (observer_transaction os j)) = active (trans self (observer_transaction os j))"
  shows "observed os1 c (is @ [l]) \<and> request_len (async_response (observer_table os1 ! l)) = 0 \<and>
    (\<exists>os2. add_observer c key2 os1 self2 = Some (int l, os2) \<and> smcp_observable_observer_count os2 c key' = None)"
proof -
  let ?os = "set_observable c (\<lambda>y. y\<lparr>interface := True\<rparr>) os"
  have u: "unused_observer os self l" "l < length (observer_table os)" using get_unused_Some [OF assms(5)] assms(2) by simp_all
  then have l: "l \<notin> set is" "next_observer (observer_table os ! l) = 0" "request_len (async_response (observer_table os ! l)) = 0"
    using assms(3) by (auto simp: unused_observer_def Let_def)
  have os: "observed ?os c is" using assms(1) by (simp add: observed_def)
  have un: "get_unused_observer_index ?os self = int l" using assms(5) l(2) by (intro get_unused_kept [OF assms(5)]) simp_all
  obtain os' where os': "add_observer c key ?os self = Some (int l, os')" "observed os' c (is @ [l])"
      "observer_transaction os' = observer_transaction os"
      "\<forall>j. async_response (observer_table os' ! j) = async_response (observer_table os ! j)"
      "\<forall>j. next_observer (observer_table os' ! j) = 0 \<longrightarrow> next_observer (observer_table os ! j) = 0"
    using add_observer_result [OF os _ l(1) _ un, of key] u(2) l(2) by auto
  have l': "l < length (observer_table os')" "next_observer (observer_table os' ! l) = 0"
    using chain_last os'(2) by (auto simp: observed_def)
  have none: "find_observer ?os key self (first_observer (observables ?os c) - 1) = Some (- 1)"
    using os assms(4) by (intro find_observer_none [of _ _ "is"]) (simp_all add: observed_def)
  have os1: "os1 = os'"
    using assms(11) none os'(1) assms(6-9) l'(1)
    by (auto simp: smcp_observable_update_def Let_def observer_at_nat set_observer_nat
        dest!: start_async_too_long [OF assms(10)] split: Option.bind_splits)
  have "get_unused_observer_index os1 self2 = int l"
    using os'(3-5) l'(2) assms(12) unfolding os1 by (intro get_unused_kept [OF assms(5)])
  from add_last_again [OF os'(2), of self2 key2 key'] this show ?thesis
    using os'(2,4) l(3) unfolding os1 by simp
qed

text \<open>A request of 100 bytes for a context without observers.\<close>

definition long_request :: smcp_s where
  "long_request = (zero_smcp (\<lambda>_. 0))\<lparr>is_processing_message := True, inbound := (inbound (zero_smcp (\<lambda>_. 0)))
     \<lparr>in_packet := Some ([0x40, 1, 0, 7] @ replicate 100 0), packet_len := 100, has_observe_option := True\<rparr>\<rparr>"

definition no_observer :: observers where
  "no_observer = one_observer\<lparr>observer_table := replicate 8 idle_observer,
     observables := (\<lambda>_. \<lparr>interface = True, first_observer = 0, last_observer = 0\<rparr>)\<rparr>"

theorem unstored_observer_cycle_witness:
  "\<exists>ret os1 self1 os2. smcp_observable_update accepting_env 1 5 no_observer long_request = Some (ret, os1, self1) \<and>
     observed os1 1 [0] \<and> add_observer 1 6 os1 long_request = Some (0, os2) \<and> smcp_observable_observer_count os2 1 6 = None"
proof -
  have "smcp_observable_update accepting_env 1 5 no_observer long_request \<noteq> None" by code_simp
  then obtain ret os1 self1 where u: "smcp_observable_update accepting_env 1 5 no_observer long_request = Some (ret, os1, self1)" by auto
  have i: "in_packet (inbound long_request) \<noteq> None" "\<not> is_fake (inbound long_request)" "\<not> is_dupe (inbound long_request)"
      "has_observe_option (inbound long_request)"
      "80 < int (unat (packet_len (inbound long_request))) - int (unat (in_content_len (inbound long_request)))"
    by (simp_all add: long_request_def zero_smcp_def zero_inbound_def)
  have o: "observed no_observer 1 []" "length (observer_table no_observer) = SMCP_MAX_OBSERVERS"
    by (simp_all add: no_observer_def observed_def SMCP_MAX_OBSERVERS_def)
  have "get_unused_observer_index no_observer long_request = int 0" by code_simp
  from unstored_observer_cycle [OF o _ _ this i u, of long_request 6 6] u show ?thesis by auto
qed

text \<open>Two observers, in the first two entries.\<close>

theorem second_observer_not_removed_witness:
  "\<forall>env self. free_observer env 1 (one_observer\<lparr>observer_table := busy_observer 2 # busy_observer 0 # replicate 6 idle_observer,
     observables := (\<lambda>_. \<lparr>interface = True, first_observer = 1, last_observer = 2\<rparr>)\<rparr>) self = None"
proof -
  let ?os = "one_observer\<lparr>observer_table := busy_observer 2 # busy_observer 0 # replicate 6 idle_observer,
     observables := (\<lambda>_. \<lparr>interface = True, first_observer = 1, last_observer = 2\<rparr>)\<rparr>"
  have "observed ?os 1 [0, 1]" "observable (observer_table ?os ! 1) = Some 1"
    by (simp_all add: observed_def busy_observer_def idle_observer_def)
  from second_observer_not_removed [OF this] show ?thesis by simp
qed

end
