(* ===== verification/Variable_Node.thy ===== *)
theory Variable_Node
  imports Node_List Observable
begin

text \<open>
  Variable nodes (\<^verbatim>\<open>src/smcp/smcp-variable_node.c\<close>): the handler of a resource whose children are the
  variables of an application. The application is the callback of the node. It gets an action, the
  index of a variable and the memory that its third argument points to, and it may change the instance,
  the observers and a state of its own; the memory that it leaves behind is part of its result. What it
  writes into the content of a request, when it sets a value, is not kept.
\<close>

section \<open>The node\<close>

definition SMCP_VAR_GET_KEY :: u8 where "SMCP_VAR_GET_KEY = 0"
definition SMCP_VAR_SET_VALUE :: u8 where "SMCP_VAR_SET_VALUE = 2"
definition SMCP_VAR_GET_VALUE :: u8 where "SMCP_VAR_GET_VALUE = 3"
definition SMCP_VAR_GET_LF_TITLE :: u8 where "SMCP_VAR_GET_LF_TITLE = 4"
definition SMCP_VAR_GET_MAX_AGE :: u8 where "SMCP_VAR_GET_MAX_AGE = 5"
definition SMCP_VAR_GET_OBSERVABLE :: u8 where "SMCP_VAR_GET_OBSERVABLE = 7"

definition BAD_KEY_INDEX :: nat where "BAD_KEY_INDEX = 255"
definition COAP_OPTION_ETAG :: u32 where "COAP_OPTION_ETAG = 4"
definition COAP_OPTION_ACCEPT :: u32 where "COAP_OPTION_ACCEPT = 17"
definition COAP_CONTENT_TYPE_TEXT_PLAIN :: u16 where "COAP_CONTENT_TYPE_TEXT_PLAIN = 0"
definition SMCP_CONTENT_TYPE_APPLICATION_FORM_URLENCODED :: u16 where "SMCP_CONTENT_TYPE_APPLICATION_FORM_URLENCODED = 65005"

lemmas variable_numbers = SMCP_VAR_GET_KEY_def SMCP_VAR_SET_VALUE_def SMCP_VAR_GET_VALUE_def SMCP_VAR_GET_LF_TITLE_def
  SMCP_VAR_GET_MAX_AGE_def SMCP_VAR_GET_OBSERVABLE_def

type_synonym 'v world = "smcp_s \<times> observers \<times> 'v"
type_synonym 'v variable_func = "u8 \<Rightarrow> u8 \<Rightarrow> string \<Rightarrow> 'v world \<Rightarrow> (smcp_status_t \<times> string \<times> 'v world) option"

record 'v smcp_variable_node_s =
  func :: "'v variable_func"
  node_observable :: addr

abbreviation with_self :: "smcp_s \<Rightarrow> 'v world \<Rightarrow> 'v world" where
  "with_self self w \<equiv> (self, snd w)"

text \<open>An operation on the instance.\<close>

definition instance_op :: "(smcp_s \<Rightarrow> ('r \<times> smcp_s) option) \<Rightarrow> 'v world \<Rightarrow> ('r \<times> 'v world) option" where
  "instance_op f w = map_option (\<lambda>(r, self). (r, with_self self w)) (f (fst w))"

text \<open>The string in a buffer.\<close>

definition buffer_cstr :: "string \<Rightarrow> string option" where
  "buffer_cstr buffer = map_option (\<lambda>n. take n buffer) (strlen_mem buffer 0)"

section \<open>The request\<close>

text \<open>The variable that the next path segment names.\<close>

function find_key :: "'v variable_func \<Rightarrow> nat \<Rightarrow> string \<Rightarrow> 'v world \<Rightarrow> ((smcp_status_t + nat) \<times> string \<times> 'v world) option" where
  "find_key f key_index buffer w =
     (if key_index < BAD_KEY_INDEX then do {
        (ret, buffer, w) \<leftarrow> f SMCP_VAR_GET_KEY (word_of_nat key_index) buffer w;
        if ret \<noteq> 0 then Some (Inl SMCP_STATUS_NOT_FOUND, buffer, w)
        else do {
          key \<leftarrow> buffer_cstr buffer;
          equal \<leftarrow> smcp_inbound_option_strequal (fst w) COAP_OPTION_URI_PATH (string_bytes key);
          if equal then do {
            (_, w) \<leftarrow> instance_op smcp_inbound_next_option w;
            Some (Inr key_index, buffer, w)
          }
          else find_key f (key_index + 1) buffer w
        }
      }
      else Some (Inr key_index, buffer, w))"
  by pat_completeness auto
termination
  by (relation "measure (\<lambda>(f, i, b, w). BAD_KEY_INDEX - i)") auto

declare find_key.simps [simp del]

text \<open>The index, and whether links need a prefix.\<close>

definition variable_key ::
    "'v variable_func \<Rightarrow> string \<Rightarrow> 'v world \<Rightarrow> ((smcp_status_t + nat \<times> bool) \<times> string \<times> 'v world) option" where
  "variable_key f buffer w = do {
     (key, val) \<leftarrow> smcp_inbound_peek_option (fst w);
     if key = COAP_OPTION_URI_PATH then do {
       (_, value_len) \<leftarrow> val;
       if value_len = 0 then do {
         (_, w) \<leftarrow> instance_op smcp_inbound_next_option w;
         Some (Inr (BAD_KEY_INDEX, False), buffer, w)
       }
       else do {
         (r, buffer, w) \<leftarrow> find_key f 0 buffer w;
         Some (map_sum id (\<lambda>i. (i, True)) r, buffer, w)
       }
     }
     else Some (Inr (BAD_KEY_INDEX, True), buffer, w)
   }"

record variable_request =
  vr_type :: u16
  vr_ptr :: "nat option"
  vr_len :: u16
  vr_reply_type :: u16

text \<open>A query \<^verbatim>\<open>v=\<close> of a POST request holds the value.\<close>

definition query_value :: "u16 \<Rightarrow> nat option \<times> u16 \<Rightarrow> smcp_s \<Rightarrow> variable_request \<Rightarrow> variable_request option" where
  "query_value method val self r =
     (if method = COAP_METHOD_POST \<and> snd val \<ge> 2 then do {
        packet \<leftarrow> in_packet (inbound self);
        p \<leftarrow> fst val;
        s \<leftarrow> mem_read_n packet p 2;
        Some (if byte_chars s = ''v=''
              then r\<lparr>vr_type := COAP_CONTENT_TYPE_TEXT_PLAIN, vr_ptr := Some (p + 2), vr_len := snd val - 2\<rparr> else r)
      }
      else Some r)"

definition accept_value :: "nat option \<times> u16 \<Rightarrow> smcp_s \<Rightarrow> variable_request \<Rightarrow> variable_request option" where
  "accept_value val self r =
     (if snd val = 1 then do {
        packet \<leftarrow> in_packet (inbound self);
        p \<leftarrow> fst val;
        b \<leftarrow> mem_read packet p;
        Some (r\<lparr>vr_reply_type := ucast b\<rparr>)
      }
      else Some (r\<lparr>vr_reply_type := 0\<rparr>))"

function variable_options :: "u16 \<Rightarrow> variable_request \<Rightarrow> smcp_s \<Rightarrow> ((smcp_status_t \<times> variable_request) \<times> smcp_s) option" where
  "variable_options method r self =
     (case smcp_inbound_next_option self of
        None \<Rightarrow> None
      | Some ((key, val), self') \<Rightarrow>
          if key = COAP_OPTION_INVALID then Some ((SMCP_STATUS_OK, r), self')
          else if key = COAP_OPTION_URI_PATH then Some ((SMCP_STATUS_NOT_FOUND, r), self')
          else if key = COAP_OPTION_URI_QUERY
          then (case Option.bind val (\<lambda>v. query_value method v self' r) of
                  None \<Rightarrow> None | Some r \<Rightarrow> variable_options method r self')
          else if key = COAP_OPTION_ACCEPT
          then (case Option.bind val (\<lambda>v. accept_value v self' r) of
                  None \<Rightarrow> None | Some r \<Rightarrow> variable_options method r self')
          else if COAP_OPTION_IS_CRITICAL key then Some ((SMCP_STATUS_BAD_OPTION, r), self')
          else variable_options method r self')"
  by pat_completeness auto
termination
  by (relation "measure (\<lambda>(m, r, self). scan_left self)") (auto dest: next_option_progress)

declare variable_options.simps [simp del]

section \<open>Setting a variable\<close>

text \<open>The value of the key \<^verbatim>\<open>v\<close> in a form: the memory, where it begins and its length.\<close>

function form_value :: "string \<Rightarrow> nat \<Rightarrow> (string \<times> nat \<times> nat) option" where
  "form_value mem p =
     (case url_form_next_value mem p True of
        None \<Rightarrow> None
      | Some (mem', t) \<Rightarrow>
          if ft_bytes t = 0 then Some (mem', ft_rest t, 0)
          else (case (ft_key t, ft_value t) of
                  (Some key, Some val) \<Rightarrow>
                    (case (strlen_mem mem' key, strlen_mem mem' val) of
                       (Some k, Some n) \<Rightarrow>
                         if take k (drop key mem') = ''v'' then Some (mem', val, n) else form_value mem' (ft_rest t)
                     | _ \<Rightarrow> None)
                | _ \<Rightarrow> Some (mem', ft_rest t, 0)))"
  by pat_completeness auto
termination
  by (relation "measure (\<lambda>(mem, p). length mem - p)") (auto dest: form_value_progress)

declare form_value.simps [simp del]

text \<open>The content, zero-terminated in the packet.\<close>

definition post_content :: "variable_request \<Rightarrow> smcp_s \<Rightarrow> (string \<times> smcp_s) option" where
  "post_content r self = do {
     p \<leftarrow> vr_ptr r;
     packet \<leftarrow> in_packet (inbound self);
     (packet, p, len) \<leftarrow>
       (if vr_type r = SMCP_CONTENT_TYPE_APPLICATION_FORM_URLENCODED then do {
          (mem, p, n) \<leftarrow> form_value (byte_chars packet) p;
          Some (string_bytes mem, p, word_of_nat n)
        }
        else Some (packet, p, vr_len r));
     packet \<leftarrow> mem_write packet (p + unat len) 0;
     Some (byte_chars (drop p packet), set_inbound (\<lambda>i. i\<lparr>in_packet := Some packet\<rparr>) self)
   }"

definition variable_post ::
    "smcp_env \<Rightarrow> 'v variable_func \<Rightarrow> nat \<Rightarrow> variable_request \<Rightarrow> 'v world \<Rightarrow> (smcp_status_t \<times> 'v world) option" where
  "variable_post env f key_index r w =
     (if smcp_inbound_is_dupe (fst w) then Some (0, w)
      else if key_index = BAD_KEY_INDEX then Some (SMCP_STATUS_NOT_ALLOWED, w)
      else do {
        (content, w) \<leftarrow> instance_op (post_content r) w;
        (ret, _, w) \<leftarrow> f SMCP_VAR_SET_VALUE (word_of_nat key_index) content w;
        if ret \<noteq> 0 then Some (ret, w)
        else do {
          (ret, w) \<leftarrow> instance_op (smcp_outbound_begin_response (word_of_nat (HTTP_TO_COAP_CODE 204))) w;
          if ret \<noteq> 0 then Some (ret, w) else instance_op (smcp_outbound_send env) w
        }
      })"

section \<open>Listing the variables\<close>

text \<open>
  Characters are written into the outbound packet, at a position \<open>pos\<close> of its bytes. The room that is
  left is computed as a \<^verbatim>\<open>ptrdiff_t\<close> and passed as a \<^verbatim>\<open>size_t\<close>.
\<close>

definition out_mem :: "(string \<Rightarrow> (string \<times> nat) option) \<Rightarrow> smcp_s \<Rightarrow> (nat \<times> smcp_s) option" where
  "out_mem f self = do {
     bytes \<leftarrow> out_bytes self;
     (mem, n) \<leftarrow> f (byte_chars bytes);
     Some (n, set_outbound (\<lambda>out. out\<lparr>packet_bytes := string_bytes mem\<rparr>) self)
   }"

definition size_arg :: "int \<Rightarrow> nat" where
  "size_arg n = nat (n mod 2 ^ 64)"

definition put_string :: "string \<Rightarrow> nat \<Rightarrow> string \<Rightarrow> (string \<times> nat) option" where
  "put_string s pos mem = map_option (\<lambda>mem. (mem, pos + length s)) (mem_write_n mem pos s)"

definition put_copied :: "string \<Rightarrow> nat \<Rightarrow> nat \<Rightarrow> string \<Rightarrow> (string \<times> nat) option" where
  "put_copied s pos stop mem = stpncpy mem pos s (size_arg (min (int (length s)) (int stop - int pos - 1)))"

text \<open>A string is encoded or quoted from a buffer of its own.\<close>

definition put_encoded :: "string \<Rightarrow> nat \<Rightarrow> nat \<Rightarrow> string \<Rightarrow> (string \<times> nat) option" where
  "put_encoded buffer pos stop mem =
     map_option (\<lambda>(mem, n). (drop (length buffer) mem, pos + n))
       (url_encode_cstr (buffer @ mem) (length buffer + pos) 0 (size_arg (int stop - int pos - 1)))"

definition put_quoted :: "string \<Rightarrow> nat \<Rightarrow> nat \<Rightarrow> string \<Rightarrow> (string \<times> nat) option" where
  "put_quoted buffer pos stop mem =
     map_option (\<lambda>(mem, n). (drop (length buffer) mem, pos + n))
       (quoted_cstr (buffer @ mem) (length buffer + pos) 0 (size_arg (int stop - int pos - 1)))"

text \<open>An attribute: its name with a terminator, as \<^verbatim>\<open>strcpy\<close> copies it, and its value in quotes.\<close>

definition put_attribute :: "string \<Rightarrow> string \<Rightarrow> nat \<Rightarrow> nat \<Rightarrow> string \<Rightarrow> (string \<times> nat) option" where
  "put_attribute name buffer pos stop mem = do {
     mem \<leftarrow> mem_write_n mem pos (name @ [NUL]);
     put_quoted buffer (pos + length name) stop mem
   }"

definition put_link :: "bool \<Rightarrow> string \<Rightarrow> nat \<Rightarrow> nat \<Rightarrow> string \<Rightarrow> (string \<times> nat) option" where
  "put_link needs_prefix buffer pos stop mem = do {
     (mem, pos) \<leftarrow> put_string ''<'' pos mem;
     (mem, pos) \<leftarrow> (if needs_prefix then do {
                      (mem, pos) \<leftarrow> put_encoded [NUL] pos stop mem;
                      put_copied ''/'' pos stop mem
                    }
                    else Some (mem, pos));
     (mem, pos) \<leftarrow> put_encoded buffer pos stop mem;
     put_string ''>'' pos mem
   }"

text \<open>One turn of the loop; the flag tells that it goes on.\<close>

definition list_variable ::
    "'v variable_func \<Rightarrow> bool \<Rightarrow> nat \<Rightarrow> nat \<Rightarrow> nat \<Rightarrow> string \<Rightarrow> 'v world \<Rightarrow> (bool \<times> nat \<times> string \<times> 'v world) option" where
  "list_variable f needs_prefix stop key_index pos buffer w = do {
     let i = word_of_nat key_index;
     (ret, buffer, w) \<leftarrow> f SMCP_VAR_GET_KEY i buffer w;
     if ret \<noteq> 0 \<or> pos + 2 \<ge> stop then Some (False, pos, buffer, w)
     else do {
       (pos, w) \<leftarrow> instance_op (out_mem (put_link needs_prefix buffer pos stop)) w;
       (ret, buffer, w) \<leftarrow> f SMCP_VAR_GET_VALUE i buffer w;
       if pos + 4 \<ge> stop then Some (False, pos, buffer, w)
       else do {
         (pos, w) \<leftarrow> (if ret = 0 then instance_op (out_mem (put_attribute '';v='' buffer pos stop)) w else Some (pos, w));
         (ret, buffer, w) \<leftarrow> f SMCP_VAR_GET_LF_TITLE i buffer w;
         if pos + 8 \<ge> stop then Some (False, pos, buffer, w)
         else do {
           (pos, w) \<leftarrow> (if ret = 0 then instance_op (out_mem (put_attribute '';title='' buffer pos stop)) w else Some (pos, w));
           (ret, _, w) \<leftarrow> f SMCP_VAR_GET_OBSERVABLE i [] w;
           (pos, w) \<leftarrow> (if ret = 0 then instance_op (out_mem (put_copied '';obs'' pos stop)) w else Some (pos, w));
           (pos, w) \<leftarrow> instance_op (out_mem (put_string '','' pos)) w;
           Some (True, pos, buffer, w)
         }
       }
     }
   }"

function list_variables ::
    "'v variable_func \<Rightarrow> bool \<Rightarrow> nat \<Rightarrow> nat \<Rightarrow> nat \<Rightarrow> string \<Rightarrow> 'v world \<Rightarrow> (nat \<times> 'v world) option" where
  "list_variables f needs_prefix stop key_index pos buffer w =
     (if key_index < BAD_KEY_INDEX then do {
        (go, pos, buffer, w) \<leftarrow> list_variable f needs_prefix stop key_index pos buffer w;
        if go then list_variables f needs_prefix stop (key_index + 1) pos buffer w else Some (pos, w)
      }
      else Some (pos, w))"
  by pat_completeness auto
termination
  by (relation "measure (\<lambda>(f, n, s, i, p, b, w). BAD_KEY_INDEX - i)") auto

declare list_variables.simps [simp del]

definition observe_variable :: "smcp_env \<Rightarrow> addr \<Rightarrow> u8 \<Rightarrow> 'v world \<Rightarrow> 'v world option" where
  "observe_variable env c key w = (case w of (self, os, v) \<Rightarrow>
     map_option (\<lambda>(_, os, self). (self, os, v)) (smcp_observable_update env c key os self))"

definition variable_get_list ::
    "smcp_env \<Rightarrow> 'v smcp_variable_node_s \<Rightarrow> bool \<Rightarrow> string \<Rightarrow> 'v world \<Rightarrow> (smcp_status_t \<times> 'v world) option" where
  "variable_get_list env node needs_prefix buffer w = do {
     (ret, w) \<leftarrow> instance_op (smcp_outbound_begin_response (word_of_nat (HTTP_TO_COAP_CODE 205))) w;
     if ret \<noteq> 0 then Some (ret, w)
     else do {
       (_, w) \<leftarrow> instance_op (smcp_outbound_add_option_uint COAP_OPTION_CONTENT_TYPE COAP_CONTENT_TYPE_APPLICATION_LINK_FORMAT) w;
       w \<leftarrow> observe_variable env (node_observable node) SMCP_OBSERVABLE_BROADCAST_KEY w;
       ((p, content_len), w) \<leftarrow> instance_op (\<lambda>self. map_option (\<lambda>(p, n, self). ((p, n), self)) (smcp_outbound_get_content_ptr self)) w;
       let stop = p + unat content_len;
       (pos, w) \<leftarrow> list_variables (func node) needs_prefix stop 0 p buffer w;
       (ret, w) \<leftarrow> instance_op (\<lambda>self. Some (smcp_outbound_set_content_len
                    (word_of_int (int (unat content_len) - (int stop - int pos))) self)) w;
       if ret \<noteq> 0 then Some (ret, w) else instance_op (smcp_outbound_send env) w
     }
   }"

section \<open>Reading a variable\<close>

text \<open>\<^verbatim>\<open>strtol\<close> with base 0.\<close>

definition isspace :: "char \<Rightarrow> bool" where
  "isspace c \<longleftrightarrow> c = CHR '' '' \<or> 9 \<le> char_code c \<and> char_code c \<le> 13"

definition digit_of :: "char \<Rightarrow> nat" where
  "digit_of c = (let n = char_code c in
     if 48 \<le> n \<and> n \<le> 57 then n - 48 else if 65 \<le> n \<and> n \<le> 90 then n - 55 else if 97 \<le> n \<and> n \<le> 122 then n - 87 else 36)"

definition digits_value :: "nat \<Rightarrow> string \<Rightarrow> int" where
  "digits_value base s = foldl (\<lambda>n c. n * int base + int (digit_of c)) 0 (takeWhile (\<lambda>c. digit_of c < base) s)"

definition magnitude :: "string \<Rightarrow> int" where
  "magnitude s =
     (if take 2 s = ''0x'' \<or> take 2 s = ''0X'' then digits_value 16 (drop 2 s)
      else if take 1 s = ''0'' then digits_value 8 s else digits_value 10 s)"

definition strtol :: "string \<Rightarrow> int" where
  "strtol s =
     (let s = dropWhile isspace s;
          n = (if take 1 s = ''-'' then - magnitude (drop 1 s) else if take 1 s = ''+'' then magnitude (drop 1 s) else magnitude s)
      in max (- (2 ^ 63)) (min (2 ^ 63 - 1) n))"

definition variable_etag :: "string \<Rightarrow> u32 option" where
  "variable_etag s = map_option fasthash_finish_uint32
     (fasthash_feed (fasthash_start 0) (string_bytes s) (word_of_nat (length s)))"

text \<open>The content \<^verbatim>\<open>v=\<close> with the encoded value.\<close>

definition put_form_value :: "string \<Rightarrow> smcp_s \<Rightarrow> (smcp_status_t \<times> smcp_s) option" where
  "put_form_value buffer self = do {
     (p, len, self) \<leftarrow> smcp_outbound_get_content_ptr self;
     (n, self) \<leftarrow> out_mem (\<lambda>mem. do {
         (mem, pos) \<leftarrow> put_string ''v='' p mem;
         (mem, n) \<leftarrow> url_encode_cstr (buffer @ mem) (length buffer + pos) 0 (unat (len - 2));
         Some (drop (length buffer) mem, n)
       }) self;
     Some (smcp_outbound_set_content_len (word_of_nat n + 2) self)
   }"

definition variable_get_form ::
    "'v variable_func \<Rightarrow> u8 \<Rightarrow> string \<Rightarrow> 'v world \<Rightarrow> (smcp_status_t \<times> 'v world) option" where
  "variable_get_form f i buffer w = do {
     (ret, buffer, w) \<leftarrow> f SMCP_VAR_GET_MAX_AGE i buffer w;
     w \<leftarrow> (if ret = 0 then do {
            s \<leftarrow> buffer_cstr buffer;
            map_option snd (instance_op (smcp_outbound_add_option_uint COAP_OPTION_MAX_AGE (word_of_int (strtol s) AND 0xFFFFFF)) w)
          }
          else Some w);
     (ret, buffer, w) \<leftarrow> f SMCP_VAR_GET_VALUE i buffer w;
     if ret \<noteq> 0 then Some (ret, w)
     else do {
       s \<leftarrow> buffer_cstr buffer;
       etag \<leftarrow> variable_etag s;
       (_, w) \<leftarrow> instance_op (smcp_outbound_add_option_uint COAP_OPTION_CONTENT_TYPE (ucast SMCP_CONTENT_TYPE_APPLICATION_FORM_URLENCODED)) w;
       (_, w) \<leftarrow> instance_op (smcp_outbound_add_option_uint COAP_OPTION_ETAG etag) w;
       instance_op (put_form_value buffer) w
     }
   }"

definition variable_get_plain ::
    "'v variable_func \<Rightarrow> u8 \<Rightarrow> string \<Rightarrow> 'v world \<Rightarrow> (smcp_status_t \<times> 'v world) option" where
  "variable_get_plain f i buffer w = do {
     (ret, buffer, w) \<leftarrow> f SMCP_VAR_GET_VALUE i buffer w;
     if ret \<noteq> 0 then Some (ret, w)
     else instance_op (smcp_outbound_append_content (string_bytes buffer) SMCP_CSTR_LEN) w
   }"

definition variable_get ::
    "smcp_env \<Rightarrow> 'v smcp_variable_node_s \<Rightarrow> u8 \<Rightarrow> u16 \<Rightarrow> string \<Rightarrow> 'v world \<Rightarrow> (smcp_status_t \<times> 'v world) option" where
  "variable_get env node i reply_content_type buffer w = do {
     (ret, w) \<leftarrow> instance_op (smcp_outbound_begin_response (word_of_nat (HTTP_TO_COAP_CODE 205))) w;
     if ret \<noteq> 0 then Some (ret, w)
     else do {
       (ret, buffer, w) \<leftarrow> func node SMCP_VAR_GET_OBSERVABLE i buffer w;
       w \<leftarrow> (if ret = 0 then observe_variable env (node_observable node) i w else Some w);
       (ret, w) \<leftarrow> (if reply_content_type = SMCP_CONTENT_TYPE_APPLICATION_FORM_URLENCODED
                   then variable_get_form (func node) i buffer w else variable_get_plain (func node) i buffer w);
       if ret \<noteq> 0 then Some (ret, w) else instance_op (smcp_outbound_send env) w
     }
   }"

section \<open>The handler\<close>

definition smcp_variable_node_request_handler ::
    "smcp_env \<Rightarrow> node_heap \<Rightarrow> addr \<Rightarrow> string \<Rightarrow> 'v smcp_variable_node_s option \<Rightarrow> 'v world \<Rightarrow> (smcp_status_t \<times> 'v world) option" where
  "smcp_variable_node_request_handler env ns n buffer node w = do {
     method \<leftarrow> smcp_inbound_get_code (fst w);
     let r = \<lparr>vr_type = smcp_inbound_get_content_type (fst w), vr_ptr = smcp_inbound_get_content_ptr (fst w),
              vr_len = smcp_inbound_get_content_len (fst w), vr_reply_type = SMCP_CONTENT_TYPE_APPLICATION_FORM_URLENCODED\<rparr>;
     case node of
       None \<Rightarrow> Some (SMCP_STATUS_NOT_FOUND, w)
     | Some node \<Rightarrow> do {
         (key, buffer, w) \<leftarrow> variable_key (func node) buffer w;
         case key of
           Inl ret \<Rightarrow> Some (ret, w)
         | Inr (key_index, needs_prefix) \<Rightarrow> do {
             ((ret, r), w) \<leftarrow> instance_op (variable_options method r) w;
             let method = (if method = COAP_METHOD_PUT then COAP_METHOD_POST else method);
             if ret \<noteq> 0 then Some (ret, w)
             else if method = COAP_METHOD_POST then variable_post env (func node) key_index r w
             else if method = COAP_METHOD_GET
             then if key_index = BAD_KEY_INDEX then variable_get_list env node needs_prefix buffer w
                  else variable_get env node (word_of_nat key_index) (vr_reply_type r) buffer w
             else instance_op (smcp_default_request_handler env ns n) w
           }
       }
   }"

end
