(* ===== verification/Variable_Requests.thy ===== *)
theory Variable_Requests
  imports Variable_Node
begin

text \<open>
  Requests to variable nodes: reading and writing a variable of an application that keeps the contract
  of the callback, and requests for a variable that does not exist.
\<close>

section \<open>The scanner at a path segment\<close>

lemma byte_chars_string_bytes [simp]: "byte_chars (string_bytes s) = s"
proof -
  have "char_of (unat (word_of_nat (char_code c) :: u8)) = c" for c
    using code_less [of c] by (simp add: unsigned_of_nat take_bit_nat_eq_self) (simp add: char_code_def)
  then show ?thesis by (simp add: byte_chars_def string_bytes_def comp_def map_idI)
qed

lemma string_bytes_byte_chars [simp]: "string_bytes (byte_chars bs) = bs"
proof -
  have "word_of_nat (char_code (char_of (unat b))) = b" for b :: u8
    using unsigned_less [where 'a = nat and w = b] by (simp add: char_code_def)
  then show ?thesis by (simp add: byte_chars_def string_bytes_def comp_def map_idI)
qed

lemma byte_chars_append: "byte_chars (xs @ ys) = byte_chars xs @ byte_chars ys" "byte_chars (b # xs) = char_of (unat b) # byte_chars xs"
    "length (byte_chars xs) = length xs" "byte_chars [] = []" "char_of (0 :: nat) = NUL"
  by (simp_all add: byte_chars_def char_of_def bit_0)

lemma drop_byte_chars: "drop n (byte_chars bs) = byte_chars (drop n bs)"
  by (simp add: byte_chars_def drop_map)

lemma string_bytes_Cons: "string_bytes (c # s) = word_of_nat (char_code c) # string_bytes s" "char_code NUL = 0"
  by (simp_all add: string_bytes_def char_code_def)

lemma peek_option_next:
  assumes "in_last_option_key (inbound self) \<noteq> COAP_OPTION_INVALID"
  shows "smcp_inbound_peek_option self = map_option fst (smcp_inbound_next_option self)"
  using assms by (auto simp: smcp_inbound_peek_option_def smcp_inbound_next_option_def bind_eq_None_conv split: Option.bind_splits)

lemma cstr_prefix_loop_read: "mem_read_n mem p n = Some v \<Longrightarrow> cstr_prefix_loop mem p n s = Some (s = v)"
proof (induction mem p n s arbitrary: v rule: cstr_prefix_loop.induct)
  case (3 mem p n c cstr)
  then obtain b v' where "v = b # v'" "mem_read mem p = Some b" "mem_read_n mem (p + 1) n = Some v'"
    by (auto simp: mem_read_n_def mem_read_def take_Suc_conv_app_nth Cons_nth_drop_Suc [symmetric] split: if_splits)
  then show ?case using 3 by auto
qed (auto simp: mem_read_n_def split: if_splits)

lemma path_segment_equal:
  assumes "scanning self xs prev ((11, v) # opts) payload"
  shows "smcp_inbound_option_strequal self COAP_OPTION_URI_PATH s = Some (s = v)"
proof -
  obtain self' p packet where n: "smcp_inbound_next_option self = Some ((word_of_nat 11, Some (Some p, word_of_nat (length v))), self')"
      "in_packet (inbound self') = Some packet" "mem_read_n packet p (unat (word_of_nat (length v) :: u16)) = Some v"
      "in_packet (inbound self') = in_packet (inbound self)"
    using next_option_value [OF assms] by auto
  obtain d where "coap_decode_option packet (length xs) (Some (in_last_option_key (inbound self))) = Some d"
      "decoded_key d = 11" "decoded_value d = (Some p, word_of_nat (length v))"
    using n assms by (auto simp: smcp_inbound_next_option_def scanning_def COAP_OPTION_INVALID_def bind_eq_Some_conv split: if_splits)
  then show ?thesis
    using n(2-4) cstr_prefix_loop_read [OF n(3), of s] assms
    by (simp add: smcp_inbound_option_strequal_def scanning_def COAP_OPTION_URI_PATH_def)
qed

section \<open>Applications\<close>

text \<open>
  What the theorems below assume of the callback, for an application with the variables
  \<open>vars v\<close>, pairs of a key and a value, in the state \<open>v\<close>: keys and values are strings in the buffer, and
  the key behind the last variable is an error. \<open>keyed\<close> asks for the keys, and \<open>serves\<close> for the values
  as well, with neither a maximum age nor observing. \<open>sets_value\<close> says that the application takes the
  value \<open>s\<close> for a variable, and changes no other. Nothing else changes. The LEDs of the Contiki port are
  such an application.
\<close>

definition gives :: "'v variable_func \<Rightarrow> 'v \<Rightarrow> u8 \<Rightarrow> nat \<Rightarrow> string option \<Rightarrow> bool" where
  "gives f v action i s \<longleftrightarrow> (\<forall>buffer self os. length buffer = 128 \<longrightarrow>
     (\<exists>ret buffer'. f action (word_of_nat i) buffer (self, os, v) = Some (ret, buffer', (self, os, v)) \<and> length buffer' = 128 \<and>
        (case s of None \<Rightarrow> ret \<noteq> 0 | Some s \<Rightarrow> ret = 0 \<and> buffer_cstr buffer' = Some s)))"

definition keyed :: "'v variable_func \<Rightarrow> ('v \<Rightarrow> (string \<times> string) list) \<Rightarrow> bool" where
  "keyed f vars \<longleftrightarrow> (\<forall>v i. i \<le> length (vars v) \<and> i < BAD_KEY_INDEX \<longrightarrow>
     gives f v SMCP_VAR_GET_KEY i (if i < length (vars v) then Some (fst (vars v ! i)) else None))"

definition serves :: "'v variable_func \<Rightarrow> ('v \<Rightarrow> (string \<times> string) list) \<Rightarrow> bool" where
  "serves f vars \<longleftrightarrow> keyed f vars \<and> (\<forall>v i. i < length (vars v) \<and> i < BAD_KEY_INDEX \<longrightarrow>
     gives f v SMCP_VAR_GET_VALUE i (Some (snd (vars v ! i))) \<and>
     gives f v SMCP_VAR_GET_MAX_AGE i None \<and> gives f v SMCP_VAR_GET_OBSERVABLE i None)"

definition sets_value :: "'v variable_func \<Rightarrow> ('v \<Rightarrow> (string \<times> string) list) \<Rightarrow> 'v \<Rightarrow> nat \<Rightarrow> string \<Rightarrow> bool" where
  "sets_value f vars v i s \<longleftrightarrow> (\<forall>mem self os. buffer_cstr mem = Some s \<longrightarrow>
     (\<exists>mem' v'. f SMCP_VAR_SET_VALUE (word_of_nat i) mem (self, os, v) = Some (0, mem', (self, os, v')) \<and>
        vars v' = (vars v)[i := (fst (vars v ! i), s)]))"

lemma givesD:
  assumes "gives f v action i s" "length buffer = 128"
  obtains ret buffer' where "f action (word_of_nat i) buffer (self, os, v) = Some (ret, buffer', (self, os, v))" "length buffer' = 128"
    "case s of None \<Rightarrow> ret \<noteq> 0 | Some s \<Rightarrow> ret = 0 \<and> buffer_cstr buffer' = Some s"
  using assms unfolding gives_def by blast

lemma keyedD:
  assumes "keyed f vars" "i < BAD_KEY_INDEX"
  shows "i < length (vars v) \<Longrightarrow> gives f v SMCP_VAR_GET_KEY i (Some (fst (vars v ! i)))"
    "i = length (vars v) \<Longrightarrow> gives f v SMCP_VAR_GET_KEY i None"
  using assms(1) [unfolded keyed_def, rule_format, of i v] assms(2) by simp_all

lemma servesD:
  assumes "serves f vars" "i < BAD_KEY_INDEX" "i < length (vars v)"
  shows "gives f v SMCP_VAR_GET_VALUE i (Some (snd (vars v ! i)))"
    "gives f v SMCP_VAR_GET_MAX_AGE i None" "gives f v SMCP_VAR_GET_OBSERVABLE i None"
  using assms unfolding serves_def by blast+

text \<open>The segment is looked up among the keys.\<close>

lemma find_key_other:
  assumes "keyed f vars" "scanning self xs prev ((11, string_bytes key) # opts) payload"
    and "j < length (vars v)" "j < BAD_KEY_INDEX" "fst (vars v ! j) \<noteq> key" "length buffer = 128"
  shows "\<exists>b. find_key f j buffer (self, os, v) = find_key f (j + 1) b (self, os, v) \<and> length b = 128"
proof -
  obtain b where b: "f SMCP_VAR_GET_KEY (word_of_nat j) buffer (self, os, v) = Some (0, b, (self, os, v))" "length b = 128"
      "buffer_cstr b = Some (fst (vars v ! j))"
    using givesD [OF keyedD(1) [OF assms(1,4,3)], of buffer self os] assms(6) by auto
  have "string_bytes (fst (vars v ! j)) \<noteq> string_bytes key" using assms(5) by (metis byte_chars_string_bytes)
  then have "find_key f j buffer (self, os, v) = find_key f (j + 1) b (self, os, v)"
    using b assms(4) path_segment_equal [OF assms(2), of "string_bytes (fst (vars v ! j))"] by (subst find_key.simps) simp
  then show ?thesis using b(2) by blast
qed

lemma find_key_found:
  assumes "keyed f vars" "scanning self xs prev ((11, string_bytes key) # opts) payload"
    and "i < length (vars v)" "i < BAD_KEY_INDEX" "fst (vars v ! i) = key" "\<forall>j < i. fst (vars v ! j) \<noteq> key"
    and "j \<le> i" "length buffer = 128"
  shows "\<exists>buffer' self'. find_key f j buffer (self, os, v) = Some (Inr i, buffer', (self', os, v)) \<and> length buffer' = 128 \<and>
    scanning self' (xs @ option_bytes prev 11 (string_bytes key)) 11 opts payload \<and> moved self self'"
  using assms(7,8)
proof (induction "i - j" arbitrary: j buffer)
  case 0
  then have j: "j = i" by simp
  obtain b where b: "f SMCP_VAR_GET_KEY (word_of_nat i) buffer (self, os, v) = Some (0, b, (self, os, v))" "length b = 128" "buffer_cstr b = Some key"
    using givesD [OF keyedD(1) [OF assms(1,4,3)], of buffer self os] 0 assms(5) by auto
  obtain self' p where "smcp_inbound_next_option self = Some ((word_of_nat 11, Some (Some p, word_of_nat (length key))), self')"
      "scanning self' (xs @ option_bytes prev 11 (string_bytes key)) 11 opts payload" "moved self self'"
    using next_option_value [OF assms(2)] by (auto simp: moved_def)
  then show ?case
    using b j assms(4) path_segment_equal [OF assms(2), of "string_bytes key"]
    by (subst find_key.simps) (simp add: instance_op_def)
next
  case (Suc d)
  then have j: "j < i" "j < BAD_KEY_INDEX" "j < length (vars v)" using assms(3,4) by simp_all
  then obtain b where "find_key f j buffer (self, os, v) = find_key f (j + 1) b (self, os, v)" "length b = 128"
    using find_key_other [OF assms(1,2)] assms(6) Suc.prems(2) by blast
  then show ?case using Suc.hyps(1) [of "j + 1" b] Suc.hyps(2) j(1) by simp
qed

lemma find_key_unknown:
  assumes "keyed f vars" "scanning self xs prev ((11, string_bytes key) # opts) payload"
    and "length (vars v) < BAD_KEY_INDEX" "key \<notin> fst ` set (vars v)" "j \<le> length (vars v)" "length buffer = 128"
  shows "\<exists>buffer'. find_key f j buffer (self, os, v) = Some (Inl SMCP_STATUS_NOT_FOUND, buffer', (self, os, v))"
  using assms(5,6)
proof (induction "length (vars v) - j" arbitrary: j buffer)
  case 0
  then have j: "j < BAD_KEY_INDEX" "j = length (vars v)" using assms(3) by simp_all
  obtain b ret where "f SMCP_VAR_GET_KEY (word_of_nat j) buffer (self, os, v) = Some (ret, b, (self, os, v))" "ret \<noteq> 0"
    by (rule givesD [OF keyedD(2) [OF assms(1) j], of buffer self os]) (use 0 in auto)
  then show ?case using j by (subst find_key.simps) simp
next
  case (Suc d)
  then have j: "j < BAD_KEY_INDEX" "j < length (vars v)" using assms(3) by simp_all
  moreover have "fst (vars v ! j) \<noteq> key" using assms(4) j(2) by force
  ultimately obtain b where "find_key f j buffer (self, os, v) = find_key f (j + 1) b (self, os, v)" "length b = 128"
    using find_key_other [OF assms(1,2)] Suc.prems(2) by blast
  then show ?case using Suc.hyps(1) [of "j + 1" b] Suc.hyps(2) by simp
qed

lemma peek_segment:
  assumes "scanning self xs prev ((11, v) # opts) payload"
  shows "\<exists>p. smcp_inbound_peek_option self = Some (COAP_OPTION_URI_PATH, Some (p, word_of_nat (length v)))"
proof -
  have prev: "prev \<le> 11" using assms by (simp add: scanning_def)
  then have "in_last_option_key (inbound self) \<noteq> COAP_OPTION_INVALID"
    using assms plain_key(1) [of prev] by (simp add: scanning_def)
  then show ?thesis
    using peek_option_next next_option_value [OF assms] by (auto simp: COAP_OPTION_URI_PATH_def)
qed

lemma segment_length:
  assumes "scanning self xs prev ((11, v) # opts) payload" "v \<noteq> []"
  shows "(word_of_nat (length v) :: u16) \<noteq> 0"
proof -
  have "length v < 65536" using assms(1) by (simp add: scanning_def)
  then have "unat (word_of_nat (length v) :: u16) = length v" by (rule u16_of_nat)
  then show ?thesis using assms(2) by (metis length_0_conv unat_0)
qed

text \<open>Options that the handler skips.\<close>

definition skipped :: "(nat \<times> u8 list) list \<Rightarrow> bool" where
  "skipped opts \<longleftrightarrow> (\<forall>(k, v) \<in> set opts. k < 65535 \<and> k \<notin> {11, 15, 17} \<and> \<not> COAP_OPTION_IS_CRITICAL (word_of_nat k))"

lemma variable_options_skipped:
  assumes "scanning self xs prev opts payload" "skipped opts"
  shows "\<exists>self'. variable_options method r self = Some ((SMCP_STATUS_OK, r), self') \<and> moved self self'"
  using assms
proof (induction opts arbitrary: self xs prev)
  case Nil
  then show ?case by (simp add: variable_options.simps next_option_end movedI)
next
  case (Cons o1 opts)
  obtain k v where kv: "o1 = (k, v)" by (cases o1)
  obtain self' p where n: "smcp_inbound_next_option self = Some ((word_of_nat k, Some (Some p, word_of_nat (length v))), self')"
      "scanning self' (xs @ option_bytes prev k v) k opts payload" "moved self self'"
    using next_option_more [of self xs prev k v opts payload] Cons.prems(1) unfolding kv moved_def by blast
  have k: "k < 65535" "k \<noteq> 11" "k \<noteq> 15" "k \<noteq> 17" "\<not> COAP_OPTION_IS_CRITICAL (word_of_nat k)"
    using Cons.prems(2) by (auto simp: skipped_def kv)
  have ne: "(word_of_nat k :: u32) \<noteq> COAP_OPTION_URI_PATH" "(word_of_nat k :: u32) \<noteq> COAP_OPTION_URI_QUERY"
      "(word_of_nat k :: u32) \<noteq> COAP_OPTION_ACCEPT"
    using k(1-4) plain_key(2) [OF k(1)] by (auto simp: option_numbers COAP_OPTION_ACCEPT_def COAP_OPTION_URI_QUERY_def)
  obtain self'' where "variable_options method r self' = Some ((SMCP_STATUS_OK, r), self'')" "moved self' self''"
    using Cons.IH [OF n(2)] Cons.prems(2) by (auto simp: skipped_def)
  then show ?case
    using n(1,3) ne k(5) plain_key(1) [OF k(1)] moved_trans by (subst variable_options.simps) auto
qed

section \<open>Replies\<close>

lemma uint_option_length: "length (uint_option_value n) \<le> 4"
  by (simp add: uint_option_value_def smcp_calc_uint32_option_size_def u32_bytes_def Let_def)

lemma add_option_uint_holds:
  assumes "holds_packet self p" "p_content p = []" "current_transaction self = None" "k < 65536"
    and "length (packet_front p) + 13 \<le> 1032"
  shows "\<exists>self'. smcp_outbound_add_option_uint (word_of_nat k) n self = Some (SMCP_STATUS_OK, self') \<and>
    holds_packet self' (p\<lparr>p_options := insert_opt k (uint_option_value n) (p_options p)\<rparr>) \<and> same_but_packet self self'"
  unfolding smcp_outbound_add_option_uint_def
  using assms uint_option_length [of n] by (intro add_option_holds) simp_all

text \<open>Content that is written in place becomes the content of the packet.\<close>

lemma content_written:
  assumes "holds_packet self q" "p_content q = []" "length (packet_front q) + 1 + length c \<le> 1032"
    and "length c + length zs + (length (packet_front q) + 1) = 1033"
  shows "holds_packet (set_outbound (\<lambda>out. out\<lparr>packet_bytes := packet_front q @ 0xFF # c @ zs, out_content_len := word_of_nat (length c)\<rparr>) self)
    (q\<lparr>p_content := c\<rparr>)"
proof -
  have "packet_front (q\<lparr>p_content := c\<rparr>) = packet_front q" "packet_ok (q\<lparr>p_content := c\<rparr>) = packet_ok q"
    by (simp_all add: packet_front_def packet_head_def packet_ok_def)
  then show ?thesis using assms by (simp add: holds_packet_def)
qed

lemma buffer_cstrD: "buffer_cstr buffer = Some s \<Longrightarrow> NUL \<notin> set s \<and> (\<exists>ws. buffer = s @ NUL # ws)"
proof -
  assume "buffer_cstr buffer = Some s"
  then have s: "s = takeWhile (\<lambda>c. c \<noteq> NUL) buffer" "NUL \<in> set buffer"
    by (auto simp: buffer_cstr_def strlen_mem_def takeWhile_eq_take [symmetric] split: if_splits)
  moreover obtain x xs where "dropWhile (\<lambda>c. c \<noteq> NUL) buffer = x # xs" using s(2) by (cases "dropWhile (\<lambda>c. c \<noteq> NUL) buffer") auto
  moreover from this have "x = NUL" by (metis (mono_tags) hd_dropWhile list.distinct(1) list.sel(1))
  ultimately show ?thesis by (metis (mono_tags, lifting) set_takeWhileD takeWhile_dropWhile_id)
qed

text \<open>A string of a buffer is encoded behind \<open>xs\<close>.\<close>

lemma url_encode_at:
  assumes "buffer = s @ NUL # ws" "NUL \<notin> set s" "length (url_encode s) < m" "m \<le> length ys"
  shows "url_encode_cstr (buffer @ xs @ ys) (length buffer + length xs) 0 m =
    Some (buffer @ xs @ url_encode s @ NUL # drop (length (url_encode s) + 1) ys, length (url_encode s))"
proof -
  have fit: "url_encode_fit (m - 1) s = url_encode s" using assms(3) by (intro url_encode_fit_all) simp
  have h: "mem_holds (buffer @ xs @ ys) 0 (s @ [NUL])" using mem_holds_self [of "[]" "s @ [NUL]" "ws @ xs @ ys"] assms(1) by simp
  have "url_encode_cstr (buffer @ xs @ ys) (length (buffer @ xs)) 0 m =
      Some (take (length (buffer @ xs)) (buffer @ xs @ ys) @ (url_encode s @ [NUL]) @
        drop (length (buffer @ xs) + length (url_encode s @ [NUL])) (buffer @ xs @ ys), length (url_encode s))"
    using url_encode_cstr_spec [OF h assms(2), of m "length (buffer @ xs)"] assms(1,3,4) fit by simp
  then show ?thesis by simp
qed

lemma put_form_value_holds:
  assumes "holds_packet self q" "p_content q = []" "current_transaction self = None"
    and "buffer_cstr buffer = Some s" "length (packet_front q) + length (url_encode s) + 5 \<le> 1032"
  shows "\<exists>mem. put_form_value buffer self = Some (SMCP_STATUS_OK,
      set_outbound (\<lambda>out. out\<lparr>packet_bytes := mem, out_content_len := word_of_nat (length (url_encode s) + 2)\<rparr>) self) \<and>
    holds_packet (set_outbound (\<lambda>out. out\<lparr>packet_bytes := mem, out_content_len := word_of_nat (length (url_encode s) + 2)\<rparr>) self)
      (q\<lparr>p_content := string_bytes (''v='' @ url_encode s)\<rparr>)"
proof -
  let ?p = "length (packet_front q) + 1" and ?m = "smcp_outbound_get_space_remaining self" and ?e = "url_encode s"
  let ?F = "byte_chars (packet_front q @ [0xFF])"
  obtain ws where s: "NUL \<notin> set s" "buffer = s @ NUL # ws" using buffer_cstrD [OF assms(4)] by blast
  obtain zs where zs: "packet_bytes (outbound self) = packet_front q @ 0xFF # zs" "length zs + ?p = 1033" "out_packet (outbound self)"
    using assms(1,2) by (auto simp: holds_packet_def)
  have "2 \<le> length zs" using zs(2) assms(5) by simp
  then obtain a b zs2 where ab: "zs = a # b # zs2" by (cases zs; cases "tl zs") auto
  have m: "unat (?m - 2) = 1030 - ?p"
    using holds_packet_space [OF assms(1)] assms(2,5) by (subst unat_sub) (simp_all add: word_le_nat_alt)
  have ptr: "smcp_outbound_get_content_ptr self = Some (?p, ?m, self)"
    using content_ptr_idle [OF assms(1,3)] assms(1,2) by (simp add: holds_packet_def)
  let ?mem = "?F @ ''v='' @ byte_chars zs2"
  have F: "length ?F = ?p" by (simp add: byte_chars_def)
  have put: "put_string ''v='' ?p (byte_chars (packet_bytes (outbound self))) = Some (?mem, ?p + 2)"
    using mem_write_n_split [of ?p ?F "byte_chars [a, b]" "''v=''" "byte_chars zs2"] F
    by (simp add: put_string_def zs(1) ab byte_chars_def)
  have "length (?F @ ''v='') = ?p + 2" using F by simp
  then have enc: "url_encode_cstr (buffer @ ?mem) (length buffer + (?p + 2)) 0 (1030 - ?p) =
      Some (buffer @ ?F @ ''v='' @ ?e @ NUL # drop (length ?e + 1) (byte_chars zs2), length ?e)"
    using url_encode_at [OF s(2,1), of "1030 - ?p" "byte_chars zs2" "?F @ ''v=''"] assms(5) zs(2) ab by (simp add: byte_chars_def)
  let ?ys = "0 # drop (length ?e + 1) zs2"
  have bytes: "string_bytes (?F @ ''v='' @ ?e @ NUL # drop (length ?e + 1) (byte_chars zs2)) =
      packet_front q @ 0xFF # string_bytes (''v='' @ ?e) @ ?ys"
    using string_bytes_byte_chars [of "packet_front q @ [0xFF]"] by (simp add: drop_byte_chars string_bytes_Cons)
  let ?s = "set_outbound (\<lambda>out. out\<lparr>packet_bytes := packet_front q @ 0xFF # string_bytes (''v='' @ ?e) @ ?ys,
    out_content_len := word_of_nat (length ?e + 2)\<rparr>) self"
  have "put_form_value buffer self = Some (SMCP_STATUS_OK, ?s)"
    using put enc zs(3) bytes
    by (simp add: put_form_value_def ptr out_mem_def out_bytes_def m smcp_outbound_set_content_len_def)
  moreover have "holds_packet ?s (q\<lparr>p_content := string_bytes (''v='' @ ?e)\<rparr>)"
    using content_written [OF assms(1,2), of "string_bytes (''v='' @ ?e)" ?ys] assms(5) zs(2) ab by simp
  ultimately show ?thesis by blast
qed

lemma variable_etag_total: "length s < 128 \<Longrightarrow> \<exists>e. variable_etag s = Some e"
  using fasthash_feed_foldl [of "word_of_nat (length s)" "string_bytes s" "fasthash_start 0"]
  by (simp add: variable_etag_def unsigned_of_nat take_bit_nat_eq_self)

lemma uint_option_form: "uint_option_value 65005 = [253, 237]"
  by (simp add: uint_option_value_def smcp_calc_uint32_option_size_def u32_bytes_def htonl_def push_bit_eq_mult drop_bit_eq_div Let_def
      and_exp_eq_0_iff_not_bit)

lemma buffer_cstr_length: "buffer_cstr buffer = Some s \<Longrightarrow> length s < length buffer"
  using buffer_cstrD by fastforce

text \<open>The options of a reply with a value.\<close>

lemma value_options:
  assumes "holds_packet self q" "p_options q = []" "p_content q = []" "current_transaction self = None"
  shows "\<exists>s1 s2. smcp_outbound_add_option_uint COAP_OPTION_CONTENT_TYPE (ucast SMCP_CONTENT_TYPE_APPLICATION_FORM_URLENCODED) self =
      Some (SMCP_STATUS_OK, s1) \<and> smcp_outbound_add_option_uint COAP_OPTION_ETAG e s1 = Some (SMCP_STATUS_OK, s2) \<and>
    holds_packet s2 (q\<lparr>p_options := [(4, uint_option_value e), (12, [253, 237])]\<rparr>) \<and>
    length (packet_front (q\<lparr>p_options := [(4, uint_option_value e), (12, [253, 237])]\<rparr>)) \<le> 40 \<and> (\<exists>out. s2 = self\<lparr>outbound := out\<rparr> \<and>
      out_saddr out = out_saddr (outbound self))"
proof -
  have t: "length (p_token q) \<le> 8" using assms(1) by (simp add: holds_packet_def packet_ok_def)
  let ?q1 = "q\<lparr>p_options := [(12, [253, 237])]\<rparr>"
  have f: "length (packet_front q) \<le> 12" "length (packet_front ?q1) \<le> 19"
    using t assms(2) option_bytes_length [of 0 12 "[253, 237]"] by (simp_all add: packet_front_def packet_head_length packet_head_def)
  obtain s1 where s1: "smcp_outbound_add_option_uint (word_of_nat 12) 65005 self = Some (SMCP_STATUS_OK, s1)" "holds_packet s1 ?q1" "same_but_packet self s1"
    using add_option_uint_holds [OF assms(1,3,4), of 12 65005] f assms(2) by (auto simp: insert_opt_def uint_option_form)
  have "current_transaction s1 = None" using s1(3) assms(4) by (auto simp: same_but_packet_def)
  then obtain s2 where s2: "smcp_outbound_add_option_uint (word_of_nat 4) e s1 = Some (SMCP_STATUS_OK, s2)"
      "holds_packet s2 (q\<lparr>p_options := [(4, uint_option_value e), (12, [253, 237])]\<rparr>)" "same_but_packet s1 s2"
    using add_option_uint_holds [OF s1(2), of 4 e] f assms(3) by (auto simp: insert_opt_def)
  have "length (packet_front (q\<lparr>p_options := [(4, uint_option_value e), (12, [253, 237])]\<rparr>)) \<le> 40"
    using t option_bytes_length [of 0 4 "uint_option_value e"] option_bytes_length [of 4 12 "[253, 237]"] uint_option_length [of e]
    by (simp add: packet_front_def packet_head_length packet_head_def)
  moreover have "\<exists>out. s2 = self\<lparr>outbound := out\<rparr> \<and> out_saddr out = out_saddr (outbound self)"
    using s1(3) s2(3) by (auto simp: same_but_packet_def)
  ultimately show ?thesis
    using s1(1) s2(1,2) by (simp add: COAP_OPTION_CONTENT_TYPE_def COAP_OPTION_ETAG_def SMCP_CONTENT_TYPE_APPLICATION_FORM_URLENCODED_def)
qed

lemma url_encode_length: "length (url_encode s) \<le> 3 * length s"
  by (induction s) (auto simp: length_encode_char)

text \<open>An instance that can answer the request that it is processing.\<close>

definition can_answer :: "smcp_s \<Rightarrow> packet \<Rightarrow> bool" where
  "can_answer self p \<longleftrightarrow> inbound_holds self p \<and> \<not> did_respond self \<and> \<not> is_responding self \<and> is_processing_message self \<and>
     length (packet_bytes (outbound self)) = 1033 \<and> current_transaction self = None \<and> take 2 (in_saddr (inbound self)) \<noteq> [0, 0]"

lemma moved_can_answer: "moved s s' \<Longrightarrow> can_answer s' p = can_answer s p"
  using moved_inbound_holds by (auto simp: can_answer_def moved_def)

lemma moved_fields: "moved s s' \<Longrightarrow> in_saddr (inbound s') = in_saddr (inbound s) \<and> sent_packets s' = sent_packets s"
  by (auto simp: moved_def)

text \<open>One packet is sent in reply to the request \<open>p\<close>.\<close>

definition answered :: "smcp_env \<Rightarrow> packet \<Rightarrow> smcp_s \<Rightarrow> nat \<Rightarrow> (nat \<times> u8 list) list \<Rightarrow> u8 list \<Rightarrow> smcp_status_t \<Rightarrow> smcp_s \<Rightarrow> bool" where
  "answered env p self code opts content st self' \<longleftrightarrow> (\<exists>q.
     st = send_status (env_send env (packet_wire q) (in_saddr (inbound self))) \<and>
     sent_packets self' = (packet_wire q, in_saddr (inbound self)) # sent_packets self \<and>
     response_to p (word_of_nat (HTTP_TO_COAP_CODE code)) q \<and> p_options q = opts \<and> p_content q = content)"

abbreviation responding :: "smcp_outbound_s \<Rightarrow> smcp_s \<Rightarrow> smcp_s" where
  "responding out self \<equiv> self\<lparr>outbound := out, force_current_outbound_code := False, is_responding := True\<rparr>"

lemma begin_answer:
  assumes "can_answer self p" "\<not> code < COAP_RESULT_100"
  obtains out q where "smcp_outbound_begin_response code self = Some (SMCP_STATUS_OK, responding out self)"
    "holds_packet (responding out self) q" "out_saddr out = in_saddr (inbound self)" "response_to p code q"
    "p_options q = []" "p_content q = []"
proof -
  have "\<not> did_respond self" "\<not> is_responding self" "is_processing_message self" "inbound_holds self p"
      "length (packet_bytes (outbound self)) = 1033" "current_transaction self = None"
    using assms(1) by (simp_all add: can_answer_def)
  from begin_response_holds [OF this assms(2)]
  obtain out q where q: "smcp_outbound_begin_response code self = Some (SMCP_STATUS_OK, responding out self)"
      "holds_packet (self\<lparr>outbound := out\<rparr>) q" "out_saddr out = in_saddr (inbound self)" "response_to p code q"
      "p_options q = []" "p_content q = []"
    by blast
  moreover have "holds_packet (responding out self) q" using q(2) by (simp add: holds_packet_def)
  ultimately show thesis using that by blast
qed

lemma variable_get_sends:
  assumes "serves (func node) vars" "i < length (vars v)" "i < BAD_KEY_INDEX" "length buffer = 128" "can_answer self p"
  shows "\<exists>st self' e. variable_get env node (word_of_nat i) SMCP_CONTENT_TYPE_APPLICATION_FORM_URLENCODED buffer (self, os, v) =
      Some (st, (self', os, v)) \<and> variable_etag (snd (vars v ! i)) = Some e \<and>
    answered env p self 205 [(4, uint_option_value e), (12, [253, 237])] (string_bytes (''v='' @ url_encode (snd (vars v ! i)))) st self'"
proof -
  let ?s = "snd (vars v ! i)"
  note c = assms(5) [unfolded can_answer_def]
  obtain out q where q: "smcp_outbound_begin_response (word_of_nat (HTTP_TO_COAP_CODE 205)) self = Some (SMCP_STATUS_OK, responding out self)"
      "holds_packet (responding out self) q" "out_saddr out = in_saddr (inbound self)" "response_to p (word_of_nat (HTTP_TO_COAP_CODE 205)) q"
      "p_options q = []" "p_content q = []"
    by (rule begin_answer [OF assms(5), of "word_of_nat (HTTP_TO_COAP_CODE 205)"]) simp_all
  let ?s1 = "responding out self"
  note D = servesD [OF assms(1,3,2)]
  obtain b1 r1 where b1: "func node SMCP_VAR_GET_OBSERVABLE (word_of_nat i) buffer (?s1, os, v) = Some (r1, b1, (?s1, os, v))" "length b1 = 128" "r1 \<noteq> 0"
    by (rule givesD [OF D(3) assms(4), of ?s1 os]) simp
  obtain b2 r2 where b2: "func node SMCP_VAR_GET_MAX_AGE (word_of_nat i) b1 (?s1, os, v) = Some (r2, b2, (?s1, os, v))" "length b2 = 128" "r2 \<noteq> 0"
    by (rule givesD [OF D(2) b1(2), of ?s1 os]) simp
  obtain b3 where b3: "func node SMCP_VAR_GET_VALUE (word_of_nat i) b2 (?s1, os, v) = Some (0, b3, (?s1, os, v))" "length b3 = 128" "buffer_cstr b3 = Some ?s"
    by (rule givesD [OF D(1) b2(2), of ?s1 os]) simp
  have len: "length ?s < 128" using buffer_cstr_length [OF b3(3)] b3(2) by simp
  then obtain e where e: "variable_etag ?s = Some e" using variable_etag_total by blast
  let ?q2 = "q\<lparr>p_options := [(4, uint_option_value e), (12, [253, 237])]\<rparr>"
  let ?c = "string_bytes (''v='' @ url_encode ?s)"
  obtain s2 s3 out3 where s3: "smcp_outbound_add_option_uint COAP_OPTION_CONTENT_TYPE (ucast SMCP_CONTENT_TYPE_APPLICATION_FORM_URLENCODED) ?s1 =
      Some (SMCP_STATUS_OK, s2)" "smcp_outbound_add_option_uint COAP_OPTION_ETAG e s2 = Some (SMCP_STATUS_OK, s3)"
      "holds_packet s3 ?q2" "length (packet_front ?q2) \<le> 40" "s3 = ?s1\<lparr>outbound := out3\<rparr>" "out_saddr out3 = out_saddr (outbound ?s1)"
    using value_options [OF q(2,5,6), of e] c by auto
  have f3: "p_content ?q2 = []" "current_transaction s3 = None" using q(6) c s3(5) by simp_all
  have "length (url_encode ?s) \<le> 3 * length ?s" by (rule url_encode_length)
  then have "length (packet_front ?q2) + length (url_encode ?s) + 5 \<le> 1032" using s3(4) len by simp
  from put_form_value_holds [OF s3(3) f3 b3(3) this]
  obtain out4 where s4: "put_form_value b3 s3 = Some (SMCP_STATUS_OK, s3\<lparr>outbound := out4\<rparr>)" "out_saddr out4 = out_saddr out3"
      "holds_packet (s3\<lparr>outbound := out4\<rparr>) (?q2\<lparr>p_content := ?c\<rparr>)"
    using s3(5) by fastforce
  let ?st = "send_status (env_send env (packet_wire (?q2\<lparr>p_content := ?c\<rparr>)) (in_saddr (inbound self)))"
  obtain s5 where s5: "smcp_outbound_send env (s3\<lparr>outbound := out4\<rparr>) = Some (?st, s5)"
      "sent_packets s5 = (packet_wire (?q2\<lparr>p_content := ?c\<rparr>), in_saddr (inbound self)) # sent_packets self"
    using outbound_send_holds [OF s4(3), of _ env] s4(2) s3(5,6) q(3) c by auto
  have "variable_get env node (word_of_nat i) SMCP_CONTENT_TYPE_APPLICATION_FORM_URLENCODED buffer (self, os, v) = Some (?st, (s5, os, v))"
    using q(1) b1 b2 b3 e s3(1,2) s4(1) s5(1) by (simp add: variable_get_def variable_get_form_def instance_op_def)
  moreover have "answered env p self 205 [(4, uint_option_value e), (12, [253, 237])] ?c ?st s5"
    unfolding answered_def using s5(2) q(4) by (intro exI [of _ "?q2\<lparr>p_content := ?c\<rparr>"]) (simp add: response_to_def)
  ultimately show ?thesis using e by blast
qed

section \<open>The value in a request\<close>

lemma url_encode_chars: "NUL \<notin> set s \<Longrightarrow> c \<in> set (url_encode s) \<Longrightarrow> c \<noteq> NUL \<and> c \<noteq> CHR '';'' \<and> c \<noteq> CHR ''&''"
proof (induction s)
  case (Cons a s)
  have length_hex: "length ''0123456789ABCDEF'' = 16" by simp
  have "int_to_hex_digit n \<noteq> x" if "x \<notin> set ''0123456789ABCDEF''" for n x
    unfolding int_to_hex_digit_def using that nth_mem [of "n mod 16" "''0123456789ABCDEF''"] by (metis length_hex mod_less_divisor zero_less_numeral)
  then have "int_to_hex_digit n \<notin> {NUL, CHR '';'', CHR ''&''}" for n by simp
  moreover have "isurlchar a \<Longrightarrow> a \<noteq> CHR '';'' \<and> a \<noteq> CHR ''&''"
    by (auto simp: isurlchar_def isalnum_def isalpha_def isupper_def islower_def isdigit_def char_code_def)
  ultimately show ?case using Cons by (auto simp: encode_char_def split: if_splits)
qed simp

text \<open>A form with the encoded value, in memory.\<close>

lemma form_value_at:
  assumes "NUL \<notin> set s" "CHR ''+'' \<notin> set s" "length (url_encode s) < 2 ^ 64 - 1"
  shows "form_value (xs @ ''v='' @ url_encode s @ NUL # zs) (length xs) =
    Some (xs @ CHR ''v'' # NUL # s @ NUL # drop (length s + 1) (url_encode s @ [NUL]) @ zs, length xs + 2, length s)"
proof -
  let ?e = "url_encode s" and ?q = "length xs + 2"
  let ?mem = "xs @ ''v='' @ ?e @ NUL # zs" and ?m1 = "xs @ CHR ''v'' # NUL # ?e @ NUL # zs"
  let ?m2 = "xs @ CHR ''v'' # NUL # s @ NUL # drop (length s + 1) (?e @ [NUL]) @ zs"
  have read: "mem_read ?mem (length xs) = Some (CHR ''v'')" "mem_read ?m1 (?q + length ?e) = Some NUL"
    by (simp_all add: mem_read_def nth_append)
  have "mem_holds ?mem (length xs) ''v=''" using mem_holds_self [of xs "''v=''"] by simp
  then have key: "form_key_loop ?mem (length xs) 0 = Some (?mem, length xs + 1, 1, True)"
    using form_key_loop_spec [of ?mem "length xs" "''v''" 0] by simp
  have wr: "mem_write ?mem (length xs + 1) NUL = Some ?m1"
    using mem_write_split [of "xs @ ''v''" "CHR ''=''" "?e @ NUL # zs" NUL] by simp
  have e: "mem_holds ?m1 ?q (?e @ [NUL])" using mem_holds_self [of "xs @ [CHR ''v'', NUL]" "?e @ [NUL]" zs] by simp
  then have scan: "scan_loop {CHR '';'', CHR ''&''} ?m1 ?q 2 = Some (?q + length ?e, 2 + length ?e)"
    using scan_loop_spec [OF e, of "{CHR '';'', CHR ''&''}" 2] url_encode_chars assms(1) by auto
  have inv: "url_decode ?e = s" using assms(1,2) by (intro url_decode_encode) auto
  have le: "length s \<le> length ?e" using length_url_decode [of ?e] inv by simp
  have dec: "url_decode_cstr_inplace ?m1 ?q = Some ?m2"
    using url_decode_inplace_spec [OF e _ assms(3)] inv url_encode_no_NUL [OF assms(1)] le
    by (cases "length s = length ?e") (simp_all add: numeral_3_eq_3)
  have "url_form_next_value ?mem (length xs) True = Some (?m2,
      \<lparr>ft_rest = ?q + length ?e, ft_key = Some (length xs), ft_value = Some ?q, ft_bytes = 2 + length ?e\<rparr>)"
    using read key wr scan dec by (simp add: url_form_next_value_def cut_at_def numeral_2_eq_2)
  moreover have "strlen_mem ?m2 (length xs) = Some 1" "strlen_mem ?m2 ?q = Some (length s)"
    using strlen_mem_at [of "''v''" xs] strlen_mem_at [OF assms(1), of "xs @ [CHR ''v'', NUL]"] by simp_all
  ultimately show ?thesis by (subst form_value.simps) simp
qed

text \<open>
  The request \<open>p\<close> holds the value \<open>s\<close>: as its content, or in a form. The content was found when the
  packet was received.
\<close>

definition carries :: "smcp_s \<Rightarrow> packet \<Rightarrow> string \<Rightarrow> bool" where
  "carries self p s \<longleftrightarrow> in_content_ptr (inbound self) = Some (length (packet_wire p) - length (p_content p)) \<and>
     in_content_len (inbound self) = word_of_nat (length (p_content p)) \<and> NUL \<notin> set s \<and> length s < 128 \<and>
     (if content_type (inbound self) = SMCP_CONTENT_TYPE_APPLICATION_FORM_URLENCODED
      then p_content p = string_bytes (''v='' @ url_encode s) \<and> CHR ''+'' \<notin> set s
      else p_content p = string_bytes s)"

abbreviation received_value :: "smcp_s \<Rightarrow> variable_request" where
  "received_value self \<equiv> \<lparr>vr_type = smcp_inbound_get_content_type self, vr_ptr = smcp_inbound_get_content_ptr self,
     vr_len = smcp_inbound_get_content_len self, vr_reply_type = SMCP_CONTENT_TYPE_APPLICATION_FORM_URLENCODED\<rparr>"

text \<open>The same request with other content of the same length.\<close>

lemma inbound_holds_content:
  assumes "inbound_holds self p" "packet_wire p = xs @ p_content p" "length c = length (p_content p)"
  shows "inbound_holds (set_inbound (\<lambda>i. i\<lparr>in_packet := Some (xs @ c @ 0 # zs)\<rparr>) self) (p\<lparr>p_content := c\<rparr>)"
proof -
  have wire: "packet_wire q = packet_front q @ (if p_content q = [] then [] else 0xFF # p_content q)" for q
    by (simp add: packet_wire_def)
  have "packet_front (p\<lparr>p_content := c\<rparr>) = packet_front p" by (simp add: packet_front_def packet_head_def)
  moreover have "xs = packet_front p @ (if p_content p = [] then [] else [0xFF])"
    using assms(2) wire [of p] append_same_eq [of xs "p_content p" "packet_front p @ [0xFF]"] by (auto split: if_splits)
  ultimately have "packet_wire (p\<lparr>p_content := c\<rparr>) = xs @ c"
    using assms(3) wire [of "p\<lparr>p_content := c\<rparr>"] by (cases "c = []") auto
  then show ?thesis using assms by (simp add: inbound_holds_def packet_ok_def)
qed

lemma buffer_cstr_at: "NUL \<notin> set s \<Longrightarrow> buffer_cstr (s @ NUL # zs) = Some s"
  using strlen_mem_at [of s "[]"] by (simp add: buffer_cstr_def)

text \<open>The memory behind the form value, with its terminator.\<close>

definition form_rest :: "string \<Rightarrow> string" where
  "form_rest s = drop (length s + 1) (url_encode s @ [NUL])"

lemma form_rest_terminated:
  assumes "length s \<le> length (url_encode s)"
  shows "\<exists>c. CHR ''v'' # NUL # s @ NUL # form_rest s = c @ [NUL] \<and> length c = length (url_encode s) + 2"
proof (cases "length s = length (url_encode s)")
  case True
  then show ?thesis by (intro exI [of _ "CHR ''v'' # NUL # s"]) (simp add: form_rest_def)
next
  case False
  then show ?thesis using assms
    by (intro exI [of _ "CHR ''v'' # NUL # s @ NUL # drop (length s + 1) (url_encode s)"]) (simp add: form_rest_def)
qed

lemma post_content_carries:
  assumes "can_answer self p" "carries self p s"
  shows "\<exists>mem c self'. post_content (received_value self) self = Some (mem, self') \<and> buffer_cstr mem = Some s \<and>
    can_answer self' (p\<lparr>p_content := c\<rparr>) \<and> in_saddr (inbound self') = in_saddr (inbound self) \<and> sent_packets self' = sent_packets self"
proof -
  let ?c = "p_content p"
  have h: "inbound_holds self p" using assms(1) by (simp add: can_answer_def)
  obtain xs where xs: "packet_wire p = xs @ ?c" by (cases "?c = []") (auto simp: packet_wire_def)
  obtain zs where zs: "in_packet (inbound self) = Some (xs @ ?c @ 0 # zs)" using h xs by (auto simp: inbound_holds_def)
  have ptr: "in_content_ptr (inbound self) = Some (length xs)" using assms(2) xs by (simp add: carries_def)
  have "length ?c < 65536" using h xs by (simp add: inbound_holds_def)
  then have len: "unat (in_content_len (inbound self)) = length ?c" using assms(2) by (simp add: carries_def u16_of_nat)
  have can: "can_answer (set_inbound (\<lambda>i. i\<lparr>in_packet := Some (xs @ c @ 0 # zs)\<rparr>) self) (p\<lparr>p_content := c\<rparr>)" if "length c = length ?c" for c
    using inbound_holds_content [OF h xs that] assms(1) by (simp add: can_answer_def)
  have n: "NUL \<notin> set s" "length s < 128" using assms(2) by (simp_all add: carries_def)
  show ?thesis
  proof (cases "content_type (inbound self) = SMCP_CONTENT_TYPE_APPLICATION_FORM_URLENCODED")
    case False
    then have c: "?c = string_bytes s" using assms(2) by (simp add: carries_def)
    have "post_content (received_value self) self = Some (s @ NUL # byte_chars zs, set_inbound (\<lambda>i. i\<lparr>in_packet := Some (xs @ ?c @ 0 # zs)\<rparr>) self)"
      using mem_write_split [of "xs @ ?c" 0 zs 0] False ptr len zs
      by (simp add: post_content_def smcp_inbound_get_content_ptr_def smcp_inbound_get_content_len_def smcp_inbound_get_content_type_def
          c byte_chars_append)
    then show ?thesis
      using buffer_cstr_at [OF n(1), of "byte_chars zs"] can [of ?c]
      by (intro exI [of _ "s @ NUL # byte_chars zs"] exI [of _ ?c] exI) (rule conjI, assumption, simp)
  next
    case True
    then have c: "?c = string_bytes (''v='' @ url_encode s)" "CHR ''+'' \<notin> set s" using assms(2) by (simp_all add: carries_def)
    have "url_decode (url_encode s) = s" using n(1) c(2) by (intro url_decode_encode) auto
    then have "length s \<le> length (url_encode s)" using length_url_decode [of "url_encode s"] by simp
    then obtain c' where c': "CHR ''v'' # NUL # s @ NUL # form_rest s = c' @ [NUL]" "length c' = length (url_encode s) + 2"
      using form_rest_terminated by blast
    let ?pk = "xs @ string_bytes (CHR ''v'' # NUL # s) @ 0 # string_bytes (form_rest s) @ zs"
    have "string_bytes (CHR ''v'' # NUL # s @ NUL # form_rest s) = string_bytes (c' @ [NUL])" by (simp only: c'(1))
    then have pk: "?pk = xs @ string_bytes c' @ 0 # zs" by (simp add: string_bytes_Cons string_bytes_def)
    have "length (url_encode s) < 2 ^ 64 - 1" using url_encode_length [of s] n(2) by simp
    from form_value_at [OF n(1) c(2) this, of "byte_chars xs" "byte_chars zs"]
    have "form_value (byte_chars (xs @ ?c @ 0 # zs)) (length xs) =
        Some (byte_chars xs @ CHR ''v'' # NUL # s @ NUL # form_rest s @ byte_chars zs, length xs + 2, length s)"
      by (simp add: c(1) byte_chars_append form_rest_def)
    moreover have "string_bytes (byte_chars xs @ CHR ''v'' # NUL # s @ NUL # form_rest s @ byte_chars zs) = ?pk"
      by (simp add: string_bytes_Cons)
    moreover have "mem_write ?pk (length xs + 2 + length s) 0 = Some ?pk"
      using mem_write_split [of "xs @ string_bytes (CHR ''v'' # NUL # s)" 0 "string_bytes (form_rest s) @ zs" 0] by simp
    moreover have "byte_chars (drop (length xs + 2) ?pk) = s @ NUL # byte_chars (string_bytes (form_rest s) @ zs)"
      by (simp add: string_bytes_Cons byte_chars_append)
    moreover have "unat (word_of_nat (length s) :: u16) = length s" using n(2) by (intro u16_of_nat) simp
    ultimately have "post_content (received_value self) self =
        Some (s @ NUL # byte_chars (string_bytes (form_rest s) @ zs), set_inbound (\<lambda>i. i\<lparr>in_packet := Some ?pk\<rparr>) self)"
      using True ptr zs
      by (simp add: post_content_def smcp_inbound_get_content_ptr_def smcp_inbound_get_content_len_def smcp_inbound_get_content_type_def)
    then show ?thesis
      using buffer_cstr_at [OF n(1), of "byte_chars (string_bytes (form_rest s) @ zs)"] can [of "string_bytes c'"] c'(2) c(1) unfolding pk
      by (intro exI [of _ "s @ NUL # byte_chars (string_bytes (form_rest s) @ zs)"] exI [of _ "string_bytes c'"] exI) (rule conjI, assumption, simp)
  qed
qed

section \<open>The requests\<close>

lemma response_to_content: "response_to (p\<lparr>p_content := c\<rparr>) code q = response_to p code q"
  by (simp add: response_to_def)

lemma variable_post_sets:
  assumes "sets_value f vars v i s" "i < BAD_KEY_INDEX" "can_answer self p" "carries self p s" "\<not> is_dupe (inbound self)"
  shows "\<exists>st self' v'. variable_post env f i (received_value self) (self, os, v) = Some (st, (self', os, v')) \<and>
    vars v' = (vars v)[i := (fst (vars v ! i), s)] \<and> answered env p self 204 [] [] st self'"
proof -
  obtain mem c s1 where s1: "post_content (received_value self) self = Some (mem, s1)" "buffer_cstr mem = Some s"
      "can_answer s1 (p\<lparr>p_content := c\<rparr>)" "in_saddr (inbound s1) = in_saddr (inbound self)" "sent_packets s1 = sent_packets self"
    using post_content_carries [OF assms(3,4)] by blast
  obtain mem' v' where v': "f SMCP_VAR_SET_VALUE (word_of_nat i) mem (s1, os, v) = Some (0, mem', (s1, os, v'))"
      "vars v' = (vars v)[i := (fst (vars v ! i), s)]"
    using assms(1) s1(2) unfolding sets_value_def by blast
  obtain out q where q: "smcp_outbound_begin_response (word_of_nat (HTTP_TO_COAP_CODE 204)) s1 = Some (SMCP_STATUS_OK, responding out s1)"
      "holds_packet (responding out s1) q" "out_saddr out = in_saddr (inbound s1)"
      "response_to (p\<lparr>p_content := c\<rparr>) (word_of_nat (HTTP_TO_COAP_CODE 204)) q" "p_options q = []" "p_content q = []"
    by (rule begin_answer [OF s1(3), of "word_of_nat (HTTP_TO_COAP_CODE 204)"]) simp_all
  let ?st = "send_status (env_send env (packet_wire q) (in_saddr (inbound self)))"
  obtain s2 where s2: "smcp_outbound_send env (responding out s1) = Some (?st, s2)"
      "sent_packets s2 = (packet_wire q, in_saddr (inbound self)) # sent_packets self"
    using outbound_send_holds [OF q(2), of _ env] q(3) s1(3-5) by (auto simp: can_answer_def)
  have "variable_post env f i (received_value self) (self, os, v) = Some (?st, (s2, os, v'))"
    using assms(2,5) s1(1) v'(1) q(1) s2(1) by (simp add: variable_post_def smcp_inbound_is_dupe_def instance_op_def)
  moreover have "answered env p self 204 [] [] ?st s2"
    unfolding answered_def using s2(2) q(4-6) response_to_content by (intro exI [of _ q]) auto
  ultimately show ?thesis using v'(2) by blast
qed

text \<open>The handler finds the variable that the last path segment names.\<close>

lemma handler_finds:
  assumes "keyed (func node) vars" "scanning self xs prev ((11, string_bytes key) # opts) payload" "skipped opts" "key \<noteq> []"
    and "i < length (vars v)" "i < BAD_KEY_INDEX" "fst (vars v ! i) = key" "\<forall>j < i. fst (vars v ! j) \<noteq> key"
    and "length buffer = 128" "can_answer self p"
  shows "\<exists>b self'. moved self self' \<and> length b = 128 \<and> smcp_variable_node_request_handler env ns n buffer (Some node) (self, os, v) =
    (if p_code p = 2 \<or> p_code p = 3 then variable_post env (func node) i (received_value self) (self', os, v)
     else if p_code p = 1 then variable_get env node (word_of_nat i) SMCP_CONTENT_TYPE_APPLICATION_FORM_URLENCODED b (self', os, v)
     else instance_op (smcp_default_request_handler env ns n) (self', os, v))"
proof -
  obtain b s1 where s1: "find_key (func node) 0 buffer (self, os, v) = Some (Inr i, b, (s1, os, v))" "length b = 128"
      "scanning s1 (xs @ option_bytes prev 11 (string_bytes key)) 11 opts payload" "moved self s1"
    using find_key_found [OF assms(1,2,5-8) _ assms(9), of 0] by blast
  have code: "smcp_inbound_get_code self = Some (ucast (p_code p))"
    using inbound_holds_fields [of self p] assms(10) by (auto simp: can_answer_def smcp_inbound_get_code_def smcp_inbound_get_packet_def)
  have key: "variable_key (func node) buffer (self, os, v) = Some (Inr (i, True), b, (s1, os, v))"
    using peek_segment [OF assms(2)] segment_length [OF assms(2)] assms(4) s1(1) by (auto simp: variable_key_def string_bytes_def)
  obtain s2 where s2: "variable_options (ucast (p_code p)) (received_value self) s1 = Some ((SMCP_STATUS_OK, received_value self), s2)" "moved s1 s2"
    using variable_options_skipped [OF s1(3) assms(3)] by blast
  have "(ucast (p_code p) :: u16) = ucast c \<longleftrightarrow> p_code p = c" for c by (metis code_u8)
  from this [of 1] this [of 2] this [of 3]
  have c: "(ucast (p_code p) :: u16) = 1 \<longleftrightarrow> p_code p = 1" "(ucast (p_code p) :: u16) = 2 \<longleftrightarrow> p_code p = 2"
      "(ucast (p_code p) :: u16) = 3 \<longleftrightarrow> p_code p = 3"
    by simp_all
  have "i \<noteq> BAD_KEY_INDEX" using assms(6) by simp
  then have "smcp_variable_node_request_handler env ns n buffer (Some node) (self, os, v) =
    (if p_code p = 2 \<or> p_code p = 3 then variable_post env (func node) i (received_value self) (s2, os, v)
     else if p_code p = 1 then variable_get env node (word_of_nat i) SMCP_CONTENT_TYPE_APPLICATION_FORM_URLENCODED b (s2, os, v)
     else instance_op (smcp_default_request_handler env ns n) (s2, os, v))"
    using code key s2(1) c by (simp add: smcp_variable_node_request_handler_def instance_op_def)
  then show ?thesis using moved_trans [OF s1(4) s2(2)] s1(2) by blast
qed

text \<open>
  C6: a GET request for a variable is answered with one packet of code 2.05 that holds the value of the
  variable as the field \<^verbatim>\<open>v\<close> of a form, with the hash of the value as its entity tag. The application is
  not changed. The variable has no maximum age and can not be observed, and the request does not ask
  for another content type.
\<close>

theorem variable_read:
  assumes "serves (func node) vars" "can_answer self p" "p_code p = 1"
    and "scanning self xs prev ((11, string_bytes key) # opts) payload" "skipped opts" "key \<noteq> []"
    and "i < length (vars v)" "i < BAD_KEY_INDEX" "fst (vars v ! i) = key" "\<forall>j < i. fst (vars v ! j) \<noteq> key" "length buffer = 128"
  shows "\<exists>st self' e. smcp_variable_node_request_handler env ns n buffer (Some node) (self, os, v) = Some (st, (self', os, v)) \<and>
    variable_etag (snd (vars v ! i)) = Some e \<and>
    answered env p self 205 [(4, uint_option_value e), (12, [253, 237])] (string_bytes (''v='' @ url_encode (snd (vars v ! i)))) st self'"
proof -
  have keyed: "keyed (func node) vars" using assms(1) by (simp add: serves_def)
  obtain b s1 where s1: "moved self s1" "length b = 128" "smcp_variable_node_request_handler env ns n buffer (Some node) (self, os, v) =
      variable_get env node (word_of_nat i) SMCP_CONTENT_TYPE_APPLICATION_FORM_URLENCODED b (s1, os, v)"
    using handler_finds [OF keyed assms(4-11,2), of env ns n os] assms(3) by auto
  have "can_answer s1 p" using moved_can_answer [OF s1(1)] assms(2) by blast
  then show ?thesis
    using variable_get_sends [OF assms(1,7,8) s1(2), of s1 p env os] s1(3) moved_fields [OF s1(1)] by (simp add: answered_def)
qed

text \<open>
  C5: a POST or PUT request for a variable sets it to the value that the request carries, as its content
  or as the encoded field \<^verbatim>\<open>v\<close> of a form, such as the answer to a GET request, when the application takes
  this value; all other variables keep their values, and one packet of code 2.04 without content is
  sent.
\<close>

theorem variable_written:
  assumes "keyed (func node) vars" "sets_value (func node) vars v i s" "can_answer self p" "p_code p = 2 \<or> p_code p = 3" "carries self p s" "\<not> is_dupe (inbound self)"
    and "scanning self xs prev ((11, string_bytes key) # opts) payload" "skipped opts" "key \<noteq> []"
    and "i < length (vars v)" "i < BAD_KEY_INDEX" "fst (vars v ! i) = key" "\<forall>j < i. fst (vars v ! j) \<noteq> key" "length buffer = 128"
  shows "\<exists>st self' v'. smcp_variable_node_request_handler env ns n buffer (Some node) (self, os, v) = Some (st, (self', os, v')) \<and>
    vars v' = (vars v)[i := (key, s)] \<and> answered env p self 204 [] [] st self'"
proof -
  obtain s1 where s1: "moved self s1" "smcp_variable_node_request_handler env ns n buffer (Some node) (self, os, v) =
      variable_post env (func node) i (received_value self) (s1, os, v)"
    using handler_finds [OF assms(1,7-14,3), of env ns n os] assms(4) by auto
  have m: "can_answer s1 p" "carries s1 p s" "\<not> is_dupe (inbound s1)" "received_value s1 = received_value self"
    using moved_can_answer [OF s1(1)] s1(1) assms(3,5,6)
    by (auto simp: moved_def carries_def smcp_inbound_get_content_type_def smcp_inbound_get_content_ptr_def smcp_inbound_get_content_len_def)
  then show ?thesis
    using variable_post_sets [OF assms(2,11) m(1-3), of env os] s1(2) moved_fields [OF s1(1)] assms(12) by (simp add: answered_def)
qed

text \<open>
  A request for a variable that does not exist is not answered by the handler, which returns not
  found; neither the application nor the instance is changed.
\<close>

theorem unknown_variable:
  assumes "keyed (func node) vars" "can_answer self p" "scanning self xs prev ((11, string_bytes key) # opts) payload" "key \<noteq> []"
    and "key \<notin> fst ` set (vars v)" "length (vars v) < BAD_KEY_INDEX" "length buffer = 128"
  shows "smcp_variable_node_request_handler env ns n buffer (Some node) (self, os, v) = Some (SMCP_STATUS_NOT_FOUND, (self, os, v))"
proof -
  obtain b where b: "find_key (func node) 0 buffer (self, os, v) = Some (Inl SMCP_STATUS_NOT_FOUND, b, (self, os, v))"
    using find_key_unknown [OF assms(1,3,6,5) _ assms(7), of 0] by blast
  have "variable_key (func node) buffer (self, os, v) = Some (Inl SMCP_STATUS_NOT_FOUND, b, (self, os, v))"
    using peek_segment [OF assms(3)] segment_length [OF assms(3)] assms(4) b by (auto simp: variable_key_def string_bytes_def)
  moreover have "\<exists>m. smcp_inbound_get_code self = Some m"
    using inbound_holds_fields [of self p] assms(2) by (auto simp: can_answer_def smcp_inbound_get_code_def smcp_inbound_get_packet_def)
  ultimately show ?thesis by (auto simp: smcp_variable_node_request_handler_def)
qed

section \<open>An application\<close>

text \<open>Variables in a list; strings are cut to fit the buffer.\<close>

definition clean :: "string \<Rightarrow> string" where
  "clean s = take 127 (takeWhile (\<lambda>c. c \<noteq> NUL) s)"

definition fill :: "string \<Rightarrow> string" where
  "fill s = clean s @ replicate (128 - length (clean s)) NUL"

definition sample_app :: "(string \<times> string) list variable_func" where
  "sample_app action i mem w = (case w of (self, os, v) \<Rightarrow>
     if unat i < length v \<and> action = SMCP_VAR_GET_KEY then Some (0, fill (fst (v ! unat i)), w)
     else if unat i < length v \<and> action = SMCP_VAR_GET_VALUE then Some (0, fill (snd (v ! unat i)), w)
     else if unat i < length v \<and> action = SMCP_VAR_SET_VALUE
     then map_option (\<lambda>s. (0, mem, (self, os, v[unat i := (fst (v ! unat i), s)]))) (buffer_cstr mem)
     else Some (SMCP_STATUS_NOT_FOUND, mem, w))"

definition sample_vars :: "(string \<times> string) list \<Rightarrow> (string \<times> string) list" where
  "sample_vars v = map (map_prod clean clean) v"

lemma clean_length: "length (clean s) < 128" "NUL \<notin> set (clean s)"
  by (auto simp: clean_def dest!: in_set_takeD set_takeWhileD)

lemma fill_buffer: "length (fill s) = 128" "buffer_cstr (fill s) = Some (clean s)"
proof -
  obtain n where "128 - length (clean s) = Suc n" using clean_length [of s] by (cases "128 - length (clean s)") auto
  then have "fill s = clean s @ NUL # replicate n NUL" by (simp add: fill_def)
  then show "buffer_cstr (fill s) = Some (clean s)" using buffer_cstr_at [OF clean_length(2)] by simp
  show "length (fill s) = 128" using clean_length(1) [of s] by (simp add: fill_def)
qed

lemma clean_cstr:
  assumes "NUL \<notin> set s" "length s < 128"
  shows "clean s = s"
proof -
  have "takeWhile (\<lambda>c. c \<noteq> NUL) s = s" using assms(1) by (auto simp: takeWhile_eq_all_conv)
  then show ?thesis unfolding clean_def using assms(2) by (simp del: takeWhile_eq_all_conv)
qed

lemma sample_serves: "serves sample_app sample_vars"
proof -
  have "unat (word_of_nat i :: u8) = i" if "i < BAD_KEY_INDEX" for i
    using that by (simp add: BAD_KEY_INDEX_def unsigned_of_nat take_bit_nat_eq_self)
  then show ?thesis
    by (simp add: serves_def keyed_def gives_def sample_app_def sample_vars_def variable_numbers fill_buffer)
qed

lemma sample_sets:
  assumes "i < length v" "i < BAD_KEY_INDEX" "length s < 128"
  shows "sets_value sample_app sample_vars v i s"
  unfolding sets_value_def
proof (intro allI impI)
  fix mem self os
  assume a: "buffer_cstr mem = Some s"
  have u: "unat (word_of_nat i :: u8) = i" using assms(2) by (simp add: BAD_KEY_INDEX_def unsigned_of_nat take_bit_nat_eq_self)
  have "clean s = s" using buffer_cstrD [OF a] clean_cstr assms(3) by blast
  then show "\<exists>mem' v'. sample_app SMCP_VAR_SET_VALUE (word_of_nat i) mem (self, os, v) = Some (0, mem', (self, os, v')) \<and>
      sample_vars v' = (sample_vars v)[i := (fst (sample_vars v ! i), s)]"
    using a u assms(1) by (simp add: sample_app_def sample_vars_def variable_numbers map_update)
qed

text \<open>An instance that has received a request.\<close>

lemma request_received:
  assumes "packet_ok p" "empty_ok p" "plain_keys (p_options p)" "length (packet_wire p) \<le> 1240"
  shows "\<exists>self. can_answer self p \<and> scanning self (packet_head p) 0 (p_options p) (packet_payload p) \<and> \<not> is_dupe (inbound self) \<and>
    in_content_ptr (inbound self) = Some (length (packet_wire p) - length (p_content p)) \<and>
    in_content_len (inbound self) = word_of_nat (length (p_content p)) \<and> content_type (inbound self) = 0"
proof -
  from start_packet_holds [OF assms] obtain i where i: "inbound_holds (zero_state\<lparr>inbound := i\<rparr>) p" by blast
  then obtain j where "j = i\<lparr>in_last_option_key := 0, this_option := Some (4 + length (p_token p))\<rparr>"
      and sc: "scanning (zero_state\<lparr>inbound := j\<rparr>) (packet_head p) 0 (p_options p) (packet_payload p)"
    using inbound_holds_reset [of "zero_state\<lparr>inbound := i\<rparr>" p] by auto
  then have j: "inbound_holds (zero_state\<lparr>inbound := j\<rparr>) p" using i by (simp add: inbound_holds_def)
  let ?j = "j\<lparr>in_saddr := replicate 28 1, in_content_ptr := Some (length (packet_wire p) - length (p_content p)),
    in_content_len := word_of_nat (length (p_content p)), content_type := 0, is_dupe := False\<rparr>"
  let ?s = "zero_state\<lparr>inbound := ?j, is_processing_message := True\<rparr>"
  have "inbound_holds ?s p" using j by (simp add: inbound_holds_def)
  then have "can_answer ?s p" using zero_state_begin(1) sample_family by (simp add: can_answer_def zero_smcp_def)
  moreover have "scanning ?s (packet_head p) 0 (p_options p) (packet_payload p)" using sc by (simp add: scanning_def)
  ultimately show ?thesis by (intro exI [of _ ?s]) simp
qed

text \<open>A request for the path \<^verbatim>\<open>a\<close>, with the content \<^verbatim>\<open>y\<close>.\<close>

definition variable_packet :: "u8 \<Rightarrow> packet" where
  "variable_packet code = \<lparr>p_first = 0x41, p_code = code, p_msg_id = 0x1234, p_token = [7], p_options = [(11, [97])], p_content = [121]\<rparr>"

lemma variable_received:
  assumes "code \<noteq> 0"
  shows "\<exists>self. can_answer self (variable_packet code) \<and> carries self (variable_packet code) ''y'' \<and> \<not> is_dupe (inbound self) \<and>
    scanning self (packet_head (variable_packet code)) 0 [(11, string_bytes ''a'')] (packet_payload (variable_packet code))"
proof -
  let ?p = "variable_packet code"
  have "packet_ok ?p" "empty_ok ?p" "plain_keys (p_options ?p)" "length (packet_wire ?p) \<le> 1240"
    using assms by (simp_all add: variable_packet_def packet_ok_def empty_ok_def COAP_VERSION_def header_version_def header_token_len_def
      packet_wire_payload packet_payload_def packet_head_length option_bytes_def length_opt_header length_opt_ext
      COAP_CODE_EMPTY_def drop_bit_eq_div word_unat_eq_iff)
  from request_received [OF this] obtain self where r: "can_answer self ?p"
      "scanning self (packet_head ?p) 0 (p_options ?p) (packet_payload ?p)" "\<not> is_dupe (inbound self)"
      "in_content_ptr (inbound self) = Some (length (packet_wire ?p) - length (p_content ?p))"
      "in_content_len (inbound self) = word_of_nat (length (p_content ?p))" "content_type (inbound self) = 0"
    by blast
  have f: "p_options ?p = [(11, string_bytes ''a'')]" "p_content ?p = string_bytes ''y''"
    by (simp_all add: variable_packet_def string_bytes_def char_code_def)
  then have "carries self ?p ''y''" using r(4-6) by (simp add: carries_def SMCP_CONTENT_TYPE_APPLICATION_FORM_URLENCODED_def)
  then show ?thesis using r(1-3) f(1) by auto
qed

definition sample_variable :: "(string \<times> string) list smcp_variable_node_s" where
  "sample_variable = \<lparr>func = sample_app, node_observable = 0\<rparr>"

lemma sample_variable_facts:
  "serves (func sample_variable) sample_vars" "skipped []" "''a'' \<noteq> []" "0 < length (sample_vars [(''a'', ''x y'')])" "0 < BAD_KEY_INDEX"
  "fst (sample_vars [(''a'', ''x y'')] ! 0) = ''a''" "\<forall>j < 0. fst (sample_vars [(''a'', ''x y'')] ! j) \<noteq> ''a''" "length (replicate 128 NUL) = 128"
  using sample_serves by (simp_all add: sample_variable_def sample_vars_def clean_def skipped_def BAD_KEY_INDEX_def)

theorem variable_read_witness:
  "\<exists>self st self' q. smcp_variable_node_request_handler accepting_env sample_router 1 (replicate 128 NUL) (Some sample_variable)
       (self, one_observer, [(''a'', ''x y'')]) = Some (st, (self', one_observer, [(''a'', ''x y'')])) \<and>
     (\<exists>d. sent_packets self' = (packet_wire q, d) # sent_packets self) \<and> p_content q = string_bytes ''v=x%20y''"
proof -
  obtain self where s: "can_answer self (variable_packet 1)"
      "scanning self (packet_head (variable_packet 1)) 0 [(11, string_bytes ''a'')] (packet_payload (variable_packet 1))"
    using variable_received [of 1] by auto
  have c: "p_code (variable_packet 1) = 1" by (simp add: variable_packet_def)
  have l: "''v='' @ url_encode (snd (sample_vars [(''a'', ''x y'')] ! 0)) = ''v=x%20y''"
    by (simp add: sample_vars_def clean_def encode_char_def isurlchar_def isalnum_def isalpha_def isupper_def islower_def isdigit_def
        char_code_def int_to_hex_digit_def)
  show ?thesis
    using variable_read [where node = sample_variable and vars = sample_vars and v = "[(''a'', ''x y'')]" and i = 0 and key = "''a''" and
        buffer = "replicate 128 NUL" and env = accepting_env and ns = sample_router and n = 1 and os = one_observer,
        OF sample_variable_facts(1) s(1) c s(2) sample_variable_facts(2-8)]
    unfolding l answered_def by blast
qed

theorem variable_written_witness:
  "\<exists>self st self' v'. smcp_variable_node_request_handler accepting_env sample_router 1 (replicate 128 NUL) (Some sample_variable)
       (self, one_observer, [(''a'', ''x y'')]) = Some (st, (self', one_observer, v')) \<and>
     sample_vars v' = [(''a'', ''y'')] \<and> answered accepting_env (variable_packet 3) self 204 [] [] st self'"
proof -
  obtain self where s: "can_answer self (variable_packet 3)" "carries self (variable_packet 3) ''y''" "\<not> is_dupe (inbound self)"
      "scanning self (packet_head (variable_packet 3)) 0 [(11, string_bytes ''a'')] (packet_payload (variable_packet 3))"
    using variable_received [of 3] by auto
  have c: "p_code (variable_packet 3) = 2 \<or> p_code (variable_packet 3) = 3" by (simp add: variable_packet_def)
  have k: "keyed (func sample_variable) sample_vars" using sample_variable_facts(1) by (simp add: serves_def)
  have sets: "sets_value (func sample_variable) sample_vars [(''a'', ''x y'')] 0 ''y''"
    using sample_sets [of 0 "[(''a'', ''x y'')]"] by (simp add: sample_variable_def BAD_KEY_INDEX_def)
  have "(sample_vars [(''a'', ''x y'')])[0 := (''a'', ''y'')] = [(''a'', ''y'')]" by (simp add: sample_vars_def)
  then show ?thesis
    using variable_written [where node = sample_variable and vars = sample_vars and v = "[(''a'', ''x y'')]" and i = 0 and key = "''a''" and
        buffer = "replicate 128 NUL" and env = accepting_env and ns = sample_router and n = 1 and os = one_observer,
        OF k sets s(1) c s(2-4) sample_variable_facts(2-8)]
    by auto
qed

theorem unknown_variable_witness:
  "\<exists>self. smcp_variable_node_request_handler accepting_env sample_router 1 (replicate 128 NUL) (Some sample_variable)
       (self, one_observer, [(''b'', ''x y'')]) = Some (SMCP_STATUS_NOT_FOUND, (self, one_observer, [(''b'', ''x y'')]))"
proof -
  obtain self where s: "can_answer self (variable_packet 1)"
      "scanning self (packet_head (variable_packet 1)) 0 [(11, string_bytes ''a'')] (packet_payload (variable_packet 1))"
    using variable_received [of 1] by auto
  have k: "''a'' \<notin> fst ` set (sample_vars [(''b'', ''x y'')])" "length (sample_vars [(''b'', ''x y'')]) < BAD_KEY_INDEX"
    by (simp_all add: sample_vars_def clean_def BAD_KEY_INDEX_def)
  show ?thesis
    using unknown_variable [where node = sample_variable and vars = sample_vars and v = "[(''b'', ''x y'')]",
        OF sample_variable_facts(1) [unfolded serves_def, THEN conjunct1] s sample_variable_facts(3) k sample_variable_facts(8), of accepting_env sample_router 1 one_observer] by blast
qed

end
