(* ===== verification/Variable_Apps.thy ===== *)
theory Variable_Apps
  imports Variable_Requests
begin

text \<open>
  The callbacks of the variable nodes in the repository: the load and the uptime of the daemon's system
  node (\<^verbatim>\<open>src/smcpd/system-node.c\<close>), and the LEDs and sensors of the Contiki port (\<^verbatim>\<open>contiki-src\<close>). What they
  call of the system is a parameter.
\<close>

unbundle bit_operations_syntax

definition strcpy_to :: "string \<Rightarrow> string \<Rightarrow> string option" where
  "strcpy_to s mem = mem_write_n mem 0 (s @ [NUL])"

definition SMCP_VARIABLE_MAX_VALUE_LENGTH :: nat where "SMCP_VARIABLE_MAX_VALUE_LENGTH = 127"

text \<open>What an action answers with a text, and with a status alone.\<close>

definition with_text :: "string \<Rightarrow> string \<Rightarrow> 'v world \<Rightarrow> (smcp_status_t \<times> string \<times> 'v world) option" where
  "with_text s mem w = map_option (\<lambda>m. (SMCP_STATUS_OK, m, w)) (strcpy_to s mem)"

section \<open>The system node\<close>

definition SYS_NODE_PATH_LOADAVG_1 :: u8 where "SYS_NODE_PATH_LOADAVG_1 = 0"
definition SYS_NODE_PATH_LOADAVG_5 :: u8 where "SYS_NODE_PATH_LOADAVG_5 = 1"
definition SYS_NODE_PATH_LOADAVG_15 :: u8 where "SYS_NODE_PATH_LOADAVG_15 = 2"
definition SYS_NODE_PATH_UPTIME :: u8 where "SYS_NODE_PATH_UPTIME = 3"
definition SYS_NODE_PATH_COUNT :: u8 where "SYS_NODE_PATH_COUNT = 4"

text \<open>
  The system: the texts of the loads with two decimals, when they can be had, and the uptime in
  seconds.
\<close>

record system_info =
  load_texts :: "(nat \<Rightarrow> string) option"
  uptime :: int

definition path_names :: "string list" where
  "path_names = [''loadavg-1'', ''loadavg-5'', ''loadavg-15'', ''uptime'']"

text \<open>\<^verbatim>\<open>snprintf\<close> into the buffer; the length of the whole text is compared with the size.\<close>

definition print_value :: "string \<Rightarrow> string \<Rightarrow> 'v world \<Rightarrow> (smcp_status_t \<times> string \<times> 'v world) option" where
  "print_value s mem w = do {
     mem \<leftarrow> strcpy_to (take (SMCP_VARIABLE_MAX_VALUE_LENGTH - 1) s) mem;
     Some (if length s \<le> SMCP_VARIABLE_MAX_VALUE_LENGTH then SMCP_STATUS_OK else SMCP_STATUS_FAILURE, mem, w)
   }"

definition device_func :: "('v \<Rightarrow> system_info) \<Rightarrow> 'v variable_func" where
  "device_func sys action path mem w =
     (if path \<ge> SYS_NODE_PATH_COUNT then Some (SMCP_STATUS_NOT_FOUND, mem, w)
      else if action = SMCP_VAR_GET_KEY then with_text (path_names ! unat path) mem w
      else if action = SMCP_VAR_GET_MAX_AGE then with_text (if path = SYS_NODE_PATH_UPTIME then ''1'' else ''5'') mem w
      else if action = SMCP_VAR_GET_OBSERVABLE then Some (SMCP_STATUS_OK, mem, w)
      else if action = SMCP_VAR_GET_VALUE then
        (if path = SYS_NODE_PATH_UPTIME then print_value (int_text (sint (word_of_int (uptime (sys (snd (snd w)))) :: 32 word))) mem w
         else case load_texts (sys (snd (snd w))) of
                None \<Rightarrow> Some (SMCP_STATUS_FAILURE, mem, w)
              | Some texts \<Rightarrow> print_value (texts (unat path)) mem w)
      else if action = SMCP_VAR_SET_VALUE then Some (SMCP_STATUS_NOT_ALLOWED, mem, w)
      else Some (SMCP_STATUS_NOT_IMPLEMENTED, mem, w))"

section \<open>LEDs\<close>

text \<open>The LEDs of a platform: which there are, and the functions of \<^verbatim>\<open>dev/leds.h\<close> on the state of the application.\<close>

record 'v leds =
  LEDS_ALL :: u8
  LEDS_RED :: u8
  LEDS_GREEN :: u8
  LEDS_BLUE :: u8
  LEDS_YELLOW :: u8
  leds_get :: "'v \<Rightarrow> u8"
  leds_on :: "u8 \<Rightarrow> 'v \<Rightarrow> 'v"
  leds_off :: "u8 \<Rightarrow> 'v \<Rightarrow> 'v"
  leds_toggle :: "u8 \<Rightarrow> 'v \<Rightarrow> 'v"

definition led_name :: "'v leds \<Rightarrow> u8 \<Rightarrow> u8 \<Rightarrow> string" where
  "led_name l led i =
     (if led = LEDS_RED l then ''red'' else if led = LEDS_GREEN l then ''green''
      else if led = LEDS_BLUE l then ''blue'' else if led = LEDS_YELLOW l then ''yellow''
      else [char_of (unat (i + 48))])"

text \<open>The bytes of the value are read one after the other, as far as they are needed.\<close>

definition led_set :: "'v leds \<Rightarrow> u8 \<Rightarrow> string \<Rightarrow> 'v world \<Rightarrow> (smcp_status_t \<times> string \<times> 'v world) option" where
  "led_set l led mem w = (case w of (self, os, v) \<Rightarrow> do {
     c \<leftarrow> mem_read mem 0;
     if c \<in> set ''1ty'' then Some (SMCP_STATUS_OK, mem, (self, os, leds_on l led v))
     else if c \<in> set ''0fn'' then Some (SMCP_STATUS_OK, mem, (self, os, leds_off l led v))
     else if c \<noteq> CHR ''!'' then Some (SMCP_STATUS_FAILURE, mem, w)
     else do {
       d \<leftarrow> mem_read mem 1;
       if d \<noteq> CHR ''v'' then Some (SMCP_STATUS_FAILURE, mem, w)
       else do {
         e \<leftarrow> mem_read mem 2;
         if e \<noteq> NUL then Some (SMCP_STATUS_FAILURE, mem, w)
         else Some (SMCP_STATUS_OK, mem, (self, os, leds_toggle l led v))
       }
     }
   })"

definition led_var_func :: "'v leds \<Rightarrow> 'v variable_func" where
  "led_var_func l action i mem w =
     (if 31 \<le> i then None
      else let led = push_bit (unat i) 1 :: u8 in
        if led AND LEDS_ALL l = 0 then Some (SMCP_STATUS_NOT_FOUND, mem, w)
        else if action = SMCP_VAR_GET_KEY then with_text (led_name l led i) mem w
        else if action = SMCP_VAR_GET_VALUE then with_text (if leds_get l (snd (snd w)) AND led \<noteq> 0 then ''1'' else ''0'') mem w
        else if action = SMCP_VAR_SET_VALUE then led_set l led mem w
        else Some (SMCP_STATUS_NOT_IMPLEMENTED, mem, w))"

section \<open>Sensors\<close>

record 'v sensor =
  sensor_type :: string
  sensor_status :: "('v \<Rightarrow> bool) option"
  sensor_value :: "'v \<Rightarrow> u32"

text \<open>The count of the sensors is a byte: it does not come to an end for 256 sensors or more.\<close>

definition sensor_var_func :: "'v sensor list \<Rightarrow> 'v variable_func" where
  "sensor_var_func sensors action i mem w =
     (if 256 \<le> length sensors then None
      else if length sensors \<le> unat i then Some (SMCP_STATUS_NOT_FOUND, mem, w)
      else let sensor = sensors ! unat i in
        if action = SMCP_VAR_GET_KEY then with_text (sensor_type sensor) mem w
        else if action = SMCP_VAR_GET_OBSERVABLE then
          Some (case sensor_status sensor of
                  Some status \<Rightarrow> if status (snd (snd w)) then SMCP_STATUS_OK else SMCP_STATUS_NOT_IMPLEMENTED
                | None \<Rightarrow> SMCP_STATUS_OK, mem, w)
        else if action = SMCP_VAR_GET_VALUE then map_option (\<lambda>m. (SMCP_STATUS_OK, m, w)) (int32_to_dec_cstr mem (sensor_value sensor (snd (snd w))))
        else Some (SMCP_STATUS_NOT_IMPLEMENTED, mem, w))"

section \<open>Properties\<close>

lemma with_text_buffer:
  assumes "length mem = 128" "NUL \<notin> set s" "length s < 128"
  shows "\<exists>m. with_text s mem w = Some (SMCP_STATUS_OK, m, w) \<and> length m = 128 \<and> buffer_cstr m = Some s"
proof -
  have "mem_write_n mem 0 (s @ [NUL]) = Some (s @ NUL # drop (length s + 1) mem)"
    using assms by (simp add: mem_write_n_def)
  then show ?thesis using assms buffer_cstr_at [OF assms(2)] by (simp add: with_text_def strcpy_to_def)
qed

text \<open>
  The LEDs as \<^verbatim>\<open>dev/leds.h\<close> has them: each LED is a bit that can be set, cleared and inverted on its own.
\<close>

definition led_port :: "'v leds \<Rightarrow> bool" where
  "led_port l \<longleftrightarrow> (\<forall>m v. leds_get l (leds_on l m v) = leds_get l v OR m \<and> leds_get l (leds_off l m v) = leds_get l v AND NOT m \<and>
     leds_get l (leds_toggle l m v) = leds_get l v XOR m)"

text \<open>
  What is read from an LED after a value was written to it: on for \<^verbatim>\<open>1\<close>, \<^verbatim>\<open>t\<close> and \<^verbatim>\<open>y\<close>, off for \<^verbatim>\<open>0\<close>, \<^verbatim>\<open>f\<close> and
  \<^verbatim>\<open>n\<close>, the other one for \<^verbatim>\<open>!v\<close>; every other LED keeps its value.
\<close>

definition led_after :: "string \<Rightarrow> bool \<Rightarrow> bool option" where
  "led_after s on = (if s \<noteq> [] \<and> hd s \<in> set ''1ty'' then Some True else if s \<noteq> [] \<and> hd s \<in> set ''0fn'' then Some False
     else if s = ''!v'' then Some (\<not> on) else None)"

lemma led_bit: "(x :: u8) AND push_bit i 1 \<noteq> 0 \<longleftrightarrow> bit x i"
  by (simp add: push_bit_of_1 and_exp_eq_0_iff_not_bit)

lemma led_ports:
  assumes "led_port l" "i < 8" "j < 8"
  defines "m \<equiv> push_bit i (1 :: u8)"
  shows "bit (leds_get l (leds_on l m v)) j \<longleftrightarrow> (if j = i then True else bit (leds_get l v) j)"
    "bit (leds_get l (leds_off l m v)) j \<longleftrightarrow> (if j = i then False else bit (leds_get l v) j)"
    "bit (leds_get l (leds_toggle l m v)) j \<longleftrightarrow> (if j = i then \<not> bit (leds_get l v) i else bit (leds_get l v) j)"
  using assms by (auto simp: led_port_def bit_simps)

lemma led_set_value:
  assumes "NUL \<notin> set s"
  shows "led_set l m (s @ NUL # zs) (self, os, v) =
    (if s \<noteq> [] \<and> hd s \<in> set ''1ty'' then Some (SMCP_STATUS_OK, s @ NUL # zs, (self, os, leds_on l m v))
     else if s \<noteq> [] \<and> hd s \<in> set ''0fn'' then Some (SMCP_STATUS_OK, s @ NUL # zs, (self, os, leds_off l m v))
     else if s = ''!v'' then Some (SMCP_STATUS_OK, s @ NUL # zs, (self, os, leds_toggle l m v))
     else Some (SMCP_STATUS_FAILURE, s @ NUL # zs, (self, os, v)))"
proof (cases s)
  case (Cons c t)
  show ?thesis
  proof (cases t)
    case Nil
    then show ?thesis by (simp add: Cons led_set_def mem_read_def)
  next
    case (Cons d u)
    then show ?thesis using \<open>s = c # t\<close> assms by (cases u) (auto simp: led_set_def mem_read_def numeral_2_eq_2)
  qed
qed (simp add: led_set_def mem_read_def)

theorem led_written:
  assumes "led_port l" "i < 8" "bit (LEDS_ALL l) i" "buffer_cstr mem = Some s"
  shows "\<exists>st v'. led_var_func l SMCP_VAR_SET_VALUE (word_of_nat i) mem (self, os, v) = Some (st, mem, (self, os, v')) \<and>
    (case led_after s (bit (leds_get l v) i) of
       None \<Rightarrow> st = SMCP_STATUS_FAILURE \<and> v' = v
     | Some on \<Rightarrow> st = SMCP_STATUS_OK \<and> (\<forall>j < 8. bit (leds_get l v') j \<longleftrightarrow> (if j = i then on else bit (leds_get l v) j)))"
proof -
  have i: "unat (word_of_nat i :: u8) = i" "\<not> 31 \<le> (word_of_nat i :: u8)"
    using assms(2) by (simp_all add: unsigned_of_nat take_bit_nat_eq_self word_le_nat_alt)
  have "push_bit i 1 AND LEDS_ALL l \<noteq> 0" using led_bit [of "LEDS_ALL l" i] assms(3) by (simp add: and.commute)
  then have f: "led_var_func l SMCP_VAR_SET_VALUE (word_of_nat i) mem (self, os, v) = led_set l (push_bit i 1) mem (self, os, v)"
    using i by (simp add: led_var_func_def Let_def variable_numbers)
  obtain zs where zs: "mem = s @ NUL # zs" "NUL \<notin> set s" using assms(4) buffer_cstrD by blast
  show ?thesis
    using led_ports [OF assms(1,2)] f [unfolded zs(1) led_set_value [OF zs(2)]] unfolding zs(1) led_after_def by (auto split: if_splits)
qed

text \<open>
  The LEDs of a platform that has its first \<open>k\<close> ones keep the contract of the callback: their names can be
  looked up and their values read, and the values 0 and 1 can be set.
\<close>

definition led_vars :: "'v leds \<Rightarrow> nat \<Rightarrow> 'v \<Rightarrow> (string \<times> string) list" where
  "led_vars l k v = map (\<lambda>i. (led_name l (push_bit i 1) (word_of_nat i), if bit (leds_get l v) i then ''1'' else ''0'')) [0..<k]"

definition first_leds :: "'v leds \<Rightarrow> nat \<Rightarrow> bool" where
  "first_leds l k \<longleftrightarrow> k \<le> 8 \<and> (\<forall>i < 8. bit (LEDS_ALL l) i \<longleftrightarrow> i < k)"

lemma led_index:
  assumes "i \<le> 8"
  shows "unat (word_of_nat i :: u8) = i" "\<not> 31 \<le> (word_of_nat i :: u8)"
  using assms by (simp_all add: unsigned_of_nat take_bit_nat_eq_self word_le_nat_alt)

lemma led_present:
  assumes "first_leds l k" "i \<le> k"
  shows "push_bit i (1 :: u8) AND LEDS_ALL l = 0 \<longleftrightarrow> i = k"
proof (cases "i = 8")
  case True
  have "push_bit i (1 :: u8) = 0" by (simp add: True)
  moreover have "i = k" using assms True by (simp add: first_leds_def)
  ultimately show ?thesis by (metis and.left_neutral and_zero_eq zero_and_eq)
next
  case False
  then have "i < 8" using assms by (simp add: first_leds_def)
  then show ?thesis using assms led_bit [of "LEDS_ALL l" i] by (auto simp: first_leds_def and.commute)
qed

lemma led_name_text:
  assumes "i \<le> 8"
  shows "NUL \<notin> set (led_name l m (word_of_nat i)) \<and> length (led_name l m (word_of_nat i)) < 128"
proof -
  have "unat (word_of_nat i + 48 :: u8) = i + 48"
    using assms by (simp add: unat_word_ariths unsigned_of_nat take_bit_nat_eq_self)
  moreover have "char_of (i + 48) \<noteq> NUL"
  proof
    assume "char_of (i + 48) = NUL"
    then have "of_char (char_of (i + 48) :: char) = (of_char NUL :: nat)" by simp
    then show False using assms by simp
  qed
  ultimately show ?thesis by (auto simp: led_name_def)
qed

lemma led_serves:
  assumes "first_leds l k"
  shows "serves (led_var_func l) (led_vars l k)"
proof -
  have k: "k \<le> 8" using assms by (simp add: first_leds_def)
  have key: "gives (led_var_func l) v SMCP_VAR_GET_KEY i (if i < k then Some (led_name l (push_bit i 1) (word_of_nat i)) else None)"
    if "i \<le> k" for v i
    using led_present [OF assms that] led_index [of i] that k with_text_buffer [of _ "led_name l (push_bit i 1) (word_of_nat i)"] led_name_text [of i l "push_bit i 1"]
    by (fastforce simp: gives_def led_var_func_def Let_def variable_numbers)
  have "keyed (led_var_func l) (led_vars l k)"
    unfolding keyed_def
  proof (intro allI impI)
    fix v i
    assume "i \<le> length (led_vars l k v) \<and> i < BAD_KEY_INDEX"
    then show "gives (led_var_func l) v SMCP_VAR_GET_KEY i (if i < length (led_vars l k v) then Some (fst (led_vars l k v ! i)) else None)"
      using key [of i v] by (cases "i < k") (simp_all add: led_vars_def)
  qed
  moreover have "gives (led_var_func l) v SMCP_VAR_GET_VALUE i (Some (if bit (leds_get l v) i then ''1'' else ''0''))" if "i < k" for v i
    using led_present [OF assms, of i] led_index [of i] that k led_bit [of "leds_get l v" i] with_text_buffer [of _ "''1''"] with_text_buffer [of _ "''0''"]
    by (fastforce simp: gives_def led_var_func_def Let_def variable_numbers)
  moreover have "gives (led_var_func l) v SMCP_VAR_GET_MAX_AGE i None" "gives (led_var_func l) v SMCP_VAR_GET_OBSERVABLE i None" if "i < k" for v i
    using led_present [OF assms, of i] led_index [of i] that k by (simp_all add: gives_def led_var_func_def Let_def variable_numbers)
  ultimately show ?thesis by (simp add: serves_def led_vars_def)
qed

lemma led_sets:
  assumes "first_leds l k" "led_port l" "i < k" "s = ''0'' \<or> s = ''1''"
  shows "sets_value (led_var_func l) (led_vars l k) v i s"
  unfolding sets_value_def
proof (intro allI impI)
  fix mem self os
  assume mem: "buffer_cstr mem = Some s"
  have k: "k \<le> 8" "i < 8" using assms(1,3) by (simp_all add: first_leds_def)
  obtain zs where zs: "mem = s @ NUL # zs" "NUL \<notin> set s" using mem buffer_cstrD by blast
  let ?m = "push_bit i (1 :: u8)"
  define v' where "v' = (if s = ''1'' then leds_on l ?m v else leds_off l ?m v)"
  have "led_var_func l SMCP_VAR_SET_VALUE (word_of_nat i) mem (self, os, v) = Some (0, mem, (self, os, v'))"
    using led_present [OF assms(1), of i] led_index [of i] assms(3,4) k led_set_value [OF zs(2), of l ?m zs self os v]
    by (auto simp: led_var_func_def Let_def variable_numbers zs(1) v'_def)
  moreover have "bit (leds_get l v') j \<longleftrightarrow> (if j = i then s = ''1'' else bit (leds_get l v) j)" if "j < k" for j
    using led_ports [OF assms(2) k(2), of j v] that k(1) assms(4) by (auto simp: v'_def)
  then have "led_vars l k v' = (led_vars l k v)[i := (fst (led_vars l k v ! i), s)]"
    using assms(3,4) by (intro nth_equalityI) (auto simp: led_vars_def nth_list_update)
  ultimately show "\<exists>mem' v'. led_var_func l SMCP_VAR_SET_VALUE (word_of_nat i) mem (self, os, v) = Some (0, mem', (self, os, v')) \<and>
      led_vars l k v' = (led_vars l k v)[i := (fst (led_vars l k v ! i), s)]" by blast
qed

text \<open>
  The system node has the four variables of its table, as the contract of the callback asks for, and none
  of them can be set.
\<close>

theorem device_keys:
  assumes "i < BAD_KEY_INDEX"
  shows "gives (device_func sys) v SMCP_VAR_GET_KEY i (if i < 4 then Some (path_names ! i) else None) \<and>
    (\<forall>mem w. \<exists>st. device_func sys SMCP_VAR_SET_VALUE (word_of_nat i) mem w = Some (st, mem, w) \<and> st \<noteq> SMCP_STATUS_OK)"
proof -
  have i: "unat (word_of_nat i :: u8) = i" "(SYS_NODE_PATH_COUNT \<le> word_of_nat i) = (4 \<le> i)"
    using assms by (simp_all add: BAD_KEY_INDEX_def unsigned_of_nat take_bit_nat_eq_self word_le_nat_alt SYS_NODE_PATH_COUNT_def)
  have "NUL \<notin> set (path_names ! i) \<and> length (path_names ! i) < 128" if "i < 4"
  proof -
    have "path_names ! i \<in> set path_names" using that by (intro nth_mem) (simp add: path_names_def)
    then show ?thesis by (auto simp: path_names_def)
  qed
  then have "gives (device_func sys) v SMCP_VAR_GET_KEY i (if i < 4 then Some (path_names ! i) else None)"
    using with_text_buffer [of _ "path_names ! i"] by (fastforce simp: gives_def device_func_def i not_le variable_numbers)
  moreover have "\<exists>st. device_func sys SMCP_VAR_SET_VALUE (word_of_nat i) mem w = Some (st, mem, w) \<and> st \<noteq> SMCP_STATUS_OK" for mem w
    by (simp add: device_func_def i variable_numbers)
  ultimately show ?thesis by blast
qed

end
