(* ===== verification/Plugtest.thy ===== *)
theory Plugtest
  imports Variable_Node
begin

text \<open>
  The server of the interoperability tests (\<^verbatim>\<open>src/plugtest/plugtest-server.c\<close>): request handlers that
  use the library as an application does. The clock is that of the environment; what is printed is left
  out. The blocks that the handlers allocate for asynchronous responses lie in a store.
\<close>

section \<open>Large resources\<close>

text \<open>The value of a block option. It is read with an index of 8 bits, so that the loop over a value of more
  than 255 bytes does not end.\<close>

definition block_value :: "u8 list \<Rightarrow> u32" where
  "block_value bs = foldl (\<lambda>n b. push_bit 8 n + ucast b) 0 bs"

function large_options :: "u32 \<Rightarrow> smcp_s \<Rightarrow> (u32 \<times> smcp_s) option" where
  "large_options block_option self =
     (case smcp_inbound_next_option self of
        None \<Rightarrow> None
      | Some ((key, val), self') \<Rightarrow>
          if key = COAP_OPTION_INVALID then Some (block_option, self')
          else if key = COAP_OPTION_BLOCK2
          then (case (in_packet (inbound self'), val) of
                  (Some packet, Some (Some p, value_len)) \<Rightarrow>
                    (case if value_len < 256 then mem_read_n packet p (unat value_len) else None of
                       None \<Rightarrow> None
                     | Some bs \<Rightarrow> large_options (block_value bs) self')
                | _ \<Rightarrow> None)
          else large_options block_option self')"
  by pat_completeness auto
termination
  by (relation "measure (\<lambda>(b, self). scan_left self)") (auto dest: next_option_progress)

declare large_options.simps [simp del]

text \<open>
  The loop that makes the block fit: the option, where the block starts and where it ends. When the end
  wraps around to 0 it never leaves the loop.
\<close>

partial_function (option) fit_block :: "u16 \<Rightarrow> u32 \<Rightarrow> (u32 \<times> u32 \<times> u32) option" where
  "fit_block max_len block_option =
     (let block_info = coap_decode_block block_option;
          block_start = block_offset block_info;
          block_stop = block_offset block_info + ucast (block_size block_info)
      in if ucast max_len < block_stop - block_start \<and> block_option \<noteq> 0 \<and> block_offset block_info = 0
         then fit_block max_len (block_option - 1)
         else if block_stop = 0 then fit_block max_len block_option
         else Some (block_option, block_start, block_stop))"

definition large_char :: "nat \<Rightarrow> u8" where
  "large_char i = (if (i + 1) mod 64 = 0 then 10 else 48 + word_of_nat (i mod 10))"

definition write_block :: "nat \<Rightarrow> u32 \<Rightarrow> u32 \<Rightarrow> smcp_s \<Rightarrow> smcp_s option" where
  "write_block content block_start block_stop self =
     out_write content (map large_char [unat block_start..<unat block_stop]) self"

definition plugtest_large_handler :: "smcp_env \<Rightarrow> smcp_s \<Rightarrow> (smcp_status_t \<times> smcp_s) option" where
  "plugtest_large_handler env self = do {
     code \<leftarrow> smcp_inbound_get_code self;
     let resource_length = (2000 :: u32);
     if code \<noteq> COAP_METHOD_GET then Some (SMCP_STATUS_NOT_ALLOWED, self)
     else do {
       (block_option, self) \<leftarrow> large_options 3 self;
       (ret, self) \<leftarrow> smcp_outbound_begin_response (word_of_nat (HTTP_TO_COAP_CODE 205)) self;
       if ret \<noteq> 0 then Some (ret, self) else do {
       (ret, self) \<leftarrow> smcp_outbound_add_option_uint COAP_OPTION_CONTENT_TYPE (ucast COAP_CONTENT_TYPE_TEXT_PLAIN) self;
       if ret \<noteq> 0 then Some (ret, self) else do {
       (ret, self) \<leftarrow> smcp_outbound_add_option_uint COAP_OPTION_MAX_AGE (60 * 60) self;
       if ret \<noteq> 0 then Some (ret, self) else do {
       let max_len = smcp_outbound_get_space_remaining self - 2;
       (block_option, block_start, block_stop) \<leftarrow> fit_block max_len block_option;
       if \<not> block_start < resource_length then Some (SMCP_STATUS_INVALID_ARGUMENT, self) else do {
       let block_option = (if block_stop \<ge> resource_length then block_option AND NOT (push_bit 3 1) else block_option OR push_bit 3 1);
       (ret, self) \<leftarrow> smcp_outbound_add_option_uint COAP_OPTION_BLOCK2 block_option self;
       if ret \<noteq> 0 then Some (ret, self) else do {
       (content, max_len, self) \<leftarrow> smcp_outbound_get_content_ptr self;
       if \<not> ucast max_len > block_stop - block_start then Some (SMCP_STATUS_MESSAGE_TOO_BIG, self) else do {
       self \<leftarrow> write_block content block_start block_stop self;
       let (ret, self) = smcp_outbound_set_content_len (ucast (min (block_stop - block_start) (resource_length - block_start))) self;
       if ret \<noteq> 0 then Some (ret, self) else smcp_outbound_send env self
       }}}}}}}
   }"

section \<open>The echo resource\<close>

text \<open>
  The text is built in the outbound buffer behind the content pointer. The value of an option is not
  terminated: \<^verbatim>\<open>strlcat\<close> gets what is left of the packet up to a zero byte, and a size that cuts it off.
\<close>

definition append_text :: "u16 \<Rightarrow> string \<Rightarrow> string \<Rightarrow> string option" where
  "append_text max_len s content = map_option fst (strlcat content 0 s (ucast max_len))"

definition append_value :: "u16 \<Rightarrow> nat option \<times> u16 \<Rightarrow> smcp_s \<Rightarrow> string \<Rightarrow> string option" where
  "append_value max_len val self content = do {
     n \<leftarrow> strlen_mem content 0;
     let argh = n + unat (snd val);
     p \<leftarrow> fst val;
     packet \<leftarrow> in_packet (inbound self);
     k \<leftarrow> strlen_mem (byte_chars packet) p;
     content \<leftarrow> map_option fst (strlcat content 0 (take k (drop p (byte_chars packet))) (word_of_nat (min (unat max_len) (argh + 1))));
     mem_write content argh NUL
   }"

definition append_option :: "u16 \<Rightarrow> u32 \<Rightarrow> nat option \<times> u16 \<Rightarrow> smcp_s \<Rightarrow> string \<Rightarrow> string option" where
  "append_option max_len key val self content = do {
     content \<leftarrow> append_text max_len (coap_option_key_to_cstr key True) content;
     content \<leftarrow> append_text max_len '': '' content;
     content \<leftarrow> (if coap_option_value_is_string key then append_value max_len val self content
                 else append_text max_len ''<binary>'' content);
     append_text max_len ''\<newline>'' content
   }"

function echo_options :: "u16 \<Rightarrow> string \<Rightarrow> smcp_s \<Rightarrow> (string \<times> smcp_s) option" where
  "echo_options max_len content self =
     (case smcp_inbound_next_option self of
        None \<Rightarrow> None
      | Some ((key, val), self') \<Rightarrow>
          if key = COAP_OPTION_INVALID then Some (content, self')
          else (case Option.bind val (\<lambda>v. append_option max_len key v self' content) of
                  None \<Rightarrow> None
                | Some content \<Rightarrow> echo_options max_len content self'))"
  by pat_completeness auto
termination
  by (relation "measure (\<lambda>(m, c, self). scan_left self)") (auto dest: next_option_progress)

declare echo_options.simps [simp del]

definition test_result_code :: "u16 \<Rightarrow> nat option" where
  "test_result_code method =
     (if method = COAP_METHOD_GET then Some 205 else if method = COAP_METHOD_POST then Some 201
      else if method = COAP_METHOD_PUT then Some 204 else if method = COAP_METHOD_DELETE then Some 202 else None)"

definition plugtest_test_handler :: "smcp_env \<Rightarrow> smcp_s \<Rightarrow> (smcp_status_t \<times> smcp_s) option" where
  "plugtest_test_handler env self = do {
     method \<leftarrow> smcp_inbound_get_code self;
     (ret, self) \<leftarrow> (case test_result_code method of
                      None \<Rightarrow> Some (SMCP_STATUS_NOT_ALLOWED, self)
                    | Some code \<Rightarrow> smcp_outbound_begin_response (word_of_nat (HTTP_TO_COAP_CODE code)) self);
     if ret \<noteq> 0 then Some (ret, self)
     else do {
       (_, self) \<leftarrow> smcp_outbound_add_option_uint COAP_OPTION_CONTENT_TYPE (ucast COAP_CONTENT_TYPE_TEXT_PLAIN) self;
       (p, max_len, self) \<leftarrow> smcp_outbound_get_content_ptr self;
       bytes \<leftarrow> out_bytes self;
       content \<leftarrow> smcp_inbound_get_path (byte_chars (drop p bytes))
                   (push_bit SMCP_GET_PATH_LEADING_SLASH 1 OR push_bit SMCP_GET_PATH_INCLUDE_QUERY 1) self;
       content \<leftarrow> append_text max_len ''\<newline>Plugtest!\<newline>Method = '' content;
       content \<leftarrow> append_text max_len (coap_code_to_cstr (uint method)) content;
       content \<leftarrow> append_text max_len ''\<newline>'' content;
       (content, self) \<leftarrow> echo_options max_len content self;
       self \<leftarrow> out_write p (string_bytes content) self;
       n \<leftarrow> strlen_mem content 0;
       let (_, self) = smcp_outbound_set_content_len (word_of_nat n) self;
       smcp_outbound_send env self
     }
   }"

section \<open>Separate responses\<close>

definition COAP_MAX_TRANSMIT_WAIT_cms :: int where "COAP_MAX_TRANSMIT_WAIT_cms = 141750"

definition async_text :: string where "async_text = ''This was an asynchronous response!''"

definition plugtest_separate_async_resend_response ::
    "smcp_env \<Rightarrow> smcp_async_response_s \<Rightarrow> smcp_s \<Rightarrow> (smcp_status_t \<times> smcp_s) option" where
  "plugtest_separate_async_resend_response env a self = do {
     (ret, self) \<leftarrow> smcp_outbound_begin_async_response (word_of_nat (HTTP_TO_COAP_CODE 205)) a self;
     if ret \<noteq> 0 then Some (ret, self) else do {
     (ret, self) \<leftarrow> smcp_outbound_add_option_uint COAP_OPTION_CONTENT_TYPE (ucast COAP_CONTENT_TYPE_TEXT_PLAIN) self;
     if ret \<noteq> 0 then Some (ret, self) else do {
     (ret, self) \<leftarrow> smcp_outbound_append_content (string_bytes (async_text @ [NUL])) SMCP_CSTR_LEN self;
     if ret \<noteq> 0 then Some (ret, self) else smcp_outbound_send env self
     }}
   }"

text \<open>The store of the responses: a block that has been freed is gone from it.\<close>

type_synonym async_store = "addr \<Rightarrow> smcp_async_response_s option"

definition zero_async :: smcp_async_response_s where
  "zero_async = \<lparr>remote_saddr = replicate 28 0, async_pktinfo = replicate 20 0, request_len = 0, request = replicate 80 0\<rparr>"

definition plugtest_separate_async_ack_handler :: "int \<Rightarrow> addr \<Rightarrow> async_store \<Rightarrow> smcp_status_t \<times> async_store" where
  "plugtest_separate_async_ack_handler statuscode a store =
     (SMCP_STATUS_OK, if statuscode = SMCP_STATUS_TRANSACTION_INVALIDATED then store(a := None) else store)"

text \<open>\<open>new_async\<close> and \<open>new_transaction\<close> are the addresses that the allocations return, \<^const>\<open>None\<close> when
  they fail.\<close>

definition plugtest_separate_handler ::
    "smcp_env \<Rightarrow> fn \<Rightarrow> fn \<Rightarrow> addr option \<Rightarrow> addr option \<Rightarrow> async_store \<Rightarrow> smcp_s \<Rightarrow> (smcp_status_t \<times> async_store \<times> smcp_s) option" where
  "plugtest_separate_handler env resend ack new_async new_transaction store self = do {
     method \<leftarrow> smcp_inbound_get_code self;
     if method \<noteq> COAP_METHOD_GET then Some (SMCP_STATUS_NOT_ALLOWED, store, self)
     else if smcp_inbound_is_dupe self then do {
       (_, self) \<leftarrow> smcp_outbound_begin_response (ucast COAP_CODE_EMPTY) self;
       (_, self) \<leftarrow> smcp_outbound_send env self;
       Some (SMCP_STATUS_OK, store, self)
     }
     else
       (case new_async of
          None \<Rightarrow> Some (SMCP_STATUS_MALLOC_FAILURE, store, self)
        | Some a \<Rightarrow> do {
            let store = store(a \<mapsto> zero_async);
            case new_transaction of
              None \<Rightarrow> Some (SMCP_STATUS_MALLOC_FAILURE, store(a := None), self)
            | Some t \<Rightarrow> do {
                let self = smcp_transaction_init t True (SMCP_TRANSACTION_DELAY_START + SMCP_TRANSACTION_ALWAYS_INVALIDATE)
                             (Some resend) (Some ack) (Some a) self;
                packet \<leftarrow> in_packet (inbound self);
                tt \<leftarrow> packet_tt packet;
                (ret, self) \<leftarrow> smcp_transaction_begin env (Some t)
                                (if tt = COAP_TRANS_TYPE_CONFIRMABLE then COAP_MAX_TRANSMIT_WAIT_cms else 1) self;
                if ret \<noteq> SMCP_STATUS_OK then do {
                  (_, self) \<leftarrow> smcp_transaction_end env t self;
                  Some (ret, snd (plugtest_separate_async_ack_handler SMCP_STATUS_TRANSACTION_INVALIDATED a store), self)
                }
                else do {
                  (ret, x, self) \<leftarrow> smcp_start_async_response env (store a) False self;
                  Some (ret, store(a := x), self)
                }
              }
          })
   }"

section \<open>The observable clock\<close>

definition PLUGTEST_OBS_KEY :: u8 where "PLUGTEST_OBS_KEY = 42"

text \<open>\<open>pt_updatable\<close> and \<open>pt_creatable\<close> are \<^verbatim>\<open>large_update\<close> and \<^verbatim>\<open>large_create\<close>; \<open>pt_self\<close> is the address of the record.\<close>

record plugtest_server_s =
  pt_test :: addr
  pt_seg1 :: addr
  pt_seg2 :: addr
  pt_seg3 :: addr
  pt_query :: addr
  pt_separate :: addr
  pt_large :: addr
  pt_updatable :: addr
  pt_creatable :: addr
  pt_obs :: addr
  obs_timer :: addr
  obs_observable :: addr
  pt_self :: addr

text \<open>\<open>retry\<close> and \<open>response\<close> are the two callbacks of the transactions of observers.\<close>

definition plugtest_obs_timer_callback ::
    "smcp_env \<Rightarrow> fn \<Rightarrow> fn \<Rightarrow> plugtest_server_s \<Rightarrow> observers \<Rightarrow> smcp_s \<Rightarrow> (observers \<times> smcp_s) option" where
  "plugtest_obs_timer_callback env retry response pt os self = do {
     self \<leftarrow> invalidate_timer env (obs_timer pt) self;
     (_, self) \<leftarrow> schedule_timer env (obs_timer pt) (5 * MSEC_PER_SEC) self;
     (_, os, self) \<leftarrow> smcp_observable_trigger env retry response (obs_observable pt) PLUGTEST_OBS_KEY os self;
     Some (os, self)
   }"

definition plugtest_obs_reply :: "smcp_env \<Rightarrow> smcp_s \<Rightarrow> (smcp_status_t \<times> smcp_s) option" where
  "plugtest_obs_reply env self = do {
     (ret, self) \<leftarrow> smcp_outbound_add_option_uint COAP_OPTION_MAX_AGE 10 self;
     if ret \<noteq> 0 then Some (ret, self) else do {
     (content, max_len, self) \<leftarrow> smcp_outbound_get_content_ptr self;
     if \<not> max_len > 11 then Some (SMCP_STATUS_MESSAGE_TOO_BIG, self) else do {
     bytes \<leftarrow> out_bytes self;
     s \<leftarrow> uint32_to_dec_cstr (byte_chars (drop content bytes)) (word_of_int (tv_sec (env_now env)));
     self \<leftarrow> out_write content (string_bytes s) self;
     n \<leftarrow> strlen_mem s 0;
     let (ret, self) = smcp_outbound_set_content_len (word_of_nat n) self;
     if ret \<noteq> 0 then Some (ret, self) else smcp_outbound_send env self
     }}
   }"

definition plugtest_obs_handler ::
    "smcp_env \<Rightarrow> fn \<Rightarrow> fn \<Rightarrow> plugtest_server_s \<Rightarrow> observers \<Rightarrow> smcp_s \<Rightarrow> (smcp_status_t \<times> observers \<times> smcp_s) option" where
  "plugtest_obs_handler env retry response pt os self = do {
     method \<leftarrow> smcp_inbound_get_code self;
     if method \<noteq> COAP_METHOD_GET then Some (SMCP_STATUS_NOT_ALLOWED, os, self)
     else do {
       (ret, self) \<leftarrow> smcp_outbound_begin_response (word_of_nat (HTTP_TO_COAP_CODE 205)) self;
       if ret \<noteq> 0 then Some (ret, os, self) else do {
       (ret, self) \<leftarrow> smcp_outbound_add_option_uint COAP_OPTION_CONTENT_TYPE (ucast COAP_CONTENT_TYPE_TEXT_PLAIN) self;
       if ret \<noteq> 0 then Some (ret, os, self) else do {
       (os, self) \<leftarrow> (if \<not> smcp_timer_is_scheduled (timer_state self) (obs_timer pt)
                     then plugtest_obs_timer_callback env retry response pt os self else Some (os, self));
       (_, os, self) \<leftarrow> smcp_observable_update env (obs_observable pt) PLUGTEST_OBS_KEY os self;
       (ret, self) \<leftarrow> plugtest_obs_reply env self;
       Some (ret, os, self)
       }}
     }
   }"

section \<open>The nodes\<close>

text \<open>Zeroed memory of a node.\<close>

definition node_memset :: "addr \<Rightarrow> node_heap \<Rightarrow> node_heap" where
  "node_memset n ns = (smcp_node_alloc n ns)\<lparr>nodes := (nodes ns)(n := zero_node)\<rparr>"

definition init_handler :: "addr \<Rightarrow> addr \<Rightarrow> string \<Rightarrow> fn option \<Rightarrow> node_heap \<Rightarrow> node_heap option" where
  "init_handler n parent name handler ns = do {
     ns \<leftarrow> smcp_node_init n False (Some parent) (Some (string_bytes name)) ns;
     Some (case handler of None \<Rightarrow> ns | Some f \<Rightarrow> set_node n (\<lambda>x. x\<lparr>node_request_handler := Some (Node_fn f)\<rparr>) ns)
   }"

text \<open>The handlers are given by their names, in the order test, separate, large, obs, and the callback of the timer.\<close>

definition plugtest_server_init ::
    "plugtest_server_s \<Rightarrow> addr \<Rightarrow> fn \<Rightarrow> fn \<Rightarrow> fn \<Rightarrow> fn \<Rightarrow> fn \<Rightarrow> node_heap \<Rightarrow> observers \<Rightarrow> smcp_s \<Rightarrow> (node_heap \<times> observers \<times> smcp_s) option" where
  "plugtest_server_init pt root test separate large obs timer ns os self = do {
     let ns = fold node_memset [pt_test pt, pt_seg1 pt, pt_seg2 pt, pt_seg3 pt, pt_query pt, pt_separate pt, pt_large pt,
                pt_updatable pt, pt_creatable pt, pt_obs pt] ns;
     let os = set_observable (obs_observable pt) (\<lambda>_. \<lparr>interface = False, first_observer = 0, last_observer = 0\<rparr>) os;
     ns \<leftarrow> init_handler (pt_test pt) root ''test'' (Some test) ns;
     ns \<leftarrow> init_handler (pt_seg1 pt) root ''seg1'' None ns;
     ns \<leftarrow> init_handler (pt_seg2 pt) (pt_seg1 pt) ''seg2'' None ns;
     ns \<leftarrow> init_handler (pt_seg3 pt) (pt_seg2 pt) ''seg3'' (Some test) ns;
     ns \<leftarrow> init_handler (pt_separate pt) root ''separate'' (Some separate) ns;
     ns \<leftarrow> init_handler (pt_query pt) root ''query'' (Some test) ns;
     ns \<leftarrow> init_handler (pt_large pt) root ''large'' (Some large) ns;
     ns \<leftarrow> init_handler (pt_obs pt) root ''obs'' (Some obs) ns;
     let ns = set_node (pt_obs pt) (\<lambda>x. x\<lparr>node_context := Some (pt_self pt), is_observable := True\<rparr>) ns;
     Some (ns, os, self\<lparr>timer_state := smcp_timer_init (obs_timer pt) (Some (Timer_fn timer)) None (Some (pt_self pt)) (timer_state self)\<rparr>)
   }"

end
