(* ===== verification/Plugtest_Blocks.thy ===== *)
theory Plugtest_Blocks
  imports Plugtest Variable_Requests
begin

text \<open>
  The large resource of the test server: a client that asks for one block after the other gets the
  whole resource, and a block option for which the server never answers.
\<close>

unbundle bit_operations_syntax

section \<open>Block options\<close>

lemma more_flag:
  fixes b more size :: u32
  assumes "\<And>n. bit more n \<longleftrightarrow> n = 3" "\<And>n. bit size n \<longleftrightarrow> n < 3"
  shows "(b OR more) AND size = b AND size" "(b AND NOT more) AND size = b AND size" "drop_bit 4 (b OR more) = drop_bit 4 b"
    "drop_bit 4 (b AND NOT more) = drop_bit 4 b" "(b AND NOT more) AND more = 0" "(b OR more) AND more \<noteq> 0"
    "\<not> bit b 3 \<Longrightarrow> b AND more = 0"
proof -
  show "(b OR more) AND size = b AND size" "(b AND NOT more) AND size = b AND size" "drop_bit 4 (b OR more) = drop_bit 4 b"
    "drop_bit 4 (b AND NOT more) = drop_bit 4 b" "(b AND NOT more) AND more = 0"
    by (rule bit_word_eqI, auto simp: bit_simps assms dest: bit_imp_le_length)+
  have "bit ((b OR more) AND more) 3" by (simp add: bit_simps assms)
  then show "(b OR more) AND more \<noteq> 0" by auto
  show "b AND more = 0" if "\<not> bit b 3" using that by (intro bit_word_eqI) (auto simp: bit_simps assms)
qed

lemma bit_8: "bit (8 :: u32) n \<longleftrightarrow> n = 3" "bit (7 :: u32) n \<longleftrightarrow> n < 3"
proof -
  have "bit (push_bit 3 1 :: u32) n \<longleftrightarrow> n = 3"
    unfolding bit_push_bit_iff bit_1_iff by auto
  then show "bit (8 :: u32) n \<longleftrightarrow> n = 3" by simp
  have "bit (mask 3 :: u32) n \<longleftrightarrow> n < 3" unfolding bit_mask_iff by auto
  then show "bit (7 :: u32) n \<longleftrightarrow> n < 3" by (simp add: mask_eq_exp_minus_1)
qed

text \<open>The flag that more blocks follow does not change the block.\<close>

lemma decode_more:
  "coap_decode_block (b OR push_bit 3 1) = (coap_decode_block b)\<lparr>block_m := True\<rparr>"
  "coap_decode_block (b AND NOT (push_bit 3 1)) = (coap_decode_block b)\<lparr>block_m := False\<rparr>"
proof -
  have eq: "push_bit 3 1 = (8 :: u32)" by simp
  note F = more_flag [OF bit_8, of b]
  show "coap_decode_block (b OR push_bit 3 1) = (coap_decode_block b)\<lparr>block_m := True\<rparr>"
    "coap_decode_block (b AND NOT (push_bit 3 1)) = (coap_decode_block b)\<lparr>block_m := False\<rparr>"
    unfolding coap_decode_block_def Let_def eq F using F(6) by simp_all
qed

text \<open>The option that asks for block number \<open>k\<close> of \<open>2 ^ (e + 4)\<close> bytes.\<close>

lemma unat_u16_u32: "unat (ucast (w :: u16) :: u32) = unat w"
  using unsigned_less [where 'a = nat and w = w] by (simp add: unsigned_ucast_eq take_bit_nat_eq_self)

lemma unat_power: "e < 8 \<Longrightarrow> unat (2 ^ (e + 4) :: u16) = 2 ^ (e + 4)" "e < 8 \<Longrightarrow> unat (2 ^ (e + 4) :: u32) = 2 ^ (e + 4)"
proof -
  assume "e < 8"
  then have "unat (word_of_nat (2 ^ (e + 4)) :: u16) = 2 ^ (e + 4)" "unat (word_of_nat (2 ^ (e + 4)) :: u32) = 2 ^ (e + 4)"
    by (simp_all only: unsigned_of_nat) (simp_all add: take_bit_nat_eq_self)
  then show "unat (2 ^ (e + 4) :: u16) = 2 ^ (e + 4)" "unat (2 ^ (e + 4) :: u32) = 2 ^ (e + 4)" by simp_all
qed

lemma decode_unat:
  assumes "unat b = 16 * k + e" "e < 8"
  shows "coap_decode_block b = \<lparr>block_offset = word_of_nat (k * 2 ^ (e + 4)), block_size = 2 ^ (e + 4), block_m = False\<rparr>"
proof -
  have "b AND 7 = take_bit 3 b" by (simp add: take_bit_eq_mask mask_eq_exp_minus_1)
  moreover have "unat (take_bit 3 b) = unat b mod 8" by (simp add: take_bit_eq_mod unat_mod)
  moreover have "(16 * k + e) mod 8 = e" using assms(2) by presburger
  ultimately have a: "unat (b AND 7) = e" using assms(1) by simp
  have "unat (drop_bit 4 b) = k" using assms by (simp add: drop_bit_eq_div unat_div)
  then have d: "drop_bit 4 b = word_of_nat k" by auto
  have "even ((16 * k + e) div 8)" using assms(2) by presburger
  then have "\<not> bit (unat b) 3" by (simp add: bit_iff_odd assms(1))
  then have "\<not> bit b 3" by (simp add: bit_unsigned_iff)
  then have m: "b AND 8 = 0" by (rule more_flag(7) [OF bit_8])
  have "ucast (2 ^ (e + 4) :: u16) = (2 ^ (e + 4) :: u32)"
    using unat_power [OF assms(2)] unat_u16_u32 [of "2 ^ (e + 4)"] by (simp only: word_unat_eq_iff)
  then show ?thesis
    by (simp add: coap_decode_block_def Let_def a d push_bit_eq_mult m)
qed

section \<open>One block\<close>

text \<open>The block option that the handler finds among the options of a request.\<close>

definition requested :: "(nat \<times> u8 list) list \<Rightarrow> u32 \<Rightarrow> u32" where
  "requested opts b = foldl (\<lambda>b (k, v). if k = 23 then block_value v else b) b opts"

definition short_blocks :: "(nat \<times> u8 list) list \<Rightarrow> bool" where
  "short_blocks opts \<longleftrightarrow> (\<forall>(k, v) \<in> set opts. k < 65535 \<and> (k = 23 \<longrightarrow> length v < 256))"

lemma large_options_requested:
  assumes "scanning self xs prev opts payload" "short_blocks opts"
  shows "\<exists>self'. large_options b self = Some (requested opts b, self') \<and> moved self self'"
  using assms
proof (induction opts arbitrary: self xs prev b)
  case Nil
  then show ?case by (simp add: large_options.simps next_option_end movedI requested_def)
next
  case (Cons o1 opts)
  obtain k v where kv: "o1 = (k, v)" by (cases o1)
  obtain self' p packet where n: "smcp_inbound_next_option self = Some ((word_of_nat k, Some (Some p, word_of_nat (length v))), self')"
      "scanning self' (xs @ option_bytes prev k v) k opts payload" "moved self self'"
      "in_packet (inbound self') = Some packet" "mem_read_n packet p (unat (word_of_nat (length v) :: u16)) = Some v"
    using next_option_value [of self xs prev k v opts payload] Cons.prems(1) unfolding kv moved_def by blast
  have k: "k < 65535" "k = 23 \<longrightarrow> length v < 256" using Cons.prems(2) by (auto simp: short_blocks_def kv)
  have k23: "(word_of_nat k :: u32) = COAP_OPTION_BLOCK2 \<longleftrightarrow> k = 23"
    using plain_key(2) [OF k(1)] by (auto simp: COAP_OPTION_BLOCK2_def)
  have len: "(word_of_nat (length v) :: u16) < 256" if "k = 23"
    using that k(2) u16_of_nat [of "length v"] by (simp add: word_less_nat_alt)
  obtain self'' where "large_options (if k = 23 then block_value v else b) self' = Some (requested (o1 # opts) b, self'')" "moved self' self''"
    using Cons.IH [OF n(2), of "if k = 23 then block_value v else b"] Cons.prems(2) by (auto simp: short_blocks_def requested_def kv)
  moreover have "large_options b self = large_options (if k = 23 then block_value v else b) self'"
    using n(1,4,5) k23 len plain_key(1) [OF k(1)] by (subst large_options.simps) simp
  ultimately show ?case using moved_trans [OF n(3)] by auto
qed

text \<open>A block that fits is taken as it is.\<close>

lemma fit_block_fits:
  assumes "block_size (coap_decode_block b) \<le> max_len" "unat (block_offset (coap_decode_block b)) < 2000" "block_size (coap_decode_block b) \<noteq> 0"
  shows "fit_block max_len b = Some (b, block_offset (coap_decode_block b),
    block_offset (coap_decode_block b) + ucast (block_size (coap_decode_block b)))"
proof -
  let ?o = "block_offset (coap_decode_block b)" and ?s = "block_size (coap_decode_block b)"
  have s: "unat (ucast ?s :: u32) = unat ?s" "unat ?s < 65536"
    using unsigned_less [where 'a = nat and w = ?s] unat_u16_u32 by simp_all
  have "unat (?o + ucast ?s) = unat ?o + unat ?s" using s assms(2) by (subst unat_add_lem [THEN iffD1]) simp_all
  moreover have "unat ?s \<noteq> 0" using assms(3) by (simp add: unat_eq_0)
  ultimately have "?o + ucast ?s \<noteq> 0" by (metis add_eq_0_iff_both_eq_0 unat_0)
  moreover have "\<not> (ucast max_len :: u32) < (?o + ucast ?s) - ?o"
    using assms(1) by (simp add: word_less_nat_alt word_le_nat_alt unat_u16_u32)
  ultimately show ?thesis by (subst fit_block.simps) (simp add: Let_def)
qed

section \<open>The reply with a block\<close>

text \<open>A number is added as an option.\<close>

abbreviation with_option :: "nat \<Rightarrow> u8 list \<Rightarrow> packet \<Rightarrow> packet" where
  "with_option k v q \<equiv> q\<lparr>p_options := insert_opt k v (p_options q)\<rparr>"

lemma add_uint:
  assumes "holds_packet (responding out s) q" "p_content q = []" "current_transaction s = None" "k < 65536" "length (packet_front q) \<le> 1000"
  shows "\<exists>out'. smcp_outbound_add_option_uint (word_of_nat k) n (responding out s) = Some (SMCP_STATUS_OK, responding out' s) \<and>
    holds_packet (responding out' s) (with_option k (uint_option_value n) q) \<and> out_saddr out' = out_saddr out \<and>
    length (packet_front (with_option k (uint_option_value n) q)) \<le> length (packet_front q) + 9"
proof -
  obtain s' where s': "smcp_outbound_add_option_uint (word_of_nat k) n (responding out s) = Some (SMCP_STATUS_OK, s')"
      "holds_packet s' (with_option k (uint_option_value n) q)" "same_but_packet (responding out s) s'"
    using add_option_uint_holds [OF assms(1,2) _ assms(4), of n] assms(3,5) by fastforce
  obtain mem ptr key where "s' = set_outbound (\<lambda>out. out\<lparr>packet_bytes := mem, out_content_ptr := ptr, out_last_option_key := key\<rparr>) (responding out s)"
    using s'(3) unfolding same_but_packet_def by blast
  then have "s' = responding (out\<lparr>packet_bytes := mem, out_content_ptr := ptr, out_last_option_key := key\<rparr>) s" by simp
  moreover have "length (packet_front (with_option k (uint_option_value n) q)) \<le> length (packet_front q) + 9"
    using encode_insert_length [of k "uint_option_value n" "p_options q"] uint_option_length [of n]
    by (simp add: packet_front_def packet_head_def)
  ultimately show ?thesis
    using s'(1,2) by (intro exI [of _ "out\<lparr>packet_bytes := mem, out_content_ptr := ptr, out_last_option_key := key\<rparr>"]) simp
qed

lemma block_bytes:
  assumes "holds_packet self q" "p_content q = []" "length (packet_front q) + 2 + length bs \<le> 1032" "n \<le> length bs"
  shows "\<exists>self' out. out_write (length (packet_front q) + 1) bs self = Some self' \<and>
    snd (smcp_outbound_set_content_len (word_of_nat n) self') = self\<lparr>outbound := out\<rparr> \<and> out_saddr out = out_saddr (outbound self) \<and>
    holds_packet (self\<lparr>outbound := out\<rparr>) (q\<lparr>p_content := take n bs\<rparr>)"
proof -
  let ?p = "length (packet_front q) + 1"
  obtain zs where zs: "packet_bytes (outbound self) = packet_front q @ 0xFF # zs" "length zs + ?p = 1033" "out_packet (outbound self)"
    using assms(1,2) by (auto simp: holds_packet_def)
  let ?ys = "drop (length bs) zs"
  have "mem_write_n (packet_bytes (outbound self)) ?p bs = Some (packet_front q @ 0xFF # bs @ ?ys)"
    using mem_write_n_split [of ?p "packet_front q @ [0xFF]" "take (length bs) zs" bs ?ys] zs assms(3) by simp
  then have w: "out_write ?p bs self = Some (set_outbound (\<lambda>out. out\<lparr>packet_bytes := packet_front q @ 0xFF # bs @ ?ys\<rparr>) self)"
    using zs(3) by (simp add: out_write_def out_bytes_def)
  let ?out = "(outbound self)\<lparr>packet_bytes := packet_front q @ 0xFF # bs @ ?ys, out_content_len := word_of_nat n\<rparr>"
  have eq: "take n bs @ drop n bs @ ?ys = bs @ ?ys" by (simp flip: append_assoc)
  have "length (take n bs) = n" using assms(4) by simp
  then have "holds_packet (self\<lparr>outbound := ?out\<rparr>) (q\<lparr>p_content := take n bs\<rparr>)"
    using content_written [OF assms(1,2), of "take n bs" "drop n bs @ ?ys", unfolded eq] assms(3,4) zs(2) by simp
  then show ?thesis
    using w by (intro exI [of _ "set_outbound (\<lambda>out. out\<lparr>packet_bytes := packet_front q @ 0xFF # bs @ ?ys\<rparr>) self"] exI [of _ ?out])
      (simp add: smcp_outbound_set_content_len_def)
qed

definition large_resource :: "u8 list" where
  "large_resource = map large_char [0..<2000]"

lemma large_slice: "take (min n (2000 - m)) (map large_char [m..<m + n]) = take n (drop m large_resource)"
  unfolding large_resource_def by (cases "m + n \<le> 2000"; cases "m \<le> 2000") (auto simp: take_map drop_map min_def take_upt)

lemma uint_option_numbers: "uint_option_value 0 = []" "uint_option_value 3600 = [14, 16]"
  by (simp_all add: uint_option_value_def smcp_calc_uint32_option_size_def u32_bytes_def htonl_def push_bit_eq_mult drop_bit_eq_div Let_def)

lemma block_size_power: "\<exists>e < 8. block_size (coap_decode_block b) = 2 ^ (e + 4)"
proof -
  have "b AND 7 = take_bit 3 b" by (simp add: take_bit_eq_mask mask_eq_exp_minus_1)
  then have "unat (b AND 7) < 8" by (simp add: take_bit_eq_mod unat_mod)
  then show ?thesis by (intro exI [of _ "unat (b AND 7)"]) (simp add: coap_decode_block_def Let_def push_bit_eq_mult)
qed

text \<open>The numbers of a block that starts inside of the resource.\<close>

lemma block_words:
  fixes start :: u32 and size :: u16
  assumes "unat start < 2000" "unat size \<le> 512"
  shows "unat (start + ucast size) = unat start + unat size" "start < 2000"
    "2000 \<le> start + ucast size \<longleftrightarrow> 2000 \<le> unat start + unat size"
    "(ucast (min (start + ucast size - start) (2000 - start)) :: u16) = word_of_nat (min (unat size) (2000 - unat start))"
proof -
  show sum: "unat (start + ucast size) = unat start + unat size"
    using assms by (subst unat_add_lem [THEN iffD1]) (simp_all add: unat_u16_u32)
  show lt: "start < 2000" using assms(1) by (simp add: word_less_nat_alt)
  show "2000 \<le> start + ucast size \<longleftrightarrow> 2000 \<le> unat start + unat size"
    unfolding word_le_nat_alt sum by simp
  have "unat (2000 - start) = 2000 - unat start" using lt by (subst unat_sub) (simp_all add: word_le_nat_alt word_less_nat_alt)
  then have m: "unat (min (ucast size) (2000 - start)) = min (unat size) (2000 - unat start)"
    by (simp add: min_def word_le_nat_alt unat_u16_u32)
  have "(ucast (w :: u32) :: u16) = word_of_nat (unat w)" for w by simp
  from this [of "min (ucast size) (2000 - start)"] show
    "(ucast (min (start + ucast size - start) (2000 - start)) :: u16) = word_of_nat (min (unat size) (2000 - unat start))"
    unfolding m by simp
qed

lemma large_keys: "COAP_OPTION_CONTENT_TYPE = word_of_nat 12" "COAP_OPTION_MAX_AGE = word_of_nat 14" "COAP_OPTION_BLOCK2 = word_of_nat 23"
    "(ucast COAP_CONTENT_TYPE_TEXT_PLAIN :: u32) = 0" "(60 * 60 :: u32) = 3600"
  by (simp_all add: COAP_OPTION_CONTENT_TYPE_def COAP_OPTION_MAX_AGE_def COAP_OPTION_BLOCK2_def COAP_CONTENT_TYPE_TEXT_PLAIN_def)

text \<open>The reply up to the loop that fits the block.\<close>

lemma large_begins:
  assumes "can_answer self p" "p_code p = 1" "scanning self xs prev opts payload" "short_blocks opts"
  obtains s1 out out1 out2 q where "smcp_inbound_get_code self = Some 1" "large_options 3 self = Some (requested opts 3, s1)" "moved self s1"
    "smcp_outbound_begin_response (word_of_nat (HTTP_TO_COAP_CODE 205)) s1 = Some (SMCP_STATUS_OK, responding out s1)"
    "smcp_outbound_add_option_uint (word_of_nat 12) 0 (responding out s1) = Some (SMCP_STATUS_OK, responding out1 s1)"
    "smcp_outbound_add_option_uint (word_of_nat 14) 3600 (responding out1 s1) = Some (SMCP_STATUS_OK, responding out2 s1)"
    "holds_packet (responding out2 s1) (with_option 14 [14, 16] (with_option 12 [] q))" "out_saddr out2 = in_saddr (inbound s1)"
    "length (packet_front (with_option 14 [14, 16] (with_option 12 [] q))) \<le> 30"
    "response_to p (word_of_nat (HTTP_TO_COAP_CODE 205)) q" "p_options q = []" "p_content q = []" "can_answer s1 p"
proof -
  have code: "smcp_inbound_get_code self = Some 1"
    using inbound_holds_fields [of self p] assms(1,2) by (auto simp: can_answer_def smcp_inbound_get_code_def smcp_inbound_get_packet_def)
  obtain s1 where s1: "large_options 3 self = Some (requested opts 3, s1)" "moved self s1"
    using large_options_requested [OF assms(3,4)] by blast
  have can: "can_answer s1 p" using moved_can_answer [OF s1(2)] assms(1) by blast
  obtain out q where q: "smcp_outbound_begin_response (word_of_nat (HTTP_TO_COAP_CODE 205)) s1 = Some (SMCP_STATUS_OK, responding out s1)"
      "holds_packet (responding out s1) q" "out_saddr out = in_saddr (inbound s1)" "response_to p (word_of_nat (HTTP_TO_COAP_CODE 205)) q"
      "p_options q = []" "p_content q = []"
    by (rule begin_answer [OF can, of "word_of_nat (HTTP_TO_COAP_CODE 205)"]) simp_all
  have "length (p_token q) \<le> 8" using q(2) by (simp add: holds_packet_def packet_ok_def)
  then have f0: "length (packet_front q) \<le> 12" using q(5) by (simp add: packet_front_def packet_head_length)
  let ?q1 = "with_option 12 [] q" and ?q2 = "with_option 14 [14, 16] (with_option 12 [] q)"
  have ct: "current_transaction s1 = None" using can by (auto simp: can_answer_def)
  obtain out1 where o1: "smcp_outbound_add_option_uint (word_of_nat 12) 0 (responding out s1) = Some (SMCP_STATUS_OK, responding out1 s1)"
      "holds_packet (responding out1 s1) ?q1" "out_saddr out1 = out_saddr out" "length (packet_front ?q1) \<le> length (packet_front q) + 9"
    using add_uint [OF q(2,6) ct, of 12 0, unfolded uint_option_numbers] f0 by auto
  obtain out2 where o2: "smcp_outbound_add_option_uint (word_of_nat 14) 3600 (responding out1 s1) = Some (SMCP_STATUS_OK, responding out2 s1)"
      "holds_packet (responding out2 s1) ?q2" "out_saddr out2 = out_saddr out1" "length (packet_front ?q2) \<le> length (packet_front ?q1) + 9"
    using add_uint [OF o1(2) _ ct, of 14 3600, unfolded uint_option_numbers] f0 o1(4) q(6) by auto
  have "out_saddr out2 = in_saddr (inbound s1)" "length (packet_front ?q2) \<le> 30" using o1 o2 q(3) f0 by simp_all
  from that [OF code s1 q(1) o1(1) o2(1,2) this q(4-6) can] show ?thesis .
qed

lemma large_block_sent:
  assumes "can_answer self p" "p_code p = 1" "scanning self xs prev opts payload" "short_blocks opts"
    and "coap_decode_block (requested opts 3) = \<lparr>block_offset = start, block_size = sz, block_m = m\<rparr>"
    and "unat start < 2000" "unat sz \<le> 512"
  shows "\<exists>st self' w. plugtest_large_handler env self = Some (st, self') \<and>
    coap_decode_block w = \<lparr>block_offset = start, block_size = sz, block_m = (unat start + unat sz < 2000)\<rparr> \<and>
    answered env p self 205 [(12, []), (14, [14, 16]), (23, uint_option_value w)] (take (unat sz) (drop (unat start) large_resource)) st self'"
proof -
  let ?b = "requested opts 3"
  let ?w = "if 2000 \<le> start + ucast sz then ?b AND NOT (push_bit 3 1) else ?b OR push_bit 3 1"
  let ?bs = "map large_char [unat start..<unat start + unat sz]"
  let ?n = "min (unat sz) (2000 - unat start)"
  note W = block_words [OF assms(6,7)]
  obtain s1 out out1 out2 q where L: "smcp_inbound_get_code self = Some 1" "large_options 3 self = Some (?b, s1)" "moved self s1"
      "smcp_outbound_begin_response (word_of_nat (HTTP_TO_COAP_CODE 205)) s1 = Some (SMCP_STATUS_OK, responding out s1)"
      "smcp_outbound_add_option_uint (word_of_nat 12) 0 (responding out s1) = Some (SMCP_STATUS_OK, responding out1 s1)"
      "smcp_outbound_add_option_uint (word_of_nat 14) 3600 (responding out1 s1) = Some (SMCP_STATUS_OK, responding out2 s1)"
      "holds_packet (responding out2 s1) (with_option 14 [14, 16] (with_option 12 [] q))" "out_saddr out2 = in_saddr (inbound s1)"
    and f0: "length (packet_front (with_option 14 [14, 16] (with_option 12 [] q))) \<le> 30"
    and q: "response_to p (word_of_nat (HTTP_TO_COAP_CODE 205)) q" "p_options q = []" "p_content q = []" and can: "can_answer s1 p"
    by (rule large_begins [OF assms(1-4)])
  note c = can [unfolded can_answer_def]
  have ct: "current_transaction s1 = None" using c by blast
  let ?q2 = "with_option 14 [14, 16] (with_option 12 [] q)"
  let ?q3 = "with_option 23 (uint_option_value ?w) ?q2"
  obtain out3 where o3: "smcp_outbound_add_option_uint (word_of_nat 23) ?w (responding out2 s1) = Some (SMCP_STATUS_OK, responding out3 s1)"
      "holds_packet (responding out3 s1) ?q3" "out_saddr out3 = out_saddr out2" "length (packet_front ?q3) \<le> length (packet_front ?q2) + 9"
    using add_uint [OF L(7) _ ct, of 23 ?w] f0 q(3) by auto
  have c0: "p_content ?q2 = []" "p_content ?q3 = []" using q(3) by simp_all
  have sz: "sz \<noteq> 0" using block_size_power [of ?b] unat_power(1) assms(5) by fastforce
  let ?m2 = "smcp_outbound_get_space_remaining (responding out2 s1)" and ?m3 = "smcp_outbound_get_space_remaining (responding out3 s1)"
  have "unat ?m2 = 1032 - (length (packet_front ?q2) + 1)" using holds_packet_space [OF L(7)] c0(1) by simp
  then have "unat (?m2 - 2) = 1030 - (length (packet_front ?q2) + 1)" using f0 by (subst unat_sub) (simp_all add: word_le_nat_alt)
  then have "sz \<le> ?m2 - 2" using f0 assms(7) by (simp add: word_le_nat_alt)
  then have fit: "fit_block (?m2 - 2) ?b = Some (?b, start, start + ucast sz)"
    using fit_block_fits [of ?b "?m2 - 2"] assms(5,6) sz by simp
  have ptr: "smcp_outbound_get_content_ptr (responding out3 s1) = Some (length (packet_front ?q3) + 1, ?m3, responding out3 s1)"
    using content_ptr_idle [OF o3(2)] ct o3(2) c0(2) by (simp add: holds_packet_def)
  have "unat ?m3 = 1032 - (length (packet_front ?q3) + 1)" using holds_packet_space [OF o3(2)] c0(2) by simp
  then have room: "(ucast ?m3 :: u32) > start + ucast sz - start"
    using f0 o3(4) assms(7) by (simp add: word_less_nat_alt unat_u16_u32)
  obtain s4 out4 where s4: "out_write (length (packet_front ?q3) + 1) ?bs (responding out3 s1) = Some s4"
      "snd (smcp_outbound_set_content_len (word_of_nat ?n) s4) = (responding out3 s1)\<lparr>outbound := out4\<rparr>" "out_saddr out4 = out_saddr out3"
      "holds_packet ((responding out3 s1)\<lparr>outbound := out4\<rparr>) (?q3\<lparr>p_content := take ?n ?bs\<rparr>)"
    using block_bytes [OF o3(2) c0(2), of ?bs ?n] f0 o3(4) assms(7) by auto
  let ?q4 = "?q3\<lparr>p_content := take ?n ?bs\<rparr>"
  let ?st = "send_status (env_send env (packet_wire ?q4) (in_saddr (inbound self)))"
  obtain s5 where s5: "smcp_outbound_send env ((responding out3 s1)\<lparr>outbound := out4\<rparr>) = Some (?st, s5)"
      "sent_packets s5 = (packet_wire ?q4, in_saddr (inbound self)) # sent_packets self"
    using outbound_send_holds [OF s4(4), of _ env] s4(3) o3(3) L(8) c moved_fields [OF L(3)] by auto
  have wr: "write_block (length (packet_front ?q3) + 1) start (start + ucast sz) (responding out3 s1) = Some s4"
    using s4(1) by (simp only: write_block_def W(1))
  have set: "smcp_outbound_set_content_len (ucast (min (start + ucast sz - start) (2000 - start))) s4 = (0, (responding out3 s1)\<lparr>outbound := out4\<rparr>)"
    using s4(2) unfolding W(4) smcp_outbound_set_content_len_def by simp
  have "plugtest_large_handler env self = Some (?st, s5)"
    unfolding plugtest_large_handler_def L(1) Let_def large_keys
    by (simp only: bind.bind_lunit split_conv simp_thms if_False if_True L(2,4-6) fit W(2) o3(1) ptr room wr set s5(1))
  moreover have "coap_decode_block ?w = \<lparr>block_offset = start, block_size = sz, block_m = (unat start + unat sz < 2000)\<rparr>"
    using decode_more [of ?b] assms(5) W(3) by auto
  moreover have "answered env p self 205 [(12, []), (14, [14, 16]), (23, uint_option_value ?w)] (take (unat sz) (drop (unat start) large_resource)) ?st s5"
    unfolding answered_def using s5(2) q(1,2) large_slice [of "unat sz" "unat start"]
    by (intro exI [of _ ?q4]) (simp add: response_to_def insert_opt_def)
  ultimately show ?thesis by blast
qed

section \<open>The whole resource\<close>

text \<open>A request for block number \<open>k\<close> of \<open>2 ^ (e + 4)\<close> bytes.\<close>

definition asks_block :: "smcp_s \<Rightarrow> packet \<Rightarrow> nat \<Rightarrow> nat \<Rightarrow> bool" where
  "asks_block self p k e \<longleftrightarrow> can_answer self p \<and> p_code p = 1 \<and>
     (\<exists>xs prev opts payload. scanning self xs prev opts payload \<and> short_blocks opts \<and> requested opts 3 = word_of_nat (16 * k + e))"

definition large_blocks :: "nat \<Rightarrow> nat" where
  "large_blocks e = (1999 + 2 ^ (e + 4)) div 2 ^ (e + 4)"

lemma concat_blocks: "concat (map (\<lambda>k. take s (drop (k * s) xs)) [0..<n]) = take (n * s) xs"
proof (induction n)
  case (Suc n)
  have "take (Suc n * s) xs = take (n * s) xs @ take s (drop (n * s) xs)" using take_add [of "n * s" s xs] by (simp add: add.commute)
  then show ?case using Suc by simp
qed simp

lemma block_count:
  assumes "0 < (s :: nat)"
  shows "k < (1999 + s) div s \<longleftrightarrow> k * s < 2000" "2000 \<le> (1999 + s) div s * s"
proof -
  have count: "k < (1999 + s) div s \<longleftrightarrow> k * s < 2000" for k
    using less_eq_div_iff_mult_less_eq [OF assms, of "Suc k" "1999 + s"] by (auto simp: Suc_le_eq)
  then show "k < (1999 + s) div s \<longleftrightarrow> k * s < 2000" by blast
  show "2000 \<le> (1999 + s) div s * s" using count [of "(1999 + s) div s"] by simp
qed

text \<open>
  C7: block-wise transfer of the large resource: a client that asks for one block after the other, with
  blocks of at most 512 bytes, gets for each request one packet whose block option names the block and
  tells whether more blocks follow, and the contents of these packets, one after the other, are the
  whole resource.
\<close>

theorem large_resource_transferred:
  fixes self :: "nat \<Rightarrow> smcp_s"
  assumes "e \<le> 5" "\<forall>k < large_blocks e. asks_block (self k) (p k) k e"
  shows "\<exists>content. (\<forall>k < large_blocks e. \<exists>st self' w. plugtest_large_handler env (self k) = Some (st, self') \<and>
      coap_decode_block w = \<lparr>block_offset = word_of_nat (k * 2 ^ (e + 4)), block_size = 2 ^ (e + 4), block_m = (k + 1 < large_blocks e)\<rparr> \<and>
      answered env (p k) (self k) 205 [(12, []), (14, [14, 16]), (23, uint_option_value w)] (content k) st self') \<and>
    concat (map content [0..<large_blocks e]) = large_resource"
proof -
  let ?s = "2 ^ (e + 4) :: nat"
  let ?c = "\<lambda>k. take ?s (drop (k * ?s) large_resource)"
  have s: "0 < ?s" "?s \<le> 512" using assms(1) power_increasing [of "e + 4" 9 "2 :: nat"] by simp_all
  note N = block_count [OF s(1)]
  have "\<exists>st self' w. plugtest_large_handler env (self k) = Some (st, self') \<and>
      coap_decode_block w = \<lparr>block_offset = word_of_nat (k * ?s), block_size = 2 ^ (e + 4), block_m = (k + 1 < large_blocks e)\<rparr> \<and>
      answered env (p k) (self k) 205 [(12, []), (14, [14, 16]), (23, uint_option_value w)] (?c k) st self'" if k: "k < large_blocks e" for k
  proof -
    have ks: "k * ?s < 2000" using N(1) [of k] k by (simp add: large_blocks_def)
    moreover have "k \<le> k * ?s" using s(1) by simp
    ultimately have "k < 2000" by (rule le_less_trans [rotated])
    obtain xs prev opts payload where a: "can_answer (self k) (p k)" "p_code (p k) = 1" "scanning (self k) xs prev opts payload"
        "short_blocks opts" "requested opts 3 = word_of_nat (16 * k + e)"
      using assms(2) k unfolding asks_block_def by blast
    have "unat (requested opts 3) = 16 * k + e"
      unfolding a(5) using \<open>k < 2000\<close> assms(1) by (simp only: unsigned_of_nat) (simp add: take_bit_nat_eq_self)
    then have d: "coap_decode_block (requested opts 3) = \<lparr>block_offset = word_of_nat (k * ?s), block_size = 2 ^ (e + 4), block_m = False\<rparr>"
      using assms(1) by (intro decode_unat) simp_all
    have u: "unat (word_of_nat (k * ?s) :: u32) = k * ?s" "unat (2 ^ (e + 4) :: u16) = ?s"
      using ks assms(1) unat_power(1) [of e] by (simp_all only: unsigned_of_nat) (simp_all add: take_bit_nat_eq_self)
    have "k * ?s + ?s < 2000 \<longleftrightarrow> k + 1 < large_blocks e" using N(1) [of "k + 1"] by (simp add: large_blocks_def add.commute)
    then show ?thesis
      using large_block_sent [OF a(1-4) d, of env] u ks s(2) by (simp only:)
  qed
  moreover have "concat (map ?c [0..<large_blocks e]) = large_resource"
    unfolding concat_blocks using N(2) by (simp add: large_blocks_def large_resource_def)
  ultimately show ?thesis by (intro exI [of _ ?c] conjI allI impI) simp_all
qed

text \<open>The requests for the four blocks of 512 bytes.\<close>

definition block_packet :: "nat \<Rightarrow> packet" where
  "block_packet k = \<lparr>p_first = 0x41, p_code = 1, p_msg_id = word_of_nat k, p_token = [7],
     p_options = [(23, [word_of_nat (16 * k + 5)])], p_content = []\<rparr>"

lemma block_received:
  assumes "k < 4"
  shows "\<exists>self. asks_block self (block_packet k) k 5"
proof -
  let ?p = "block_packet k"
  have "packet_ok ?p" "empty_ok ?p" "plain_keys (p_options ?p)" "length (packet_wire ?p) \<le> 1240"
    by (simp_all add: block_packet_def packet_ok_def empty_ok_def COAP_VERSION_def header_version_def header_token_len_def
      packet_wire_payload packet_payload_def packet_head_length option_bytes_def length_opt_header length_opt_ext
      COAP_CODE_EMPTY_def drop_bit_eq_div word_unat_eq_iff)
  from request_received [OF this] obtain self where r: "can_answer self ?p"
      "scanning self (packet_head ?p) 0 (p_options ?p) (packet_payload ?p)"
    by blast
  have "short_blocks (p_options ?p)" by (simp add: short_blocks_def block_packet_def)
  moreover have "(ucast (word_of_nat (16 * k + 5) :: u8) :: u32) = word_of_nat (16 * k + 5)"
  proof -
    have "k = 0 \<or> k = 1 \<or> k = 2 \<or> k = 3" using assms by linarith
    then show ?thesis by (elim disjE) simp_all
  qed
  then have "requested (p_options ?p) 3 = word_of_nat (16 * k + 5)"
    by (simp add: requested_def block_packet_def block_value_def)
  moreover have "p_code ?p = 1" by (simp add: block_packet_def)
  ultimately show ?thesis using r unfolding asks_block_def by blast
qed

theorem large_resource_transferred_witness:
  "\<exists>self content. (\<forall>k < 4. \<exists>st self' w. plugtest_large_handler accepting_env (self k) = Some (st, self') \<and>
      coap_decode_block w = \<lparr>block_offset = word_of_nat (k * 512), block_size = 512, block_m = (k + 1 < 4)\<rparr> \<and>
      answered accepting_env (block_packet k) (self k) 205 [(12, []), (14, [14, 16]), (23, uint_option_value w)] (content k) st self') \<and>
    concat (map content [0..<4]) = large_resource"
proof -
  have n: "large_blocks 5 = 4" by (simp add: large_blocks_def)
  obtain self where self: "\<forall>k < 4. asks_block (self k) (block_packet k) k 5" using block_received by metis
  show ?thesis
    using large_resource_transferred [of 5 self block_packet accepting_env] self unfolding n by fastforce
qed

section \<open>A request that is never answered\<close>

text \<open>The end of the last block of the 32-bit numbers is 0, and the loop that fits the block starts again.\<close>

lemma fit_block_forever: "fit_block max_len 0xFFFFFFF0 = None"
proof -
  have d: "coap_decode_block 0xFFFFFFF0 = \<lparr>block_offset = 0xFFFFFFF0, block_size = 16, block_m = False\<rparr>"
    by (simp add: coap_decode_block_def Let_def drop_bit_eq_div)
  have "b = 0xFFFFFFF0 \<Longrightarrow> False" if "fit_block m b = Some r" for m b r
    by (rule fit_block.raw_induct [of "\<lambda>m b r. b = 0xFFFFFFF0 \<longrightarrow> False", rule_format, OF _ that])
      (auto simp: d Let_def split: if_splits)
  then show ?thesis by (cases "fit_block max_len 0xFFFFFFF0") (simp, blast)
qed

text \<open>
  C38: a GET request for the large resource with the block option 0xFFFFFFF0 keeps the server in an
  endless loop.
\<close>

theorem large_block_hangs:
  assumes "can_answer self p" "p_code p = 1" "scanning self xs prev opts payload" "short_blocks opts" "requested opts 3 = 0xFFFFFFF0"
  shows "plugtest_large_handler env self = None"
proof -
  obtain s1 out out1 out2 q where L: "smcp_inbound_get_code self = Some 1" "large_options 3 self = Some (0xFFFFFFF0, s1)"
      "smcp_outbound_begin_response (word_of_nat (HTTP_TO_COAP_CODE 205)) s1 = Some (SMCP_STATUS_OK, responding out s1)"
      "smcp_outbound_add_option_uint (word_of_nat 12) 0 (responding out s1) = Some (SMCP_STATUS_OK, responding out1 s1)"
      "smcp_outbound_add_option_uint (word_of_nat 14) 3600 (responding out1 s1) = Some (SMCP_STATUS_OK, responding out2 s1)"
    by (rule large_begins [OF assms(1-4)]) (simp add: assms(5))
  show ?thesis
    unfolding plugtest_large_handler_def L(1) Let_def large_keys
    by (simp only: bind.bind_lunit bind.bind_lzero split_conv simp_thms if_False if_True L(2-5) fit_block_forever)
qed

text \<open>The request whose block option has the number 0xFFFFFFF and blocks of 16 bytes.\<close>

definition last_block_packet :: packet where
  "last_block_packet = \<lparr>p_first = 0x41, p_code = 1, p_msg_id = 9, p_token = [7], p_options = [(23, [255, 255, 255, 240])], p_content = []\<rparr>"

theorem large_block_hangs_witness:
  "\<exists>self. can_answer self last_block_packet \<and> plugtest_large_handler accepting_env self = None"
proof -
  let ?p = last_block_packet
  have "packet_ok ?p" "empty_ok ?p" "plain_keys (p_options ?p)" "length (packet_wire ?p) \<le> 1240"
    by (simp_all add: last_block_packet_def packet_ok_def empty_ok_def COAP_VERSION_def header_version_def header_token_len_def
      packet_wire_payload packet_payload_def packet_head_length option_bytes_def length_opt_header length_opt_ext
      COAP_CODE_EMPTY_def drop_bit_eq_div word_unat_eq_iff)
  from request_received [OF this] obtain self where r: "can_answer self ?p"
      "scanning self (packet_head ?p) 0 (p_options ?p) (packet_payload ?p)"
    by blast
  have "requested (p_options ?p) 3 = 0xFFFFFFF0" by (simp add: requested_def last_block_packet_def block_value_def push_bit_eq_mult)
  then show ?thesis
    using large_block_hangs [OF r(1) _ r(2), of accepting_env] r(1) by (auto simp: last_block_packet_def short_blocks_def)
qed

end
