(* ===== verification/Examples.thy ===== *)
theory Examples
  imports Plugtest_Blocks
begin

text \<open>
  The request handlers of the examples (\<^verbatim>\<open>src/examples\<close>): servers that answer with a greeting. As in the
  source the statuses of the calls that build the response are ignored; what is printed is left out.
\<close>

section \<open>Handlers\<close>

definition hello_reply :: "smcp_env \<Rightarrow> smcp_s \<Rightarrow> (smcp_status_t \<times> smcp_s) option" where
  "hello_reply env self = do {
     (_, self) \<leftarrow> smcp_outbound_add_option_uint COAP_OPTION_CONTENT_TYPE (ucast COAP_CONTENT_TYPE_TEXT_PLAIN) self;
     (_, self) \<leftarrow> smcp_outbound_append_content (string_bytes (''Hello world!'' @ [NUL])) SMCP_CSTR_LEN self;
     smcp_outbound_send env self
   }"

definition example1_request_handler :: "smcp_env \<Rightarrow> smcp_s \<Rightarrow> (smcp_status_t \<times> smcp_s) option" where
  "example1_request_handler env self = do {
     code \<leftarrow> smcp_inbound_get_code self;
     if code \<noteq> COAP_METHOD_GET then Some (SMCP_STATUS_NOT_IMPLEMENTED, self)
     else do {
       (_, self) \<leftarrow> smcp_outbound_begin_response (word_of_nat (HTTP_TO_COAP_CODE 205)) self;
       hello_reply env self
     }
   }"

text \<open>The loop that skips the options in front of the path.\<close>

function skip_to_path :: "smcp_s \<Rightarrow> smcp_s option" where
  "skip_to_path self =
     (case smcp_inbound_peek_option self of
        None \<Rightarrow> None
      | Some (key, _) \<Rightarrow>
          if key = COAP_OPTION_URI_PATH then Some self
          else (case smcp_inbound_next_option self of
                  None \<Rightarrow> None
                | Some ((key', _), self') \<Rightarrow> if key' = COAP_OPTION_INVALID then Some self' else skip_to_path self'))"
  by pat_completeness auto
termination
  by (relation "measure scan_left") (auto dest: next_option_progress)

declare skip_to_path.simps [simp del]

definition example2_request_handler :: "smcp_env \<Rightarrow> smcp_s \<Rightarrow> (smcp_status_t \<times> smcp_s) option" where
  "example2_request_handler env self = do {
     code \<leftarrow> smcp_inbound_get_code self;
     if code \<noteq> COAP_METHOD_GET then Some (SMCP_STATUS_NOT_IMPLEMENTED, self)
     else do {
       self \<leftarrow> skip_to_path self;
       hello \<leftarrow> smcp_inbound_option_strequal self COAP_OPTION_URI_PATH (string_bytes ''hello-world'');
       if hello then do {
         (_, self) \<leftarrow> smcp_outbound_begin_response (word_of_nat (HTTP_TO_COAP_CODE 205)) self;
         hello_reply env self
       }
       else Some (SMCP_STATUS_NOT_FOUND, self)
     }
   }"

text \<open>
  The third example puts its handler, which is that of the first, into a node. The nodes lie at the
  addresses \<open>root\<close> and \<open>hello\<close>.
\<close>

definition example3_request_handler :: "smcp_env \<Rightarrow> smcp_s \<Rightarrow> (smcp_status_t \<times> smcp_s) option" where
  "example3_request_handler env self = do {
     code \<leftarrow> smcp_inbound_get_code self;
     if code \<noteq> COAP_METHOD_GET then Some (SMCP_STATUS_NOT_IMPLEMENTED, self)
     else do {
       (_, self) \<leftarrow> smcp_outbound_begin_response (word_of_nat (HTTP_TO_COAP_CODE 205)) self;
       hello_reply env self
     }
   }"

definition example3_nodes :: "addr \<Rightarrow> addr \<Rightarrow> fn \<Rightarrow> fn \<Rightarrow> node_heap \<Rightarrow> smcp_s \<Rightarrow> (node_heap \<times> smcp_s) option" where
  "example3_nodes root hello router handler ns self = do {
     ns \<leftarrow> smcp_node_init root True None None ns;
     let self = smcp_set_default_request_handler (Some router) (Some root) self;
     ns \<leftarrow> smcp_node_init hello True (Some root) (Some (string_bytes ''hello-world'')) ns;
     Some (set_node hello (\<lambda>x. x\<lparr>node_request_handler := Some (Node_fn handler), node_context := None\<rparr>) ns, self)
   }"

definition ARBITRARY_OBSERVABLE_KEY :: u8 where "ARBITRARY_OBSERVABLE_KEY = 23"

definition example4_request_handler :: "smcp_env \<Rightarrow> addr \<Rightarrow> observers \<Rightarrow> smcp_s \<Rightarrow> (smcp_status_t \<times> observers \<times> smcp_s) option" where
  "example4_request_handler env context os self = do {
     code \<leftarrow> smcp_inbound_get_code self;
     if code \<noteq> COAP_METHOD_GET then Some (SMCP_STATUS_NOT_IMPLEMENTED, os, self)
     else do {
       (_, self) \<leftarrow> smcp_outbound_begin_response (word_of_nat (HTTP_TO_COAP_CODE 205)) self;
       (_, os, self) \<leftarrow> smcp_observable_update env context ARBITRARY_OBSERVABLE_KEY os self;
       (ret, self) \<leftarrow> hello_reply env self;
       Some (ret, os, self)
     }
   }"

definition example4_nodes :: "addr \<Rightarrow> addr \<Rightarrow> addr \<Rightarrow> fn \<Rightarrow> fn \<Rightarrow> node_heap \<Rightarrow> smcp_s \<Rightarrow> (node_heap \<times> smcp_s) option" where
  "example4_nodes root hello context router handler ns self = do {
     ns \<leftarrow> smcp_node_init root True None None ns;
     let self = smcp_set_default_request_handler (Some router) (Some root) self;
     ns \<leftarrow> smcp_node_init hello True (Some root) (Some (string_bytes ''hello-world'')) ns;
     Some (set_node hello (\<lambda>x. x\<lparr>node_request_handler := Some (Node_fn handler), node_context := Some context\<rparr>) ns, self)
   }"

definition TRIGGER_FREQUENCY :: int where "TRIGGER_FREQUENCY = 5"

text \<open>What the main loop of the fourth example does after each turn: the time of the next trigger is returned.\<close>

definition example4_trigger ::
    "smcp_env \<Rightarrow> fn \<Rightarrow> fn \<Rightarrow> addr \<Rightarrow> int \<Rightarrow> observers \<Rightarrow> smcp_s \<Rightarrow> (int \<times> observers \<times> smcp_s) option" where
  "example4_trigger env retry response context next_trigger os self =
     (if next_trigger - tv_sec (env_now env) \<le> 0 then do {
        (_, os, self) \<leftarrow> smcp_observable_trigger env retry response context ARBITRARY_OBSERVABLE_KEY os self;
        Some (tv_sec (env_now env) + TRIGGER_FREQUENCY, os, self)
      }
      else Some (next_trigger, os, self))"

section \<open>Properties\<close>

lemma out_write_saddr: "out_write p bs self = Some self' \<Longrightarrow> out_saddr (outbound self') = out_saddr (outbound self)"
  unfolding out_write_def bind_eq_Some_conv by clarsimp

lemma append_content_saddr:
  assumes "holds_packet self q" "current_transaction self = None" "smcp_outbound_append_content val len self = Some (st, self')"
  shows "out_saddr (outbound self') = out_saddr (outbound self)"
proof -
  obtain n where n: "actual_len val len = Some n" using assms(3) by (auto simp: smcp_outbound_append_content_def bind_eq_Some_conv)
  show ?thesis
  proof (cases "smcp_outbound_get_space_remaining self \<le> n")
    case True
    then show ?thesis using assms(3) n by (simp add: smcp_outbound_append_content_def)
  next
    case False
    then obtain p bs s where "out_write p bs self = Some s" "self' = set_outbound (\<lambda>out. out\<lparr>out_content_len := out_content_len out + n\<rparr>) s"
      using assms(3) n unfolding smcp_outbound_append_content_def Let_def content_ptr_idle [OF assms(1,2)]
      by (auto simp: bind_eq_Some_conv simp del: unsigned_of_nat)
    then show ?thesis using out_write_saddr by simp
  qed
qed

lemma append_greeting:
  assumes "holds_packet self q" "current_transaction self = None" "length (packet_front q) + length (p_content q) + 14 < 1032"
  shows "\<exists>out. smcp_outbound_append_content (string_bytes (''Hello world!'' @ [NUL])) SMCP_CSTR_LEN self = Some (SMCP_STATUS_OK, self\<lparr>outbound := out\<rparr>) \<and>
    holds_packet (self\<lparr>outbound := out\<rparr>) (q\<lparr>p_content := p_content q @ string_bytes ''Hello world!''\<rparr>) \<and> out_saddr out = out_saddr (outbound self)"
proof -
  let ?b = "string_bytes ''Hello world!''"
  have b: "string_bytes (''Hello world!'' @ [NUL]) = ?b @ [0]" "length ?b = 12" by (simp_all add: string_bytes_def char_code_def)
  have "actual_len (?b @ [0]) SMCP_CSTR_LEN = actual_len (?b @ [0]) (word_of_nat 12)" by code_simp
  then have eq: "smcp_outbound_append_content (?b @ [0]) SMCP_CSTR_LEN self = smcp_outbound_append_content (?b @ [0]) (word_of_nat (length ?b)) self"
    unfolding smcp_outbound_append_content_def b(2) by simp
  obtain out where "smcp_outbound_append_content (?b @ [0]) (word_of_nat (length ?b)) self = Some (SMCP_STATUS_OK, self\<lparr>outbound := out\<rparr>)"
      "holds_packet (self\<lparr>outbound := out\<rparr>) (q\<lparr>p_content := p_content q @ ?b\<rparr>)"
    using append_content_holds [OF assms(1,2), of ?b "[0]"] assms(3) b(2) by auto
  then show ?thesis using append_content_saddr [OF assms(1,2), of _ _ SMCP_STATUS_OK] unfolding b(1) eq by fastforce
qed

lemma greeting_sent:
  assumes "can_answer self p" "moved self s"
  shows "\<exists>st self'. Option.bind (smcp_outbound_begin_response (word_of_nat (HTTP_TO_COAP_CODE 205)) s) (\<lambda>(_, s). hello_reply env s) = Some (st, self') \<and>
    answered env p self 205 [(12, [])] (string_bytes ''Hello world!'') st self'"
proof -
  have can: "can_answer s p" using moved_can_answer [OF assms(2)] assms(1) by blast
  note c = can [unfolded can_answer_def]
  obtain out q where q: "smcp_outbound_begin_response (word_of_nat (HTTP_TO_COAP_CODE 205)) s = Some (SMCP_STATUS_OK, responding out s)"
      "holds_packet (responding out s) q" "out_saddr out = in_saddr (inbound s)" "response_to p (word_of_nat (HTTP_TO_COAP_CODE 205)) q"
      "p_options q = []" "p_content q = []"
    by (rule begin_answer [OF can, of "word_of_nat (HTTP_TO_COAP_CODE 205)"]) simp_all
  have "length (p_token q) \<le> 8" using q(2) by (simp add: holds_packet_def packet_ok_def)
  then have f0: "length (packet_front q) \<le> 12" using q(5) by (simp add: packet_front_def packet_head_length)
  let ?q1 = "with_option 12 [] q" and ?q2 = "(with_option 12 [] q)\<lparr>p_content := string_bytes ''Hello world!''\<rparr>"
  have ct: "current_transaction s = None" using c by blast
  obtain out1 where o1: "smcp_outbound_add_option_uint (word_of_nat 12) 0 (responding out s) = Some (SMCP_STATUS_OK, responding out1 s)"
      "holds_packet (responding out1 s) ?q1" "out_saddr out1 = out_saddr out" "length (packet_front ?q1) \<le> length (packet_front q) + 9"
    using add_uint [OF q(2,6) ct, of 12 0, unfolded uint_option_numbers] f0 by auto
  obtain out2 where o2: "smcp_outbound_append_content (string_bytes (''Hello world!'' @ [NUL])) SMCP_CSTR_LEN (responding out1 s) =
        Some (SMCP_STATUS_OK, (responding out1 s)\<lparr>outbound := out2\<rparr>)"
      "holds_packet ((responding out1 s)\<lparr>outbound := out2\<rparr>) ?q2" "out_saddr out2 = out_saddr out1"
    using append_greeting [OF o1(2)] ct f0 o1(4) q(6) by auto
  let ?st = "send_status (env_send env (packet_wire ?q2) (in_saddr (inbound self)))"
  obtain s3 where s3: "smcp_outbound_send env ((responding out1 s)\<lparr>outbound := out2\<rparr>) = Some (?st, s3)"
      "sent_packets s3 = (packet_wire ?q2, in_saddr (inbound self)) # sent_packets self"
    using outbound_send_holds [OF o2(2), of _ env] o2(3) o1(3) q(3) c moved_fields [OF assms(2)] by auto
  have "Option.bind (smcp_outbound_begin_response (word_of_nat (HTTP_TO_COAP_CODE 205)) s) (\<lambda>(_, s). hello_reply env s) = Some (?st, s3)"
    unfolding hello_reply_def large_keys q(1) by (simp only: bind.bind_lunit split_conv o1(1) o2(1) s3(1))
  moreover have "answered env p self 205 [(12, [])] (string_bytes ''Hello world!'') ?st s3"
    unfolding answered_def using s3(2) q(4,5) by (intro exI [of _ ?q2]) (simp add: response_to_def insert_opt_def)
  ultimately show ?thesis by blast
qed

lemma skip_to_path_finds:
  assumes "scanning self xs prev (opts @ (11, v) # later) payload" "\<forall>(k, w) \<in> set opts. k < 11" "prev < 65535"
  shows "\<exists>self' ys last. skip_to_path self = Some self' \<and> scanning self' ys last ((11, v) # later) payload \<and> moved self self'"
  using assms
proof (induction opts arbitrary: self xs prev)
  case Nil
  have "in_last_option_key (inbound self) \<noteq> COAP_OPTION_INVALID" using plain_key(1) [OF Nil.prems(3)] Nil.prems(1) by (simp add: scanning_def)
  then have "skip_to_path self = Some self"
    using next_option_value [of self xs prev 11 v later payload] Nil.prems(1) by (subst skip_to_path.simps) (auto simp: peek_option_next COAP_OPTION_URI_PATH_def)
  moreover have "moved self self" by (rule movedI) simp
  ultimately show ?case using Nil.prems(1) by auto
next
  case (Cons o1 opts)
  obtain k w where kw: "o1 = (k, w)" "k < 11" using Cons.prems(2) by (cases o1) auto
  have "in_last_option_key (inbound self) \<noteq> COAP_OPTION_INVALID" using plain_key(1) [OF Cons.prems(3)] Cons.prems(1) by (simp add: scanning_def)
  note peek = peek_option_next [OF this]
  obtain self' val where n: "smcp_inbound_next_option self = Some ((word_of_nat k, val), self')"
      "scanning self' (xs @ option_bytes prev k w) k (opts @ (11, v) # later) payload" "moved self self'"
    using next_option_value [of self xs prev k w "opts @ (11, v) # later" payload] Cons.prems(1) unfolding kw(1) moved_def by auto
  have k: "(word_of_nat k :: u32) \<noteq> COAP_OPTION_URI_PATH" "(word_of_nat k :: u32) \<noteq> COAP_OPTION_INVALID"
    using kw(2) plain_key [of k] by (auto simp: COAP_OPTION_URI_PATH_def)
  have "skip_to_path self = skip_to_path self'" using n(1) k by (subst skip_to_path.simps) (simp add: peek)
  then show ?case using Cons.IH [OF n(2)] Cons.prems(2) kw(2) moved_trans [OF n(3)] by fastforce
qed

text \<open>A GET request gets the greeting from the first example, whatever its path.\<close>

theorem example1_greets:
  assumes "can_answer self p" "p_code p = 1"
  shows "\<exists>st self'. example1_request_handler env self = Some (st, self') \<and> answered env p self 205 [(12, [])] (string_bytes ''Hello world!'') st self'"
proof -
  have code: "smcp_inbound_get_code self = Some 1"
    using inbound_holds_fields [of self p] assms by (auto simp: can_answer_def smcp_inbound_get_code_def smcp_inbound_get_packet_def)
  have "moved self self" by (rule movedI) simp
  from greeting_sent [OF assms(1) this, of env] show ?thesis by (simp add: example1_request_handler_def code)
qed

text \<open>
  The second example answers a GET request whose first path segment is \<^verbatim>\<open>hello-world\<close> with the greeting, and
  returns not found for every other path, without a response.
\<close>

theorem example2_greets:
  assumes "can_answer self p" "p_code p = 1" "scanning self xs 0 (opts @ (11, v) # later) payload" "\<forall>(k, w) \<in> set opts. k < 11"
  shows "\<exists>st self'. example2_request_handler env self = Some (st, self') \<and>
    (if v = string_bytes ''hello-world'' then answered env p self 205 [(12, [])] (string_bytes ''Hello world!'') st self'
     else st = SMCP_STATUS_NOT_FOUND \<and> moved self self')"
proof -
  have code: "smcp_inbound_get_code self = Some 1"
    using inbound_holds_fields [of self p] assms(1,2) by (auto simp: can_answer_def smcp_inbound_get_code_def smcp_inbound_get_packet_def)
  obtain s ys last where s: "skip_to_path self = Some s" "scanning s ys last ((11, v) # later) payload" "moved self s"
    using skip_to_path_finds [OF assms(3,4)] by auto
  show ?thesis
    using greeting_sent [OF assms(1) s(3), of env] path_segment_equal [OF s(2), of "string_bytes ''hello-world''"] s(1,3)
    by (auto simp: example2_request_handler_def code)
qed

end
