(* ===== verification/Spec2Isabelle.thy ===== *)
theory Spec2Isabelle
  imports Default_Response Transaction_Order Url_Reference Variable_Apps Examples
begin

text \<open>
  A verification of SMCP, a CoAP (RFC 7252) stack in C: the library under \<^verbatim>\<open>src/src/smcp\<close>.

  \<^bold>\<open>The program.\<close> An \<^emph>\<open>instance\<close> (\<^verbatim>\<open>struct smcp_s\<close>) owns a datagram socket, a sorted list of timers,
  a tree of pending transactions, a table of recently seen messages, and two packet buffers.
  \<^verbatim>\<open>smcp_process\<close> takes a datagram from the socket: \<^verbatim>\<open>smcp_inbound_start_packet\<close> verifies it,
  \<^verbatim>\<open>smcp_inbound_finish_packet\<close> looks for duplicates, scans the options and dispatches to the handler of
  requests or, for a response, to the transaction with its message identifier or token; a
  confirmable message that nobody answered is answered by default. Then one due timer fires. A
  response or a request is built in place in the outbound buffer (\<^verbatim>\<open>smcp_outbound_begin\<close>,
  \<^verbatim>\<open>smcp_outbound_add_option\<close>, \<^verbatim>\<open>smcp_outbound_append_content\<close>) and sent by \<^verbatim>\<open>smcp_outbound_send\<close>. A
  transaction (\<^verbatim>\<open>smcp_transaction_begin\<close>) resends its request by its timer until a response arrives or
  it expires. Above the instance, the node router passes a request along a tree of named nodes to the
  handler of the node that its path leads to, and observable resources keep lists of observers, each
  with a stored request and a transaction that sends its notifications.

  \<^bold>\<open>The model.\<close> C functions are functions of the same name; a status is returned with the new state.
  \<^const>\<open>None\<close> is undefined behaviour: an access outside of an allocation, a null pointer, a failed
  assertion, or a loop that does not end. Integers have the width of their C type, and pointers into a buffer are
  offsets. The configuration is the default one on BSD sockets with IPv6: no \<^verbatim>\<open>SMCP_EMBEDDED\<close>,
  transactions in a tree, observing, block transfers and virtual hosts enabled, debug output disabled.
  DTLS and digest authentication are enabled by default, too; in this repository they are the scheme
  \<^verbatim>\<open>coaps\<close> with its port and stubs in \<^verbatim>\<open>smcp-auth.c\<close>, and those that are called are modelled.

  \<^item> \<open>Smcp_Prelude\<close>: integer types, byte arrays with checked access, lemmas on words.
  \<^item> \<open>Fasthash\<close> (\<^verbatim>\<open>fasthash.c\<close>): the hash; byte-wise feeding equals a block-wise reference, and
    a change of one block changes the hash.
  \<^item> \<open>Coap_Option\<close> (\<^verbatim>\<open>coap.c\<close>): options and the verifier; \<open>Coap_Layout\<close> gives the layout of option
    headers and runs of options, \<open>Coap_Insert\<close> shows that inserting an option is sorted insertion into
    the list of options, and \<open>Coap_Verify\<close> that the verifier accepts exactly the well-formed packets.
  \<^item> \<open>Coap_Codes\<close> (\<^verbatim>\<open>coap.c\<close>), \<open>Smcp_Status\<close> (\<^verbatim>\<open>smcp.c\<close>): codes, content types, option names and
    statuses with their tables, and round trips through them.
  \<^item> \<open>String_Utils\<close> (\<^verbatim>\<open>string-utils.c\<close>), \<open>Url_Encode\<close> and \<open>Url_Parse\<close> (\<^verbatim>\<open>url-helpers.c\<close>): printing of numbers,
    percent-encoding and tokenizers in place, parsing of URLs in place.
  \<^item> \<open>Url_Reference\<close> (\<^verbatim>\<open>url-helpers.c\<close>): references to URLs; \<^verbatim>\<open>url_change\<close> resolves them from a URL that
    ends with a slash, and what \<^verbatim>\<open>url_shorten_reference\<close> makes of a URL below such a one leads back to
    it. From other URLs the basename is not removed, against a comment in the code.
  \<^item> \<open>Dupe\<close> (\<^verbatim>\<open>smcp-dupe.c\<close>): the ring of seen messages, as an instance of the locale of filters with a
    sliding window.
  \<^item> \<open>Ll\<close> (\<^verbatim>\<open>ll.h\<close>), \<open>Timer\<close> (\<^verbatim>\<open>smcp-timer.c\<close>): doubly linked lists on a heap, refined to lists; the
    timers are a list sorted by firing date (the locale \<open>ll_order\<close>).
  \<^item> \<open>Btree\<close> (\<^verbatim>\<open>btree.c\<close>): binary trees on a heap, refined to trees; the locale \<open>bt_order\<close> gives the laws
    of a map for trees ordered by a key.
  \<^item> \<open>Smcp_State\<close> (\<^verbatim>\<open>smcp-internal.h\<close>, \<^verbatim>\<open>smcp-transaction.h\<close>): the state of an instance, the environment,
    and the message identifiers, which have the full period.
  \<^item> \<open>Inbound\<close> (\<^verbatim>\<open>smcp-inbound.c\<close>), \<open>Outbound\<close>, \<open>Outbound_Uri\<close> (\<^verbatim>\<open>smcp-outbound.c\<close>, \<^verbatim>\<open>smcp-auth.c\<close>),
    \<open>Transaction\<close>, \<open>Response\<close> (\<^verbatim>\<open>smcp-transaction.c\<close>), \<open>Instance\<close> (\<^verbatim>\<open>smcp.c\<close>, \<^verbatim>\<open>smcp-inbound.c\<close>,
    \<^verbatim>\<open>smcp-plat-bsd.c\<close>): the operations of an instance.
  \<^item> \<open>Outbound_Packet\<close>: the outbound buffer holds an abstract packet, and the operations that build
    and send it are operations on this packet; what is sent passes the verifier.
  \<^item> \<open>Inbound_Scan\<close>: reading a packet of this layout gives back its parts.
  \<^item> \<open>Default_Response\<close>: a message is answered at most once, and a confirmable request always.
  \<^item> \<open>Transaction_Order\<close>: the tree of transactions as a map from message identifiers, beginning and
    ending a transaction, the delays of retransmissions.
  \<^item> \<open>Missing\<close> (\<^verbatim>\<open>smcp-missing.c\<close>): replacements for string functions of the C library; \<^verbatim>\<open>strlcat\<close> stays
    within its buffer.
  \<^item> \<open>Node_Router\<close> (\<^verbatim>\<open>smcp-node-router.c\<close>): the tree of nodes, routing, paths. \<open>Node_Tree\<close>: the children of
    a node are a map from ASCII names (an interpretation of \<open>bt_order\<close>), what creation and deletion do to
    it, and the states a router can reach. \<open>Node_Path\<close>: the path that is written for a node leads back to
    it. \<open>Node_Routing\<close>: a request gets to the node its path leads to.
  \<^item> \<open>Node_List\<close> (\<^verbatim>\<open>smcp-list.c\<close>): the default handler of a node; it answers with the list of its children.
  \<^item> \<open>Variable_Node\<close> (\<^verbatim>\<open>smcp-variable_node.c\<close>): the handler of a node with variables, with the callback of
    the application as a parameter. \<open>Variable_Requests\<close>: requests read and write the variables.
  \<^item> \<open>Observable\<close> (\<^verbatim>\<open>smcp-observable.c\<close>): the table of observers and the lists in it; adding and removing
    observers, and where removing goes wrong; a request that is too long makes a cycle of a list.
  \<^item> \<open>Plugtest\<close> (\<^verbatim>\<open>src/plugtest/plugtest-server.c\<close>): the server of the interoperability tests, an application of
    the library. \<open>Plugtest_Blocks\<close>: a client gets its large resource block by block, and one request that
    stops the server.
  \<^item> \<open>Variable_Apps\<close> (\<^verbatim>\<open>src/smcpd/system-node.c\<close>, \<^verbatim>\<open>contiki-src\<close>): the callbacks of the variable nodes of the
    repository; the LEDs keep the contract of \<open>Variable_Requests\<close>. \<open>Examples\<close> (\<^verbatim>\<open>src/examples\<close>): the handlers of the examples, and which requests they answer.

  The theorem of this theory puts the two sides together: a message that one instance builds and
  sends is read back by another.

  \<^bold>\<open>Loops.\<close> Loops over a buffer are structural or have a measure, the bytes that are left; loops over
  pointers are partial functions, which are proved to return on every heap that holds a list or
  a tree. No fuel is used.

  \<^bold>\<open>Parameters.\<close> The handlers and callbacks of an application, the socket, the resolver, the port and
  the clock are fields of the record \<open>smcp_env\<close>; random numbers are a sequence in the state. The
  clock does not advance during a call. What a theorem needs of a handler is a hypothesis of it.

  \<^bold>\<open>Not modelled.\<close> Allocation failure (apart from the separate responses of the plugtest) and \<^verbatim>\<open>free\<close>; more than one instance in a process; printing
  (\<^verbatim>\<open>coap_dump_header\<close>); the creation of the socket, waiting and host lookup; the uIP platform; the
  bodies that the preprocessor disables; the stubs of \<^verbatim>\<open>smcp-auth.c\<close> that nothing calls; the proxy (glue to libcurl);
  \<^verbatim>\<open>smcpctl\<close>, the rest of \<^verbatim>\<open>smcpd\<close>, the main programs of the plugtest and the examples, and the superseded code:
  they read arguments, files and terminals and print, or are not built.
\<close>

section \<open>From one instance to another\<close>

text \<open>
  A client of the library that sends a message: it begins a packet, adds the options in any order,
  appends the content, sets the destination and sends.
\<close>

fun add_options :: "(nat \<times> u8 list) list \<Rightarrow> smcp_s \<Rightarrow> smcp_s option" where
  "add_options [] self = Some self"
| "add_options ((k, v) # opts) self = do {
     (_, self) \<leftarrow> smcp_outbound_add_option (word_of_nat k) v (word_of_nat (length v)) self;
     add_options opts self
   }"

definition send_message ::
    "smcp_env \<Rightarrow> u16 \<Rightarrow> u8 \<Rightarrow> (nat \<times> u8 list) list \<Rightarrow> u8 list \<Rightarrow> sockaddr \<Rightarrow> smcp_s \<Rightarrow> (smcp_status_t \<times> smcp_s) option" where
  "send_message env code tt opts content dest self = do {
     (_, self) \<leftarrow> smcp_outbound_begin code tt self;
     self \<leftarrow> add_options opts self;
     (_, self) \<leftarrow> smcp_outbound_append_content content (word_of_nat (length content)) self;
     let (_, self) = smcp_outbound_set_destaddr dest self;
     smcp_outbound_send env self
   }"

definition options_room :: "(nat \<times> u8 list) list \<Rightarrow> nat" where
  "options_room opts = (\<Sum>(k, v) \<leftarrow> opts. length v + 5)"

definition sort_options :: "(nat \<times> u8 list) list \<Rightarrow> (nat \<times> u8 list) list \<Rightarrow> (nat \<times> u8 list) list" where
  "sort_options opts os = fold (\<lambda>(k, v). insert_opt k v) opts os"

lemma add_options_holds:
  assumes "holds_packet self p" "p_content p = []" "current_transaction self = None" "\<forall>(k, v) \<in> set opts. k < 65536"
    and "length (packet_front p) + options_room opts + 4 \<le> 1032"
  shows "\<exists>self'. add_options opts self = Some self' \<and> current_transaction self' = None \<and> sent_packets self' = sent_packets self \<and>
    holds_packet self' (p\<lparr>p_options := sort_options opts (p_options p)\<rparr>)"
  using assms
proof (induction opts arbitrary: self p)
  case Nil
  then show ?case by (simp add: sort_options_def)
next
  case (Cons o1 opts)
  obtain k v where kv: "o1 = (k, v)" by (cases o1)
  let ?q = "p\<lparr>p_options := insert_opt k v (p_options p)\<rparr>"
  obtain s1 where s1: "smcp_outbound_add_option (word_of_nat k) v (word_of_nat (length v)) self = Some (SMCP_STATUS_OK, s1)"
      "holds_packet s1 ?q" "same_but_packet self s1"
    using add_option_holds [OF Cons.prems(1-3), of k v] Cons.prems(4,5) by (auto simp: kv options_room_def)
  have "length (packet_front ?q) \<le> length (packet_front p) + length v + 5"
    using encode_insert_length [of k v "p_options p"] by (simp add: packet_front_def packet_head_def)
  then have "length (packet_front ?q) + options_room opts + 4 \<le> 1032"
    using Cons.prems(5) by (simp add: kv options_room_def)
  moreover have "current_transaction s1 = None" "sent_packets s1 = sent_packets self"
    using s1(3) Cons.prems(3) by (auto simp: same_but_packet_def)
  ultimately show ?case
    using Cons.IH [OF s1(2)] s1(1) Cons.prems(2,4) by (simp add: kv sort_options_def)
qed

lemma sort_options_keys: "set (sort_options opts os) = set opts \<union> set os"
proof (induction opts arbitrary: os)
  case (Cons o1 opts)
  obtain k v where "o1 = (k, v)" by (cases o1)
  moreover have "set (insert_opt k v os) = insert (k, v) (set os)"
    unfolding insert_opt_def using takeWhile_dropWhile_id [of "\<lambda>x. fst x \<le> k" os]
    by (metis (no_types, lifting) Un_insert_right list.simps(15) set_append)
  ultimately show ?case using Cons by (simp add: sort_options_def)
qed (simp add: sort_options_def)

lemma sort_options_length:
  "length (encode_options 0 (sort_options opts os)) \<le> length (encode_options 0 os) + options_room opts"
proof (induction opts arbitrary: os)
  case (Cons o1 opts)
  obtain k v where kv: "o1 = (k, v)" by (cases o1)
  show ?case
    using Cons [of "insert_opt k v os"] encode_insert_length [of k v os] by (simp add: kv sort_options_def options_room_def)
qed (simp add: sort_options_def)

text \<open>The sending half.\<close>

lemma send_message_holds:
  fixes tt :: u8
  assumes "length (packet_bytes (outbound self)) = 1033" "current_transaction self = None"
    and "outbound_token code self = Some tok" "length tok \<le> 8" "take 2 dest \<noteq> [0, 0]"
    and "\<forall>(k, v) \<in> set opts. k < 65535" "4 + length tok + options_room opts + length content + 4 \<le> 1032"
  defines "p \<equiv> (begun_packet code tt tok self)\<lparr>p_options := sort_options opts [], p_content := content\<rparr>"
  shows "\<exists>st self'. send_message env code tt opts content dest self = Some (st, self') \<and>
    sent_packets self' = (packet_wire p, dest) # sent_packets self \<and> packet_ok p \<and> length (packet_wire p) \<le> 1240"
proof -
  let ?p0 = "begun_packet code tt tok self"
  obtain s1 where s1: "smcp_outbound_begin code tt self = Some (SMCP_STATUS_OK, s1)" "holds_packet s1 ?p0"
      "s1 = self\<lparr>outbound := outbound s1, force_current_outbound_code := False, is_responding := False\<rparr>"
    using outbound_begin_holds [OF assms(1,3,4), of tt] by blast
  have cur: "current_transaction s1 = None" "sent_packets s1 = sent_packets self"
    by (subst s1(3), simp add: assms(2))+
  have p0: "p_content ?p0 = []" "p_options ?p0 = []" "length (packet_front ?p0) = 4 + length tok"
    by (simp_all add: begun_packet_def packet_front_def packet_head_def)
  define p1 where "p1 = ?p0\<lparr>p_options := sort_options opts []\<rparr>"
  obtain s2 where s2: "add_options opts s1 = Some s2" "current_transaction s2 = None" "sent_packets s2 = sent_packets self"
      "holds_packet s2 p1"
    using add_options_holds [OF s1(2) p0(1) cur(1), of opts] assms(6,7) p0 cur(2) by (fastforce simp: p1_def)
  have "length (packet_front p1) \<le> 4 + length tok + options_room opts"
    using sort_options_length [of opts "[]"] by (simp add: p1_def begun_packet_def packet_front_def packet_head_def)
  then obtain out where s3: "smcp_outbound_append_content content (word_of_nat (length content)) s2 =
        Some (SMCP_STATUS_OK, s2\<lparr>outbound := out\<rparr>)" "holds_packet (s2\<lparr>outbound := out\<rparr>) p"
    using append_content_holds [OF s2(4,2), of content "[]"] assms(7) p0(1) by (auto simp: p1_def p_def)
  let ?s4 = "s2\<lparr>outbound := out\<lparr>out_saddr := dest\<rparr>\<rparr>"
  have h4: "holds_packet ?s4 p" using s3(2) by (simp add: holds_packet_def)
  from outbound_send_holds [OF this _ _ refl, of env] obtain st self'
    where s5: "smcp_outbound_send env ?s4 = Some (st, self')" "sent_packets self' = (packet_wire p, dest) # sent_packets self"
    using s2(2,3) assms(5) by auto
  have "send_message env code tt opts content dest self = Some (st, self')"
    using s1(1) s2(1,2) s3(1) s5(1) by (simp add: send_message_def smcp_outbound_set_destaddr_def Let_def)
  moreover have "packet_ok p" "length (packet_wire p) \<le> 1240"
    using h4 by (simp_all add: holds_packet_def packet_wire_def)
  ultimately show ?thesis using s5(2) by blast
qed

text \<open>
  C1: what one instance sends, another one receives. For any code other than 0, any type, any options
  with numbers below 65535 added in any order, and any content, if they fit into the packet, the
  message that is handed to the socket is accepted by a receiving instance in any state, which
  reads the same code, type, message identifier, token and content, and the same options, sorted
  by number and in the order of their addition where numbers are equal.
\<close>

theorem message_end_to_end:
  assumes "length (packet_bytes (outbound self)) = 1033" "current_transaction self = None" "tt < 4"
    and "outbound_token code self = Some tok" "length tok \<le> 8" "(ucast code :: u8) \<noteq> 0"
    and "\<forall>(k, v) \<in> set opts. k < 65535" "take 2 dest \<noteq> [0, 0]"
    and "4 + length tok + options_room opts + length content + 4 \<le> 1032"
  shows "\<exists>st self' bytes peer' p. send_message env code tt opts content dest self = Some (st, self') \<and>
    sent_packets self' = (bytes, dest) # sent_packets self \<and>
    smcp_inbound_start_packet (bytes @ z # zs) (word_of_nat (length bytes)) peer = Some (SMCP_STATUS_OK, peer') \<and>
    reads_packet peer' p \<and> p_code p = ucast code \<and> header_tt (p_first p) = tt \<and>
    p_msg_id p = next_tid (outbound self) \<and> p_token p = tok \<and>
    p_options p = sort_options opts [] \<and> p_content p = content"
proof -
  define p2 where "p2 = (begun_packet code tt tok self)\<lparr>p_options := sort_options opts [], p_content := content\<rparr>"
  obtain st self' where run: "send_message env code tt opts content dest self = Some (st, self')"
      "sent_packets self' = (packet_wire p2, dest) # sent_packets self" "packet_ok p2" "length (packet_wire p2) \<le> 1240"
    using send_message_holds [OF assms(1,2,4,5,8,7,9), of env tt] by (auto simp: p2_def)
  have p2: "p_code p2 = ucast code" "header_tt (p_first p2) = tt" "p_msg_id p2 = next_tid (outbound self)" "p_token p2 = tok"
      "p_options p2 = sort_options opts []" "p_content p2 = content"
    using assms(3) by (simp_all add: p2_def begun_packet_def COAP_VERSION_def)
  have "empty_ok p2" using assms(6) p2(1) by (simp add: empty_ok_def COAP_CODE_EMPTY_def)
  moreover have "plain_keys (p_options p2)" using assms(7) by (auto simp: p2(5) plain_keys_def sort_options_keys)
  ultimately obtain i where "smcp_inbound_start_packet (packet_wire p2 @ z # zs) (word_of_nat (length (packet_wire p2))) peer =
      Some (SMCP_STATUS_OK, peer\<lparr>inbound := i, is_processing_message := True, did_respond := False\<rparr>)"
      "inbound_holds (peer\<lparr>inbound := i, is_processing_message := True, did_respond := False\<rparr>) p2"
    using start_packet_holds [OF run(3) _ _ run(4), of z zs peer] by (auto simp: inbound_holds_def)
  then show ?thesis using inbound_holds_reads run(1,2) p2 by blast
qed

text \<open>A POST with two options, added in the wrong order, and one byte of content.\<close>

theorem message_end_to_end_witness:
  "\<exists>st self' bytes peer' p. send_message accepting_env 2 0 [(12, []), (11, [97])] [5] (replicate 28 1) zero_state = Some (st, self') \<and>
     sent_packets self' = [(bytes, replicate 28 1)] \<and>
     smcp_inbound_start_packet (bytes @ 0 # []) (word_of_nat (length bytes)) zero_state = Some (SMCP_STATUS_OK, peer') \<and>
     reads_packet peer' p \<and> p_options p = [(11, [97]), (12, [])] \<and> p_content p = [5]"
proof -
  have "outbound_token 2 zero_state = Some []" "current_transaction zero_state = None" "sent_packets zero_state = []"
    by (simp_all add: zero_smcp_def zero_inbound_def outbound_token_def)
  moreover have "sort_options [(12, []), (11, [97])] [] = [(11, [97]), (12, [])]"
    by (simp add: sort_options_def insert_opt_def)
  ultimately show ?thesis
    using message_end_to_end [of zero_state 0 2 "[]" "[(12, []), (11, [97])]" "replicate 28 1" "[5]" accepting_env 0 "[]" zero_state]
      zero_state_begin(1) sample_family
    by (auto simp: options_room_def)
qed

end
